(* ===== verification/FJ_Prelude.thy ===== *)
theory FJ_Prelude
  imports Main "HOL-Library.Word"
begin

text \<open>
  Prelude of the development: the C integer types of the code as casts on \<open>int\<close>
  (a signed or unsigned \<open>w\<close>-bit value is an \<open>int\<close> in its range; an assignment or a cast
  wraps modulo \<open>2 ^ w\<close>), the range predicates of these types, and the small facts on
  shifts, masks and lists that the component theories share.

  \<^item> \<open>s16\<close>, \<open>s32\<close>: the casts to the two's complement types \<open>Ipp16s\<close> / \<open>short\<close> / \<open>gint16\<close>
    and \<open>Ipp32s\<close> / \<open>int\<close> / \<open>gint\<close>;
  \<^item> \<open>u8\<close>, \<open>u16\<close>, \<open>u32\<close>: the casts to \<open>Ipp8u\<close>, \<open>Ipp16u\<close> / \<open>guint16\<close> and \<open>Ipp32u\<close> / \<open>guint32\<close>;
  \<^item> \<open>drop_bit n\<close> on \<open>int\<close> is the arithmetic right shift of all compilers the code is built
    with; \<open>shl32 x n\<close> is the left shift of a 32-bit value;
  \<^item> the collections \<open>cint\<close> (identities and ranges of the casts) and \<open>c_wrap\<close> (nested casts).
\<close>

unbundle bit_operations_syntax

named_theorems cint "identities and ranges of the C casts"
named_theorems c_wrap "nested casts collapse"

subsection \<open>Casts\<close>

definition s16 :: "int \<Rightarrow> int" where
  "s16 x = (x + 32768) mod 65536 - 32768"

definition s32 :: "int \<Rightarrow> int" where
  "s32 x = (x + 2147483648) mod 4294967296 - 2147483648"

definition u8 :: "int \<Rightarrow> int" where
  "u8 x = x mod 256"

definition u16 :: "int \<Rightarrow> int" where
  "u16 x = x mod 65536"

definition u32 :: "int \<Rightarrow> int" where
  "u32 x = x mod 4294967296"

definition shl32 :: "int \<Rightarrow> nat \<Rightarrow> int" where
  "shl32 x n = s32 (push_bit n x)"

abbreviation in16 :: "int \<Rightarrow> bool" where
  "in16 x \<equiv> - 32768 \<le> x \<and> x \<le> 32767"

abbreviation in32 :: "int \<Rightarrow> bool" where
  "in32 x \<equiv> - 2147483648 \<le> x \<and> x \<le> 2147483647"

abbreviation MAX_16S :: int where "MAX_16S \<equiv> 32767"
abbreviation MIN_16S :: int where "MIN_16S \<equiv> - 32768"
abbreviation MAX_32S :: int where "MAX_32S \<equiv> 2147483647"
abbreviation MIN_32S :: int where "MIN_32S \<equiv> - 2147483648"

subsection \<open>Ranges and identities of the casts\<close>

lemma s16_lower [simp, cint]: "- 32768 \<le> s16 x"
  by (simp add: s16_def)

lemma s16_upper [simp, cint]: "s16 x \<le> 32767"
proof -
  have "(x + 32768) mod 65536 < 65536" by simp
  then show ?thesis unfolding s16_def by linarith
qed

lemma s32_lower [simp, cint]: "- 2147483648 \<le> s32 x"
  by (simp add: s32_def)

lemma s32_upper [simp, cint]: "s32 x \<le> 2147483647"
proof -
  have "(x + 2147483648) mod 4294967296 < 4294967296" by simp
  then show ?thesis unfolding s32_def by linarith
qed

lemma u8_range [simp, cint]: "0 \<le> u8 x" "u8 x < 256" "u8 x \<le> 255"
proof -
  show "0 \<le> u8 x" by (simp add: u8_def)
  show *: "u8 x < 256" by (simp add: u8_def)
  from * show "u8 x \<le> 255" by linarith
qed

lemma u16_range [simp, cint]: "0 \<le> u16 x" "u16 x < 65536"
  by (simp_all add: u16_def)

lemma u32_range [simp, cint]: "0 \<le> u32 x" "u32 x < 4294967296"
  by (simp_all add: u32_def)

lemma s16_id: "in16 x \<Longrightarrow> s16 x = x"
  by (simp add: s16_def)

lemma s32_id: "in32 x \<Longrightarrow> s32 x = x"
  by (simp add: s32_def)

lemma u8_id: "0 \<le> x \<Longrightarrow> x < 256 \<Longrightarrow> u8 x = x"
  by (simp add: u8_def)

lemma u16_id: "0 \<le> x \<Longrightarrow> x < 65536 \<Longrightarrow> u16 x = x"
  by (simp add: u16_def)

lemma s16_fixed_iff: "s16 x = x \<longleftrightarrow> in16 x"
  by (metis s16_id s16_lower s16_upper)

lemma s32_fixed_iff: "s32 x = x \<longleftrightarrow> in32 x"
  by (metis s32_id s32_lower s32_upper)

lemma s16_idem [simp, c_wrap]: "s16 (s16 x) = s16 x"
  by (simp add: s16_fixed_iff)

lemma s32_idem [simp, c_wrap]: "s32 (s32 x) = s32 x"
  by (simp add: s32_fixed_iff)

lemma s32_s16 [simp, c_wrap]: "s32 (s16 x) = s16 x"
  by (rule s32_id) (auto intro: order_trans [OF _ s16_lower] order_trans [OF s16_upper])

text \<open>The casts depend on the value modulo \<open>2 ^ w\<close> only.\<close>

lemma s16_cong: "x mod 65536 = y mod 65536 \<Longrightarrow> s16 x = s16 y"
  unfolding s16_def by (metis mod_add_left_eq)

lemma s32_cong: "x mod 4294967296 = y mod 4294967296 \<Longrightarrow> s32 x = s32 y"
  unfolding s32_def by (metis mod_add_left_eq)

lemma s16_mod: "s16 x mod 65536 = x mod 65536"
  unfolding s16_def by (simp add: mod_diff_left_eq)

lemma s32_mod: "s32 x mod 4294967296 = x mod 4294967296"
  unfolding s32_def by (simp add: mod_diff_left_eq)

lemma s16_s32 [simp, c_wrap]: "s16 (s32 x) = s16 x"
proof (rule s16_cong)
  have "s32 x mod 4294967296 mod 65536 = x mod 4294967296 mod 65536"
    by (simp only: s32_mod)
  then show "s32 x mod 65536 = x mod 65536"
    by (simp add: mod_mod_cancel)
qed

lemma s16_add_s16 [c_wrap]: "s16 (s16 x + y) = s16 (x + y)"
  by (rule s16_cong) (metis mod_add_left_eq s16_mod)

lemma s32_add_s32 [c_wrap]: "s32 (s32 x + y) = s32 (x + y)"
  by (rule s32_cong) (metis mod_add_left_eq s32_mod)

lemma s16_add_s16_right [c_wrap]: "s16 (x + s16 y) = s16 (x + y)"
  using s16_add_s16 [of y x] by (simp add: add.commute)

lemma s32_add_s32_right [c_wrap]: "s32 (x + s32 y) = s32 (x + y)"
  using s32_add_s32 [of y x] by (simp add: add.commute)

lemma s16_diff_s16 [c_wrap]: "s16 (s16 x - y) = s16 (x - y)"
  using s16_add_s16 [of x "- y"] by simp

lemma s32_diff_s32 [c_wrap]: "s32 (s32 x - y) = s32 (x - y)"
  using s32_add_s32 [of x "- y"] by simp

lemma s16_minus_s16 [c_wrap]: "s16 (x - s16 y) = s16 (x - y)"
  by (rule s16_cong) (metis mod_diff_right_eq s16_mod)

lemma s32_minus_s32 [c_wrap]: "s32 (x - s32 y) = s32 (x - y)"
  by (rule s32_cong) (metis mod_diff_right_eq s32_mod)

lemma int_div_less_iff: "0 < q \<Longrightarrow> a div q < b \<longleftrightarrow> a < b * (q::int)"
proof
  assume q: "0 < q" and "a div q < b"
  then have "(a div q + 1) * q \<le> b * q" by (intro mult_right_mono) simp_all
  moreover have "a < (a div q + 1) * q"
    unfolding distrib_right mult_1 using q pos_mod_bound [of q a] div_mult_mod_eq [of a q] by linarith
  ultimately show "a < b * q" by linarith
next
  assume q: "0 < q" and "a < b * q"
  moreover have "a div q * q \<le> a" using q pos_mod_sign [of q a] div_mult_mod_eq [of a q] by linarith
  ultimately have "a div q * q < b * q" by linarith
  with q show "a div q < b" by simp
qed

lemma int_le_div_iff: "0 < q \<Longrightarrow> b \<le> a div q \<longleftrightarrow> b * (q::int) \<le> a"
  using int_div_less_iff [of q a b] by linarith

lemma in16_div: "in16 a \<Longrightarrow> 0 < q \<Longrightarrow> in16 (a div (q::int))"
  using int_div_less_iff [of q a 32768] int_le_div_iff [of q "- 32768" a] by linarith

subsection \<open>Shifts and masks on \<open>int\<close>\<close>

lemma drop_bit_mono: "x \<le> y \<Longrightarrow> drop_bit n (x::int) \<le> drop_bit n y"
  by (simp add: drop_bit_eq_div zdiv_mono1)

lemma and_mask16 [simp]: "(x::int) AND 65535 = x mod 65536"
  using take_bit_eq_mask [of 16 x] by (simp add: mask_eq_exp_minus_1 take_bit_eq_mod)

lemma and_7fff: "(x::int) AND 32767 = x mod 32768"
  using take_bit_eq_mask [of 15 x] by (simp add: mask_eq_exp_minus_1 take_bit_eq_mod)

lemma and_3: "(x::int) AND 3 = x mod 4"
  using take_bit_eq_mask [of 2 x] by (simp add: mask_eq_exp_minus_1 take_bit_eq_mod)

lemma and_7: "(x::int) AND 7 = x mod 8"
  using take_bit_eq_mask [of 3 x] by (simp add: mask_eq_exp_minus_1 take_bit_eq_mod)

lemma and_15: "(x::int) AND 15 = x mod 16"
  using take_bit_eq_mask [of 4 x] by (simp add: mask_eq_exp_minus_1 take_bit_eq_mod)

lemma and_63: "(x::int) AND 63 = x mod 64"
  using take_bit_eq_mask [of 6 x] by (simp add: mask_eq_exp_minus_1 take_bit_eq_mod)

lemma and_1fff: "(x::int) AND 8191 = x mod 8192"
  using take_bit_eq_mask [of 13 x] by (simp add: mask_eq_exp_minus_1 take_bit_eq_mod)

lemmas c_masks = and_7fff and_3 and_7 and_15 and_63 and_1fff and_one_eq

subsection \<open>Lists and tables\<close>

text \<open>A check of every entry of a table, in a form the simplifier evaluates.\<close>

lemma table_all:
  "list_all (\<lambda>i. P i (xs ! i)) [0..<n] \<Longrightarrow> i < n \<Longrightarrow> P i (xs ! i)"
  by (simp add: list_all_iff)

lemma table_bounds:
  "list_all (\<lambda>x. lo \<le> x \<and> x \<le> hi) xs \<Longrightarrow> i < length xs \<Longrightarrow> lo \<le> xs ! i \<and> xs ! i \<le> (hi::int)"
  by (simp add: list_all_length)

subsection \<open>Buffers\<close>

text \<open>\<open>memcpy(dst + at, src, length src)\<close> within a buffer.\<close>

definition mem_write :: "'a list \<Rightarrow> nat \<Rightarrow> 'a list \<Rightarrow> 'a list" where
  "mem_write dst at src = take at dst @ src @ drop (at + length src) dst"

lemma length_mem_write [simp]:
  "at + length src \<le> length dst \<Longrightarrow> length (mem_write dst at src) = length dst"
  by (simp add: mem_write_def)

lemma take_mem_write: 
  "at \<le> length dst \<Longrightarrow> take (at + length src) (mem_write dst at src) = take at dst @ src"
  by (simp add: mem_write_def)

lemma mem_write_full: 
  "at + length src = length dst \<Longrightarrow> mem_write dst at src = take at dst @ src"
  by (simp add: mem_write_def)

lemma mem_write_at:
  "length a = at \<Longrightarrow> mem_write (a @ c) at src = a @ src @ drop (length src) c"
  by (simp add: mem_write_def)

end
