(* ===== verification/IppArith.thy ===== *)
theory IppArith
  imports FJ_Prelude
begin

text \<open>
  The fixed-point arithmetic of the G.729 codec: the inline functions of
  \<open>g729_IPP/src/recorder/ipp_base/aux_fnxs.h\<close> (saturating addition and negation, 32 by 16
  multiplication, shifts with saturation, exponent by table lookup, normalisation loops, integer
  square root, random generators) and the two tables of \<open>aux_tbls.c\<close>.
  An \<open>Ipp16s\<close>, \<open>Ipp32s\<close> is an \<open>int\<close> in range; every cast of the source is a cast here.
  The lemmas give for each operation its range and its value on every branch, the
  agreement of the table lookup with the loop that it replaces, and the square root bound.
\<close>

subsection \<open>Tables (aux_tbls.c)\<close>

definition ExpPosNormTbl :: "int list" where
  "ExpPosNormTbl =
    [7, 6, 5, 5, 4, 4, 4, 4, 3, 3, 3, 3, 3, 3, 3, 3,
     2, 2, 2, 2, 2, 2, 2, 2, 2, 2, 2, 2, 2, 2, 2, 2,
     1, 1, 1, 1, 1, 1, 1, 1, 1, 1, 1, 1, 1, 1, 1, 1,
     1, 1, 1, 1, 1, 1, 1, 1, 1, 1, 1, 1, 1, 1, 1, 1,
     0, 0, 0, 0, 0, 0, 0, 0, 0, 0, 0, 0, 0, 0, 0, 0,
     0, 0, 0, 0, 0, 0, 0, 0, 0, 0, 0, 0, 0, 0, 0, 0,
     0, 0, 0, 0, 0, 0, 0, 0, 0, 0, 0, 0, 0, 0, 0, 0,
     0, 0, 0, 0, 0, 0, 0, 0, 0, 0, 0, 0, 0, 0, 0, 0,
     - 1, - 1, - 1, - 1, - 1, - 1, - 1, - 1, - 1, - 1, - 1, - 1, - 1, - 1, - 1, - 1,
     - 1, - 1, - 1, - 1, - 1, - 1, - 1, - 1, - 1, - 1, - 1, - 1, - 1, - 1, - 1, - 1,
     - 1, - 1, - 1, - 1, - 1, - 1, - 1, - 1, - 1, - 1, - 1, - 1, - 1, - 1, - 1, - 1,
     - 1, - 1, - 1, - 1, - 1, - 1, - 1, - 1, - 1, - 1, - 1, - 1, - 1, - 1, - 1, - 1,
     - 1, - 1, - 1, - 1, - 1, - 1, - 1, - 1, - 1, - 1, - 1, - 1, - 1, - 1, - 1, - 1,
     - 1, - 1, - 1, - 1, - 1, - 1, - 1, - 1, - 1, - 1, - 1, - 1, - 1, - 1, - 1, - 1,
     - 1, - 1, - 1, - 1, - 1, - 1, - 1, - 1, - 1, - 1, - 1, - 1, - 1, - 1, - 1, - 1,
     - 1, - 1, - 1, - 1, - 1, - 1, - 1, - 1, - 1, - 1, - 1, - 1, - 1, - 1, - 1, - 1]"

definition ExpPosNormTbl2 :: "int list" where
  "ExpPosNormTbl2 =
    [15, 14, 13, 13, 12, 12, 12, 12, 11, 11, 11, 11, 11, 11, 11, 11,
     10, 10, 10, 10, 10, 10, 10, 10, 10, 10, 10, 10, 10, 10, 10, 10,
     9, 9, 9, 9, 9, 9, 9, 9, 9, 9, 9, 9, 9, 9, 9, 9,
     9, 9, 9, 9, 9, 9, 9, 9, 9, 9, 9, 9, 9, 9, 9, 9,
     8, 8, 8, 8, 8, 8, 8, 8, 8, 8, 8, 8, 8, 8, 8, 8,
     8, 8, 8, 8, 8, 8, 8, 8, 8, 8, 8, 8, 8, 8, 8, 8,
     8, 8, 8, 8, 8, 8, 8, 8, 8, 8, 8, 8, 8, 8, 8, 8,
     8, 8, 8, 8, 8, 8, 8, 8, 8, 8, 8, 8, 8, 8, 8, 8,
     7, 7, 7, 7, 7, 7, 7, 7, 7, 7, 7, 7, 7, 7, 7, 7,
     7, 7, 7, 7, 7, 7, 7, 7, 7, 7, 7, 7, 7, 7, 7, 7,
     7, 7, 7, 7, 7, 7, 7, 7, 7, 7, 7, 7, 7, 7, 7, 7,
     7, 7, 7, 7, 7, 7, 7, 7, 7, 7, 7, 7, 7, 7, 7, 7,
     7, 7, 7, 7, 7, 7, 7, 7, 7, 7, 7, 7, 7, 7, 7, 7,
     7, 7, 7, 7, 7, 7, 7, 7, 7, 7, 7, 7, 7, 7, 7, 7,
     7, 7, 7, 7, 7, 7, 7, 7, 7, 7, 7, 7, 7, 7, 7, 7,
     7, 7, 7, 7, 7, 7, 7, 7, 7, 7, 7, 7, 7, 7, 7, 7]"

subsection \<open>Random generators\<close>

text \<open>Both generators store the new seed and return it.\<close>

definition Rand_16s :: "int \<Rightarrow> int" where
  "Rand_16s seed = s16 (seed * 31821 + 13849)"

definition Rand2_16s :: "int \<Rightarrow> int" where
  "Rand2_16s seed = s16 (seed * 521 + 259)"

definition NormRand_16s :: "int \<Rightarrow> int \<Rightarrow> int \<times> int" where
  "NormRand_16s N seed =
     (let seed' = Rand2_16s seed;
          sTmp = s16 (seed' AND 0x7FFF)
      in (s16 (drop_bit 15 (sTmp * N)), seed'))"

subsection \<open>Saturating operations\<close>

definition Abs_16s :: "int \<Rightarrow> int" where
  "Abs_16s x = (if x < 0 then (if x = MIN_16S then MAX_16S else s16 (- x)) else x)"

definition Abs_32s :: "int \<Rightarrow> int" where
  "Abs_32s x = (if x < 0 then (if x = MIN_32S then MAX_32S else s32 (- x)) else x)"

definition Add_32s :: "int \<Rightarrow> int \<Rightarrow> int" where
  "Add_32s x y =
     (let z = x + y in if MAX_32S < z then MAX_32S else if z < MIN_32S then MIN_32S else s32 z)"

definition Cnvrt_32s16s :: "int \<Rightarrow> int" where
  "Cnvrt_32s16s x = (if MAX_16S < x then MAX_16S else if x < MIN_16S then MIN_16S else s16 x)"

definition Cnvrt_NR_32s16s :: "int \<Rightarrow> int" where
  "Cnvrt_NR_32s16s x =
     (if x < 0x7fff8000 then s16 (drop_bit 16 (s32 (x + 0x8000))) else MAX_16S)"

definition Cnvrt_64s32s :: "int \<Rightarrow> int" where
  "Cnvrt_64s32s z = (if MAX_32S < z then MAX_32S else if z < MIN_32S then MIN_32S else s32 z)"

definition MulHR_16s :: "int \<Rightarrow> int \<Rightarrow> int" where
  "MulHR_16s x y = s16 (drop_bit 15 (s32 (x * y + 0x4000)))"

definition Negate_16s :: "int \<Rightarrow> int" where
  "Negate_16s x = (if x = MIN_16S then MAX_16S else s16 (- x))"

definition Negate_32s :: "int \<Rightarrow> int" where
  "Negate_32s x = (if x = MIN_32S then MAX_32S else s32 (- x))"

text \<open>The halves \<open>IPP_MIN_16S/2\<close> and \<open>IPP_MIN_32S/2\<close> are exact, so C's truncating division agrees.\<close>

definition Mul2_16s :: "int \<Rightarrow> int" where
  "Mul2_16s x =
     (if MAX_16S div 2 < x then MAX_16S
      else if x < MIN_16S div 2 then MIN_16S
      else s16 (shl32 x 1))"

definition Mul2_32s :: "int \<Rightarrow> int" where
  "Mul2_32s x =
     (if MAX_32S div 2 < x then MAX_32S
      else if x < MIN_32S div 2 then MIN_32S
      else shl32 x 1)"

definition Mul16_32s :: "int \<Rightarrow> int" where
  "Mul16_32s x =
     (if 0x07ffffff < x then MAX_32S
      else if x < s32 0xf8000000 then MIN_32S
      else shl32 x 4)"

definition Add_16s :: "int \<Rightarrow> int \<Rightarrow> int" where
  "Add_16s x y = Cnvrt_32s16s (x + y)"

definition Sub_16s :: "int \<Rightarrow> int \<Rightarrow> int" where
  "Sub_16s x y = Cnvrt_32s16s (x - y)"

definition Sub_32s :: "int \<Rightarrow> int \<Rightarrow> int" where
  "Sub_32s x y = Cnvrt_64s32s (x - y)"

subsection \<open>Multiplication of 32-bit by 16-bit values\<close>

definition MulC_32s :: "int \<Rightarrow> int \<Rightarrow> int" where
  "MulC_32s val x =
     (let xh = drop_bit 16 x;
          xl = x AND 0xffff;
          z = s32 (2 * val * xh)
      in Add_32s z (drop_bit 15 (s32 (xl * val))))"

definition ExtractHigh :: "int \<Rightarrow> int" where
  "ExtractHigh x = s16 (drop_bit 16 x)"

definition Unpack_32s :: "int \<Rightarrow> int \<times> int" where
  "Unpack_32s number = (s16 (drop_bit 16 number), s16 (drop_bit 1 number AND 0x7fff))"

definition Pack_16s32s :: "int \<Rightarrow> int \<Rightarrow> int" where
  "Pack_16s32s hi lo = s32 (shl32 hi 16 + shl32 lo 1)"

definition Mpy_32_16 :: "int \<Rightarrow> int \<Rightarrow> int \<Rightarrow> int" where
  "Mpy_32_16 hi lo n = s32 (2 * (hi * n) + 2 * drop_bit 15 (lo * n))"

text \<open>The scale factors passed by the code are constants below 32.\<close>

definition Mul_16s_Sfs :: "int \<Rightarrow> int \<Rightarrow> nat \<Rightarrow> int" where
  "Mul_16s_Sfs x y scaleFactor = s16 (drop_bit scaleFactor (x * y))"

definition Mul_32s :: "int \<Rightarrow> int \<Rightarrow> int" where
  "Mul_32s x y =
     (let xh = s16 (drop_bit 15 x);
          yh = s16 (drop_bit 15 y);
          xl = s16 (x AND 0x7fff);
          yl = s16 (y AND 0x7fff);
          z1 = Mul_16s_Sfs xh yl 15;
          z2 = Mul_16s_Sfs xl yh 15;
          z = s32 (xh * yh + z1 + z2)
      in shl32 z 1)"

subsection \<open>Shifts\<close>

definition ShiftL_32s :: "int \<Rightarrow> nat \<Rightarrow> int" where
  "ShiftL_32s x n =
     (if drop_bit n MAX_32S < x then MAX_32S
      else if x < drop_bit n MIN_32S then MIN_32S
      else shl32 x n)"

definition ShiftL_16s :: "int \<Rightarrow> nat \<Rightarrow> int" where
  "ShiftL_16s n x =
     (if s16 (drop_bit x MAX_16S) < n then MAX_16S
      else if n < s16 (drop_bit x MIN_16S) then MIN_16S
      else s16 (shl32 n x))"

text \<open>
  \<open>1<<(n-1)\<close> with \<open>n = 0\<close> shifts by \<open>-1\<close>, which C leaves undefined; the ia32 shift instructions
  that the code is built for take the count modulo 32, so the term is \<open>1<<31\<close>.
\<close>

definition shift_count :: "int \<Rightarrow> nat" where
  "shift_count n = nat (n mod 32)"

definition ShiftR_NR_16s :: "int \<Rightarrow> int \<Rightarrow> int" where
  "ShiftR_NR_16s x n =
     s16 (drop_bit (shift_count n) (s32 (x + shl32 1 (shift_count (n - 1)))))"

subsection \<open>Exponents by table lookup\<close>

definition Exp_16s_Pos :: "int \<Rightarrow> int" where
  "Exp_16s_Pos x =
     (if drop_bit 8 x = 0 then ExpPosNormTbl2 ! nat x else ExpPosNormTbl ! nat (drop_bit 8 x))"

definition Exp_16s :: "int \<Rightarrow> int" where
  "Exp_16s x =
     (if x = - 1 then 15 else if x = 0 then 0
      else Exp_16s_Pos (u16 (if x < 0 then s16 (NOT x) else x)))"

definition Exp_32s_Pos :: "int \<Rightarrow> int" where
  "Exp_32s_Pos x =
     (if x = 0 then 0
      else if drop_bit 16 x = 0 then s16 (16 + Exp_16s_Pos (u16 x))
      else Exp_16s_Pos (u16 (drop_bit 16 x)))"

definition Exp_32s :: "int \<Rightarrow> int" where
  "Exp_32s x =
     (if x = 0 then 0 else if x = - 1 then 31
      else Exp_32s_Pos (u32 (if x < 0 then NOT x else x)))"

definition Norm_32s :: "int \<Rightarrow> int" where
  "Norm_32s x =
     (if x = 0 then 0 else if x = - 1 then 31
      else s32 (Exp_32s_Pos (u32 (if x < 0 then NOT x else x))))"

definition Exp_64s_Pos :: "int \<Rightarrow> int" where
  "Exp_64s_Pos x =
     (if x = 0 then 0
      else if drop_bit 32 x = 0 then s32 (32 + Exp_32s_Pos (u32 x))
      else s32 (Exp_32s_Pos (u32 (drop_bit 32 x))))"

definition Norm_64s :: "int \<Rightarrow> int" where
  "Norm_64s x =
     (if x = 0 then 0 else if x = - 1 then 63
      else s32 (Exp_64s_Pos (if x < 0 then NOT x else x)))"

subsection \<open>Normalisation loops\<close>

text \<open>
  \<open>Norm_32s_I\<close> shifts its argument left until bit 30 differs from the sign; it returns the
  count and stores the shifted value. The loops are entered with \<open>0 < x\<close> and \<open>x < 0\<close>
  respectively; \<open>None\<close> is a loop that has not stopped after \<open>fuel\<close> rounds.
\<close>

fun norm_pos_loop :: "nat \<Rightarrow> int \<Rightarrow> int \<Rightarrow> (int \<times> int) option" where
  "norm_pos_loop 0 i x = None"
| "norm_pos_loop (Suc fuel) i x =
     (if x < 0x40000000 then norm_pos_loop fuel (s16 (i + 1)) (shl32 x 1) else Some (i, x))"

fun norm_neg_loop :: "nat \<Rightarrow> int \<Rightarrow> int \<Rightarrow> (int \<times> int) option" where
  "norm_neg_loop 0 i x = None"
| "norm_neg_loop (Suc fuel) i x =
     (if s32 0xC0000000 \<le> x then norm_neg_loop fuel (s16 (i + 1)) (shl32 x 1) else Some (i, x))"

definition norm_fuel :: nat where "norm_fuel = 33"

definition Norm_32s_I :: "int \<Rightarrow> (int \<times> int) option" where
  "Norm_32s_I x =
     (if x = 0 then Some (0, x)
      else if x < 0 then norm_neg_loop norm_fuel 0 x
      else norm_pos_loop norm_fuel 0 x)"

definition Norm_32s_Pos_I :: "int \<Rightarrow> (int \<times> int) option" where
  "Norm_32s_Pos_I x = (if x = 0 then Some (0, x) else norm_pos_loop norm_fuel 0 x)"

subsection \<open>Integer square root\<close>

fun sqrt_loop :: "nat \<Rightarrow> int \<Rightarrow> int \<Rightarrow> int \<Rightarrow> int" where
  "sqrt_loop 0 n x y = x"
| "sqrt_loop (Suc k) n x y =
     (let z = s32 ((x + y) * (x + y))
      in sqrt_loop k n (if z \<le> n then s16 (x + y) else x) (s16 (drop_bit 1 y)))"

definition ownSqrt_32s :: "int \<Rightarrow> int" where
  "ownSqrt_32s n = sqrt_loop 14 n 0 0x4000"

subsection \<open>The exponent tables\<close>

lemma ExpPosNormTbl2_check:
  "list_all (\<lambda>i. 7 \<le> ExpPosNormTbl2 ! i \<and> ExpPosNormTbl2 ! i \<le> 14
      \<and> 16384 \<le> int i * 2 ^ nat (ExpPosNormTbl2 ! i)
      \<and> (int i + 1) * 2 ^ nat (ExpPosNormTbl2 ! i) \<le> 32768) [1..<256]"
  by code_simp

lemma ExpPosNormTbl_check:
  "list_all (\<lambda>i. 0 \<le> ExpPosNormTbl ! i \<and> ExpPosNormTbl ! i \<le> 6
      \<and> 64 \<le> int i * 2 ^ nat (ExpPosNormTbl ! i)
      \<and> (int i + 1) * 2 ^ nat (ExpPosNormTbl ! i) \<le> 128) [1..<128]"
  by code_simp

lemma ExpPosNormTbl_top_check: "list_all (\<lambda>i. ExpPosNormTbl ! i = - 1) [128..<256]"
  by code_simp

lemma Exp_16s_Pos_spec:
  assumes "0 < x" "x < 32768"
  defines "e \<equiv> Exp_16s_Pos x"
  shows "0 \<le> e \<and> e \<le> 14 \<and> 16384 \<le> x * 2 ^ nat e \<and> x * 2 ^ nat e < 32768"
proof (cases "x < 256")
  case True
  then have "x div 256 = 0" using assms by simp
  then have e: "e = ExpPosNormTbl2 ! nat x"
    by (simp add: e_def Exp_16s_Pos_def drop_bit_eq_div)
  have "nat x \<in> set [1..<256]" using True assms by auto
  then have "7 \<le> e \<and> e \<le> 14 \<and> 16384 \<le> int (nat x) * 2 ^ nat e \<and> (int (nat x) + 1) * 2 ^ nat e \<le> 32768"
    using ExpPosNormTbl2_check unfolding list_all_iff e by blast
  moreover have "x * 2 ^ nat e < (x + 1) * 2 ^ nat e" by simp
  moreover have "int (nat x) = x" using assms(1) by simp
  ultimately show ?thesis by (metis order.strict_trans2 order_trans zero_le_numeral)
next
  case False
  define h where "h = x div 256"
  have h: "1 \<le> h" "h < 128" using False assms by (simp_all add: h_def)
  have e: "e = ExpPosNormTbl ! nat h"
    using h by (simp add: e_def Exp_16s_Pos_def drop_bit_eq_div h_def)
  have "nat h \<in> set [1..<128]" using h by auto
  then have *: "0 \<le> e \<and> e \<le> 6 \<and> 64 \<le> int (nat h) * 2 ^ nat e \<and> (int (nat h) + 1) * 2 ^ nat e \<le> 128"
    using ExpPosNormTbl_check unfolding list_all_iff e by blast
  have hx: "256 * h \<le> x" "x < 256 * (h + 1)"
    unfolding h_def by presburger+
  let ?p = "2 ^ nat e :: int"
  have "64 \<le> h * ?p" "(h + 1) * ?p \<le> 128" using * h by simp_all
  moreover have "256 * h * ?p \<le> x * ?p" using hx(1) by (intro mult_right_mono) simp_all
  moreover have "x * ?p < 256 * (h + 1) * ?p" using hx(2) by (intro mult_strict_right_mono) simp_all
  ultimately have "16384 \<le> x * ?p \<and> x * ?p < 32768" unfolding mult.assoc by linarith
  with * show ?thesis by linarith
qed

lemma Exp_32s_Pos_spec:
  assumes "0 < x" "x < 2147483648"
  defines "e \<equiv> Exp_32s_Pos x"
  shows "0 \<le> e \<and> e \<le> 30 \<and> 1073741824 \<le> x * 2 ^ nat e \<and> x * 2 ^ nat e < 2147483648"
proof (cases "x < 65536")
  case True
  define e' where "e' = Exp_16s_Pos x"
  have ex: "e = s16 (16 + e')"
    using True assms by (simp add: e_def e'_def Exp_32s_Pos_def drop_bit_eq_div u16_id)
  show ?thesis
  proof (cases "x < 32768")
    case True
    from Exp_16s_Pos_spec [OF assms(1) this]
    have *: "0 \<le> e'" "e' \<le> 14" "16384 \<le> x * 2 ^ nat e'" "x * 2 ^ nat e' < 32768"
      by (simp_all add: e'_def)
    then have e: "e = 16 + e'" by (simp add: ex s16_id)
    with * show ?thesis by (simp add: nat_add_distrib power_add)
  next
    case False
    define h where "h = nat (x div 256)"
    have "128 \<le> x div 256" "x div 256 < 256" using False True by simp_all
    then have "h \<in> set [128..<256]" unfolding h_def set_upt atLeastLessThan_iff by linarith
    then have "ExpPosNormTbl ! h = - 1" using ExpPosNormTbl_top_check unfolding list_all_iff by blast
    moreover have "x div 256 \<noteq> 0" using False by simp
    ultimately have "e' = - 1"
      by (simp add: e'_def Exp_16s_Pos_def drop_bit_eq_div h_def)
    then have "e = 15" by (simp add: ex s16_id)
    with False True show ?thesis by simp
  qed
next
  case False
  define h where "h = x div 65536"
  have h: "0 < h" "h < 32768" using False assms by (simp_all add: h_def)
  have e: "e = Exp_16s_Pos h"
    using h assms(1) by (simp add: e_def Exp_32s_Pos_def drop_bit_eq_div h_def u16_id)
  from Exp_16s_Pos_spec [OF h]
  have *: "0 \<le> e \<and> e \<le> 14 \<and> 16384 \<le> h * 2 ^ nat e \<and> h * 2 ^ nat e < 32768"
    by (simp add: e)
  let ?p = "2 ^ nat e :: int"
  have p: "h * ?p + ?p \<le> 32768"
  proof -
    have "?p dvd 32768"
    proof -
      have "nat e \<le> 15" using * by linarith
      then have "?p dvd 2 ^ 15" by (rule le_imp_power_dvd)
      then show ?thesis by simp
    qed
    then obtain q where q: "32768 = ?p * q" by (elim dvdE)
    have pp: "0 < ?p" by simp
    have "h * ?p < q * ?p" using * by (simp only: q [symmetric] mult.commute [of q])
    then have "h < q" using pp by (simp add: mult_less_cancel_right)
    then have "(h + 1) * ?p \<le> q * ?p" by (intro mult_right_mono) simp_all
    then show ?thesis by (simp only: q mult.commute [of q]) (simp add: distrib_right)
  qed
  have hx: "65536 * h \<le> x" "x < 65536 * (h + 1)"
    unfolding h_def by presburger+
  have "1073741824 \<le> 65536 * (h * ?p)" using * by simp
  also have "\<dots> \<le> x * ?p" using hx(1) by (simp flip: mult.assoc add: mult_right_mono)
  finally have lo: "1073741824 \<le> x * ?p" .
  have "x * ?p < 65536 * (h + 1) * ?p" using hx(2) by (intro mult_strict_right_mono) simp_all
  also have "\<dots> = 65536 * (h * ?p + ?p)" by (simp only: mult.assoc distrib_right mult_1)
  also have "\<dots> \<le> 2147483648" using p by simp
  finally have "x * ?p < 2147483648" .
  with lo * show ?thesis by linarith
qed

lemma not_int: "NOT (x::int) = - x - 1"
  by (simp add: not_int_def)

text \<open>The exponent is the number of redundant sign bits: shifting by it normalises.\<close>

lemma Exp_32s_pos:
  assumes "0 < x" "in32 x"
  shows "0 \<le> Exp_32s x" "Exp_32s x \<le> 30" "1073741824 \<le> x * 2 ^ nat (Exp_32s x)"
    "x * 2 ^ nat (Exp_32s x) < 2147483648"
proof -
  have "Exp_32s x = Exp_32s_Pos x" using assms by (simp add: Exp_32s_def u32_def)
  with Exp_32s_Pos_spec [of x] assms
  show "0 \<le> Exp_32s x" "Exp_32s x \<le> 30" "1073741824 \<le> x * 2 ^ nat (Exp_32s x)"
    "x * 2 ^ nat (Exp_32s x) < 2147483648"
    by simp_all
qed

lemma Exp_32s_neg:
  assumes "x < 0" "in32 x"
  shows "0 \<le> Exp_32s x" "Exp_32s x \<le> 31" "- 2147483648 \<le> x * 2 ^ nat (Exp_32s x)"
    "x * 2 ^ nat (Exp_32s x) < - 1073741824"
proof -
  have "0 \<le> Exp_32s x \<and> Exp_32s x \<le> 31 \<and> - 2147483648 \<le> x * 2 ^ nat (Exp_32s x)
    \<and> x * 2 ^ nat (Exp_32s x) < - 1073741824"
  proof (cases "x = - 1")
    case True
    then show ?thesis by (simp add: Exp_32s_def)
  next
    case False
    define y where "y = NOT x"
    have y: "0 < y" "y < 2147483648" "x = - y - 1" using assms False by (auto simp: y_def not_int)
    have e: "Exp_32s x = Exp_32s_Pos y"
      using assms False y by (simp add: Exp_32s_def u32_def not_int)
    define p :: int where "p = 2 ^ nat (Exp_32s x)"
    have *: "0 \<le> Exp_32s x" "Exp_32s x \<le> 30" "1073741824 \<le> y * p" "y * p < 2147483648"
      using Exp_32s_Pos_spec [OF y(1,2)] by (simp_all add: e p_def)
    have pp: "0 < p" by (simp add: p_def)
    have "p dvd 2 ^ 31" unfolding p_def by (rule le_imp_power_dvd) (use * in simp)
    then obtain q where q: "2 ^ 31 = p * q" by (rule dvdE)
    then have q: "2147483648 = q * p" by (simp add: mult.commute)
    have "y < q" using *(4) pp unfolding q by simp
    then have "(y + 1) * p \<le> q * p" using pp by (intro mult_right_mono) simp_all
    then have "(y + 1) * p \<le> 2147483648" by (simp only: q)
    moreover have "x * p = - ((y + 1) * p)" by (simp add: y(3) algebra_simps)
    moreover have "(y + 1) * p = y * p + p" by (simp add: algebra_simps)
    ultimately have "- 2147483648 \<le> x * p \<and> x * p < - 1073741824" using * pp by linarith
    with * show ?thesis by (simp add: p_def)
  qed
  then show "0 \<le> Exp_32s x" "Exp_32s x \<le> 31" "- 2147483648 \<le> x * 2 ^ nat (Exp_32s x)"
    "x * 2 ^ nat (Exp_32s x) < - 1073741824"
    by simp_all
qed

lemma shl32_1: "in32 (2 * x) \<Longrightarrow> shl32 x 1 = 2 * x"
  by (simp add: shl32_def push_bit_eq_mult s32_id mult.commute)

text \<open>The loops run exactly as often as the exponent says.\<close>

lemma norm_pos_loop_run:
  assumes "0 < x" "1073741824 \<le> x * 2 ^ e" "x * 2 ^ e < 2147483648" "e < fuel" "0 \<le> i" "i + int e \<le> 32767"
  shows "norm_pos_loop fuel i x = Some (i + int e, x * 2 ^ e)"
  using assms
proof (induction e arbitrary: fuel i x)
  case 0
  then obtain f where "fuel = Suc f" by (cases fuel) auto
  with 0 show ?case by simp
next
  case (Suc e)
  then obtain f where f: "fuel = Suc f" "e < f" by (cases fuel) auto
  have "2 * x \<le> x * 2 ^ Suc e" using Suc.prems(1) by simp
  then have x: "2 * x < 2147483648" using Suc.prems by linarith
  have "norm_pos_loop f (i + 1) (2 * x) = Some (i + 1 + int e, 2 * x * 2 ^ e)"
    using Suc.prems f by (intro Suc.IH) (simp_all add: mult.assoc)
  moreover have "shl32 x 1 = 2 * x" using x Suc.prems by (intro shl32_1) simp
  moreover have "s16 (i + 1) = i + 1" using Suc.prems by (intro s16_id) simp
  ultimately show ?case using f x by simp
qed

lemma norm_neg_loop_run:
  assumes "x < 0" "- 2147483648 \<le> x * 2 ^ e" "x * 2 ^ e < - 1073741824" "e < fuel" "0 \<le> i" "i + int e \<le> 32767"
  shows "norm_neg_loop fuel i x = Some (i + int e, x * 2 ^ e)"
  using assms
proof (induction e arbitrary: fuel i x)
  case 0
  then obtain f where "fuel = Suc f" by (cases fuel) auto
  with 0 show ?case by (simp add: s32_def)
next
  case (Suc e)
  then obtain f where f: "fuel = Suc f" "e < f" by (cases fuel) auto
  have "x * 2 ^ Suc e \<le> 2 * x" using Suc.prems(1) by simp
  then have x: "- 2147483648 \<le> 2 * x" using Suc.prems by linarith
  have "norm_neg_loop f (i + 1) (2 * x) = Some (i + 1 + int e, 2 * x * 2 ^ e)"
    using Suc.prems f by (intro Suc.IH) (simp_all add: mult.assoc)
  moreover have "shl32 x 1 = 2 * x" using x Suc.prems by (intro shl32_1) simp
  moreover have "s16 (i + 1) = i + 1" using Suc.prems by (intro s16_id) simp
  moreover have "s32 3221225472 = - 1073741824" by (simp add: s32_def)
  ultimately show ?case using f x by simp
qed

lemma Norm_32s_I_eq:
  assumes "in32 x"
  shows "Norm_32s_I x = Some (Exp_32s x, x * 2 ^ nat (Exp_32s x))"
proof -
  consider "x = 0" | "0 < x" | "x < 0" by linarith
  then show ?thesis
  proof cases
    case 1
    then show ?thesis by (simp add: Norm_32s_I_def Exp_32s_def)
  next
    case 2
    have "norm_pos_loop norm_fuel 0 x = Some (0 + int (nat (Exp_32s x)), x * 2 ^ nat (Exp_32s x))"
      using 2 Exp_32s_pos [OF 2 assms] by (intro norm_pos_loop_run) (simp_all add: norm_fuel_def)
    with 2 Exp_32s_pos(1) [OF 2 assms] show ?thesis by (simp add: Norm_32s_I_def)
  next
    case 3
    have "norm_neg_loop norm_fuel 0 x = Some (0 + int (nat (Exp_32s x)), x * 2 ^ nat (Exp_32s x))"
      using 3 Exp_32s_neg [OF 3 assms] by (intro norm_neg_loop_run) (simp_all add: norm_fuel_def)
    with 3 Exp_32s_neg(1) [OF 3 assms] show ?thesis by (simp add: Norm_32s_I_def)
  qed
qed

subsection \<open>The square root\<close>

text \<open>
  Invariant of the loop: the root is bracketed by \<open>x\<close> and \<open>x + 2 * y\<close>, where \<open>y = 2 ^ (k + 0)\<close>
  halves in every round.
\<close>

lemma sqrt_loop_step:
  fixes x :: int
  assumes "0 \<le> x" "x + 2 * 2 ^ Suc k \<le> 32768"
  shows "sqrt_loop (Suc k) n x (2 ^ Suc k) =
    sqrt_loop k n (if (x + 2 ^ Suc k) * (x + 2 ^ Suc k) \<le> n then x + 2 ^ Suc k else x) (2 ^ k)"
    "(x + 2 ^ Suc k) * (x + 2 ^ Suc k) < 1073741824"
proof -
  let ?y = "2 ^ Suc k :: int"
  have k1: "1 \<le> (2::int) ^ k" by simp
  then have xy: "0 \<le> x + ?y" "x + ?y \<le> 32767" using assms unfolding power_Suc by linarith+
  then have sq: "(x + ?y) * (x + ?y) \<le> 32767 * 32767" by (intro mult_mono) simp_all
  then show "(x + ?y) * (x + ?y) < 1073741824" by simp
  have z: "s32 ((x + ?y) * (x + ?y)) = (x + ?y) * (x + ?y)" using sq xy
    by (intro s32_id conjI order_trans [OF _ mult_nonneg_nonneg]) simp_all
  have "in16 (2 ^ k)" using xy(2) assms(1) k1 unfolding power_Suc by linarith
  then have y: "s16 (drop_bit 1 ?y) = 2 ^ k" by (simp add: drop_bit_eq_div s16_id)
  show "sqrt_loop (Suc k) n x ?y = sqrt_loop k n (if (x + ?y) * (x + ?y) \<le> n then x + ?y else x) (2 ^ k)"
    using xy by (simp add: z [simplified] y [simplified] s16_id Let_def)
qed

lemma sqrt_loop_inv:
  assumes "0 \<le> x" "x * x \<le> n" "n < (x + 2 * 2 ^ k) * (x + 2 * 2 ^ k)" "x + 2 * 2 ^ k \<le> 32768" "1 \<le> k" "even x"
  shows "let r = sqrt_loop k n x (2 ^ k) in x \<le> r \<and> r * r \<le> n \<and> n < (r + 2) * (r + 2) \<and> r + 2 \<le> 32768 \<and> even r"
  using assms
proof (induction k arbitrary: x)
  case 0
  then show ?case by simp
next
  case (Suc k)
  define x' where "x' = (if (x + 2 ^ Suc k) * (x + 2 ^ Suc k) \<le> n then x + 2 ^ Suc k else x)"
  have k1: "1 \<le> (2::int) ^ k" by simp
  have step: "sqrt_loop (Suc k) n x (2 ^ Suc k) = sqrt_loop k n x' (2 ^ k)"
    unfolding x'_def by (rule sqrt_loop_step(1) [OF Suc.prems(1,4)])
  have "x + 2 * 2 ^ k \<le> 32768" using Suc.prems(4) k1 unfolding power_Suc by linarith
  then have x': "x \<le> x'" "0 \<le> x'" "x' * x' \<le> n" "n < (x' + 2 * 2 ^ k) * (x' + 2 * 2 ^ k)" "x' + 2 * 2 ^ k \<le> 32768"
    using Suc.prems k1 by (auto simp: x'_def algebra_simps)
  have even: "even x'" using Suc.prems(6) by (simp add: x'_def)
  show ?case
  proof (cases k)
    case 0
    with step x' even show ?thesis by (simp add: Let_def)
  next
    case (Suc j)
    with Suc.IH [OF x'(2-5) _ even] step x'(1) show ?thesis by (auto simp: Let_def)
  qed
qed

text \<open>Outside the range of the root the rounds all fail, or all succeed.\<close>

lemma sqrt_loop_negative:
  assumes "0 \<le> x" "x + 2 * 2 ^ k \<le> 32768" "n < 0"
  shows "sqrt_loop k n x (2 ^ k) = x"
  using assms
proof (induction k arbitrary: x)
  case (Suc k)
  have "\<not> (x + 2 ^ Suc k) * (x + 2 ^ Suc k) \<le> n"
    using Suc.prems(3) zero_le_square [of "x + 2 ^ Suc k"] by linarith
  moreover have "x + 2 * 2 ^ k \<le> 32768" using Suc.prems(2) zero_le_power [of "2::int" k] unfolding power_Suc by linarith
  ultimately show ?case using sqrt_loop_step(1) [OF Suc.prems(1,2), of n] Suc by simp
qed simp

lemma sqrt_loop_large:
  assumes "0 \<le> x" "x + 2 * 2 ^ k \<le> 32768" "1073741824 \<le> n"
  shows "sqrt_loop k n x (2 ^ k) = x + 2 * 2 ^ k - 2"
  using assms
proof (induction k arbitrary: x)
  case (Suc k)
  have "(x + 2 ^ Suc k) * (x + 2 ^ Suc k) \<le> n"
    using Suc.prems(3) sqrt_loop_step(2) [OF Suc.prems(1,2)] by linarith
  moreover have "0 \<le> x + 2 ^ Suc k" "x + 2 ^ Suc k + 2 * 2 ^ k \<le> 32768" using Suc.prems by simp_all
  ultimately show ?case
    using sqrt_loop_step(1) [OF Suc.prems(1,2), of n] Suc.IH [of "x + 2 ^ Suc k"] Suc.prems(3) by simp
qed simp

lemma ownSqrt_32s_bounds:
  assumes "0 \<le> n" "n < 1073741824"
  shows "0 \<le> ownSqrt_32s n" "ownSqrt_32s n \<le> 32766"
    "ownSqrt_32s n * ownSqrt_32s n \<le> n" "n < (ownSqrt_32s n + 2) * (ownSqrt_32s n + 2)" "even (ownSqrt_32s n)"
  using sqrt_loop_inv [of 0 n 14] assms by (simp_all add: ownSqrt_32s_def Let_def)

subsection \<open>Ranges and values of the arithmetic\<close>

lemma Add_32s_clamp: "Add_32s x y = max MIN_32S (min MAX_32S (x + y))"
  by (auto simp: Add_32s_def Let_def s32_id)

lemma Cnvrt_32s16s_clamp: "Cnvrt_32s16s x = max MIN_16S (min MAX_16S x)"
  by (auto simp: Cnvrt_32s16s_def s16_id)

lemma Cnvrt_64s32s_clamp: "Cnvrt_64s32s x = max MIN_32S (min MAX_32S x)"
  by (auto simp: Cnvrt_64s32s_def s32_id)

lemma Add_16s_clamp: "Add_16s x y = max MIN_16S (min MAX_16S (x + y))"
  by (simp add: Add_16s_def Cnvrt_32s16s_clamp)

lemma Sub_16s_clamp: "Sub_16s x y = max MIN_16S (min MAX_16S (x - y))"
  by (simp add: Sub_16s_def Cnvrt_32s16s_clamp)

lemma Sub_32s_clamp: "Sub_32s x y = max MIN_32S (min MAX_32S (x - y))"
  by (simp add: Sub_32s_def Cnvrt_64s32s_clamp)

lemma Abs_16s_eq: "in16 x \<Longrightarrow> Abs_16s x = min MAX_16S \<bar>x\<bar>"
  by (auto simp: Abs_16s_def s16_id)

lemma Abs_32s_eq: "in32 x \<Longrightarrow> Abs_32s x = min MAX_32S \<bar>x\<bar>"
  by (auto simp: Abs_32s_def s32_id)

lemma Negate_16s_eq: "in16 x \<Longrightarrow> Negate_16s x = min MAX_16S (- x)"
  by (auto simp: Negate_16s_def s16_id)

lemma Mul2_16s_clamp: "in16 x \<Longrightarrow> Mul2_16s x = max MIN_16S (min MAX_16S (2 * x))"
  by (auto simp: Mul2_16s_def shl32_def push_bit_eq_mult s16_id)

lemma Mul2_32s_clamp: "in32 x \<Longrightarrow> Mul2_32s x = max MIN_32S (min MAX_32S (2 * x))"
  by (auto simp: Mul2_32s_def shl32_def push_bit_eq_mult s32_id)

lemma Mul16_32s_clamp: "in32 x \<Longrightarrow> Mul16_32s x = max MIN_32S (min MAX_32S (16 * x))"
  by (auto simp: Mul16_32s_def shl32_def push_bit_eq_mult s32_def)

lemma ShiftL_32s_clamp:
  assumes "n \<le> 31"
  shows "ShiftL_32s x n = max MIN_32S (min MAX_32S (x * 2 ^ n))"
proof -
  have p: "0 < (2::int) ^ n" by simp
  have hi: "MAX_32S div 2 ^ n < x \<longleftrightarrow> MAX_32S < x * 2 ^ n"
    by (rule int_div_less_iff [OF p])
  have d: "(2::int) ^ n dvd 2 ^ 31" by (rule le_imp_power_dvd [OF assms])
  then have "MIN_32S div 2 ^ n * 2 ^ n = MIN_32S" by simp
  then have lo: "x < MIN_32S div 2 ^ n \<longleftrightarrow> x * 2 ^ n < MIN_32S"
    using p by (metis mult_less_cancel_right_pos)
  show ?thesis
    unfolding ShiftL_32s_def drop_bit_eq_div hi lo
    by (auto simp: shl32_def push_bit_eq_mult s32_id)
qed

lemma Rand_16s_range [cint]: "in16 (Rand_16s x)"
  by (simp add: Rand_16s_def)

lemma Rand2_16s_range [cint]: "in16 (Rand2_16s x)"
  by (simp add: Rand2_16s_def)

lemma ShiftR_NR_16s_round:
  assumes "in16 x" "1 \<le> n" "n \<le> 15"
  shows "ShiftR_NR_16s x n = (x + 2 ^ nat (n - 1)) div 2 ^ nat n"
proof -
  obtain k where k: "n = int k + 1" "k \<le> 14"
  proof
    show "n = int (nat (n - 1)) + 1" "nat (n - 1) \<le> 14" using assms(2,3) by simp_all
  qed
  have "(2::int) ^ k \<le> 2 ^ 14" using k by (intro power_increasing) simp_all
  then have p: "1 \<le> (2::int) ^ k" "(2::int) ^ k \<le> 16384" by simp_all
  have c: "shift_count n = Suc k" "shift_count (n - 1) = k"
    using k by (simp_all add: shift_count_def nat_add_distrib)
  have "in32 (2 ^ k)" "in32 (x + 2 ^ k)" using p assms(1) by linarith+
  then have "shl32 1 k = 2 ^ k" "s32 (x + 2 ^ k) = x + 2 ^ k"
    by (simp_all only: shl32_def push_bit_eq_mult mult_1 s32_id)
  moreover have "in16 ((x + 2 ^ k) div 2 ^ Suc k)"
  proof -
    have "in16 ((x + 2 ^ k) div 2)" using p assms(1) by linarith
    then have "in16 ((x + 2 ^ k) div 2 div 2 ^ k)" by (rule in16_div) simp
    then show ?thesis by (simp add: zdiv_zmult2_eq)
  qed
  ultimately show ?thesis
    unfolding ShiftR_NR_16s_def c drop_bit_eq_div
    using k(1) by (simp add: s16_id nat_add_distrib del: power_Suc)
qed

text \<open>\<open>Pack_16s32s\<close> undoes \<open>Unpack_32s\<close> up to the lowest bit.\<close>

theorem Unpack_Pack_roundtrip:
  assumes "in32 x"
  shows "case Unpack_32s x of (hi, lo) \<Rightarrow>
    in16 hi \<and> 0 \<le> lo \<and> lo \<le> MAX_16S \<and> Pack_16s32s hi lo = x - x mod 2"
proof -
  have hi: "in16 (x div 65536)" using assms by linarith
  have lo: "0 \<le> x div 2 mod 32768" "x div 2 mod 32768 \<le> 32767"
    using pos_mod_sign [of 32768 "x div 2"] pos_mod_bound [of 32768 "x div 2"] by linarith+
  have "x div 2 div 32768 = x div 65536" by (simp flip: zdiv_zmult2_eq)
  then have "x div 65536 * 65536 + (x div 2 mod 32768) * 2 = x - x mod 2"
    using div_mult_mod_eq [of "x div 2" 32768] div_mult_mod_eq [of x 2] by linarith
  moreover have "in32 (x - x mod 2)"
    using assms pos_mod_sign [of 2 x] pos_mod_bound [of 2 x] by presburger
  ultimately have "s32 (x div 65536 * 65536 + x div 2 mod 32768 * 2) = x - x mod 2"
    by (simp only: s32_id)
  with hi lo show ?thesis
    by (simp add: Unpack_32s_def Pack_16s32s_def drop_bit_eq_div push_bit_eq_mult shl32_def s16_id
        and_7fff c_wrap)
qed

theorem Unpack_Pack_roundtrip_witness:
  "Unpack_32s (- 70001) = (- 2, 30535) \<and> Pack_16s32s (- 2) 30535 = - 70002"
  using Unpack_Pack_roundtrip [of "- 70001"]
  by (simp add: Unpack_32s_def s16_def drop_bit_eq_div and_7fff)

text \<open>\<open>Norm_32s_I\<close> ends after as many shifts as the table lookup \<open>Exp_32s\<close> counts.\<close>

theorem Norm_32s_I_normalises:
  assumes "in32 x" "x \<noteq> 0"
  shows "Norm_32s_I x = Some (Exp_32s x, x * 2 ^ nat (Exp_32s x)) \<and> 0 \<le> Exp_32s x \<and> Exp_32s x \<le> 31
    \<and> in32 (x * 2 ^ nat (Exp_32s x))
    \<and> (1073741824 \<le> x * 2 ^ nat (Exp_32s x) \<or> x * 2 ^ nat (Exp_32s x) < - 1073741824)"
proof (cases "0 < x")
  case True
  with Exp_32s_pos [of x] Norm_32s_I_eq [of x] assms show ?thesis by auto
next
  case False
  with Exp_32s_neg [of x] Norm_32s_I_eq [of x] assms show ?thesis by auto
qed

theorem Norm_32s_I_normalises_witness:
  "Norm_32s_I 40000 = Some (15, 1310720000)"
proof -
  have "Exp_32s 40000 = 15" by code_simp
  with Norm_32s_I_normalises [of 40000] show ?thesis by simp
qed

text \<open>
  C36: For \<open>0 \<le> n < 2^30\<close> \<open>ownSqrt_32s\<close> returns the largest even number whose square is at most \<open>n\<close>: the result is even and
  not negative, its square is at most \<open>n\<close>, and the square of the next even number is above. From \<open>2^30\<close> on the result is
  32766, the largest even number of 16 bits; for a negative \<open>n\<close> it is 0.
\<close>

theorem ownSqrt_32s_correct:
  "if n < 0 then ownSqrt_32s n = 0
   else if n < 1073741824 then
     0 \<le> ownSqrt_32s n \<and> ownSqrt_32s n \<le> MAX_16S \<and> even (ownSqrt_32s n)
     \<and> ownSqrt_32s n * ownSqrt_32s n \<le> n \<and> n < (ownSqrt_32s n + 2) * (ownSqrt_32s n + 2)
   else ownSqrt_32s n = 32766"
  using ownSqrt_32s_bounds [of n] sqrt_loop_negative [of 0 14 n] sqrt_loop_large [of 0 14 n]
  by (auto simp: ownSqrt_32s_def)

end
