(* ===== verification/MD5.thy ===== *)
theory MD5
  imports FJ_Prelude
begin

text \<open>
  The MD5 implementation of libjingle, \<open>talk/base/md5c.c\<close> and \<open>md5.h\<close>: the context with its
  chaining words, 64-bit bit count and 64-byte input buffer, the transform, and the
  incremental interface \<open>MD5Init\<close> / \<open>MD5Update\<close> / \<open>MD5Final\<close>. The model is the little-endian
  ILP32 build (\<open>byteReverse\<close> is empty, \<open>uint32\<close> and pointers have 32 bits); the buffer
  \<open>ctx->in\<close>, which the code reads both as bytes and as words, is its 64 bytes.

  Specification: the RFC 1321 description, a loop over the 64 steps with the published round
  functions, and padding followed by a fold over the 64-byte blocks. The lemmas show that the
  unrolled transform is that loop, that \<open>MD5Update\<close> absorbs a message in any division
  into pieces (simulation \<open>md5_absorbed\<close>), and that \<open>MD5Final\<close> delivers the digest of the
  padded message.
\<close>

type_synonym u32w = "32 word"
type_synonym byte = "8 word"

subsection \<open>Bytes and words\<close>

definition le_word :: "byte \<Rightarrow> byte \<Rightarrow> byte \<Rightarrow> byte \<Rightarrow> u32w" where
  "le_word b0 b1 b2 b3 =
     ucast b0 OR push_bit 8 (ucast b1)
       OR push_bit 16 (ucast b2) OR push_bit 24 (ucast b3)"

definition le_bytes :: "u32w \<Rightarrow> byte list" where
  "le_bytes w = [ucast w, ucast (drop_bit 8 w),
     ucast (drop_bit 16 w), ucast (drop_bit 24 w)]"

text \<open>The cast \<open>(uint32 *)ctx->in\<close>.\<close>

fun words_of :: "byte list \<Rightarrow> u32w list" where
  "words_of (b0 # b1 # b2 # b3 # bs) = le_word b0 b1 b2 b3 # words_of bs"
| "words_of bs = []"

subsection \<open>The transform\<close>

definition F1 :: "u32w \<Rightarrow> u32w \<Rightarrow> u32w \<Rightarrow> u32w" where
  "F1 x y z = z XOR (x AND (y XOR z))"

definition F2 :: "u32w \<Rightarrow> u32w \<Rightarrow> u32w \<Rightarrow> u32w" where
  "F2 x y z = F1 z x y"

definition F3 :: "u32w \<Rightarrow> u32w \<Rightarrow> u32w \<Rightarrow> u32w" where
  "F3 x y z = x XOR y XOR z"

definition F4 :: "u32w \<Rightarrow> u32w \<Rightarrow> u32w \<Rightarrow> u32w" where
  "F4 x y z = y XOR (x OR NOT z)"

definition MD5STEP ::
  "(u32w \<Rightarrow> u32w \<Rightarrow> u32w \<Rightarrow> u32w) \<Rightarrow> u32w \<Rightarrow> u32w \<Rightarrow> u32w \<Rightarrow> u32w \<Rightarrow> u32w \<Rightarrow> nat \<Rightarrow> u32w" where
  "MD5STEP f w x y z data s =
     (let w = w + (f x y z + data);
          w = push_bit s w OR drop_bit (32 - s) w
      in w + x)"

type_synonym md5_buf = "u32w \<times> u32w \<times> u32w \<times> u32w"

definition MD5Transform :: "md5_buf \<Rightarrow> u32w list \<Rightarrow> md5_buf" where
  "MD5Transform buf inp =
     (case buf of (a0, b0, c0, d0) \<Rightarrow>
      let a = a0; b = b0; c = c0; d = d0;
          a = MD5STEP F1 a b c d (inp ! 0 + 0xd76aa478) 7;
          d = MD5STEP F1 d a b c (inp ! 1 + 0xe8c7b756) 12;
          c = MD5STEP F1 c d a b (inp ! 2 + 0x242070db) 17;
          b = MD5STEP F1 b c d a (inp ! 3 + 0xc1bdceee) 22;
          a = MD5STEP F1 a b c d (inp ! 4 + 0xf57c0faf) 7;
          d = MD5STEP F1 d a b c (inp ! 5 + 0x4787c62a) 12;
          c = MD5STEP F1 c d a b (inp ! 6 + 0xa8304613) 17;
          b = MD5STEP F1 b c d a (inp ! 7 + 0xfd469501) 22;
          a = MD5STEP F1 a b c d (inp ! 8 + 0x698098d8) 7;
          d = MD5STEP F1 d a b c (inp ! 9 + 0x8b44f7af) 12;
          c = MD5STEP F1 c d a b (inp ! 10 + 0xffff5bb1) 17;
          b = MD5STEP F1 b c d a (inp ! 11 + 0x895cd7be) 22;
          a = MD5STEP F1 a b c d (inp ! 12 + 0x6b901122) 7;
          d = MD5STEP F1 d a b c (inp ! 13 + 0xfd987193) 12;
          c = MD5STEP F1 c d a b (inp ! 14 + 0xa679438e) 17;
          b = MD5STEP F1 b c d a (inp ! 15 + 0x49b40821) 22;
          a = MD5STEP F2 a b c d (inp ! 1 + 0xf61e2562) 5;
          d = MD5STEP F2 d a b c (inp ! 6 + 0xc040b340) 9;
          c = MD5STEP F2 c d a b (inp ! 11 + 0x265e5a51) 14;
          b = MD5STEP F2 b c d a (inp ! 0 + 0xe9b6c7aa) 20;
          a = MD5STEP F2 a b c d (inp ! 5 + 0xd62f105d) 5;
          d = MD5STEP F2 d a b c (inp ! 10 + 0x02441453) 9;
          c = MD5STEP F2 c d a b (inp ! 15 + 0xd8a1e681) 14;
          b = MD5STEP F2 b c d a (inp ! 4 + 0xe7d3fbc8) 20;
          a = MD5STEP F2 a b c d (inp ! 9 + 0x21e1cde6) 5;
          d = MD5STEP F2 d a b c (inp ! 14 + 0xc33707d6) 9;
          c = MD5STEP F2 c d a b (inp ! 3 + 0xf4d50d87) 14;
          b = MD5STEP F2 b c d a (inp ! 8 + 0x455a14ed) 20;
          a = MD5STEP F2 a b c d (inp ! 13 + 0xa9e3e905) 5;
          d = MD5STEP F2 d a b c (inp ! 2 + 0xfcefa3f8) 9;
          c = MD5STEP F2 c d a b (inp ! 7 + 0x676f02d9) 14;
          b = MD5STEP F2 b c d a (inp ! 12 + 0x8d2a4c8a) 20;
          a = MD5STEP F3 a b c d (inp ! 5 + 0xfffa3942) 4;
          d = MD5STEP F3 d a b c (inp ! 8 + 0x8771f681) 11;
          c = MD5STEP F3 c d a b (inp ! 11 + 0x6d9d6122) 16;
          b = MD5STEP F3 b c d a (inp ! 14 + 0xfde5380c) 23;
          a = MD5STEP F3 a b c d (inp ! 1 + 0xa4beea44) 4;
          d = MD5STEP F3 d a b c (inp ! 4 + 0x4bdecfa9) 11;
          c = MD5STEP F3 c d a b (inp ! 7 + 0xf6bb4b60) 16;
          b = MD5STEP F3 b c d a (inp ! 10 + 0xbebfbc70) 23;
          a = MD5STEP F3 a b c d (inp ! 13 + 0x289b7ec6) 4;
          d = MD5STEP F3 d a b c (inp ! 0 + 0xeaa127fa) 11;
          c = MD5STEP F3 c d a b (inp ! 3 + 0xd4ef3085) 16;
          b = MD5STEP F3 b c d a (inp ! 6 + 0x04881d05) 23;
          a = MD5STEP F3 a b c d (inp ! 9 + 0xd9d4d039) 4;
          d = MD5STEP F3 d a b c (inp ! 12 + 0xe6db99e5) 11;
          c = MD5STEP F3 c d a b (inp ! 15 + 0x1fa27cf8) 16;
          b = MD5STEP F3 b c d a (inp ! 2 + 0xc4ac5665) 23;
          a = MD5STEP F4 a b c d (inp ! 0 + 0xf4292244) 6;
          d = MD5STEP F4 d a b c (inp ! 7 + 0x432aff97) 10;
          c = MD5STEP F4 c d a b (inp ! 14 + 0xab9423a7) 15;
          b = MD5STEP F4 b c d a (inp ! 5 + 0xfc93a039) 21;
          a = MD5STEP F4 a b c d (inp ! 12 + 0x655b59c3) 6;
          d = MD5STEP F4 d a b c (inp ! 3 + 0x8f0ccc92) 10;
          c = MD5STEP F4 c d a b (inp ! 10 + 0xffeff47d) 15;
          b = MD5STEP F4 b c d a (inp ! 1 + 0x85845dd1) 21;
          a = MD5STEP F4 a b c d (inp ! 8 + 0x6fa87e4f) 6;
          d = MD5STEP F4 d a b c (inp ! 15 + 0xfe2ce6e0) 10;
          c = MD5STEP F4 c d a b (inp ! 6 + 0xa3014314) 15;
          b = MD5STEP F4 b c d a (inp ! 13 + 0x4e0811a1) 21;
          a = MD5STEP F4 a b c d (inp ! 4 + 0xf7537e82) 6;
          d = MD5STEP F4 d a b c (inp ! 11 + 0xbd3af235) 10;
          c = MD5STEP F4 c d a b (inp ! 2 + 0x2ad7d2bb) 15;
          b = MD5STEP F4 b c d a (inp ! 9 + 0xeb86d391) 21
      in (a0 + a, b0 + b, c0 + c, d0 + d))"

subsection \<open>The context and its operations\<close>

record MD5Context =
  buf :: md5_buf
  bits :: "u32w \<times> u32w"
  inb :: "byte list"

text \<open>\<open>MD5Init\<close> leaves the input buffer as it is.\<close>

definition MD5Init :: "MD5Context \<Rightarrow> MD5Context" where
  "MD5Init ctx = ctx\<lparr>buf := (0x67452301, 0xefcdab89, 0x98badcfe, 0x10325476), bits := (0, 0)\<rparr>"

definition md5_transform_in :: "MD5Context \<Rightarrow> MD5Context" where
  "md5_transform_in ctx = ctx\<lparr>buf := MD5Transform (buf ctx) (words_of (inb ctx))\<rparr>"

text \<open>The 64-byte chunks of \<open>MD5Update\<close>: the context and the bytes left over.\<close>

function md5_chunks :: "MD5Context \<Rightarrow> byte list \<Rightarrow> MD5Context \<times> byte list" where
  "md5_chunks ctx data =
     (if 64 \<le> length data
      then md5_chunks (md5_transform_in (ctx\<lparr>inb := mem_write (inb ctx) 0 (take 64 data)\<rparr>)) (drop 64 data)
      else (ctx, data))"
  by pat_completeness auto
termination
  by (relation "measure (\<lambda>(ctx, data). length data)") auto

declare md5_chunks.simps [simp del]

definition md5_count :: "MD5Context \<Rightarrow> nat \<Rightarrow> MD5Context" where
  "md5_count ctx len =
     (let (t, hi) = bits ctx;
          lo = t + push_bit 3 (of_nat len);
          hi = (if lo < t then hi + 1 else hi);
          hi = hi + drop_bit 29 (of_nat len)
      in ctx\<lparr>bits := (lo, hi)\<rparr>)"

definition MD5Update :: "MD5Context \<Rightarrow> byte list \<Rightarrow> MD5Context" where
  "MD5Update ctx data =
     (let len = length data;
          t = unat (drop_bit 3 (fst (bits ctx)) AND 0x3f);
          ctx = md5_count ctx len
      in if t \<noteq> 0 \<and> len < 64 - t then ctx\<lparr>inb := mem_write (inb ctx) t data\<rparr>
         else let (ctx, data) =
                (if t \<noteq> 0
                 then (md5_transform_in (ctx\<lparr>inb := mem_write (inb ctx) t (take (64 - t) data)\<rparr>),
                       drop (64 - t) data)
                 else (ctx, data));
              (ctx, data) = md5_chunks ctx data
         in ctx\<lparr>inb := mem_write (inb ctx) 0 data\<rparr>)"

definition digest_of :: "md5_buf \<Rightarrow> byte list" where
  "digest_of b = (case b of (a, b, c, d) \<Rightarrow> le_bytes a @ le_bytes b @ le_bytes c @ le_bytes d)"

text \<open>
  The last line of \<open>MD5Final\<close> is \<open>memset(ctx, 0, sizeof(ctx))\<close>: \<open>ctx\<close> is a pointer, so four
  bytes are cleared, the word \<open>buf[0]\<close>.
\<close>

definition MD5Final :: "MD5Context \<Rightarrow> byte list \<times> MD5Context" where
  "MD5Final ctx =
     (let count = unat (drop_bit 3 (fst (bits ctx)) AND 0x3F);
          ctx = ctx\<lparr>inb := mem_write (inb ctx) count [0x80]\<rparr>;
          p = count + 1;
          count = 64 - 1 - count;
          ctx = (if count < 8
             then let ctx = md5_transform_in (ctx\<lparr>inb := mem_write (inb ctx) p (replicate count 0)\<rparr>)
                  in ctx\<lparr>inb := mem_write (inb ctx) 0 (replicate 56 0)\<rparr>
             else ctx\<lparr>inb := mem_write (inb ctx) p (replicate (count - 8) 0)\<rparr>);
          ctx = ctx\<lparr>inb := mem_write (inb ctx) 56 (le_bytes (fst (bits ctx)))\<rparr>;
          ctx = ctx\<lparr>inb := mem_write (inb ctx) 60 (le_bytes (snd (bits ctx)))\<rparr>;
          ctx = md5_transform_in ctx;
          digest = digest_of (buf ctx)
      in (digest, ctx\<lparr>buf := (case buf ctx of (a, b, c, d) \<Rightarrow> (0, b, c, d))\<rparr>))"

subsection \<open>RFC 1321: the transform as a loop over its 64 steps\<close>

definition rfc_fun :: "nat \<Rightarrow> u32w \<Rightarrow> u32w \<Rightarrow> u32w \<Rightarrow> u32w" where
  "rfc_fun i x y z =
     (if i < 16 then (x AND y) OR (NOT x AND z)
      else if i < 32 then (x AND z) OR (y AND NOT z)
      else if i < 48 then x XOR y XOR z
      else y XOR (x OR NOT z))"

definition rfc_index :: "nat \<Rightarrow> nat" where
  "rfc_index i =
     (if i < 16 then i else if i < 32 then (5 * i + 1) mod 16
      else if i < 48 then (3 * i + 5) mod 16 else (7 * i) mod 16)"

definition rfc_shift :: "nat \<Rightarrow> nat" where
  "rfc_shift i = [[7, 12, 17, 22], [5, 9, 14, 20], [4, 11, 16, 23], [6, 10, 15, 21]] ! (i div 16) ! (i mod 4)"

text \<open>The table \<open>T\<close> of the RFC, \<open>T[i] = floor (2^32 * abs (sin i))\<close>.\<close>

definition rfc_T :: "u32w list" where
  "rfc_T = [
    0xd76aa478, 0xe8c7b756, 0x242070db, 0xc1bdceee, 0xf57c0faf, 0x4787c62a, 0xa8304613, 0xfd469501,
    0x698098d8, 0x8b44f7af, 0xffff5bb1, 0x895cd7be, 0x6b901122, 0xfd987193, 0xa679438e, 0x49b40821,
    0xf61e2562, 0xc040b340, 0x265e5a51, 0xe9b6c7aa, 0xd62f105d, 0x02441453, 0xd8a1e681, 0xe7d3fbc8,
    0x21e1cde6, 0xc33707d6, 0xf4d50d87, 0x455a14ed, 0xa9e3e905, 0xfcefa3f8, 0x676f02d9, 0x8d2a4c8a,
    0xfffa3942, 0x8771f681, 0x6d9d6122, 0xfde5380c, 0xa4beea44, 0x4bdecfa9, 0xf6bb4b60, 0xbebfbc70,
    0x289b7ec6, 0xeaa127fa, 0xd4ef3085, 0x04881d05, 0xd9d4d039, 0xe6db99e5, 0x1fa27cf8, 0xc4ac5665,
    0xf4292244, 0x432aff97, 0xab9423a7, 0xfc93a039, 0x655b59c3, 0x8f0ccc92, 0xffeff47d, 0x85845dd1,
    0x6fa87e4f, 0xfe2ce6e0, 0xa3014314, 0x4e0811a1, 0xf7537e82, 0xbd3af235, 0x2ad7d2bb, 0xeb86d391]"

definition rfc_step :: "u32w list \<Rightarrow> nat \<Rightarrow> md5_buf \<Rightarrow> md5_buf" where
  "rfc_step X i s = (case s of (a, b, c, d) \<Rightarrow>
     (d, b + word_rotl (rfc_shift i) (a + rfc_fun i b c d + X ! rfc_index i + rfc_T ! i), b, c))"

definition rfc_add :: "md5_buf \<Rightarrow> md5_buf \<Rightarrow> md5_buf" where
  "rfc_add s t = (case s of (a, b, c, d) \<Rightarrow> case t of (a', b', c', d') \<Rightarrow>
     (a + a', b + b', c + c', d + d'))"

definition rfc_transform :: "md5_buf \<Rightarrow> u32w list \<Rightarrow> md5_buf" where
  "rfc_transform s X = rfc_add s (fold (rfc_step X) [0..<64] s)"

lemma F1_rfc: "F1 x y z = (x AND y) OR (NOT x AND z)"
  by (rule bit_eqI) (auto simp: F1_def bit_simps)

lemma F2_rfc: "F2 x y z = (x AND z) OR (y AND NOT z)"
  by (rule bit_eqI) (auto simp: F2_def F1_def bit_simps)

lemma rotl_shifts:
  fixes w :: u32w
  assumes "0 < s" "s < 32"
  shows "push_bit s w OR drop_bit (32 - s) w = word_rotl s w"
proof (rule bit_word_eqI)
  fix n :: nat
  assume n: "n < LENGTH(32)"
  have "(n + LENGTH(32) - s) mod LENGTH(32) = (if s \<le> n then n - s else n + 32 - s)"
    using n assms by (auto simp: mod_if)
  then show "bit (push_bit s w OR drop_bit (32 - s) w) n = bit (word_rotl s w) n"
    using n assms
    by (auto simp: bit_simps add.commute [of 32 n] dest: bit_imp_le_length)
qed

lemma MD5STEP_rotl:
  "0 < s \<Longrightarrow> s < 32 \<Longrightarrow> MD5STEP f w x y z data s = x + word_rotl s (w + f x y z + data)"
  by (simp add: MD5STEP_def Let_def rotl_shifts ac_simps)

text \<open>One assignment of the unrolled code is one step of the loop.\<close>

lemma md5_unroll:
  assumes "k < 64"
    and "E = b + word_rotl (rfc_shift k) (a + rfc_fun k b c d + X ! rfc_index k + rfc_T ! k)"
    and "\<And>x. P x = g (fold (rfc_step X) [Suc k..<64] (d, x, b, c))"
  shows "Let E P = g (fold (rfc_step X) [k..<64] (a, b, c, d))"
  using assms by (simp add: Let_def upt_conv_Cons rfc_step_def)

lemmas rfc_eval = rfc_fun_def rfc_index_def rfc_shift_def rfc_T_def F1_rfc F2_rfc F3_def F4_def

lemma MD5Transform_unrolled: 
  "MD5Transform (a, b, c, d) X = rfc_transform (a, b, c, d) X"
  unfolding MD5Transform_def rfc_transform_def prod.case
  apply (simp only: Let_def[of a] Let_def[of b] Let_def[of c] Let_def[of d])
  apply (rule md5_unroll, simp, simp add: MD5STEP_rotl rfc_eval add.assoc numeral_2_eq_2 [symmetric])+
  apply (simp add: rfc_add_def)
  done

subsection \<open>RFC 1321: blocks, padding and digest\<close>

text \<open>The chaining value after the complete 64-byte blocks of a message.\<close>

function md5_blocks :: "md5_buf \<Rightarrow> byte list \<Rightarrow> md5_buf" where
  "md5_blocks b s =
     (if 64 \<le> length s then md5_blocks (rfc_transform b (words_of (take 64 s))) (drop 64 s) else b)"
  by pat_completeness auto
termination
  by (relation "measure (\<lambda>(b, s). length s)") auto

declare md5_blocks.simps [simp del]

definition md5_iv :: md5_buf where
  "md5_iv = (0x67452301, 0xefcdab89, 0x98badcfe, 0x10325476)"

text \<open>A one bit, zero bits up to 56 bytes modulo 64, the length in bits modulo \<open>2^64\<close>.\<close>

definition rfc_pad :: "nat \<Rightarrow> byte list" where
  "rfc_pad n = 0x80 # replicate ((119 - n mod 64) mod 64) 0
     @ (let bitlen = of_nat (8 * n) :: 64 word
        in le_bytes (ucast bitlen) @ le_bytes (ucast (drop_bit 32 bitlen)))"

definition rfc_md5 :: "byte list \<Rightarrow> byte list" where
  "rfc_md5 s = digest_of (md5_blocks md5_iv (s @ rfc_pad (length s)))"

lemma rfc_pad_length:
  "rfc_pad n = 0x80 # replicate ((119 - n mod 64) mod 64) 0
     @ le_bytes (of_nat (8 * n)) @ le_bytes (of_nat (8 * n div 2 ^ 32))"
proof -
  let ?m = "8 * n"
  have lo: "ucast (of_nat ?m :: 64 word) = (of_nat ?m :: u32w)"
    by (simp only: word_unat_eq_iff unsigned_ucast_eq take_bit_eq_mod unat_of_nat) (simp add: mod_mod_cancel)
  have "unat (drop_bit 32 (of_nat ?m :: 64 word)) = (?m mod 2 ^ 64) div 2 ^ 32"
    by (simp only: unat_drop_bit_eq unat_of_nat) (simp add: drop_bit_eq_div)
  then have "unat (ucast (drop_bit 32 (of_nat ?m :: 64 word)) :: u32w) = (?m mod 2 ^ 64) div 2 ^ 32 mod 2 ^ 32"
    by (simp only: unsigned_ucast_eq take_bit_eq_mod) simp
  also have "\<dots> = ?m div 2 ^ 32 mod 2 ^ 32"
    using mod_mult2_eq [of ?m "2 ^ 32" "2 ^ 32"] by simp
  also have "\<dots> = unat (of_nat (?m div 2 ^ 32) :: u32w)"
    by (simp only: unat_of_nat) simp
  finally have hi: "ucast (drop_bit 32 (of_nat ?m :: 64 word)) = (of_nat (?m div 2 ^ 32) :: u32w)"
    by (simp only: word_unat_eq_iff)
  show ?thesis
    unfolding rfc_pad_def Let_def lo hi ..
qed

lemma md5_blocks_short [simp]: "length s < 64 \<Longrightarrow> md5_blocks b s = b"
  by (simp add: md5_blocks.simps)

lemma md5_blocks_one: "length p = 64 \<Longrightarrow> md5_blocks b (p @ s) = md5_blocks (rfc_transform b (words_of p)) s"
  by (subst md5_blocks.simps) simp

lemma md5_blocks_append:
  "length p mod 64 = 0 \<Longrightarrow> md5_blocks b (p @ s) = md5_blocks (md5_blocks b p) s"
proof (induction b p rule: md5_blocks.induct)
  case (1 b p)
  show ?case
  proof (cases "64 \<le> length p")
    case True
    then have "(length p - 64) mod 64 = 0"
      using "1.prems" by (simp add: le_mod_geq)
    then show ?thesis
      using "1.IH" [OF True] True
      by (subst md5_blocks.simps, subst (2) md5_blocks.simps) simp
  next
    case False
    then have "p = []"
      using "1.prems" by simp
    then show ?thesis
      by simp
  qed
qed

definition md5_whole :: "byte list \<Rightarrow> byte list" where
  "md5_whole s = take (64 * (length s div 64)) s"

definition md5_rest :: "byte list \<Rightarrow> byte list" where
  "md5_rest s = drop (64 * (length s div 64)) s"

lemma md5_split: "md5_whole s @ md5_rest s = s"
  by (simp add: md5_whole_def md5_rest_def)

lemma length_md5_whole: "length (md5_whole s) mod 64 = 0"
  by (simp add: md5_whole_def min_absorb2)

lemma length_md5_rest [simp]: "length (md5_rest s) = length s mod 64"
  by (simp add: md5_rest_def modulo_nat_def)

lemma md5_rest_append:
  assumes "length p mod 64 = 0"
  shows "md5_rest (p @ s) = md5_rest s"
proof -
  obtain q where "length p = 64 * q"
    using assms by (auto simp: mod_eq_0_iff_dvd)
  then show ?thesis
    by (simp add: md5_rest_def)
qed

lemma md5_rest_short [simp]: "length s < 64 \<Longrightarrow> md5_rest s = s"
  by (simp add: md5_rest_def)

text \<open>A message as its absorbed part and the bytes still in the buffer.\<close>

lemma md5_blocks_cons: 
  "md5_blocks b (s @ x) = md5_blocks (md5_blocks b s) (md5_rest s @ x)"
proof -
  have "md5_blocks b (md5_whole s @ md5_rest s @ x) = md5_blocks (md5_blocks b (md5_whole s)) (md5_rest s @ x)"
    by (rule md5_blocks_append) (rule length_md5_whole)
  moreover have "md5_blocks b (md5_whole s @ md5_rest s) = md5_blocks b (md5_whole s)"
    by (simp add: md5_blocks_append length_md5_whole)
  ultimately show ?thesis
    by (metis append.assoc md5_split)
qed

lemma md5_rest_cons: "md5_rest (s @ x) = md5_rest (md5_rest s @ x)"
  by (metis append.assoc length_md5_whole md5_rest_append md5_split)

subsection \<open>The context refines the message\<close>

definition md5_bitcount :: "MD5Context \<Rightarrow> nat" where
  "md5_bitcount ctx = unat (fst (bits ctx)) + 2 ^ 32 * unat (snd (bits ctx))"

definition md5_absorbed :: "byte list \<Rightarrow> MD5Context \<Rightarrow> bool" where
  "md5_absorbed s ctx \<longleftrightarrow>
     length (inb ctx) = 64
     \<and> buf ctx = md5_blocks md5_iv s
     \<and> md5_bitcount ctx = 8 * length s mod 2 ^ 64
     \<and> take (length s mod 64) (inb ctx) = md5_rest s"

lemma MD5Transform_rfc: "MD5Transform b X = rfc_transform b X"
  by (cases b) (simp add: MD5Transform_unrolled)

lemma md5_chunks_spec:
  assumes "length (inb ctx) = 64"
  shows "case md5_chunks ctx data of (ctx', rest) \<Rightarrow>
    buf ctx' = md5_blocks (buf ctx) data \<and> rest = md5_rest data
    \<and> bits ctx' = bits ctx \<and> length (inb ctx') = 64"
  using assms
proof (induction ctx data rule: md5_chunks.induct)
  case (1 ctx data)
  show ?case
  proof (cases "64 \<le> length data")
    case True
    let ?c = "md5_transform_in (ctx\<lparr>inb := mem_write (inb ctx) 0 (take 64 data)\<rparr>)"
    have in': "mem_write (inb ctx) 0 (take 64 data) = take 64 data"
      using True "1.prems" by (simp add: mem_write_def)
    then have l: "length (inb ?c) = 64"
      using True by (simp add: md5_transform_in_def)
    have b: "buf ?c = rfc_transform (buf ctx) (words_of (take 64 data))"
      by (simp add: md5_transform_in_def in' MD5Transform_rfc)
    have r: "md5_rest (drop 64 data) = md5_rest data"
      using True md5_rest_append [of "take 64 data" "drop 64 data"] by simp
    have "md5_blocks (buf ctx) data = md5_blocks (buf ?c) (drop 64 data)"
      by (subst md5_blocks.simps) (simp only: True b if_True)
    then show ?thesis
      using "1.IH" [OF True l] True r
      by (subst md5_chunks.simps) (auto simp: md5_transform_in_def split: prod.splits)
  next
    case False
    then show ?thesis
      using "1.prems" by (subst md5_chunks.simps) auto
  qed
qed

lemma md5_count_other [simp]:
  "buf (md5_count ctx n) = buf ctx" "inb (md5_count ctx n) = inb ctx"
  by (simp_all add: md5_count_def Let_def split: prod.splits)

lemma carry_mod:
  fixes U L M :: nat
  assumes "U < M" "L < M"
  shows "((U + L) mod M < U) = (M \<le> U + L)"
  using assms by (cases "U + L < M") (auto simp: le_mod_geq not_less)

lemma carry_pair:
  fixes U L M h u :: nat
  assumes "U < M" "L < M"
  shows "(U + L) mod M + M * ((h + (if M \<le> U + L then 1 else 0) + u) mod M)
     = (U + L + M * (h + u)) mod (M * M)"
proof (cases "M \<le> U + L")
  case True
  then obtain v where v: "U + L = M + v" "v < M"
    using assms by (metis add_less_cancel_left add_less_mono le_Suc_ex)
  then have "U + L + M * (h + u) = v + M * (h + 1 + u)"
    by (simp add: algebra_simps)
  moreover have "M \<noteq> 0"
    using v by auto
  ultimately show ?thesis
    using v unfolding mod_mult2_eq by (simp add: div_add_self1)
next
  case False
  then show ?thesis
    using assms unfolding mod_mult2_eq by simp
qed

lemma bits_of_update: "fst (bits (ctx\<lparr>bits := (a, b)\<rparr>)) = a" "snd (bits (ctx\<lparr>bits := (a, b)\<rparr>)) = b"
  by simp_all

lemma md5_count_bits:
  assumes "n < 2 ^ 32"
  shows "md5_bitcount (md5_count ctx n) = (md5_bitcount ctx + 8 * n) mod 2 ^ 64"
proof -
  obtain t hi where bits: "bits ctx = (t, hi)"
    by (cases "bits ctx")
  let ?l = "8 * n mod 2 ^ 32"
  have lo: "unat (push_bit 3 (of_nat n :: u32w)) = ?l"
    by (simp add: push_bit_eq_mult unat_word_ariths unat_of_nat mod_mult_right_eq mult.commute)
  have up: "unat (drop_bit 29 (of_nat n :: u32w)) = 8 * n div 2 ^ 32"
    using assms by (simp only: unat_drop_bit_eq) (simp add: drop_bit_eq_div unat_of_nat)
  have t: "unat t < 2 ^ 32" and hi: "unat hi < 2 ^ 32"
    using unsigned_less [of t] unsigned_less [of hi] by simp_all
  have l: "?l < 2 ^ 32" and n8: "8 * n = ?l + 2 ^ 32 * (8 * n div 2 ^ 32)"
    by (simp_all only: mod_mult_div_eq) simp
  let ?u = "8 * n div 2 ^ 32"
  have carry: "(t + push_bit 3 (of_nat n) < t) = (2 ^ 32 \<le> unat t + ?l)"
    using carry_mod [OF t l] by (simp add: word_less_nat_alt unat_word_ariths lo)
  have aux: "N = r + M * q \<Longrightarrow> x + r + M * (y + q) = x + M * y + N" for N r M q x y :: nat
    by (simp add: algebra_simps)
  have lo': "unat (t + push_bit 3 (of_nat n)) = (unat t + ?l) mod 2 ^ 32"
    by (simp only: unat_word_ariths lo) simp
  have hi': "unat ((if b then hi + 1 else hi) + drop_bit 29 (of_nat n)) = (unat hi + (if b then 1 else 0) + ?u) mod 2 ^ 32" for b
    by (cases b) (simp_all only: unat_word_ariths up if_True if_False, simp_all add: mod_simps)
  have cnt: "md5_bitcount (md5_count ctx n) =
      (unat t + ?l) mod 2 ^ 32 + 2 ^ 32 * ((unat hi + (if 2 ^ 32 \<le> unat t + ?l then 1 else 0) + ?u) mod 2 ^ 32)"
    unfolding md5_bitcount_def md5_count_def bits Let_def prod.case carry
    by (simp only: lo' hi' bits_of_update)
  have "\<dots> = (unat t + ?l + 2 ^ 32 * (unat hi + ?u)) mod (2 ^ 32 * 2 ^ 32)"
    by (rule carry_pair [OF t l])
  also have "unat t + ?l + 2 ^ 32 * (unat hi + ?u) = unat t + 2 ^ 32 * unat hi + 8 * n"
    by (rule aux [OF n8])
  finally show ?thesis
    using cnt by (simp add: md5_bitcount_def bits)
qed

lemma md5_absorbed_init:
  "length (inb ctx) = 64 \<Longrightarrow> md5_absorbed [] (MD5Init ctx)"
  by (simp add: md5_absorbed_def MD5Init_def md5_iv_def md5_bitcount_def md5_rest_def)

text \<open>The byte position the code computes from \<open>bits[0]\<close>.\<close>

lemma md5_position:
  assumes "md5_bitcount ctx = 8 * n mod 2 ^ 64"
  shows "unat (drop_bit 3 (fst (bits ctx)) AND 0x3f) = n mod 64"
proof -
  have "unat (fst (bits ctx)) = md5_bitcount ctx mod 2 ^ 32"
    using unsigned_less [of "fst (bits ctx)", where ?'a = nat] by (simp add: md5_bitcount_def)
  also have "\<dots> = 8 * n mod 2 ^ 32"
    by (simp add: assms mod_mod_cancel)
  finally have "unat (fst (bits ctx)) = 8 * n mod 2 ^ 32" .
  then have "unat (drop_bit 3 (fst (bits ctx))) = (8 * n mod 2 ^ 32) div 8"
    by (simp only: unat_drop_bit_eq) (simp add: drop_bit_eq_div)
  also have "\<dots> = n mod 2 ^ 29"
    using mod_mult_mult1 [of 8 n "2 ^ 29"] by simp
  finally have *: "unat (drop_bit 3 (fst (bits ctx))) = n mod 2 ^ 29" .
  have "unat (drop_bit 3 (fst (bits ctx)) AND mask 6) = n mod 2 ^ 29 mod 2 ^ 6"
    by (simp only: take_bit_eq_mask [symmetric] unsigned_take_bit_eq *) (simp add: take_bit_eq_mod)
  then show ?thesis
    by (simp add: mask_eq_exp_minus_1 mod_mod_cancel)
qed

lemma md5_fill_block:
  assumes "md5_absorbed s ctx" "length s mod 64 + length d = 64"
  shows "buf (md5_transform_in (ctx\<lparr>inb := mem_write (inb ctx) (length s mod 64) d\<rparr>)) = md5_blocks md5_iv (s @ d)"
proof -
  have "mem_write (inb ctx) (length s mod 64) d = md5_rest s @ d"
    using assms by (simp add: md5_absorbed_def mem_write_full)
  moreover have "md5_blocks md5_iv (s @ d) = rfc_transform (md5_blocks md5_iv s) (words_of (md5_rest s @ d))"
    using md5_blocks_one [of "md5_rest s @ d" _ "[]"] assms
    by (subst md5_blocks_cons) simp
  ultimately show ?thesis
    using assms by (simp add: md5_transform_in_def MD5Transform_rfc md5_absorbed_def)
qed

lemma mod_add_short:
  fixes a b m :: nat
  assumes "a mod m + b < m"
  shows "(a + b) mod m = a mod m + b"
  using assms mod_add_left_eq [of a m b] by simp

lemma md5_absorbed_append_short:
  assumes "md5_absorbed s ctx" "length s mod 64 + length d < 64"
  shows "md5_blocks md5_iv (s @ d) = md5_blocks md5_iv s" "md5_rest (s @ d) = md5_rest s @ d"
    "length (s @ d) mod 64 = length s mod 64 + length d"
  using assms
  by (simp_all add: md5_blocks_cons [of _ s d] md5_rest_cons [of s d] mod_add_short)
     
lemma MD5Update_absorbs:
  assumes "md5_absorbed s ctx" "length data < 2 ^ 32"
  shows "md5_absorbed (s @ data) (MD5Update ctx data)"
proof -
  let ?t = "length s mod 64"
  let ?c = "md5_count ctx (length data)"
  have t: "unat (drop_bit 3 (fst (bits ctx)) AND 0x3f) = ?t"
    using assms by (intro md5_position) (simp add: md5_absorbed_def)
  have cnt: "md5_bitcount ?c = 8 * length (s @ data) mod 2 ^ 64"
    using assms by (simp add: md5_count_bits md5_absorbed_def mod_simps algebra_simps)
  have L: "length (inb ctx) = 64"
    using assms by (simp add: md5_absorbed_def)
  show ?thesis
  proof (cases "?t \<noteq> 0 \<and> length data < 64 - ?t")
    case True
    then have "MD5Update ctx data = ?c\<lparr>inb := mem_write (inb ctx) ?t data\<rparr>"
      by (simp add: MD5Update_def t)
    moreover have "?t + length data < 64"
      using True by auto
    ultimately show ?thesis
      using assms L cnt md5_absorbed_append_short [OF assms(1), of data]
        take_mem_write [of ?t "inb ctx" data]
      by (auto simp: md5_absorbed_def md5_bitcount_def)
  next
    case False
    define hd' where "hd' = (if ?t \<noteq> 0 then take (64 - ?t) data else [])"
    define tl' where "tl' = (if ?t \<noteq> 0 then drop (64 - ?t) data else data)"
    define c1 where "c1 = (if ?t \<noteq> 0 then md5_transform_in (?c\<lparr>inb := mem_write (inb ctx) ?t hd'\<rparr>) else ?c)"
    have data: "data = hd' @ tl'"
      by (simp add: hd'_def tl'_def)
    obtain c2 rest where c2: "md5_chunks c1 tl' = (c2, rest)"
      by (cases "md5_chunks c1 tl'")
    have upd: "MD5Update ctx data = c2\<lparr>inb := mem_write (inb c2) 0 rest\<rparr>"
      using False c2 unfolding MD5Update_def Let_def t by (simp add: c1_def hd'_def tl'_def split: if_splits)
    have full: "(length s + length hd') mod 64 = 0"
      using False by (auto simp: hd'_def mod_add_eq [symmetric, of "length s"])
    have "md5_absorbed s ?c \<longleftrightarrow> md5_bitcount ?c = md5_bitcount ctx"
      using assms(1) by (simp add: md5_absorbed_def)
    have b1: "buf c1 = md5_blocks md5_iv (s @ hd')" "bits c1 = bits ?c" "length (inb c1) = 64"
      using False assms(1) md5_fill_block [OF assms(1), of hd'] L
      by (auto simp: c1_def hd'_def md5_transform_in_def md5_absorbed_def)
    have c2': "buf c2 = md5_blocks (buf c1) tl'" "rest = md5_rest tl'" "bits c2 = bits c1" "length (inb c2) = 64"
      using md5_chunks_spec [of c1 tl'] b1 c2 by auto
    have "md5_blocks md5_iv (s @ data) = buf c2"
      using md5_blocks_append [of "s @ hd'" md5_iv tl'] full by (simp add: data c2' b1)
    moreover have "md5_rest (s @ data) = rest"
      using md5_rest_append [of "s @ hd'" tl'] full by (simp add: data c2')
    moreover have "length (s @ data) mod 64 = length rest"
      using calculation(2) length_md5_rest by metis
    ultimately show ?thesis
      using upd cnt c2' b1 take_mem_write [of 0 "inb c2" rest]
      by (simp add: md5_absorbed_def md5_bitcount_def)
  qed
qed

lemma length_le_bytes [simp]: "length (le_bytes w) = 4"
  by (simp add: le_bytes_def)

lemma md5_length_words:
  assumes "md5_bitcount ctx = 8 * n mod 2 ^ 64"
  shows "fst (bits ctx) = of_nat (8 * n)" "snd (bits ctx) = of_nat (8 * n div 2 ^ 32)"
proof -
  have lo: "unat (fst (bits ctx)) < 2 ^ 32" and hi: "unat (snd (bits ctx)) < 2 ^ 32"
    using unsigned_less [of "fst (bits ctx)", where ?'a = nat]
      unsigned_less [of "snd (bits ctx)", where ?'a = nat] by simp_all
  have m: "8 * n mod 2 ^ 64 = 8 * n mod 2 ^ 32 + 2 ^ 32 * ((8 * n div 2 ^ 32) mod 2 ^ 32)"
    using mod_mult2_eq [of "8 * n" "2 ^ 32" "2 ^ 32"] by simp
  have "unat (fst (bits ctx)) = md5_bitcount ctx mod 2 ^ 32"
    using lo by (simp add: md5_bitcount_def)
  also have "\<dots> = 8 * n mod 2 ^ 32"
    by (simp add: assms mod_mod_cancel)
  finally show "fst (bits ctx) = of_nat (8 * n)"
    by (simp only: word_unat_eq_iff unat_of_nat) simp
  have "unat (snd (bits ctx)) = md5_bitcount ctx div 2 ^ 32"
    using lo by (simp add: md5_bitcount_def)
  also have "\<dots> = (8 * n div 2 ^ 32) mod 2 ^ 32"
    by (simp only: assms m) simp
  finally show "snd (bits ctx) = of_nat (8 * n div 2 ^ 32)"
    by (simp only: word_unat_eq_iff unat_of_nat) simp
qed

lemma md5_transform_in_buf:
  "buf (md5_transform_in c) = rfc_transform (buf c) (words_of (inb c))"
  "inb (md5_transform_in c) = inb c" "bits (md5_transform_in c) = bits c"
  by (simp_all add: md5_transform_in_def MD5Transform_rfc)

lemma split_8:
  assumes "length q = 8"
  obtains a b where "q = a @ b" "length a = 4" "length b = 4"
  using assms by (intro that [of "take 4 q" "drop 4 q"]) simp_all

lemma md5_write_lengths:
  assumes "length p = 56" "length y3 = 4" "length y4 = 4"
  shows "mem_write (p @ y3 @ y4) 56 (le_bytes l) = p @ le_bytes l @ y4"
    "mem_write (p @ le_bytes l @ y4) 60 (le_bytes h) = p @ le_bytes l @ le_bytes h"
  using assms by (simp_all add: mem_write_def)

lemma md5_blocks_last: "length p = 64 \<Longrightarrow> md5_blocks b p = rfc_transform b (words_of p)"
  using md5_blocks_one [of p b "[]"] by simp

lemma MD5Final_digest:
  assumes "md5_absorbed s ctx"
  shows "fst (MD5Final ctx) = rfc_md5 s"
proof -
  define r where "r = length s mod 64"
  have r: "unat (drop_bit 3 (fst (bits ctx)) AND 0x3F) = r" "r < 64"
    using assms md5_position by (simp_all add: md5_absorbed_def r_def)
  have len: "fst (bits ctx) = of_nat (8 * length s)" "snd (bits ctx) = of_nat (8 * length s div 2 ^ 32)"
    using assms md5_length_words by (simp_all only: md5_absorbed_def)
  define R where "R = md5_rest s"
  define c where "c = drop r (inb ctx)"
  have inb: "inb ctx = R @ c" "length R = r" "length c = 64 - r"
    using assms by (auto simp: R_def c_def r_def md5_absorbed_def) (metis append_take_drop_id)
  let ?l = "le_bytes (of_nat (8 * length s))"
  let ?h = "le_bytes (of_nat (8 * length s div 2 ^ 32))"
  obtain y where y: "length y = 63 - r" and w1: "mem_write (inb ctx) r [0x80] = R @ 0x80 # y"
    using inb r by (intro that [of "tl c"]; cases c) (auto simp: mem_write_def)
  have spec: "rfc_md5 s = digest_of (md5_blocks (buf ctx)
      (R @ 0x80 # replicate ((119 - r) mod 64) 0 @ ?l @ ?h))"
    using assms md5_blocks_cons [of md5_iv s "rfc_pad (length s)"]
    by (simp add: rfc_md5_def rfc_pad_length md5_absorbed_def R_def r_def)
  show ?thesis
  proof (cases "63 - r < 8")
    case True
    let ?p = "R @ 0x80 # replicate (63 - r) 0"
    have w2: "mem_write (R @ 0x80 # y) (Suc r) (replicate (63 - r) 0) = ?p"
      using inb r y by (simp add: mem_write_def)
    have w3: "mem_write ?p 0 (replicate 56 0) = replicate 56 0 @ drop 56 ?p" "length (drop 56 ?p) = 8"
      using inb r by (simp_all add: mem_write_def)
    obtain y3 y4 where y34: "drop 56 ?p = y3 @ y4" "length y3 = 4" "length y4 = 4"
      by (rule split_8 [OF w3(2)])
    have w3': "mem_write ?p 0 (replicate 56 0) = replicate 56 0 @ y3 @ y4"
      by (simp only: w3(1) y34(1))
    have z: "replicate ((119 - r) mod 64) (0::byte) = replicate (63 - r) 0 @ replicate 56 0"
      using True r by (subst replicate_add [symmetric]) simp
    have "rfc_md5 s = digest_of (md5_blocks (buf ctx) (?p @ (replicate 56 0 @ ?l @ ?h)))"
      unfolding spec z by simp
    also have "\<dots> = digest_of (rfc_transform (rfc_transform (buf ctx) (words_of ?p)) (words_of (replicate 56 0 @ ?l @ ?h)))"
      using inb r by (subst md5_blocks_one, simp, subst md5_blocks_last) simp_all
    also have "\<dots> = fst (MD5Final ctx)"
      using True unfolding MD5Final_def Let_def r
      by (simp add: w1 w2 w3' md5_transform_in_buf len md5_write_lengths [OF _ y34(2,3)] del: replicate.simps)
    finally show ?thesis ..
  next
    case False
    have z: "(119 - r) mod 64 = 55 - r"
      using False by (simp add: le_mod_geq)
    have "length (drop (55 - r) y) = 8"
      using False y by simp
    then obtain y3 y4 where y34: "drop (55 - r) y = y3 @ y4" "length y3 = 4" "length y4 = 4"
      by (rule split_8)
    define y1 where "y1 = take (55 - r) y"
    have y134: "y = y1 @ y3 @ y4" "length y1 = 55 - r" "length y3 = 4" "length y4 = 4"
      using y34 False y by (simp_all add: y1_def) (metis append_take_drop_id)
    let ?p = "R @ 0x80 # replicate (55 - r) 0"
    have s56: "56 - r = Suc (55 - r)"
      using False by arith
    have w2: "mem_write (R @ 0x80 # y) (Suc r) (replicate (55 - r) 0) = ?p @ y3 @ y4" "length ?p = 56"
      using inb r y134 False s56 by (simp_all add: mem_write_def)
    have "rfc_md5 s = digest_of (rfc_transform (buf ctx) (words_of (?p @ ?l @ ?h)))"
      unfolding spec z using md5_blocks_last [of "?p @ ?l @ ?h"] w2(2) by simp
    also have "\<dots> = fst (MD5Final ctx)"
      using False unfolding MD5Final_def Let_def r
      by (simp add: w1 w2(1) md5_transform_in_buf len md5_write_lengths [OF w2(2) y134(3,4)] del: replicate.simps append.simps append_assoc)
    finally show ?thesis ..
  qed
qed

lemma MD5Final_shape:
  "\<exists>c. MD5Final ctx = (digest_of (buf c), c\<lparr>buf := (case buf c of (a, b, c, d) \<Rightarrow> (0, b, c, d))\<rparr>)
     \<and> bits c = bits ctx"
  unfolding MD5Final_def Let_def by (rule exI, rule conjI, rule refl) (simp add: md5_transform_in_def)

subsection \<open>The incremental interface\<close>

text \<open>
  What a client of a piecewise digest relies on: a relation between the message so far and the
  context, established by the initialisation, kept by the update, and read by the final call.
\<close>

locale incremental_digest =
  fixes absorbed :: "'b list \<Rightarrow> 'c \<Rightarrow> bool"
    and usable :: "'c \<Rightarrow> bool"
    and initc :: "'c \<Rightarrow> 'c"
    and update :: "'c \<Rightarrow> 'b list \<Rightarrow> 'c"
    and final :: "'c \<Rightarrow> 'd \<times> 'c"
    and digest :: "'b list \<Rightarrow> 'd"
    and bound :: nat
  assumes init_absorbed: "usable c \<Longrightarrow> absorbed [] (initc c)"
    and update_absorbed: "absorbed s c \<Longrightarrow> length d < bound \<Longrightarrow> absorbed (s @ d) (update c d)"
    and final_digest: "absorbed s c \<Longrightarrow> fst (final c) = digest s"
begin

lemma updates_absorbed:
  "absorbed s c \<Longrightarrow> \<forall>d\<in>set ds. length d < bound \<Longrightarrow> absorbed (s @ concat ds) (foldl update c ds)"
proof (induction ds arbitrary: s c)
  case Nil
  then show ?case by simp
next
  case (Cons d ds)
  then have "absorbed ((s @ d) @ concat ds) (foldl update (update c d) ds)"
    by (intro Cons.IH) (auto intro: update_absorbed)
  then show ?case by simp
qed

lemma digest_of_pieces:
  assumes "usable c" "\<forall>d\<in>set ds. length d < bound"
  shows "fst (final (foldl update (initc c) ds)) = digest (concat ds)"
  using updates_absorbed [OF init_absorbed [OF assms(1)] assms(2)] by (simp add: final_digest)

end

interpretation md5: incremental_digest md5_absorbed "\<lambda>c. length (inb c) = 64"
  MD5Init MD5Update MD5Final rfc_md5 "2 ^ 32"
  by unfold_locales (auto intro: md5_absorbed_init MD5Update_absorbs MD5Final_digest)

subsection \<open>Properties\<close>

text \<open>
  C3: A message handed to \<open>MD5Update\<close> in any division into pieces (each shorter than \<open>2^32\<close>
  bytes, the range of the length argument) gives the RFC 1321 digest of the whole message:
  \<open>MD5Init\<close>, the calls of \<open>MD5Update\<close> and \<open>MD5Final\<close> compute padding, length and
  chaining correctly at every buffer position.
\<close>
theorem MD5_digest_of_pieces:
  assumes "length (inb ctx) = 64"
    and "\<forall>d\<in>set pieces. length d < 2 ^ 32"
  shows "fst (MD5Final (foldl MD5Update (MD5Init ctx) pieces)) = rfc_md5 (concat pieces)"
  using assms by (rule md5.digest_of_pieces)

theorem MD5_digest_of_pieces_witness:
  "fst (MD5Final (foldl MD5Update (MD5Init \<lparr>buf = (1, 2, 3, 4), bits = (5, 6), inb = replicate 64 7\<rparr>)
     [[97], [98, 99]])) =
   [0x90, 0x01, 0x50, 0x98, 0x3c, 0xd2, 0x4f, 0xb0, 0xd6, 0x96, 0x3f, 0x7d, 0x28, 0xe1, 0x7f, 0x72]"
  apply (subst MD5_digest_of_pieces)
    apply simp
   apply simp
  apply code_simp
  done

text \<open>
  C26: The unrolled transform, its four optimised round functions and its 64 constants, shifts
  and data indices included, is the loop over the 64 steps that RFC 1321 describes.
\<close>
theorem MD5Transform_is_rfc:
  "MD5Transform (a, b, c, d) X = rfc_add (a, b, c, d) (fold (rfc_step X) [0..<64] (a, b, c, d))"
  by (simp add: MD5Transform_rfc rfc_transform_def)

text \<open>
  \<open>MD5Final\<close> does not clear the context: three of its four chaining words, which are
  twelve of the sixteen digest bytes, and the whole input buffer survive the \<open>memset\<close>, whose
  size is the size of a pointer.
\<close>
theorem MD5Final_leaves_state:
  "drop 4 (digest_of (buf (snd (MD5Final ctx)))) = drop 4 (fst (MD5Final ctx))
   \<and> bits (snd (MD5Final ctx)) = bits ctx"
proof -
  obtain c where "MD5Final ctx = (digest_of (buf c), c\<lparr>buf := (case buf c of (a, b, c, d) \<Rightarrow> (0, b, c, d))\<rparr>)"
    "bits c = bits ctx"
    using MD5Final_shape [of ctx] by auto
  then show ?thesis
    by (cases "buf c") (simp add: digest_of_def le_bytes_def)
qed

end
