(* ===== verification/G729_Bits.thy ===== *)
theory G729_Bits
  imports IppArith
begin

text \<open>
  The G.729 bit stream: the bit reader \<open>ExtractBitsG729\<close> (\<open>owng729.c\<close>), the packing of the
  encoder's parameters into frames (\<open>encg729.c\<close>, end of \<open>G729Encode\<close>, \<open>G729AEncode\<close>,
  \<open>G729BaseEncode\<close>) and the reading of the parameters by \<open>apiG729Decode\<close> (\<open>decg729.c\<close>), with
  the parity bit of the pitch index (\<open>equality\<close>, \<open>owng729.h\<close>).

  Specification: a frame is the string of its bits, most significant bit first; packing
  concatenates the fields at their widths and reading takes them off again.
\<close>

subsection \<open>The code\<close>

fun extract_loop :: "int list \<Rightarrow> int \<Rightarrow> int \<Rightarrow> nat \<Rightarrow> int \<Rightarrow> int" where
  "extract_loop p n i 0 b = b"
| "extract_loop p n i (Suc k) b =
     (let temp = s16 (drop_bit (nat (7 - ((i + n) AND 7))) (p ! nat (drop_bit 3 (i + n))) AND 1);
          b = s16 (push_bit 1 b);
          b = s16 (b + temp)
      in extract_loop p n (i + 1) k b)"

text \<open>The result, the advanced byte pointer (as the bytes from it on) and the bit offset.\<close>

definition ExtractBitsG729 :: "int list \<Rightarrow> int \<Rightarrow> int \<Rightarrow> int \<times> int list \<times> int" where
  "ExtractBitsG729 p n count =
     (extract_loop p n 0 (nat count) 0, drop (nat (drop_bit 3 (count + n))) p, (count + n) AND 7)"

text \<open>Consecutive calls of \<open>ExtractBitsG729(&pParm, &i, w)\<close>, one for each width.\<close>

fun extract_fields :: "int list \<Rightarrow> int \<Rightarrow> int list \<Rightarrow> int list" where
  "extract_fields p n [] = []"
| "extract_fields p n (w # ws) =
     (case ExtractBitsG729 p n w of (v, p', n') \<Rightarrow> v # extract_fields p' n' ws)"

definition FIR_STAGE_BITS :: int where "FIR_STAGE_BITS = 7"
definition SEC_STAGE_BITS :: int where "SEC_STAGE_BITS = 5"

fun equality_loop :: "nat \<Rightarrow> int \<Rightarrow> int \<Rightarrow> int" where
  "equality_loop 0 temp s = s"
| "equality_loop (Suc k) temp s =
     (let temp = drop_bit 1 temp; b = temp AND 1 in equality_loop k temp (s + b))"

definition equality :: "int \<Rightarrow> int" where
  "equality val = equality_loop 6 (drop_bit 1 val) 1 AND 1"

datatype G729Codec_Type = G729_CODEC | G729A_CODEC | G729D_CODEC | G729E_CODEC | G729I_CODEC

text \<open>The frames of the encoder. \<open>anau\<close> is the list of the parameters from the pointer on.\<close>

definition pack_SID :: "int list \<Rightarrow> int list" where
  "pack_SID anau =
     [u8 (push_bit 7 (anau ! 0 AND 1) OR push_bit 2 (anau ! 1 AND 31) OR drop_bit 2 (anau ! 2 AND 15)),
      u8 (push_bit 6 (anau ! 2 AND 3) OR push_bit 1 (anau ! 3 AND 31))]"

definition pack_G729 :: "int list \<Rightarrow> int list" where
  "pack_G729 anau =
     [u8 (anau ! 0 AND 255),
      u8 (drop_bit 2 (anau ! 1 AND 0x3ff)),
      u8 (push_bit 6 (anau ! 1 AND 3) OR (drop_bit 2 (anau ! 2) AND 0x3f)),
      u8 (push_bit 6 (anau ! 2 AND 3) OR push_bit 5 (anau ! 3 AND 1) OR drop_bit 8 (anau ! 4 AND 8191)),
      u8 (anau ! 4 AND 255),
      u8 (push_bit 4 (anau ! 5 AND 15) OR drop_bit 3 (anau ! 6 AND 127)),
      u8 (push_bit 5 (anau ! 6 AND 7) OR (anau ! 7 AND 31)),
      u8 (drop_bit 5 (anau ! 8 AND 8191)),
      u8 (push_bit 3 (anau ! 8 AND 31) OR drop_bit 1 (anau ! 9 AND 15)),
      u8 (push_bit 7 (anau ! 9 AND 1) OR (anau ! 10 AND 127))]"

definition pack_G729D :: "int list \<Rightarrow> int list" where
  "pack_G729D anau =
     [u8 (anau ! 0 AND 255),
      u8 (drop_bit 2 (anau ! 1 AND 0x3ff)),
      u8 (push_bit 6 (anau ! 1 AND 3) OR (drop_bit 2 (anau ! 2) AND 0x3f)),
      u8 (push_bit 6 (anau ! 2 AND 3) OR (drop_bit 3 (anau ! 3) AND 0x3f)),
      u8 (push_bit 5 (anau ! 3 AND 7) OR push_bit 3 (anau ! 4 AND 3) OR (drop_bit 3 (anau ! 5) AND 7)),
      u8 (push_bit 5 (anau ! 5 AND 7) OR push_bit 1 (anau ! 6 AND 15) OR (drop_bit 8 (anau ! 7) AND 1)),
      u8 (anau ! 7 AND 255),
      u8 (push_bit 6 (anau ! 8 AND 3) OR (anau ! 9 AND 0x3f))]"

definition pack_G729E_fwd :: "int list \<Rightarrow> int list" where
  "pack_G729E_fwd anau =
     [u8 (drop_bit 2 (anau ! 0) AND 0x3f),
      u8 (push_bit 6 (anau ! 0 AND 3) OR (drop_bit 4 (anau ! 1) AND 0x3f)),
      u8 (push_bit 4 (anau ! 1 AND 15) OR (drop_bit 4 (anau ! 2) AND 15)),
      u8 (push_bit 4 (anau ! 2 AND 15) OR push_bit 3 (anau ! 3 AND 1) OR (drop_bit 4 (anau ! 4) AND 7)),
      u8 (push_bit 4 (anau ! 4 AND 15) OR (drop_bit 3 (anau ! 5) AND 15)),
      u8 (push_bit 5 (anau ! 5 AND 7) OR (drop_bit 2 (anau ! 6) AND 31)),
      u8 (push_bit 6 (anau ! 6 AND 3) OR (drop_bit 1 (anau ! 7) AND 0x3f)),
      u8 (push_bit 7 (anau ! 7 AND 1) OR (anau ! 8 AND 127)),
      u8 (push_bit 1 (anau ! 9 AND 127) OR (drop_bit 4 (anau ! 10) AND 1)),
      u8 (push_bit 4 (anau ! 10 AND 15) OR (drop_bit 3 (anau ! 11) AND 15)),
      u8 (push_bit 5 (anau ! 11 AND 7) OR (drop_bit 2 (anau ! 12) AND 31)),
      u8 (push_bit 6 (anau ! 12 AND 3) OR (drop_bit 1 (anau ! 13) AND 0x3f)),
      u8 (push_bit 7 (anau ! 13 AND 1) OR (anau ! 14 AND 127)),
      u8 (push_bit 1 (anau ! 15 AND 127) OR (drop_bit 6 (anau ! 16) AND 1)),
      u8 (push_bit 2 (anau ! 16 AND 0x3f))]"

definition pack_G729E_bwd :: "int list \<Rightarrow> int list" where
  "pack_G729E_bwd anau =
     [u8 (push_bit 6 3 OR (drop_bit 2 (anau ! 0) AND 0x3f)),
      u8 (push_bit 6 (anau ! 0 AND 3) OR push_bit 5 (anau ! 1 AND 1) OR (drop_bit 8 (anau ! 2) AND 31)),
      u8 (anau ! 2 AND 255),
      u8 (drop_bit 2 (anau ! 3) AND 255),
      u8 (push_bit 6 (anau ! 3 AND 3) OR (drop_bit 1 (anau ! 4) AND 0x3f)),
      u8 (push_bit 7 (anau ! 4 AND 1) OR (anau ! 5 AND 127)),
      u8 (push_bit 1 (anau ! 6 AND 127) OR (drop_bit 6 (anau ! 7) AND 1)),
      u8 (push_bit 2 (anau ! 7 AND 0x3f) OR (drop_bit 3 (anau ! 8) AND 3)),
      u8 (push_bit 5 (anau ! 8 AND 7) OR (drop_bit 8 (anau ! 9) AND 31)),
      u8 (anau ! 9 AND 255),
      u8 (drop_bit 2 (anau ! 10) AND 255),
      u8 (push_bit 6 (anau ! 10 AND 3) OR (drop_bit 1 (anau ! 11) AND 0x3f)),
      u8 (push_bit 7 (anau ! 11 AND 1) OR (anau ! 12 AND 127)),
      u8 (push_bit 1 (anau ! 13 AND 127) OR (drop_bit 6 (anau ! 14) AND 1)),
      u8 (push_bit 2 (anau ! 14 AND 0x3f))]"

text \<open>
  The end of \<open>G729Encode\<close>: where the parameters start in \<open>encPrm\<close>, the frame type and the
  bytes written, for the encoder's codec type, the VAD switch and the LP mode.
\<close>

definition anau_offset :: "G729Codec_Type \<Rightarrow> bool \<Rightarrow> nat" where
  "anau_offset codecType vadEnable =
     (if codecType = G729_CODEC \<and> \<not> vadEnable then 0
      else if codecType = G729E_CODEC then 2 else 1)"

definition PackFrame :: "G729Codec_Type \<Rightarrow> bool \<Rightarrow> int \<Rightarrow> int list \<Rightarrow> int \<times> int list \<Rightarrow> int \<times> int list" where
  "PackFrame codecType vadEnable lpMode encPrm out =
     (let anau = drop (anau_offset codecType vadEnable) encPrm
      in if codecType = G729_CODEC then (3, pack_G729 anau)
         else if codecType = G729D_CODEC then (2, pack_G729D anau)
         else if codecType = G729E_CODEC
              then (4, if lpMode = 0 then pack_G729E_fwd anau else pack_G729E_bwd anau)
         else out)"

text \<open>A frame without speech: nothing is sent (type 0) or a silence descriptor (type 1).\<close>

definition PackSilence :: "int list \<Rightarrow> int \<times> int list" where
  "PackSilence encPrm =
     (if encPrm ! 0 = 0 then (0, []) else (1, pack_SID (drop 1 encPrm)))"

text \<open>The decoder's parameters and codec type for a frame type and the received bytes.\<close>

definition parity_error :: "int list \<Rightarrow> nat \<Rightarrow> nat \<Rightarrow> int list" where
  "parity_error prm pitch par =
     prm[par := s16 ((equality (prm ! pitch) + prm ! par) AND 1)]"

definition DecodeParms :: "int \<Rightarrow> int list \<Rightarrow> int list \<times> G729Codec_Type \<Rightarrow> int list \<times> G729Codec_Type" where
  "DecodeParms frametype src st =
     (case st of (prm, ct) \<Rightarrow>
      if frametype = -1 then (prm[1 := 0, 0 := 1], ct)
      else if frametype = 0 then (prm[1 := 0, 0 := 0], ct)
      else if frametype = 1 then (mem_write (prm[1 := 1, 0 := 0]) 2 (extract_fields src 0 [1, 5, 4, 5]), ct)
      else if frametype = 2 then
        (mem_write (prm[0 := 0, 1 := 2]) 2
           (extract_fields src 0 [1 + FIR_STAGE_BITS, SEC_STAGE_BITS * 2, 8, 9, 2, 6, 4, 9, 2, 6]),
         G729D_CODEC)
      else if frametype = 3 then
        (parity_error
           (mem_write (prm[1 := 3, 0 := 0]) 2
              (extract_fields src 0 [1 + FIR_STAGE_BITS, SEC_STAGE_BITS * 2, 8, 1, 13, 4, 7, 5, 13, 4, 7]))
           4 5,
         G729_CODEC)
      else if frametype = 4 then
        (case ExtractBitsG729 src 0 2 of (tmp, p, i) \<Rightarrow>
          let prm = prm[0 := 0, 1 := 4];
              (prm, pitch) =
                (if tmp = 0
                 then (mem_write (prm[2 := 0]) 3
                         (extract_fields p i [1 + FIR_STAGE_BITS, SEC_STAGE_BITS * 2, 8, 1,
                            7, 7, 7, 7, 7, 7, 5, 7, 7, 7, 7, 7, 7]), 5)
                 else (mem_write (prm[2 := 1]) 3
                         (extract_fields p i [8, 1, 13, 10, 7, 7, 7, 7, 5, 13, 10, 7, 7, 7, 7]), 3));
              i = drop_bit 1 (prm ! pitch) AND 1;
              prm = prm[pitch + 1 := s16 (prm ! (pitch + 1) + i)]
          in (parity_error prm pitch (pitch + 1), G729E_CODEC))
      else (prm, ct))"

subsection \<open>The bit string of a byte sequence\<close>

definition byte_bits :: "int \<Rightarrow> bool list" where
  "byte_bits b = [bit b 7, bit b 6, bit b 5, bit b 4, bit b 3, bit b 2, bit b 1, bit b 0]"

definition bits_of :: "int list \<Rightarrow> bool list" where
  "bits_of p = concat (map byte_bits p)"

definition field_bits :: "int \<Rightarrow> int \<Rightarrow> bool list" where
  "field_bits w f = map (\<lambda>k. bit f (nat w - 1 - k)) [0..<nat w]"

definition bits_val :: "bool list \<Rightarrow> int" where
  "bits_val bs = foldl (\<lambda>v b. 2 * v + of_bool b) 0 bs"

lemma length_byte_bits [simp]: "length (byte_bits b) = 8"
  by (simp add: byte_bits_def)

lemma bits_of_simps [simp]:
  "bits_of [] = []" "bits_of (b # p) = byte_bits b @ bits_of p"
  by (simp_all add: bits_of_def)

lemma length_bits_of [simp]: "length (bits_of p) = 8 * length p"
  by (induction p) simp_all

lemma byte_bits_nth: "k < 8 \<Longrightarrow> byte_bits b ! k = bit b (7 - k)"
  by (simp add: byte_bits_def nth_Cons' eval_nat_numeral) (auto simp: less_Suc_eq)

lemma bits_of_nth:
  "m < 8 * length p \<Longrightarrow> bits_of p ! m = bit (p ! (m div 8)) (7 - m mod 8)"
proof (induction p arbitrary: m)
  case (Cons b p)
  show ?case
  proof (cases "m < 8")
    case True
    then show ?thesis by (simp add: nth_append byte_bits_nth)
  next
    case False
    then show ?thesis
      using Cons by (simp add: nth_append le_div_geq le_mod_geq)
  qed
qed simp

lemma bits_of_drop: "bits_of (drop k p) = drop (8 * k) (bits_of p)"
proof (induction p arbitrary: k)
  case (Cons b p)
  then show ?case by (cases k) simp_all
qed simp

lemma bits_val_snoc: "bits_val (bs @ [b]) = 2 * bits_val bs + of_bool b"
  by (simp add: bits_val_def)

lemma bits_val_field: "bits_val (map (\<lambda>k. bit f (n - 1 - k)) [0..<n]) = take_bit n f"
proof (induction n arbitrary: f)
  case 0
  then show ?case by (simp add: bits_val_def)
next
  case (Suc n)
  have "map (\<lambda>k. bit f (Suc n - 1 - k)) [0..<Suc n] =
      map (\<lambda>k. bit (f div 2) (n - 1 - k)) [0..<n] @ [bit f 0]"
  proof -
    have "bit f (n - x) = bit (f div 2) (n - Suc x)" if "x < n" for x
      using that bit_Suc [of f "n - Suc x"] by (simp add: Suc_diff_Suc)
    then show ?thesis
      by simp
  qed
  then show ?case
    by (simp only: bits_val_snoc Suc take_bit_Suc) (simp add: bit_0 mod2_eq_if of_bool_def)
qed

lemma bits_val_field_bits: "0 \<le> w \<Longrightarrow> 0 \<le> f \<Longrightarrow> f < 2 ^ nat w \<Longrightarrow> bits_val (field_bits w f) = f"
  unfolding field_bits_def bits_val_field by (simp add: take_bit_int_eq_self_iff)

subsection \<open>The reader takes bits off the string\<close>

lemma extract_bit:
  fixes m :: int
  assumes "0 \<le> m" "nat m < 8 * length p"
  shows "s16 (drop_bit (nat (7 - (m AND 7))) (p ! nat (drop_bit 3 m)) AND 1) = of_bool (bits_of p ! nat m)"
proof -
  have "m AND 7 = m mod 8"
    by (rule and_7)
  then have *: "nat (7 - (m AND 7)) = 7 - nat m mod 8"
    using assms by (simp add: nat_diff_distrib nat_mod_distrib)
  have d: "nat (drop_bit 3 m) = nat m div 8"
    using assms by (simp add: drop_bit_eq_div nat_div_distrib)
  show ?thesis
    using assms
    by (simp add: * d bits_of_nth and_one_eq bit_iff_odd drop_bit_eq_div mod2_eq_if s16_id nat_div_distrib)
qed

lemma extract_loop_reads:
  assumes "0 \<le> m" "m = i + n" "nat m + k \<le> 8 * length p" "0 \<le> b" "(b + 1) * 2 ^ k \<le> 2 ^ 15"
  shows "extract_loop p n i k b =
    foldl (\<lambda>v b. 2 * v + of_bool b) b (take k (drop (nat m) (bits_of p)))"
  using assms
proof (induction k arbitrary: i b m)
  case 0
  then show ?case by simp
next
  case (Suc k)
  let ?x = "of_bool (bits_of p ! nat m) :: int"
  have big: "2 * b + 2 \<le> 2 ^ 15"
  proof -
    have "(b + 1) * 2 ^ 1 \<le> (b + 1) * 2 ^ Suc k"
      using Suc.prems by (intro mult_left_mono power_increasing) simp_all
    then show ?thesis
      using Suc.prems by simp
  qed
  have step: "s16 (drop_bit (nat (7 - ((i + n) AND 7))) (p ! nat (drop_bit 3 (i + n))) AND 1) = ?x"
    using extract_bit [of m p] Suc.prems by simp
  have x: "0 \<le> ?x" "?x \<le> 1"
    by simp_all
  have ids: "s16 (push_bit 1 b) = 2 * b" "s16 (2 * b + ?x) = 2 * b + ?x"
    using big Suc.prems x by (simp_all add: push_bit_eq_mult s16_id)
  have "(2 * b + ?x + 1) * 2 ^ k \<le> (2 * b + 2) * 2 ^ k"
    using x by (intro mult_right_mono) simp_all
  moreover have "(2 * b + 2) * 2 ^ k \<le> 2 ^ 15"
    using Suc.prems by (simp add: algebra_simps)
  ultimately have "(2 * b + ?x + 1) * 2 ^ k \<le> 2 ^ 15"
    by (rule order_trans)
  then have "extract_loop p n (i + 1) k (2 * b + ?x) =
      foldl (\<lambda>v b. 2 * v + of_bool b) (2 * b + ?x) (take k (drop (nat (m + 1)) (bits_of p)))"
    using Suc.prems x by (intro Suc.IH) auto
  moreover have "take (Suc k) (drop (nat m) (bits_of p)) = (bits_of p ! nat m) # take k (drop (nat (m + 1)) (bits_of p))"
    using Suc.prems by (subst Cons_nth_drop_Suc [symmetric]) (simp_all add: nat_add_distrib)
  ultimately show ?case
    by (simp only: extract_loop.simps Let_def step ids foldl.simps)
qed

text \<open>The unread part of the string at a byte pointer and bit offset.\<close>

definition unread :: "int list \<Rightarrow> int \<Rightarrow> bool list" where
  "unread p n = drop (nat n) (bits_of p)"

lemma ExtractBits_reads:
  assumes "0 \<le> n" "0 < w" "w \<le> 15" "nat w \<le> length (unread p n)"
  shows "case ExtractBitsG729 p n w of (v, p', n') \<Rightarrow>
    v = bits_val (take (nat w) (unread p n)) \<and> unread p' n' = drop (nat w) (unread p n) \<and> 0 \<le> n'"
proof -
  have "(2::int) ^ nat w \<le> 2 ^ 15"
    using assms by (intro power_increasing) auto
  then have "extract_loop p n 0 (nat w) 0 = bits_val (take (nat w) (unread p n))"
    unfolding bits_val_def unread_def using assms
    by (intro extract_loop_reads) (auto simp: unread_def)
  moreover have "unread (drop (nat (drop_bit 3 (w + n))) p) ((w + n) AND 7) = drop (nat w) (unread p n)"
  proof -
    have "nat ((w + n) AND 7) + 8 * nat (drop_bit 3 (w + n)) = nat w + nat n"
      using assms by (simp add: and_7 drop_bit_eq_div nat_mod_distrib nat_div_distrib nat_add_distrib)
    then show ?thesis
      by (simp add: unread_def bits_of_drop add.commute)
  qed
  ultimately show ?thesis
    by (simp add: ExtractBitsG729_def and_7)
qed

text \<open>Reading at the widths of a packed sequence of fields gives the fields back.\<close>

definition fields_bits :: "int list \<Rightarrow> int list \<Rightarrow> bool list" where
  "fields_bits ws fs = concat (map2 field_bits ws fs)"

definition in_fields :: "int list \<Rightarrow> int list \<Rightarrow> bool" where
  "in_fields ws fs \<longleftrightarrow> list_all2 (\<lambda>w f. 0 < w \<and> w \<le> 15 \<and> 0 \<le> f \<and> f < 2 ^ nat w) ws fs"

lemma fields_bits_simps [simp]:
  "fields_bits [] fs = []" "fields_bits ws [] = []"
  "fields_bits (w # ws) (f # fs) = field_bits w f @ fields_bits ws fs"
  by (simp_all add: fields_bits_def)

lemma length_field_bits [simp]: "length (field_bits w f) = nat w"
  by (simp add: field_bits_def)

lemma extract_one:
  assumes "unread p n = field_bits w f @ rest" "0 \<le> n" "0 < w" "w \<le> 15" "0 \<le> f" "f < 2 ^ nat w"
  shows "\<exists>p' n'. ExtractBitsG729 p n w = (f, p', n') \<and> unread p' n' = rest \<and> 0 \<le> n'"
  using ExtractBits_reads [of n w p] assms
  by (cases "ExtractBitsG729 p n w") (auto simp: bits_val_field_bits)

lemma extract_fields_packed:
  assumes "unread p n = fields_bits ws fs @ rest" "in_fields ws fs" "0 \<le> n"
  shows "extract_fields p n ws = fs"
  using assms(2,1,3) unfolding in_fields_def
proof (induction ws fs arbitrary: p n rule: list_all2_induct)
  case Nil
  then show ?case by simp
next
  case (Cons w ws f fs)
  then obtain p' n' where "ExtractBitsG729 p n w = (f, p', n')"
    "unread p' n' = fields_bits ws fs @ rest" "0 \<le> n'"
    using extract_one [of p n w f "fields_bits ws fs @ rest"] by auto
  then show ?case
    using Cons.IH by simp
qed

lemma extract_fields_frame:
  assumes "bits_of p = fields_bits ws fs @ rest" "in_fields ws fs"
  shows "extract_fields p 0 ws = fs"
  using assms by (intro extract_fields_packed) (auto simp: unread_def)

subsection \<open>The frames as bit strings\<close>

lemma bit_u8: "k < 8 \<Longrightarrow> bit (u8 x) k = bit x k"
proof -
  have "u8 x = take_bit 8 x"
    by (simp add: u8_def take_bit_eq_mod)
  then show "k < 8 \<Longrightarrow> bit (u8 x) k = bit x k"
    by (simp add: bit_take_bit_iff)
qed

lemma field_bits_eval:
  "field_bits 1 f = [bit f 0]" "field_bits 2 f = [bit f 1, bit f 0]"
  "field_bits 4 f = [bit f 3, bit f 2, bit f 1, bit f 0]"
  "field_bits 5 f = [bit f 4, bit f 3, bit f 2, bit f 1, bit f 0]"
  "field_bits 6 f = [bit f 5, bit f 4, bit f 3, bit f 2, bit f 1, bit f 0]"
  "field_bits 7 f = [bit f 6, bit f 5, bit f 4, bit f 3, bit f 2, bit f 1, bit f 0]"
  "field_bits 8 f = [bit f 7, bit f 6, bit f 5, bit f 4, bit f 3, bit f 2, bit f 1, bit f 0]"
  "field_bits 9 f = [bit f 8, bit f 7, bit f 6, bit f 5, bit f 4, bit f 3, bit f 2, bit f 1, bit f 0]"
  "field_bits 10 f = [bit f 9, bit f 8, bit f 7, bit f 6, bit f 5, bit f 4, bit f 3, bit f 2, bit f 1, bit f 0]"
  "field_bits 13 f = [bit f 12, bit f 11, bit f 10, bit f 9, bit f 8, bit f 7, bit f 6, bit f 5,
     bit f 4, bit f 3, bit f 2, bit f 1, bit f 0]"
  by (simp_all add: field_bits_def upt_rec)

lemma bit_times_2: "bit (x * 2 :: int) k \<longleftrightarrow> 0 < k \<and> bit x (k - 1)"
  using bit_double_iff [of x k] by (cases k) (simp_all add: mult.commute bit_0)

lemmas byte_expr_simps = bit_u8 bit_times_2 numeral_2_eq_2 [symmetric] numeral_3_eq_3 [symmetric] byte_bits_def bit_or_iff bit_and_iff bit_push_bit_iff bit_drop_bit_eq

lemma pack_G729_bits:
  "bits_of (pack_G729 [a0, a1, a2, a3, a4, a5, a6, a7, a8, a9, a10]) =
     fields_bits [8, 10, 8, 1, 13, 4, 7, 5, 13, 4, 7] [a0, a1, a2, a3, a4, a5, a6, a7, a8, a9, a10]"
  by (simp add: pack_G729_def field_bits_eval byte_expr_simps)

lemma pack_SID_bits:
  "bits_of (pack_SID [a0, a1, a2, a3]) = fields_bits [1, 5, 4, 5] [a0, a1, a2, a3] @ [False]"
  by (simp add: pack_SID_def field_bits_eval byte_expr_simps)

lemma pack_G729D_bits:
  "bits_of (pack_G729D [a0, a1, a2, a3, a4, a5, a6, a7, a8, a9]) =
     fields_bits [8, 10, 8, 9, 2, 6, 4, 9, 2, 6] [a0, a1, a2, a3, a4, a5, a6, a7, a8, a9]"
  by (simp add: pack_G729D_def field_bits_eval byte_expr_simps)

lemma pack_G729E_fwd_bits:
  "bits_of (pack_G729E_fwd [a0, a1, a2, a3, a4, a5, a6, a7, a8, a9, a10, a11, a12, a13, a14, a15, a16]) =
     [False, False] @ fields_bits [8, 10, 8, 1, 7, 7, 7, 7, 7, 7, 5, 7, 7, 7, 7, 7, 7]
       [a0, a1, a2, a3, a4, a5, a6, a7, a8, a9, a10, a11, a12, a13, a14, a15, a16] @ [False, False]"
  by (simp add: pack_G729E_fwd_def field_bits_eval byte_expr_simps)

lemma pack_G729E_bwd_bits:
  "bits_of (pack_G729E_bwd [a0, a1, a2, a3, a4, a5, a6, a7, a8, a9, a10, a11, a12, a13, a14]) =
     [True, True] @ fields_bits [8, 1, 13, 10, 7, 7, 7, 7, 5, 13, 10, 7, 7, 7, 7]
       [a0, a1, a2, a3, a4, a5, a6, a7, a8, a9, a10, a11, a12, a13, a14] @ [False, False]"
  by (simp add: pack_G729E_bwd_def field_bits_eval byte_expr_simps)

subsection \<open>The parity bit\<close>

lemma equality_bits:
  "equality x = (1 + of_bool (bit x 2) + of_bool (bit x 3) + of_bool (bit x 4)
     + of_bool (bit x 5) + of_bool (bit x 6) + of_bool (bit x 7)) mod 2"
  by (simp add: equality_def eval_nat_numeral and_one_eq bit_iff_odd_drop_bit mod2_eq_if
      mod_simps del: of_bool_eq_iff)

lemma equality_01: "equality x = 0 \<or> equality x = 1"
  by (auto simp: equality_bits)

lemma equality_flip:
  assumes "k \<in> {2..7}"
  shows "equality (x XOR 2 ^ k) = 1 - equality x"
proof -
  have k: "k = 2 \<or> k = 3 \<or> k = 4 \<or> k = 5 \<or> k = 6 \<or> k = 7"
    using assms by auto
  have b: "bit (x XOR 2 ^ k) j = (bit x j \<noteq> (j = k))" for j
    by (auto simp: bit_xor_iff bit_exp_iff)
  let ?s = "\<lambda>f. 1 + of_bool (f 2) + of_bool (f 3) + of_bool (f 4) + of_bool (f 5) + of_bool (f 6) + of_bool (f (7::nat)) :: int"
  have flip: "(s + 1 - 2 * z) mod 2 = 1 - s mod 2" for s z :: int
    by presburger
  have "equality (x XOR 2 ^ k) = ?s (\<lambda>j. bit x j \<noteq> (j = k)) mod 2"
    by (simp only: equality_bits b)
  also have "?s (\<lambda>j. bit x j \<noteq> (j = k)) = ?s (bit x) + 1 - 2 * of_bool (bit x k)"
    using k by (elim disjE; cases "bit x k") simp_all
  finally show ?thesis
    by (simp only: flip equality_bits)
qed

lemma parity_of_parity [simp]: "(equality x + equality x) AND 1 = 0"
  using equality_01 [of x] by (auto simp: and_one_eq)

lemma parity_twice [simp]: "2 * equality x AND 1 = 0"
  by (simp add: and_one_eq)

lemma parity_flipped: "k \<in> {2..7} \<Longrightarrow> (equality (x XOR 2 ^ k) + equality x) AND 1 = 1"
  using equality_01 [of x] by (auto simp: equality_flip and_one_eq)

lemma parity_E:
  "(equality x + s16 ((equality x XOR (drop_bit 1 x AND 1)) + (drop_bit 1 x AND 1))) AND 1 = 0"
  using equality_01 [of x] by (auto simp: and_one_eq s16_id mod2_eq_if)

subsection \<open>Decoding what was encoded\<close>

lemma decPrm_20:
  assumes "length prm = 20"
  obtains p0 p1 p2 rest where "prm = p0 # p1 # p2 # rest" "length rest = 17"
  using assms by (auto simp: length_Suc_conv numeral_eq_Suc)

lemma decode_G729:
  assumes "length prm = 20"
    and "in_fields [8, 10, 8, 1, 13, 4, 7, 5, 13, 4, 7] [a0, a1, a2, a3, a4, a5, a6, a7, a8, a9, a10]"
  shows "DecodeParms 3 (pack_G729 [a0, a1, a2, a3, a4, a5, a6, a7, a8, a9, a10]) (prm, ct) =
    ([0, 3, a0, a1, a2, (equality a2 + a3) AND 1, a4, a5, a6, a7, a8, a9, a10] @ drop 13 prm, G729_CODEC)"
proof -
  have "extract_fields (pack_G729 [a0, a1, a2, a3, a4, a5, a6, a7, a8, a9, a10]) 0
      [8, 10, 8, 1, 13, 4, 7, 5, 13, 4, 7] = [a0, a1, a2, a3, a4, a5, a6, a7, a8, a9, a10]"
    using extract_fields_frame [OF _ assms(2), of _ "[]"] pack_G729_bits by simp
  moreover have "s16 ((equality a2 + a3) AND 1) = (equality a2 + a3) AND 1"
    by (simp add: and_one_eq s16_id mod2_eq_if)
  ultimately show ?thesis
    using assms(1) by (elim decPrm_20)
      (simp add: DecodeParms_def FIR_STAGE_BITS_def SEC_STAGE_BITS_def mem_write_def parity_error_def)
qed

lemma decode_SID:
  assumes "length prm = 20" and "in_fields [1, 5, 4, 5] [a0, a1, a2, a3]"
  shows "DecodeParms 1 (pack_SID [a0, a1, a2, a3]) (prm, ct) = ([0, 1, a0, a1, a2, a3] @ drop 6 prm, ct)"
proof -
  have "extract_fields (pack_SID [a0, a1, a2, a3]) 0 [1, 5, 4, 5] = [a0, a1, a2, a3]"
    by (rule extract_fields_frame [OF pack_SID_bits assms(2)])
  then show ?thesis
    using assms(1) by (elim decPrm_20) (simp add: DecodeParms_def mem_write_def)
qed

lemma decode_G729D:
  assumes "length prm = 20"
    and "in_fields [8, 10, 8, 9, 2, 6, 4, 9, 2, 6] [a0, a1, a2, a3, a4, a5, a6, a7, a8, a9]"
  shows "DecodeParms 2 (pack_G729D [a0, a1, a2, a3, a4, a5, a6, a7, a8, a9]) (prm, ct) =
    ([0, 2, a0, a1, a2, a3, a4, a5, a6, a7, a8, a9] @ drop 12 prm, G729D_CODEC)"
proof -
  have "extract_fields (pack_G729D [a0, a1, a2, a3, a4, a5, a6, a7, a8, a9]) 0
      [8, 10, 8, 9, 2, 6, 4, 9, 2, 6] = [a0, a1, a2, a3, a4, a5, a6, a7, a8, a9]"
    using extract_fields_frame [OF _ assms(2), of _ "[]"] pack_G729D_bits by simp
  then show ?thesis
    using assms(1) by (elim decPrm_20)
      (simp add: DecodeParms_def FIR_STAGE_BITS_def SEC_STAGE_BITS_def mem_write_def)
qed

text \<open>The two mode bits of a \<open>G729E\<close> frame come off first.\<close>

lemma extract_mode_bits:
  assumes "bits_of p = [b, c] @ fields_bits ws fs @ rest" "in_fields ws fs"
  shows "\<exists>p' i. ExtractBitsG729 p 0 2 = (2 * of_bool b + of_bool c, p', i) \<and> extract_fields p' i ws = fs"
proof -
  obtain v p' i where e: "ExtractBitsG729 p 0 2 = (v, p', i)"
    by (cases "ExtractBitsG729 p 0 2") auto
  have "v = bits_val (take 2 (bits_of p)) \<and> unread p' i = drop 2 (bits_of p) \<and> 0 \<le> i"
    using ExtractBits_reads [of 0 2 p] e assms(1) arg_cong [OF assms(1), of length]
    by (simp add: unread_def)
  then show ?thesis
    using e assms extract_fields_packed [of p' i ws fs rest] by (simp add: bits_val_def)
qed

lemma decode_G729E_fwd:
  assumes "length prm = 20"
    and "in_fields [8, 10, 8, 1, 7, 7, 7, 7, 7, 7, 5, 7, 7, 7, 7, 7, 7]
       [a0, a1, a2, a3, a4, a5, a6, a7, a8, a9, a10, a11, a12, a13, a14, a15, a16]"
    and "a3 = equality a2 XOR (drop_bit 1 a2 AND 1)"
  shows "DecodeParms 4 (pack_G729E_fwd [a0, a1, a2, a3, a4, a5, a6, a7, a8, a9, a10, a11, a12, a13, a14, a15, a16]) (prm, ct) =
    ([0, 4, 0, a0, a1, a2, 0, a4, a5, a6, a7, a8, a9, a10, a11, a12, a13, a14, a15, a16], G729E_CODEC)"
proof -
  obtain p' i where "ExtractBitsG729 (pack_G729E_fwd [a0, a1, a2, a3, a4, a5, a6, a7, a8, a9, a10, a11, a12, a13, a14, a15, a16]) 0 2 = (0, p', i)"
    "extract_fields p' i [8, 10, 8, 1, 7, 7, 7, 7, 7, 7, 5, 7, 7, 7, 7, 7, 7] =
       [a0, a1, a2, a3, a4, a5, a6, a7, a8, a9, a10, a11, a12, a13, a14, a15, a16]"
    using extract_mode_bits [OF pack_G729E_fwd_bits assms(2)] by auto
  then show ?thesis
    using assms(1) parity_E [of a2] unfolding assms(3)
    by (elim decPrm_20)
      (simp add: DecodeParms_def FIR_STAGE_BITS_def SEC_STAGE_BITS_def mem_write_def parity_error_def s16_id)
qed

lemma decode_G729E_bwd:
  assumes "length prm = 20"
    and "in_fields [8, 1, 13, 10, 7, 7, 7, 7, 5, 13, 10, 7, 7, 7, 7]
       [a0, a1, a2, a3, a4, a5, a6, a7, a8, a9, a10, a11, a12, a13, a14]"
    and "a1 = equality a0 XOR (drop_bit 1 a0 AND 1)"
  shows "DecodeParms 4 (pack_G729E_bwd [a0, a1, a2, a3, a4, a5, a6, a7, a8, a9, a10, a11, a12, a13, a14]) (prm, ct) =
    ([0, 4, 1, a0, 0, a2, a3, a4, a5, a6, a7, a8, a9, a10, a11, a12, a13, a14] @ drop 18 prm, G729E_CODEC)"
proof -
  obtain p' i where "ExtractBitsG729 (pack_G729E_bwd [a0, a1, a2, a3, a4, a5, a6, a7, a8, a9, a10, a11, a12, a13, a14]) 0 2 = (3, p', i)"
    "extract_fields p' i [8, 1, 13, 10, 7, 7, 7, 7, 5, 13, 10, 7, 7, 7, 7] =
       [a0, a1, a2, a3, a4, a5, a6, a7, a8, a9, a10, a11, a12, a13, a14]"
    using extract_mode_bits [OF pack_G729E_bwd_bits assms(2)] by auto
  then show ?thesis
    using assms(1) parity_E [of a0] unfolding assms(3)
    by (elim decPrm_20)
      (simp add: DecodeParms_def mem_write_def parity_error_def s16_id)
qed

subsection \<open>The framing contract\<close>

text \<open>What the two ends of a link rely on: reading undoes writing for the valid parameters.\<close>

locale framing =
  fixes pack :: "'p \<Rightarrow> 'b"
    and parse :: "'b \<Rightarrow> 'p"
    and valid :: "'p \<Rightarrow> bool"
  assumes parse_pack: "valid p \<Longrightarrow> parse (pack p) = p"
begin

lemma pack_determines: "valid p \<Longrightarrow> valid q \<Longrightarrow> pack p = pack q \<Longrightarrow> p = q"
  by (metis parse_pack)

lemma pack_inj_on: "inj_on pack {p. valid p}"
  by (rule inj_onI) (simp add: pack_determines)

end

definition widths_G729 :: "int list" where "widths_G729 = [8, 10, 8, 1, 13, 4, 7, 5, 13, 4, 7]"
definition widths_G729D :: "int list" where "widths_G729D = [8, 10, 8, 9, 2, 6, 4, 9, 2, 6]"
definition widths_SID :: "int list" where "widths_SID = [1, 5, 4, 5]"

lemma in_fields_length: "in_fields ws fs \<Longrightarrow> length fs = length ws"
  by (simp add: in_fields_def list_all2_lengthD)

lemma in_fields_Cons_iff:
  "in_fields (w # ws) fs \<longleftrightarrow>
     (\<exists>f gs. fs = f # gs \<and> 0 < w \<and> w \<le> 15 \<and> 0 \<le> f \<and> f < 2 ^ nat w \<and> in_fields ws gs)"
  by (auto simp: in_fields_def list_all2_Cons1)

lemma in_fields_Nil_iff: "in_fields [] fs \<longleftrightarrow> fs = []"
  by (simp add: in_fields_def)

lemma extract_pack_G729:
  assumes "in_fields widths_G729 fs"
  shows "extract_fields (pack_G729 fs) 0 widths_G729 = fs"
  using assms unfolding widths_G729_def in_fields_Cons_iff in_fields_Nil_iff
  by (elim exE conjE, hypsubst)
    (rule extract_fields_frame [where rest = "[]"],
      simp add: pack_G729_bits, simp add: in_fields_def)

lemma extract_pack_G729D:
  assumes "in_fields widths_G729D fs"
  shows "extract_fields (pack_G729D fs) 0 widths_G729D = fs"
  using assms unfolding widths_G729D_def in_fields_Cons_iff in_fields_Nil_iff
  by (elim exE conjE, hypsubst)
    (rule extract_fields_frame [where rest = "[]"],
      simp add: pack_G729D_bits, simp add: in_fields_def)

lemma extract_pack_SID:
  assumes "in_fields widths_SID fs"
  shows "extract_fields (pack_SID fs) 0 widths_SID = fs"
  using assms unfolding widths_SID_def in_fields_Cons_iff in_fields_Nil_iff
  by (elim exE conjE, hypsubst)
    (rule extract_fields_frame [where rest = "[False]"],
      simp add: pack_SID_bits, simp add: in_fields_def)

interpretation fr_G729: framing pack_G729 "\<lambda>p. extract_fields p 0 widths_G729" "in_fields widths_G729"
  by unfold_locales (rule extract_pack_G729)

interpretation fr_G729D: framing pack_G729D "\<lambda>p. extract_fields p 0 widths_G729D" "in_fields widths_G729D"
  by unfold_locales (rule extract_pack_G729D)

interpretation fr_SID: framing pack_SID "\<lambda>p. extract_fields p 0 widths_SID" "in_fields widths_SID"
  by unfold_locales (rule extract_pack_SID)

subsection \<open>Properties\<close>

lemma pack_append:
  "pack_G729 ([a0, a1, a2, a3, a4, a5, a6, a7, a8, a9, a10] @ more) = pack_G729 [a0, a1, a2, a3, a4, a5, a6, a7, a8, a9, a10]"
  "pack_G729D ([a0, a1, a2, a3, a4, a5, a6, a7, a8, a9] @ more) = pack_G729D [a0, a1, a2, a3, a4, a5, a6, a7, a8, a9]"
  "pack_G729E_fwd ([a0, a1, a2, a3, a4, a5, a6, a7, a8, a9, a10, a11, a12, a13, a14, a15, a16] @ more) =
     pack_G729E_fwd [a0, a1, a2, a3, a4, a5, a6, a7, a8, a9, a10, a11, a12, a13, a14, a15, a16]"
  "pack_G729E_bwd ([a0, a1, a2, a3, a4, a5, a6, a7, a8, a9, a10, a11, a12, a13, a14] @ more) =
     pack_G729E_bwd [a0, a1, a2, a3, a4, a5, a6, a7, a8, a9, a10, a11, a12, a13, a14]"
  "pack_SID ([a0, a1, a2, a3] @ more) = pack_SID [a0, a1, a2, a3]"
  by (simp_all add: pack_G729_def pack_G729D_def pack_G729E_fwd_def pack_G729E_bwd_def pack_SID_def)

text \<open>
  C4: A G.729 voice frame decodes to the parameters that were encoded: eleven fields in ten
  bytes, with the parity check of the pitch index passing (parameter 5 is the parity error).
\<close>
theorem G729_frame_roundtrip:
  assumes "drop (anau_offset G729_CODEC vad) encPrm = [a0, a1, a2, a3, a4, a5, a6, a7, a8, a9, a10] @ more"
    and "in_fields [8, 10, 8, 1, 13, 4, 7, 5, 13, 4, 7] [a0, a1, a2, a3, a4, a5, a6, a7, a8, a9, a10]"
    and "a3 = equality a2" and "length prm = 20"
  shows "DecodeParms (fst (PackFrame G729_CODEC vad lpMode encPrm out)) (snd (PackFrame G729_CODEC vad lpMode encPrm out)) (prm, ct)
    = ([0, 3, a0, a1, a2, 0, a4, a5, a6, a7, a8, a9, a10] @ drop 13 prm, G729_CODEC)"
  unfolding PackFrame_def Let_def assms(1) pack_append
  using decode_G729 [OF assms(4,2)] assms(3) by simp

theorem G729_frame_roundtrip_witness:
  "DecodeParms (fst (PackFrame G729_CODEC True 0 [3, 200, 1000, 77, 0, 8000, 15, 100, 31, 5000, 9, 127, 0, 0] (0, [])))
     (snd (PackFrame G729_CODEC True 0 [3, 200, 1000, 77, 0, 8000, 15, 100, 31, 5000, 9, 127, 0, 0] (0, [])))
     (replicate 20 5, G729D_CODEC)
   = ([0, 3, 200, 1000, 77, 0, 8000, 15, 100, 31, 5000, 9, 127] @ drop 13 (replicate 20 5), G729_CODEC)"
  by (rule G729_frame_roundtrip [where ?a3.0 = 0 and more = "[0, 0]"])
    (simp_all add: anau_offset_def in_fields_def equality_def eval_nat_numeral and_one_eq)

text \<open>
  A G.729 Annex D frame (6.4 kbit/s) decodes to the ten parameters that were encoded, from eight bytes.
\<close>
theorem G729D_frame_roundtrip:
  assumes "drop (anau_offset G729D_CODEC vad) encPrm = [a0, a1, a2, a3, a4, a5, a6, a7, a8, a9] @ more"
    and "in_fields [8, 10, 8, 9, 2, 6, 4, 9, 2, 6] [a0, a1, a2, a3, a4, a5, a6, a7, a8, a9]"
    and "length prm = 20"
  shows "DecodeParms (fst (PackFrame G729D_CODEC vad lpMode encPrm out)) (snd (PackFrame G729D_CODEC vad lpMode encPrm out)) (prm, ct)
    = ([0, 2, a0, a1, a2, a3, a4, a5, a6, a7, a8, a9] @ drop 12 prm, G729D_CODEC)"
  unfolding PackFrame_def Let_def assms(1) pack_append
  using decode_G729D [OF assms(3,2)] by simp

theorem G729D_frame_roundtrip_witness:
  "DecodeParms (fst (PackFrame G729D_CODEC False 0 [2, 200, 1000, 77, 400, 3, 60, 15, 500, 2, 63, 0] (0, [])))
     (snd (PackFrame G729D_CODEC False 0 [2, 200, 1000, 77, 400, 3, 60, 15, 500, 2, 63, 0] (0, [])))
     (replicate 20 5, G729_CODEC)
   = ([0, 2, 200, 1000, 77, 400, 3, 60, 15, 500, 2, 63] @ drop 12 (replicate 20 5), G729D_CODEC)"
  by (rule G729D_frame_roundtrip [where more = "[0]"])
    (simp_all add: anau_offset_def in_fields_def)

text \<open>
  A forward-mode G.729 Annex E frame (11.8 kbit/s) decodes to the encoder's parameters: the
  mode bits select the forward layout, and the parity bit, which Annex E computes with the second
  bit of the pitch index added in, checks.
\<close>
theorem G729E_forward_roundtrip:
  assumes "drop (anau_offset G729E_CODEC vad) encPrm =
      [a0, a1, a2, a3, a4, a5, a6, a7, a8, a9, a10, a11, a12, a13, a14, a15, a16] @ more"
    and "in_fields [8, 10, 8, 1, 7, 7, 7, 7, 7, 7, 5, 7, 7, 7, 7, 7, 7]
      [a0, a1, a2, a3, a4, a5, a6, a7, a8, a9, a10, a11, a12, a13, a14, a15, a16]"
    and "a3 = equality a2 XOR (drop_bit 1 a2 AND 1)" and "length prm = 20"
  shows "DecodeParms (fst (PackFrame G729E_CODEC vad 0 encPrm out)) (snd (PackFrame G729E_CODEC vad 0 encPrm out)) (prm, ct)
    = ([0, 4, 0, a0, a1, a2, 0, a4, a5, a6, a7, a8, a9, a10, a11, a12, a13, a14, a15, a16], G729E_CODEC)"
  unfolding PackFrame_def Let_def assms(1) pack_append
  using decode_G729E_fwd [OF assms(4,2,3)] by simp

theorem G729E_forward_roundtrip_witness:
  "DecodeParms (fst (PackFrame G729E_CODEC False 0 [4, 0, 200, 1000, 77, 0, 1, 2, 3, 4, 5, 6, 7, 8, 9, 10, 11, 12, 127] (0, [])))
     (snd (PackFrame G729E_CODEC False 0 [4, 0, 200, 1000, 77, 0, 1, 2, 3, 4, 5, 6, 7, 8, 9, 10, 11, 12, 127] (0, [])))
     (replicate 20 5, G729_CODEC)
   = ([0, 4, 0, 200, 1000, 77, 0, 1, 2, 3, 4, 5, 6, 7, 8, 9, 10, 11, 12, 127], G729E_CODEC)"
  by (rule G729E_forward_roundtrip [where ?a3.0 = 0 and more = "[]"])
    (simp_all add: anau_offset_def in_fields_def equality_def eval_nat_numeral and_one_eq)

text \<open>A backward-mode G.729 Annex E frame decodes to the encoder's parameters.\<close>
theorem G729E_backward_roundtrip:
  assumes "drop (anau_offset G729E_CODEC vad) encPrm =
      [a0, a1, a2, a3, a4, a5, a6, a7, a8, a9, a10, a11, a12, a13, a14] @ more"
    and "in_fields [8, 1, 13, 10, 7, 7, 7, 7, 5, 13, 10, 7, 7, 7, 7]
      [a0, a1, a2, a3, a4, a5, a6, a7, a8, a9, a10, a11, a12, a13, a14]"
    and "a1 = equality a0 XOR (drop_bit 1 a0 AND 1)" and "length prm = 20" and "lpMode \<noteq> 0"
  shows "DecodeParms (fst (PackFrame G729E_CODEC vad lpMode encPrm out)) (snd (PackFrame G729E_CODEC vad lpMode encPrm out)) (prm, ct)
    = ([0, 4, 1, a0, 0, a2, a3, a4, a5, a6, a7, a8, a9, a10, a11, a12, a13, a14] @ drop 18 prm, G729E_CODEC)"
  unfolding PackFrame_def Let_def assms(1) pack_append
  using decode_G729E_bwd [OF assms(4,2,3)] assms(5) by simp

theorem G729E_backward_roundtrip_witness:
  "DecodeParms (fst (PackFrame G729E_CODEC False 1 [4, 1, 77, 0, 8000, 1023, 1, 2, 3, 4, 5, 6, 7, 8, 9, 10, 127, 0, 0] (0, [])))
     (snd (PackFrame G729E_CODEC False 1 [4, 1, 77, 0, 8000, 1023, 1, 2, 3, 4, 5, 6, 7, 8, 9, 10, 127, 0, 0] (0, [])))
     (replicate 20 5, G729_CODEC)
   = ([0, 4, 1, 77, 0, 8000, 1023, 1, 2, 3, 4, 5, 6, 7, 8, 9, 10, 127] @ drop 18 (replicate 20 5), G729E_CODEC)"
  by (rule G729E_backward_roundtrip [where ?a1.0 = 0 and more = "[0, 0]"])
    (simp_all add: anau_offset_def in_fields_def equality_def eval_nat_numeral and_one_eq)

text \<open>A silence descriptor decodes to the four parameters that were encoded and keeps the codec type.\<close>
theorem SID_frame_roundtrip:
  assumes "encPrm = m # [a0, a1, a2, a3] @ more" and "m \<noteq> 0"
    and "in_fields [1, 5, 4, 5] [a0, a1, a2, a3]" and "length prm = 20"
  shows "DecodeParms (fst (PackSilence encPrm)) (snd (PackSilence encPrm)) (prm, ct)
    = ([0, 1, a0, a1, a2, a3] @ drop 6 prm, ct)"
  unfolding PackSilence_def assms(1)
  using decode_SID [OF assms(4,3)] assms(2) pack_append(5) [of a0 a1 a2 a3 more] by simp

theorem SID_frame_roundtrip_witness:
  "DecodeParms (fst (PackSilence [1, 1, 30, 15, 17, 99])) (snd (PackSilence [1, 1, 30, 15, 17, 99])) (replicate 20 5, G729_CODEC)
    = ([0, 1, 1, 30, 15, 17] @ drop 6 (replicate 20 5), G729_CODEC)"
  by (rule SID_frame_roundtrip [where m = 1 and more = "[99]"]) (simp_all add: in_fields_def)

text \<open>
  C33: The parity bit detects every single bit error in the six most significant bits of the
  pitch index: the decoder then sees the parity error flag 1.
\<close>
theorem G729_parity_detects:
  assumes "k \<in> {2..7}" and "length prm = 20"
    and "in_fields [8, 10, 8, 1, 13, 4, 7, 5, 13, 4, 7]
      [a0, a1, a2 XOR 2 ^ k, equality a2, a4, a5, a6, a7, a8, a9, a10]"
  shows "fst (DecodeParms 3 (pack_G729 [a0, a1, a2 XOR 2 ^ k, equality a2, a4, a5, a6, a7, a8, a9, a10]) (prm, ct)) ! 5 = 1"
  using decode_G729 [OF assms(2,3), of ct] parity_flipped [OF assms(1), of a2] by (simp add: eval_nat_numeral)

theorem G729_parity_detects_witness:
  "fst (DecodeParms 3 (pack_G729 [200, 1000, 77 XOR 2 ^ 4, equality 77, 8000, 15, 100, 31, 5000, 9, 127])
     (replicate 20 0, G729_CODEC)) ! 5 = 1"
  by (rule G729_parity_detects)
    (simp_all add: in_fields_def equality_def eval_nat_numeral and_one_eq)

end
