(* ===== verification/G729_Tables.thy ===== *)
theory G729_Tables
  imports FJ_Prelude
begin

text \<open>
  The dimensions of \<open>owng729.h\<close> and the constant tables of \<open>owng729.c\<close>, \<open>encg729.c\<close>,
  \<open>decg729.c\<close> and \<open>vadg729.c\<close>, with their entries evaluated. The lemmas give the lengths and
  the ranges the code relies on when it indexes the tables or multiplies their entries.
\<close>

subsection \<open>Dimensions\<close>

definition LPF_DIM :: int where "LPF_DIM = 10"
definition LP_SUBFRAME_DIM :: int where "LP_SUBFRAME_DIM = 40"
definition LP_FRAME_DIM :: int where "LP_FRAME_DIM = 80"
definition LP_WINDOW_DIM :: int where "LP_WINDOW_DIM = 240"
definition LP_LOOK_AHEAD :: int where "LP_LOOK_AHEAD = 40"
definition SPEECH_BUF_DIM :: int where "SPEECH_BUF_DIM = 240"
definition BWLPCF_DIM :: int where "BWLPCF_DIM = 30"
definition BWLPCF1_DIM :: int where "BWLPCF1_DIM = 31"
definition VAD_LPC_DIM :: int where "VAD_LPC_DIM = 12"
definition CORR_DIM :: int where "CORR_DIM = 616"
definition MIN_PITCH_LAG :: int where "MIN_PITCH_LAG = 20"
definition MAX_PITCH_LAG :: int where "MAX_PITCH_LAG = 143"
definition INTERPOLATION_FILTER_DIM :: int where "INTERPOLATION_FILTER_DIM = 11"
definition L_prevExcitat :: int where "L_prevExcitat = 154"
definition IMP_RESP_LEN :: int where "IMP_RESP_LEN = 20"
definition IMP_RESP_LEN_E :: int where "IMP_RESP_LEN_E = 32"
definition CDBK1_BIT_NUM :: int where "CDBK1_BIT_NUM = 3"
definition CDBK2_BIT_NUM :: int where "CDBK2_BIT_NUM = 4"
definition CDBK1_BIT_NUM_6K :: int where "CDBK1_BIT_NUM_6K = 3"
definition CDBK2_BIT_NUM_6K :: int where "CDBK2_BIT_NUM_6K = 3"
definition PITCH_SHARP_MIN :: int where "PITCH_SHARP_MIN = 3277"
definition PITCH_SHARP_MAX :: int where "PITCH_SHARP_MAX = 13017"
definition PITCH_GAIN_MAX :: int where "PITCH_GAIN_MAX = 15564"
definition BWF_HARMONIC :: int where "BWF_HARMONIC = 16384"
definition BWF_HARMONIC_E :: int where "BWF_HARMONIC_E = 8192"
definition CNG_STACK_SIZE :: int where "CNG_STACK_SIZE = 32"
definition LSF_MIN :: int where "LSF_MIN = 40"
definition LSF_MAX :: int where "LSF_MAX = 25681"
definition BW_EXP_FACT :: int where "BW_EXP_FACT = 321"
definition SID_FRAME_MIN :: int where "SID_FRAME_MIN = 3"
definition SEED_INIT :: int where "SEED_INIT = 11111"
definition ACF_NOW :: int where "ACF_NOW = 2"
definition ACF_TOTAL :: int where "ACF_TOTAL = 3"
definition GAIN0 :: int where "GAIN0 = 28672"
definition GAIN1 :: int where "GAIN1 = 4096"
definition GAIN_NUM :: int where "GAIN_NUM = 2"
definition ACF_DIM :: int where "ACF_DIM = 22"
definition TOTAL_ACF_DIM :: int where "TOTAL_ACF_DIM = 33"
definition G729_ENCODER_SCRATCH_MEMORY_SIZE :: int where "G729_ENCODER_SCRATCH_MEMORY_SIZE = 10280"
definition ENC_KEY :: int where "ENC_KEY = 15521577"
definition DEC_KEY :: int where "DEC_KEY = 14599977"
definition BWF2 :: int where "BWF2 = 22938"
definition COEFF1 :: int where "COEFF1 = 29491"
definition SIX_PI :: int where "SIX_PI = 19302"
definition SYNTH_BWD_DIM :: int where "SYNTH_BWD_DIM = 65"
definition TBWD_DIM :: int where "TBWD_DIM = 145"
definition RES_FIL_DIM :: int where "RES_FIL_DIM = 152"
definition N0_98 :: int where "N0_98 = 32113"

lemmas g729_dims =
  LPF_DIM_def LP_SUBFRAME_DIM_def LP_FRAME_DIM_def LP_WINDOW_DIM_def LP_LOOK_AHEAD_def SPEECH_BUF_DIM_def BWLPCF_DIM_def BWLPCF1_DIM_def VAD_LPC_DIM_def CORR_DIM_def MIN_PITCH_LAG_def MAX_PITCH_LAG_def INTERPOLATION_FILTER_DIM_def L_prevExcitat_def IMP_RESP_LEN_def IMP_RESP_LEN_E_def CDBK1_BIT_NUM_def CDBK2_BIT_NUM_def CDBK1_BIT_NUM_6K_def CDBK2_BIT_NUM_6K_def PITCH_SHARP_MIN_def PITCH_SHARP_MAX_def PITCH_GAIN_MAX_def BWF_HARMONIC_def BWF_HARMONIC_E_def CNG_STACK_SIZE_def LSF_MIN_def LSF_MAX_def BW_EXP_FACT_def SID_FRAME_MIN_def SEED_INIT_def ACF_NOW_def ACF_TOTAL_def GAIN0_def GAIN1_def GAIN_NUM_def ACF_DIM_def TOTAL_ACF_DIM_def G729_ENCODER_SCRATCH_MEMORY_SIZE_def ENC_KEY_def DEC_KEY_def BWF2_def COEFF1_def SIX_PI_def SYNTH_BWD_DIM_def TBWD_DIM_def RES_FIL_DIM_def N0_98_def

subsection \<open>Tables of \<open>owng729.c\<close>\<close>

definition energy_fact :: "int list" where
  "energy_fact = [
    820, 52, 26]"

definition energy_off :: "int list" where
  "energy_off = [
    0, 0, 1]"

definition energyLogTable :: "int list" where
  "energyLogTable = [
    2466, 2520, 2571, 2619, 2665, 2708, 2749, 2789, 2827, 2863, 2898, 2931, 2964, 2995, 3025, 3054,
    3083]"

definition wlag_bwd :: "int list" where
  "wlag_bwd = [
    2147252352, 2147202688, 2147120000, 2147004032, 2146855040, 2146673024, 2146457728, 2146209536,
    2145928192, 2145613952, 2145266432, 2144886016, 2144472704, 2144026240, 2143546880, 2143034624,
    2142489344, 2141911296, 2141300224, 2140656512, 2139979776, 2139270400, 2138528128, 2137753344,
    2136945920, 2136105600, 2135232896, 2134327552, 2133389696, 2132419328]"

definition presetOldA :: "int list" where
  "presetOldA = [
    4096, 0, 0, 0, 0, 0, 0, 0, 0, 0, 0]"

definition presetLSP :: "int list" where
  "presetLSP = [
    30000, 26000, 21000, 15000, 8000, 0, - 8000, - 15000, - 21000, - 26000]"

definition resetPrevLSP :: "int list" where
  "resetPrevLSP = [
    2339, 4679, 7018, 9358, 11698, 14037, 16377, 18717, 21056, 23396]"

definition SIDgain :: "int list" where
  "SIDgain = [
    2, 5, 8, 13, 20, 32, 50, 64, 80, 101, 127, 160, 201, 253, 318, 401, 505, 635, 800, 1007, 1268,
    1596, 2010, 2530, 3185, 4009, 5048, 6355, 8000, 10071, 12679, 15962]"

definition areas :: "int list" where
  "areas = [
    0, 0, 0, 0, 0, 0, 0, 0, 0, 0, 0, 0, 0, 0, 0, 0, 0, 0, 0, 0, 0, 0, 0, 0, 0, 0, 0, 0, 0, 0, 0, 0,
    0, 0, 0, 0, 0, 0, 0, 0, 1, 1, 1, 1, 1, 1, 1, 1, 1, 1, 1, 1, 1, 1, 1, 1, 1, 1, 1, 1, 1, 1, 1, 1,
    1, 1, 1, 1, 1, 1, 1, 1, 1, 1, 1, 1, 1, 1, 1, 1, 2, 2, 2, 2, 2, 2, 2, 2, 2, 2, 2, 2, 2, 2, 2, 2,
    2, 2, 2, 2, 2, 2, 2, 2, 2, 2, 2, 2, 2, 2, 2, 2, 2, 2, 2, 2, 2, 2, 2, 2, 3, 3, 3, 3, 3, 3, 3, 3,
    3, 3, 3, 3, 3, 3, 3, 3, 3, 3, 3, 3, 3, 3, 3, 3, 3, 3, 3, 3, 3, 3, 3, 3, 3, 0, 0, 0]"

definition LUT1 :: "int list" where
  "LUT1 = [
    5, 1, 4, 7, 3, 0, 6, 2]"

definition LUT2 :: "int list" where
  "LUT2 = [
    4, 6, 0, 2, 12, 14, 8, 10, 15, 11, 9, 13, 7, 3, 1, 5]"

definition logTable :: "int list" where
  "logTable = [
    0, 1455, 2866, 4236, 5568, 6863, 8124, 9352, 10549, 11716, 12855, 13967, 15054, 16117, 17156,
    18172, 19167, 20142, 21097, 22033, 22951, 23852, 24735, 25603, 26455, 27291, 28113, 28922,
    29716, 30497, 31266, 32023, 32767]"

definition cngCache :: "int list list" where
  "cngCache = [
    [86, - 609, 391, 173, - 80, - 718, - 47, 559, 235, 676, - 4, - 110, 5, - 521, - 506, - 300,
     256, - 727, - 527, - 9, - 38, 60, - 69, - 263, 661, - 722, - 154, 1500, 303, - 511, - 272,
     - 866, 938, 179, 91, 833, 4, - 698, 933, - 573],
    [225, 547, - 292, - 470, 302, 264, 728, - 578, - 294, 332, 1589, - 845, 487, 241, 241, 775, 83,
     - 523, - 242, 188, - 992, 602, 650, - 48, 332, 542, - 153, 581, - 39, 323, 931, 25, - 59,
     - 569, - 192, - 178, - 238, - 596, 60, 482],
    [- 57, - 821, 254, - 1, 365, - 278, 21, - 371, - 12, - 536, 11, 1020, - 166, 455, - 798, 74,
     - 95, 133, 152, - 647, 199, - 476, - 209, - 633, - 306, - 350, - 859, 118, 436, - 511, - 260,
     68, 379, 63, 50, 755, 33, - 674, 585, - 383],
    [1140, 589, 364, - 527, - 516, - 83, - 220, 1154, - 27, 878, - 707, - 1166, 557, - 626, 437,
     - 317, - 810, 15, 654, 115, - 34, - 273, - 570, - 380, - 185, - 464, 863, - 268, 271, 464,
     - 169, - 571, 312, - 47, - 592, - 779, - 64, 49, 616, 646],
    [259, - 1109, - 623, 852, 406, 757, - 493, 911, 1032, - 480, 630, 937, - 421, - 214, 184, - 92,
     - 883, - 491, - 293, 382, - 864, 735, 221, - 1223, - 878, 394, 192, 723, 101, - 1004, 130,
     - 434, 535, 127, 549, - 88, - 86, 201, 935, 739],
    [- 937, - 304, - 546, - 350, 572, 460, 626, - 690, - 128, - 471, 103, 347, 549, - 539, 443,
     199, 41, 1282, - 400, 404, - 114, - 642, 644, - 576, 1106, - 677, 505, 333, 119, 151, - 307,
     - 455, - 517, - 204, - 254, - 378, - 800, - 208, 150, - 462],
    [- 497, 770, - 829, - 271, - 722, 281, 1105, - 392, - 212, 15, 192, - 290, 523, 486, - 1010,
     37, - 55, - 356, 1085, 75, - 408, 51, 331, 338, 486, 169, 1338, 312, - 443, 512, - 1016, - 1,
     387, - 970, - 73, - 91, - 94, - 691, - 443, 44],
    [993, - 320, - 251, 208, 577, 376, 150, - 71, - 254, 657, - 890, - 255, - 478, 9, 215, - 342,
     - 93, 482, 391, - 334, 387, - 486, 152, - 229, 452, 179, 8, - 29, 100, - 1109, - 39, 780,
     - 155, - 252, 9, - 364, 709, 188, - 358, - 387],
    [- 49, - 395, 248, 506, 25, - 9, - 461, - 148, 68, - 166, - 179, - 321, - 434, 156, 72, 1009,
     - 455, - 65, - 1246, 772, - 509, - 319, 477, - 1034, 942, 420, - 393, 201, - 200, 102, 242,
     - 133, - 1885, 777, - 692, - 498, - 531, - 117, - 121, 128],
    [- 828, 402, - 490, - 144, 1216, 806, - 62, - 588, - 483, 539, - 305, 345, 217, 111, 315,
     - 419, - 266, - 476, - 760, 194, - 910, - 200, 52, 646, - 177, 429, 705, - 597, - 629, - 127,
     685, 47, - 216, 182, - 518, 20, - 476, - 182, - 858, 344],
    [- 250, 903, - 395, - 654, - 483, - 491, - 260, - 400, - 493, - 636, - 414, 79, - 278, - 46,
     1193, 781, 160, - 255, - 561, 172, 311, - 753, 470, - 214, 173, 1022, - 324, - 375, 772, - 52,
     131, 711, 1082, 635, 297, 486, 81, 521, 688, 484],
    [- 492, 537, 420, 213, - 1076, 170, - 115, - 362, 485, - 102, 469, - 330, 605, 235, 126, - 201,
     - 202, 667, - 122, - 1001, - 914, - 340, - 273, - 168, - 505, 284, - 329, - 264, - 1, 1005,
     - 288, 761, - 424, - 227, 360, - 679, 272, - 338, - 431, 26],
    [345, 156, 94, 317, - 549, - 809, 208, - 1432, 574, - 783, 803, - 654, 640, 748, 341, 1117,
     - 349, - 314, 360, 807, 165, - 383, - 1190, - 558, 648, - 485, - 211, 604, - 950, - 106, 223,
     - 313, 493, - 272, - 910, 273, - 145, 43, - 28, 316],
    [838, - 630, 164, - 588, - 38, 566, - 24, - 495, - 49, 67, 653, - 563, 291, 431, 145, 234, 984,
     636, - 10, 358, 492, - 856, - 326, 835, - 159, 53, - 289, - 897, - 459, - 223, - 925, - 228,
     - 406, - 146, - 696, - 232, - 2, - 230, 396, 117],
    [75, 505, - 74, - 735, 473, - 128, - 588, 23, 584, 486, - 365, 494, 406, - 211, 81, - 348,
     - 571, 339, 240, 571, 723, 602, - 402, - 847, - 830, - 448, 205, 1032, - 112, 263, - 1013, 62,
     - 193, 685, 554, - 683, 973, - 1228, 808, 843],
    [301, - 392, - 151, 1056, 702, - 671, - 470, - 199, 174, - 343, - 694, - 847, - 769, 82, - 821,
     138, - 593, 602, 683, - 318, 192, 195, 748, - 677, 48, 395, - 116, - 429, - 511, - 332, - 371,
     - 84, - 463, - 452, 493, 356, - 830, 1061, - 594, 381],
    [64, - 830, 609, 447, 379, - 460, 1164, - 222, 149, - 633, - 362, 100, - 624, - 327, 129, 391,
     106, - 52, 75, - 375, - 219, 190, 1014, - 148, 447, - 623, - 128, 1070, 570, 67, 747, - 815,
     - 364, - 298, - 459, - 1197, 207, 328, 352, - 74],
    [- 258, - 552, - 344, 654, - 342, 540, 517, - 125, 439, - 63, - 319, - 41, - 477, - 315, 222,
     - 628, - 528, 810, - 422, - 352, - 228, - 274, 311, 277, 425, - 493, - 141, 745, - 107, 151,
     - 240, 30, 226, 636, 524, 690, - 114, - 64, 105, 167],
    [381, 506, - 475, - 1123, 4, - 264, 539, 780, 362, 215, 242, 346, 433, - 619, - 344, 137, 215,
     - 204, - 705, - 361, - 290, - 1102, - 331, - 634, 964, - 239, 268, - 172, - 629, 335, - 446,
     515, - 463, 622, 89, - 111, - 584, 620, 335, 0],
    [- 692, - 1027, 628, 210, 309, 446, - 371, 450, - 643, 478, 261, - 237, 550, 607, - 1058, 707,
     302, 319, - 234, - 300, - 361, 128, - 337, - 188, - 417, 32, 679, - 491, 136, 545, 256, 837,
     272, 129, - 72, 726, - 519, - 190, - 303, - 314],
    [- 1242, - 123, - 605, 31, 408, - 336, - 1018, 57, 491, 442, - 440, - 460, 29, 165, 107, 14,
     48, - 145, 621, - 55, 34, 26, 80, - 157, - 11, - 348, - 494, 222, - 89, - 241, - 75, - 456,
     - 198, - 167, 311, - 141, - 340, - 124, 154, 141],
    [780, - 100, 322, 286, 592, 505, - 201, - 213, - 779, 437, 139, - 873, - 263, - 302, - 192,
     356, 94, 846, - 172, - 112, - 222, 811, 201, 285, 327, - 409, - 99, 9, 203, - 1276, - 46, 86,
     944, 768, 870, 2, - 12, 605, - 421, 271],
    [- 962, - 727, 353, - 376, - 452, - 993, - 48, 238, - 229, 502, 286, 53, 217, 684, - 179,
     - 421, 1400, 67, - 421, - 158, - 266, 697, 74, 840, 341, 528, - 232, 15, - 365, - 442, - 313,
     - 587, 690, - 163, 341, 60, - 80, - 173, 196, - 94],
    [145, 200, 230, 265, 338, - 543, 726, 81, 1138, - 167, 295, - 518, - 13, - 206, - 553, 2,
     - 557, - 1174, - 792, - 405, - 492, 515, 88, - 1229, - 332, 763, - 983, 92, 949, - 428, 89,
     484, - 235, 12, 234, 461, 214, 549, - 38, 533],
    [- 343, - 121, - 317, 252, 724, 234, - 35, 591, 734, 556, - 296, 385, - 311, 335, 434, 148,
     - 365, 81, - 403, 390, - 450, 308, - 1273, 89, - 568, - 10, 898, 267, 307, - 359, - 36, - 98,
     637, - 229, 1047, - 496, 424, - 130, 561, - 413],
    [144, - 10, 402, - 892, - 531, 235, - 353, - 471, 169, - 705, 267, - 211, - 314, 244, 216,
     - 110, 66, 8, 1028, - 170, - 225, 125, 145, - 389, - 677, - 431, - 899, 255, 760, - 122, - 54,
     740, - 12, 1050, 630, 40, - 943, - 497, 131, - 307],
    [557, 805, - 1268, - 640, - 477, 660, - 910, 351, 762, 738, - 839, 29, - 336, 17, - 33, - 68,
     839, - 993, 998, - 966, 189, - 242, - 308, 409, - 236, 220, 147, 471, 74, - 117, - 199, 246,
     97, - 231, - 832, 756, 343, - 1144, 294, 467],
    [284, 762, - 803, - 282, 309, - 22, 293, 262, 429, 827, 462, - 121, - 890, - 1301, 214, 103,
     - 1090, 252, - 961, 424, - 681, - 148, 7, 328, 335, - 451, - 464, - 183, - 600, 365, 184,
     - 87, - 416, 254, 417, 106, - 135, - 786, 233, - 118],
    [- 149, 359, 96, - 264, 974, - 639, 179, 2, 16, 380, 229, 237, 563, 342, - 776, - 73, 53,
     - 239, - 278, 98, 24, 171, 701, - 276, - 38, - 474, - 401, 343, - 131, - 128, - 1022, - 95,
     255, - 837, - 140, - 52, 610, - 555, 199, - 42],
    [682, 6, 184, - 31, 671, 19, - 675, 413, - 525, - 129, 353, - 326, - 856, - 436, 198, 822, 188,
     - 392, 394, 787, 49, 517, - 593, 591, - 251, - 783, 307, 236, 826, - 194, 536, - 280, 206,
     746, - 932, 69, 451, - 521, 1, 257],
    [233, 912, - 316, - 473, 856, - 10, 419, 510, - 346, - 707, - 159, - 1356, - 299, 355, 0, 75,
     - 541, 106, - 130, 193, - 46, - 432, - 547, 24, 160, - 233, 283, 590, - 433, - 835, - 1222,
     869, 733, 836, 568, 347, - 436, - 342, 535, - 462],
    [- 754, 1201, - 390, 137, 254, 505, - 102, - 511, - 689, 418, - 229, 474, - 1, 938, 251, - 494,
     - 752, 19, - 196, 171, - 384, - 805, - 36, 419, 81, - 508, 221, 252, - 383, - 116, 61, - 332,
     274, 373, 510, - 819, - 510, - 67, 542, 325]]"

definition cngSeedOut :: "int list" where
  "cngSeedOut = [
    - 26766, 5273, - 20980, 12987, 20566, 2637, - 17200, - 25649, 24058, - 31807, 27220, 6819,
    - 31650, - 27403, 23192, 9015, 18306, 4585, - 3684, - 5749, - 5274, - 29027, 21344, 24991,
    29706, 24337, 25572, 16243, - 23186, - 26811, - 14552, - 2297]"

definition cngInvSqrt :: "int list" where
  "cngInvSqrt = [
    320863, 323781, 388729, 303149, 269026, 324406, 304813, 391279, 300993, 335038, 312683, 356481,
    286752, 349341, 292467, 315662, 323859, 418904, 340163, 350720, 452932, 342818, 349410, 315175,
    357434, 352913, 286583, 332201, 413044, 346627, 309243, 358885]"

definition gammaFac1 :: "int list" where
  "gammaFac1 = [
    32767, 24576, 18432, 13824, 10368, 7776, 5832, 4374, 3281, 2461, 1846, 32767, 24576, 18432,
    13824, 10368, 7776, 5832, 4374, 3281, 2461, 1846]"

definition g729gammaFac2_pst :: "int list" where
  "g729gammaFac2_pst = [
    32767, 18022, 9912, 5451, 2998, 1649, 907, 499, 274, 151, 83]"

definition g729gammaFac1_pst :: "int list" where
  "g729gammaFac1_pst = [
    32767, 22938, 16057, 11240, 7868, 5508, 3856, 2699, 1889, 1322, 925]"

definition gStats :: "int list" where
  "gStats = [
    6400, 3200, 2400, 1600, 800, 400]"

definition gThrs :: "int list" where
  "gThrs = [
    955, 819, 614, 410, 205, 0]"

definition gStats1 :: "int list" where
  "gStats1 = [
    6400, 3200, 1600, 800, 400, 0]"


subsection \<open>Tables of \<open>encg729.c\<close>\<close>

definition LUT1_6k :: "int list" where
  "LUT1_6k = [
    0, 4, 6, 5, 2, 1, 7, 3]"

definition LUT2_6k :: "int list" where
  "LUT2_6k = [
    0, 4, 3, 7, 5, 1, 6, 2]"

definition enc_tab1 :: "int list" where
  "enc_tab1 = [
    1899, - 3798, 1899]"

definition enc_tab2 :: "int list" where
  "enc_tab2 = [
    4096, 7807, - 3733]"

definition hammingWin :: "int list" where
  "hammingWin = [
    2621, 2623, 2629, 2638, 2651, 2668, 2689, 2713, 2741, 2772, 2808, 2847, 2890, 2936, 2986, 3040,
    3097, 3158, 3223, 3291, 3363, 3438, 3517, 3599, 3685, 3774, 3867, 3963, 4063, 4166, 4272, 4382,
    4495, 4611, 4731, 4853, 4979, 5108, 5240, 5376, 5514, 5655, 5800, 5947, 6097, 6250, 6406, 6565,
    6726, 6890, 7057, 7227, 7399, 7573, 7750, 7930, 8112, 8296, 8483, 8672, 8863, 9057, 9252, 9450,
    9650, 9852, 10055, 10261, 10468, 10677, 10888, 11101, 11315, 11531, 11748, 11967, 12187, 12409,
    12632, 12856, 13082, 13308, 13536, 13764, 13994, 14225, 14456, 14688, 14921, 15155, 15389,
    15624, 15859, 16095, 16331, 16568, 16805, 17042, 17279, 17516, 17754, 17991, 18228, 18465,
    18702, 18939, 19175, 19411, 19647, 19882, 20117, 20350, 20584, 20816, 21048, 21279, 21509,
    21738, 21967, 22194, 22420, 22644, 22868, 23090, 23311, 23531, 23749, 23965, 24181, 24394,
    24606, 24816, 25024, 25231, 25435, 25638, 25839, 26037, 26234, 26428, 26621, 26811, 26999,
    27184, 27368, 27548, 27727, 27903, 28076, 28247, 28415, 28581, 28743, 28903, 29061, 29215,
    29367, 29515, 29661, 29804, 29944, 30081, 30214, 30345, 30472, 30597, 30718, 30836, 30950,
    31062, 31170, 31274, 31376, 31474, 31568, 31659, 31747, 31831, 31911, 31988, 32062, 32132,
    32198, 32261, 32320, 32376, 32428, 32476, 32521, 32561, 32599, 32632, 32662, 32688, 32711,
    32729, 32744, 32755, 32763, 32767, 32767, 32741, 32665, 32537, 32359, 32129, 31850, 31521,
    31143, 30716, 30242, 29720, 29151, 28538, 27879, 27177, 26433, 25647, 24821, 23957, 23055,
    22117, 21145, 20139, 19102, 18036, 16941, 15820, 14674, 13505, 12315, 11106, 9879, 8637, 7381,
    6114, 4838, 3554, 2264, 971]"

definition CodecTypeToRate :: "int list" where
  "CodecTypeToRate = [
    3, 3, 2, 4, 0]"

definition prevRCpreset :: "int list" where
  "prevRCpreset = [
    0, 0]"


subsection \<open>Tables of \<open>decg729.c\<close>\<close>

definition dec_tab1 :: "int list" where
  "dec_tab1 = [
    7699, - 15398, 7699]"

definition dec_tab2 :: "int list" where
  "dec_tab2 = [
    8192, 15836, - 7667]"

definition lspSID_init :: "int list" where
  "lspSID_init = [
    31441, 27566, 21458, 13612, 4663, - 4663, - 13612, - 21458, - 27566, - 31441]"

definition tab3 :: "int list" where
  "tab3 = [
    1, 3, 8, 6, 18, 16, 11, 13, 38, 36, 31, 33, 21, 23, 28, 26, 0, 0, 0, 0, 0, 0, 0, 0, 0, 0, 0, 0,
    0, 0, 0, 0]"

definition tab4 :: "int list" where
  "tab4 = [
    0, 2, 5, 4, 12, 10, 7, 9, 25, 24, 20, 22, 14, 15, 19, 17, 36, 31, 21, 26, 1, 6, 16, 11, 27, 29,
    32, 30, 39, 37, 34, 35]"


subsection \<open>Tables of \<open>vadg729.c\<close>\<close>

definition lbfCorr :: "int list" where
  "lbfCorr = [
    7869, 7011, 4838, 2299, 321, - 660, - 782, - 484, - 164, 3, 39, 21, 4]"

definition ifactor :: "int list" where
  "ifactor = [
    32767, 16913, 17476, 18079, 18725, 19418, 20165, 20972, 21845, 22795, 23831, 24966, 26214,
    27594, 29127, 30840, 32767, 17476, 18725, 20165, 21845, 23831, 26214, 29127, 32767, 18725,
    21845, 26214, 32767, 21845, 32767, 32767, 0]"

definition ishift :: "int list" where
  "ishift = [
    15, 14, 14, 14, 14, 14, 14, 14, 14, 14, 14, 14, 14, 14, 14, 14, 14, 13, 13, 13, 13, 13, 13, 13,
    13, 12, 12, 12, 12, 11, 11, 10, 15]"

definition vadTable :: "int list list" where
  "vadTable = [
    [24576, 8192, 26214, 6554, 19661, 13017],
    [31130, 1638, 30147, 2621, 21299, 11469],
    [31785, 983, 30802, 1966, 22938, 9830],
    [32440, 328, 31457, 1311, 24576, 8192],
    [32604, 164, 32440, 328, 24576, 8192],
    [32604, 164, 32702, 66, 24576, 8192]]"


subsection \<open>Tables of \<open>owng729.h\<close>\<close>

definition table0 :: "int list" where
  "table0 = [
    1, 2, 0, 1, 2, 0, 1, 2]"

subsection \<open>Lengths and ranges\<close>

lemma table_lengths [simp]:
  "length energy_fact = 3" "length energy_off = 3" "length energyLogTable = 17" "length wlag_bwd = 30"
  "length SIDgain = 32" "length areas = 156" "length LUT1 = 8" "length LUT2 = 16" "length logTable = 33"
  "length cngCache = 32" "length cngSeedOut = 32" "length cngInvSqrt = 32" "length gStats = 6"
  "length gThrs = 6" "length gStats1 = 6" "length hammingWin = 240" "length ifactor = 33" "length ishift = 33"
  "length lbfCorr = 13" "length vadTable = 6" "length table0 = 8"
  by (simp_all add: energy_fact_def energy_off_def energyLogTable_def wlag_bwd_def SIDgain_def areas_def
      LUT1_def LUT2_def logTable_def cngCache_def cngSeedOut_def cngInvSqrt_def gStats_def gThrs_def
      gStats1_def hammingWin_def ifactor_def ishift_def lbfCorr_def vadTable_def table0_def)

lemma areas_range: "list_all (\<lambda>x. 0 \<le> x \<and> x \<le> 3) areas"
  by (simp add: areas_def)

lemma SIDgain_range: "list_all (\<lambda>x. 0 \<le> x \<and> x \<le> 15962) SIDgain"
  by (simp add: SIDgain_def)

lemma cngCache_rows: "list_all (\<lambda>r. length r = 40 \<and> list_all (\<lambda>x. in16 x) r) cngCache"
  by (simp add: cngCache_def)

lemma logTable_range: "list_all (\<lambda>x. 0 \<le> x \<and> x \<le> 32767) logTable"
  by (simp add: logTable_def)

lemma energyLogTable_range: "list_all (\<lambda>x. 2466 \<le> x \<and> x \<le> 3083) energyLogTable"
  by (simp add: energyLogTable_def)

end
