(* ===== verification/G729_Scratch.thy ===== *)
theory G729_Scratch
  imports ScratchMem G729_Tables G729_Bits
begin

text \<open>
  The local arrays of the encoder's functions (\<open>encg729.c\<close>, \<open>owng729.c\<close>) as sequences of scratch
  memory operations in the order of the code, and the sequences of the encoder calls: speech or
  silence, with and without voice activity detection, for each codec type and LP mode. The lemmas
  show that every complete call is properly nested, ends with an empty scratch memory, and stays
  inside the \<open>G729_ENCODER_SCRATCH_MEMORY_SIZE\<close> bytes; and that a call that returns early
  leaves its arrays allocated.
\<close>

subsection \<open>The functions\<close>

definition CNG_Update_scratch :: "scratch_op list" where
  "CNG_Update_scratch =
     [Local (LOCAL_ARRAY 4 (LPF_DIM + 1)), Free (LOCAL_ARRAY 4 (LPF_DIM + 1))]"

definition CNG_encoder_locals :: "scratch_op list" where
  "CNG_encoder_locals =
     [Local (LOCAL_ARRAY 2 (LPF_DIM + 1)), Local (LOCAL_ARRAY 4 (LPF_DIM + 1)),
      Local (LOCAL_ARRAY 2 LPF_DIM), Local (LOCAL_ARRAY 2 (LPF_DIM + 1)),
      Local (LOCAL_ARRAY 2 LPF_DIM), Local (LOCAL_ALIGN_ARRAY 32 2 LPF_DIM),
      Local (LOCAL_ARRAY 2 LPF_DIM), Local (LOCAL_ARRAY 2 (LPF_DIM + 1)),
      Local (LOCAL_ARRAY 4 (LPF_DIM + 1))]"

definition CNG_encoder_subframe :: "scratch_op list" where
  "CNG_encoder_subframe =
     [Local (LOCAL_ARRAY 2 4), Local (LOCAL_ARRAY 2 4),
      Local (LOCAL_ALIGN_ARRAY 32 2 LP_SUBFRAME_DIM), Local (LOCAL_ARRAY 2 LP_SUBFRAME_DIM),
      Free (LOCAL_ARRAY 2 LP_SUBFRAME_DIM), Free (LOCAL_ALIGN_ARRAY 32 2 LP_SUBFRAME_DIM),
      Free (LOCAL_ARRAY 2 4), Free (LOCAL_ARRAY 2 4)]"

definition CNG_encoder_frees :: "scratch_op list" where
  "CNG_encoder_frees =
     [Free (LOCAL_ARRAY 4 (LPF_DIM + 1)), Free (LOCAL_ARRAY 2 (LPF_DIM + 1)),
      Free (LOCAL_ARRAY 2 LPF_DIM), Free (LOCAL_ALIGN_ARRAY 32 2 LPF_DIM),
      Free (LOCAL_ARRAY 2 LPF_DIM), Free (LOCAL_ARRAY 2 (LPF_DIM + 1)),
      Free (LOCAL_ARRAY 2 LPF_DIM), Free (LOCAL_ARRAY 4 (LPF_DIM + 1)),
      Free (LOCAL_ARRAY 2 (LPF_DIM + 1))]"

definition SetLPCMode_scratch :: "scratch_op list" where
  "SetLPCMode_scratch =
     [Local (LOCAL_ALIGN_ARRAY 32 2 LP_FRAME_DIM), Free (LOCAL_ALIGN_ARRAY 32 2 LP_FRAME_DIM)]"

definition G729Encode_locals :: "scratch_op list" where
  "G729Encode_locals =
     [Local (LOCAL_ALIGN_ARRAY 32 2 LP_SUBFRAME_DIM), Local (LOCAL_ALIGN_ARRAY 32 2 LP_SUBFRAME_DIM),
      Local (LOCAL_ALIGN_ARRAY 32 2 LP_SUBFRAME_DIM), Local (LOCAL_ALIGN_ARRAY 32 2 LP_SUBFRAME_DIM),
      Local (LOCAL_ALIGN_ARRAY 32 2 LP_SUBFRAME_DIM), Local (LOCAL_ALIGN_ARRAY 32 2 LP_SUBFRAME_DIM),
      Local (LOCAL_ALIGN_ARRAY 32 2 ((LPF_DIM + 1) * 2)), Local (LOCAL_ALIGN_ARRAY 32 2 ((LPF_DIM + 1) * 2)),
      Local (LOCAL_ALIGN_ARRAY 32 2 BWLPCF_DIM), Local (LOCAL_ALIGN_ARRAY 32 2 BWLPCF1_DIM),
      Local (LOCAL_ALIGN_ARRAY 32 2 LP_SUBFRAME_DIM), Local (LOCAL_ALIGN_ARRAY 32 2 BWLPCF1_DIM),
      Local (LOCAL_ALIGN_ARRAY 32 2 LPF_DIM), Local (LOCAL_ALIGN_ARRAY 32 2 LPF_DIM),
      Local (LOCAL_ALIGN_ARRAY 32 4 BWLPCF1_DIM), Local (LOCAL_ALIGN_ARRAY 32 4 BWLPCF1_DIM),
      Local (LOCAL_ALIGN_ARRAY 32 2 BWLPCF_DIM), Local (LOCAL_ALIGN_ARRAY 32 2 (2 * BWLPCF1_DIM)),
      Local (LOCAL_ALIGN_ARRAY 32 2 LP_SUBFRAME_DIM), Local (LOCAL_ALIGN_ARRAY 32 2 LP_SUBFRAME_DIM),
      Local (LOCAL_ARRAY 2 2), Local (LOCAL_ARRAY 2 2),
      Local (LOCAL_ARRAY 2 4), Local (LOCAL_ARRAY 2 2),
      Local (LOCAL_ARRAY 2 2), Local (LOCAL_ARRAY 2 2),
      Local (LOCAL_ARRAY 2 LPF_DIM)]"

definition G729Encode_analysis :: "scratch_op list" where
  "G729Encode_analysis =
     [Local (LOCAL_ALIGN_ARRAY 32 2 LPF_DIM), Local (LOCAL_ALIGN_ARRAY 32 2 LPF_DIM),
      Local (LOCAL_ALIGN_ARRAY 32 2 (LPF_DIM + 1)), Local (LOCAL_ALIGN_ARRAY 32 4 (VAD_LPC_DIM + 2)),
      Local (LOCAL_ALIGN_ARRAY 32 2 LP_WINDOW_DIM)]"

definition G729Encode_vad :: "scratch_op list" where
  "G729Encode_vad =
     [Local (LOCAL_ALIGN_ARRAY 32 2 (VAD_LPC_DIM + 1)), Free (LOCAL_ALIGN_ARRAY 32 2 (VAD_LPC_DIM + 1))]"

definition G729Encode_weight :: "scratch_op list" where
  "G729Encode_weight =
     [Local (LOCAL_ALIGN_ARRAY 32 2 LPF_DIM), Free (LOCAL_ALIGN_ARRAY 32 2 LPF_DIM)]"

definition G729Encode_yVal_free :: "scratch_op list" where
  "G729Encode_yVal_free =
     [Free (LOCAL_ALIGN_ARRAY 32 2 LP_WINDOW_DIM)]"

definition G729Encode_analysis_frees :: "scratch_op list" where
  "G729Encode_analysis_frees =
     [Free (LOCAL_ALIGN_ARRAY 32 4 (VAD_LPC_DIM + 2)), Free (LOCAL_ALIGN_ARRAY 32 2 (LPF_DIM + 1)),
      Free (LOCAL_ALIGN_ARRAY 32 2 LPF_DIM), Free (LOCAL_ALIGN_ARRAY 32 2 LPF_DIM)]"

definition G729Encode_search :: "scratch_op list" where
  "G729Encode_search =
     [Local (LOCAL_ALIGN_ARRAY 32 4 CORR_DIM), Local (LOCAL_ALIGN_ARRAY 32 2 LP_SUBFRAME_DIM),
      Free (LOCAL_ALIGN_ARRAY 32 2 LP_SUBFRAME_DIM), Free (LOCAL_ALIGN_ARRAY 32 4 CORR_DIM)]"

definition G729Encode_search_D :: "scratch_op list" where
  "G729Encode_search_D =
     [Local (LOCAL_ALIGN_ARRAY 32 2 LP_SUBFRAME_DIM), Free (LOCAL_ALIGN_ARRAY 32 2 LP_SUBFRAME_DIM)]"

definition G729Encode_gains :: "scratch_op list" where
  "G729Encode_gains =
     [Local (LOCAL_ARRAY 2 2), Local (LOCAL_ARRAY 2 2),
      Free (LOCAL_ARRAY 2 2), Free (LOCAL_ARRAY 2 2)]"

definition EncodeVAD_locals :: "scratch_op list" where
  "EncodeVAD_locals =
     [Local (LOCAL_ALIGN_ARRAY 32 2 ((LPF_DIM + 1) * 2)), Local (LOCAL_ALIGN_ARRAY 32 2 ((LPF_DIM + 1) * 2)),
      Local (LOCAL_ALIGN_ARRAY 32 2 LPF_DIM), Local (LOCAL_ALIGN_ARRAY 32 2 LPF_DIM),
      Local (LOCAL_ALIGN_ARRAY 32 2 (LPF_DIM + 1)), Local (LOCAL_ALIGN_ARRAY 32 4 (VAD_LPC_DIM + 2)),
      Local (LOCAL_ALIGN_ARRAY 32 2 BWLPCF_DIM), Local (LOCAL_ALIGN_ARRAY 32 2 LP_SUBFRAME_DIM),
      Local (LOCAL_ALIGN_ARRAY 32 2 LPF_DIM), Local (LOCAL_ALIGN_ARRAY 32 2 LPF_DIM),
      Local (LOCAL_ALIGN_ARRAY 32 2 BWLPCF1_DIM), Local (LOCAL_ALIGN_ARRAY 32 2 BWLPCF1_DIM),
      Local (LOCAL_ALIGN_ARRAY 32 2 LP_WINDOW_DIM), Local (LOCAL_ARRAY 2 4),
      Local (LOCAL_ARRAY 2 2), Local (LOCAL_ARRAY 2 2)]"

definition G729AEncode_locals :: "scratch_op list" where
  "G729AEncode_locals =
     [Local (LOCAL_ALIGN_ARRAY 32 2 LP_SUBFRAME_DIM), Local (LOCAL_ALIGN_ARRAY 32 2 LP_SUBFRAME_DIM),
      Local (LOCAL_ALIGN_ARRAY 32 2 LP_SUBFRAME_DIM), Local (LOCAL_ALIGN_ARRAY 32 2 LP_SUBFRAME_DIM),
      Local (LOCAL_ALIGN_ARRAY 32 2 LP_SUBFRAME_DIM), Local (LOCAL_ALIGN_ARRAY 32 2 LP_SUBFRAME_DIM),
      Local (LOCAL_ALIGN_ARRAY 32 2 ((LPF_DIM + 1) * 2)), Local (LOCAL_ALIGN_ARRAY 32 2 ((LPF_DIM + 1) * 2)),
      Local (LOCAL_ALIGN_ARRAY 32 2 LPF_DIM), Local (LOCAL_ALIGN_ARRAY 32 2 ((LPF_DIM + 1) * 2)),
      Local (LOCAL_ALIGN_ARRAY 32 2 LP_SUBFRAME_DIM), Local (LOCAL_ARRAY 2 2),
      Local (LOCAL_ARRAY 2 2)]"

definition G729AEncode_analysis :: "scratch_op list" where
  "G729AEncode_analysis =
     [Local (LOCAL_ALIGN_ARRAY 32 2 LPF_DIM), Local (LOCAL_ALIGN_ARRAY 32 2 LPF_DIM),
      Local (LOCAL_ALIGN_ARRAY 32 2 LPF_DIM), Local (LOCAL_ALIGN_ARRAY 32 2 (LPF_DIM + 1)),
      Local (LOCAL_ALIGN_ARRAY 32 4 (VAD_LPC_DIM + 2)), Local (LOCAL_ALIGN_ARRAY 32 2 LP_WINDOW_DIM)]"

definition G729AEncode_vad :: "scratch_op list" where
  "G729AEncode_vad =
     [Local (LOCAL_ALIGN_ARRAY 32 2 (VAD_LPC_DIM + 1)), Free (LOCAL_ALIGN_ARRAY 32 2 (VAD_LPC_DIM + 1))]"

definition G729AEncode_analysis_frees :: "scratch_op list" where
  "G729AEncode_analysis_frees =
     [Free (LOCAL_ALIGN_ARRAY 32 2 LP_WINDOW_DIM), Free (LOCAL_ALIGN_ARRAY 32 4 (VAD_LPC_DIM + 2)),
      Free (LOCAL_ALIGN_ARRAY 32 2 (LPF_DIM + 1)), Free (LOCAL_ALIGN_ARRAY 32 2 LPF_DIM),
      Free (LOCAL_ALIGN_ARRAY 32 2 LPF_DIM), Free (LOCAL_ALIGN_ARRAY 32 2 LPF_DIM)]"

definition G729AEncode_subframe :: "scratch_op list" where
  "G729AEncode_subframe =
     [Local (LOCAL_ALIGN_ARRAY 32 4 CORR_DIM), Local (LOCAL_ALIGN_ARRAY 32 2 LP_SUBFRAME_DIM),
      Free (LOCAL_ALIGN_ARRAY 32 2 LP_SUBFRAME_DIM), Free (LOCAL_ALIGN_ARRAY 32 4 CORR_DIM),
      Local (LOCAL_ARRAY 2 2), Local (LOCAL_ARRAY 2 2),
      Free (LOCAL_ARRAY 2 2), Free (LOCAL_ARRAY 2 2)]"

definition G729BaseEncode_locals :: "scratch_op list" where
  "G729BaseEncode_locals =
     [Local (LOCAL_ALIGN_ARRAY 16 2 LP_SUBFRAME_DIM), Local (LOCAL_ALIGN_ARRAY 16 2 LP_SUBFRAME_DIM),
      Local (LOCAL_ALIGN_ARRAY 16 2 LP_SUBFRAME_DIM), Local (LOCAL_ALIGN_ARRAY 16 2 LP_SUBFRAME_DIM),
      Local (LOCAL_ALIGN_ARRAY 16 2 LP_SUBFRAME_DIM), Local (LOCAL_ALIGN_ARRAY 16 2 LP_SUBFRAME_DIM),
      Local (LOCAL_ALIGN_ARRAY 16 2 LPF_DIM), Local (LOCAL_ALIGN_ARRAY 16 2 LPF_DIM),
      Local (LOCAL_ALIGN_ARRAY 16 2 ((LPF_DIM + 1) * 2)), Local (LOCAL_ALIGN_ARRAY 16 2 ((LPF_DIM + 1) * 2)),
      Local (LOCAL_ALIGN_ARRAY 16 2 ((LPF_DIM + 1) * 2)), Local (LOCAL_ARRAY 2 4),
      Local (LOCAL_ARRAY 2 2), Local (LOCAL_ARRAY 2 2)]"

definition G729BaseEncode_analysis :: "scratch_op list" where
  "G729BaseEncode_analysis =
     [Local (LOCAL_ALIGN_ARRAY 16 2 LPF_DIM), Local (LOCAL_ALIGN_ARRAY 16 2 LPF_DIM),
      Local (LOCAL_ALIGN_ARRAY 16 2 (LPF_DIM + 1)), Local (LOCAL_ALIGN_ARRAY 16 4 (VAD_LPC_DIM + 2)),
      Local (LOCAL_ALIGN_ARRAY 32 2 LP_WINDOW_DIM), Free (LOCAL_ALIGN_ARRAY 32 2 LP_WINDOW_DIM),
      Free (LOCAL_ALIGN_ARRAY 16 4 (VAD_LPC_DIM + 2)), Free (LOCAL_ALIGN_ARRAY 16 2 (LPF_DIM + 1)),
      Free (LOCAL_ALIGN_ARRAY 16 2 LPF_DIM), Free (LOCAL_ALIGN_ARRAY 16 2 LPF_DIM)]"

definition G729BaseEncode_subframes :: "scratch_op list" where
  "G729BaseEncode_subframes =
     [Local (LOCAL_ALIGN_ARRAY 16 2 LP_SUBFRAME_DIM), Local (LOCAL_ALIGN_ARRAY 16 4 CORR_DIM),
      Local (LOCAL_ARRAY 2 2), Local (LOCAL_ARRAY 2 2),
      Local (LOCAL_ARRAY 2 2), Local (LOCAL_ARRAY 2 2),
      Free (LOCAL_ARRAY 2 2), Free (LOCAL_ARRAY 2 2),
      Free (LOCAL_ARRAY 2 2), Free (LOCAL_ARRAY 2 2),
      Free (LOCAL_ALIGN_ARRAY 16 4 CORR_DIM), Free (LOCAL_ALIGN_ARRAY 16 2 LP_SUBFRAME_DIM)]"

subsection \<open>The calls\<close>

text \<open>\<open>CNG_encoder\<close>: the arrays of the two subframes are only taken when the gain is not zero.\<close>

definition CNG_encoder_scratch :: "bool \<Rightarrow> scratch_op list" where
  "CNG_encoder_scratch silent =
     CNG_encoder_locals @ (if silent then [] else CNG_encoder_subframe @ CNG_encoder_subframe) @ CNG_encoder_frees"

definition G729Encode_subframe :: "G729Codec_Type \<Rightarrow> scratch_op list" where
  "G729Encode_subframe ct =
     (case ct of G729_CODEC \<Rightarrow> G729Encode_search
      | G729D_CODEC \<Rightarrow> G729Encode_search_D
      | G729E_CODEC \<Rightarrow> []
      | _ \<Rightarrow> G729Encode_search) @ G729Encode_gains"

definition G729Encode_scratch :: "bool \<Rightarrow> bool \<Rightarrow> bool \<Rightarrow> G729Codec_Type \<Rightarrow> bool \<Rightarrow> scratch_op list" where
  "G729Encode_scratch vadEnable silence silent ct forward =
     G729Encode_locals @ G729Encode_analysis
     @ (if vadEnable then G729Encode_vad @ CNG_Update_scratch else [])
     @ (if vadEnable \<and> silence
        then G729Encode_weight @ CNG_encoder_scratch silent @ [CLEAR_SCRATCH_MEMORY]
        else G729Encode_yVal_free
          @ (if ct = G729E_CODEC then SetLPCMode_scratch else [])
          @ (if forward then G729Encode_weight else [])
          @ G729Encode_analysis_frees @ G729Encode_subframe ct @ G729Encode_subframe ct
          @ [CLEAR_SCRATCH_MEMORY])"

definition G729AEncode_scratch :: "bool \<Rightarrow> bool \<Rightarrow> bool \<Rightarrow> scratch_op list" where
  "G729AEncode_scratch vadEnable silence silent =
     G729AEncode_locals @ G729AEncode_analysis
     @ (if vadEnable then G729AEncode_vad @ CNG_Update_scratch else [])
     @ (if vadEnable \<and> silence then CNG_encoder_scratch silent @ [CLEAR_SCRATCH_MEMORY]
        else G729AEncode_analysis_frees @ G729AEncode_subframe @ G729AEncode_subframe @ [CLEAR_SCRATCH_MEMORY])"

definition G729BaseEncode_scratch :: "scratch_op list" where
  "G729BaseEncode_scratch =
     G729BaseEncode_locals @ G729BaseEncode_analysis @ G729BaseEncode_subframes @ [CLEAR_SCRATCH_MEMORY]"

text \<open>
  \<open>apiG729EncodeVAD\<close>: without voice activity detection it returns right after its declarations.
  On a speech frame of the other codecs it frees \<open>yVal\<close>, which \<open>LOCAL_ALIGN_ARRAY\<close> allocated,
  with \<open>LOCAL_ARRAY_FREE\<close>.
\<close>

definition EncodeVAD_scratch :: "bool \<Rightarrow> bool \<Rightarrow> bool \<Rightarrow> bool \<Rightarrow> scratch_op list" where
  "EncodeVAD_scratch vadEnable annexA silence silent =
     EncodeVAD_locals
     @ (if \<not> vadEnable then []
        else G729AEncode_vad @ CNG_Update_scratch
          @ (if silence
             then (if annexA then [] else G729Encode_weight) @ CNG_encoder_scratch silent
             else (if annexA then [] else [Free (LOCAL_ARRAY 2 LP_WINDOW_DIM)]))
          @ [CLEAR_SCRATCH_MEMORY])"

subsection \<open>Nesting and size\<close>

lemma nested_append:
  "nested (xs @ ys) st = (case nested xs st of None \<Rightarrow> None | Some st' \<Rightarrow> nested ys st')"
  by (induction xs st rule: nested.induct) (auto split: list.splits)

lemma nested_prefix: "nested (xs @ ys) st = Some st' \<Longrightarrow> \<exists>st''. nested xs st = Some st''"
  by (auto simp: nested_append split: option.splits)

lemma G729Encode_nested:
  "nested (G729Encode_scratch vad silence silent ct fwd) [] = Some [] \<and>
   peak (G729Encode_scratch vad silence silent ct fwd) 0 \<le> G729_ENCODER_SCRATCH_MEMORY_SIZE"
  by (induction vad; induction silence; induction silent; induction ct; induction fwd; code_simp)

lemma G729AEncode_nested:
  "nested (G729AEncode_scratch vad silence silent) [] = Some [] \<and>
   peak (G729AEncode_scratch vad silence silent) 0 \<le> G729_ENCODER_SCRATCH_MEMORY_SIZE"
  by (induction vad; induction silence; induction silent; code_simp)

lemma G729BaseEncode_nested:
  "nested G729BaseEncode_scratch [] = Some [] \<and>
   peak G729BaseEncode_scratch 0 \<le> G729_ENCODER_SCRATCH_MEMORY_SIZE"
  by code_simp

lemma EncodeVAD_leak: "nested (EncodeVAD_scratch False a b c) [] = nested EncodeVAD_locals []"
  by (simp add: EncodeVAD_scratch_def)

lemma call_nested:
  assumes "call = G729Encode_scratch vad silence silent ct forward \<or> call = G729AEncode_scratch vad silence silent
    \<or> call = G729BaseEncode_scratch"
  shows "nested call [] = Some []" "peak call 0 \<le> G729_ENCODER_SCRATCH_MEMORY_SIZE"
  using assms G729Encode_nested G729AEncode_nested G729BaseEncode_nested by blast+

lemma scratch_complete:
  assumes "nested ops [] = Some []" "CurPtr m = base m"
  shows "CurPtr (scratch_run ops m) = base m"
  using nested_run [OF assms(1), of m] assms(2) by (simp add: stack_space_def)

text \<open>
  C25: Let \<open>call\<close> be the scratch memory operations of one complete call of \<open>G729Encode\<close> (speech or silence, with or
  without voice activity detection, any codec type and LP mode), \<open>G729AEncode\<close> or \<open>G729BaseEncode\<close>, the three paths of
  \<open>apiG729Encode\<close>, started on an empty scratch memory. At every point of it each local array held has the alignment its
  macro asks for and lies whole inside the \<open>G729_ENCODER_SCRATCH_MEMORY_SIZE\<close> bytes from \<open>base\<close>, no two arrays held
  overlap, \<open>CurPtr\<close> is inside these bytes, and the call ends with the scratch memory empty again.
\<close>
theorem G729Encode_scratch_safe:
  assumes "call = G729Encode_scratch vadEnable silence silent ct forward \<or> call = G729AEncode_scratch vadEnable silence silent
      \<or> call = G729BaseEncode_scratch"
    and "call = xs @ ys" and "CurPtr m = base m"
  defines "arrays \<equiv> held xs m []"
  shows "(\<forall>(p, r) \<in> set arrays. p mod req_align r = 0
        \<and> base m \<le> p \<and> p + req_bytes r \<le> base m + G729_ENCODER_SCRATCH_MEMORY_SIZE)
    \<and> (\<forall>i j. i < j \<and> j < length arrays \<longrightarrow>
        fst (arrays ! j) + req_bytes (snd (arrays ! j)) \<le> fst (arrays ! i))
    \<and> CurPtr (scratch_run xs m) \<le> base m + G729_ENCODER_SCRATCH_MEMORY_SIZE
    \<and> CurPtr (scratch_run call m) = base m"
proof -
  note call = call_nested [OF assms(1)]
  obtain st where "nested xs [] = Some st" using call(1) nested_prefix assms(2) by blast
  then have st: "stacked (base m) arrays (CurPtr (scratch_run xs m))"
    unfolding arrays_def using held_stacked [of xs "[]" st m] assms(3) by simp
  have "CurPtr (scratch_run xs m) \<le> base m + peak call 0"
    using run_below_peak [of m 0 call xs ys] assms(2,3) by simp
  then have cur: "CurPtr (scratch_run xs m) \<le> base m + G729_ENCODER_SCRATCH_MEMORY_SIZE" using call(2) by linarith
  show ?thesis
    using stacked_inside [OF st] stacked_disjoint [OF st] cur scratch_complete [OF call(1) assms(3)]
    by (fastforce intro: order_trans)
qed

theorem G729Encode_scratch_safe_witness:
  "CurPtr (scratch_run (G729AEncode_scratch True False False)
     \<lparr>base = 1000, CurPtr = 1000, VecPtr = 11280, offset = 0\<rparr>) = 1000"
  using G729Encode_scratch_safe
    [of "G729AEncode_scratch True False False" True False False G729A_CODEC True "G729AEncode_scratch True False False" "[]"
      "\<lparr>base = 1000, CurPtr = 1000, VecPtr = 11280, offset = 0\<rparr>"]
  by simp

text \<open>
  With voice activity detection off, \<open>apiG729EncodeVAD\<close> returns without freeing its arrays:
  each call takes 1428 bytes of the scratch memory for good, so the eighth call in a row runs past
  the end of the buffer.
\<close>
theorem EncodeVAD_leaks_scratch:
  "CurPtr ((scratch_run (EncodeVAD_scratch False annexA silence silent) ^^ n) m) = CurPtr m + 1428 * int n
   \<and> G729_ENCODER_SCRATCH_MEMORY_SIZE < 1428 * 8"
proof -
  have one: "CurPtr (scratch_run (EncodeVAD_scratch False annexA silence silent) m) = CurPtr m + 1428" for m
    by (simp add: EncodeVAD_scratch_def EncodeVAD_locals_def GetMemory_def GetAlignMemory_def
        LPF_DIM_def LP_SUBFRAME_DIM_def LP_WINDOW_DIM_def BWLPCF_DIM_def BWLPCF1_DIM_def VAD_LPC_DIM_def)
  show ?thesis
    by (induction n) (simp_all add: one G729_ENCODER_SCRATCH_MEMORY_SIZE_def)
qed

end
