(* ===== verification/G729_Pitch.thy ===== *)
theory G729_Pitch
  imports G729_Bits G729_Tables
begin

text \<open>
  The adaptive codebook side of the codec: the pitch index the encoder forms from a delay
  (\<open>encg729.c\<close>, the subframe loops), the delay the decoder forms from an index
  (\<open>DecodeAdaptCodebookDelays\<close>, \<open>owng729.h\<close>), and the excitation error bookkeeping that tames
  the pitch gain (\<open>updateExcErr_G729\<close>, \<open>calcErr_G729\<close>, \<open>owng729.c\<close>).

  The lemmas show that every legal delay survives encoding and decoding, that every index, also a
  corrupted one, decodes into the range the excitation buffer allows, and that the taming keeps
  the error estimates bounded, so that their 32-bit arithmetic never wraps.
\<close>

subsection \<open>Pitch delays\<close>

definition min_search_delay :: "int \<Rightarrow> int" where
  "min_search_delay valOpenDelay =
     (let i = valOpenDelay - 5;
          i = (if i < MIN_PITCH_LAG then MIN_PITCH_LAG else i)
      in if i + 9 > MAX_PITCH_LAG then MAX_PITCH_LAG - 9 else i)"

definition PitchIndex :: "G729Codec_Type \<Rightarrow> bool \<Rightarrow> int \<Rightarrow> int \<times> int \<Rightarrow> int" where
  "PitchIndex codecType first valOpenDelay delay =
     (case delay of (d0, d1) \<Rightarrow>
      if first then
        (if d0 \<le> 85 then s16 (3 * (d0 - 19) + d1 - 1) else s16 (d0 - 85 + 197))
      else let i = min_search_delay valOpenDelay in
        if codecType = G729D_CODEC then
          (let i = d0 - i
           in if i < 3 then s16 i
              else if i < 7 then s16 ((i - 3) * 3 + d1 + 3)
              else s16 (i + 6))
        else s16 ((d0 - i) * 3 + 2 + d1))"

text \<open>The decoder keeps the delay of the last good subframe, \<open>prevFrameDelay\<close> and \<open>prevFrameDelay2\<close>;
  \<open>decoder_min\<close> is its search window for the second subframe.\<close>

definition decoder_min :: "int \<Rightarrow> int" where
  "decoder_min d0 =
     (let minD = s16 (d0 - 5);
          minD = (if minD < MIN_PITCH_LAG then MIN_PITCH_LAG else minD);
          maxD = s16 (minD + 9)
      in if maxD > MAX_PITCH_LAG then MAX_PITCH_LAG - 9 else minD)"

definition DecodeAdaptCodebookDelays ::
  "int \<times> int \<Rightarrow> int \<times> int \<Rightarrow> bool \<Rightarrow> bool \<Rightarrow> int \<Rightarrow> G729Codec_Type \<Rightarrow> (int \<times> int) \<times> int \<times> int" where
  "DecodeAdaptCodebookDelays prev delay first bad_pitch pitchIndx type =
     (if \<not> bad_pitch then
        (let delay =
          (if first then
             (if pitchIndx < 197
              then let d0 = s16 ((pitchIndx + 2) div 3 + 19) in (d0, s16 (pitchIndx - d0 * 3 + 58))
              else (s16 (pitchIndx - 112), 0))
           else
             let minD = decoder_min (fst delay)
             in if type = G729D_CODEC then
                  (let pitchIndx = pitchIndx AND 15
                   in if pitchIndx \<le> 3 then (s16 (minD + pitchIndx), 0)
                      else if pitchIndx < 12 then
                        (let d1 = table0 ! nat (pitchIndx - 4);
                             d0 = s16 ((pitchIndx - d1) div 3 + 2 + minD)
                         in if d1 = 2 then (s16 (d0 + 1), - 1) else (d0, d1))
                      else (s16 (minD + pitchIndx - 6), 0))
                else
                  (s16 (minD + (pitchIndx + 2) div 3 - 1),
                   s16 (pitchIndx - 2 - 3 * ((pitchIndx + 2) div 3 - 1))))
         in (delay, delay))
      else
        (if type = G729E_CODEC then (prev, fst prev, snd prev)
         else
           let p = s16 (fst prev + 1);
               p = (if p > MAX_PITCH_LAG then MAX_PITCH_LAG else p)
           in ((p, snd prev), fst prev, 0)))"

subsection \<open>Excitation error\<close>

definition err_scale :: "int \<Rightarrow> int \<Rightarrow> int" where
  "err_scale x val =
     (let high = s16 (drop_bit 16 x);
          low = s16 (drop_bit 1 x AND MAX_16S)
      in s32 (high * val + drop_bit 15 (low * val)))"

fun err_loop :: "nat \<Rightarrow> int \<Rightarrow> int \<Rightarrow> int list \<Rightarrow> int \<Rightarrow> int" where
  "err_loop 0 i val p L_tmp = L_tmp"
| "err_loop (Suc k) i val p L_tmp =
     (let L_tmp1 = s32 (shl32 (err_scale (p ! nat i) val) 2 + BWF_HARMONIC)
      in err_loop k (i + 1) val p (max L_tmp L_tmp1))"

definition updateExcErr_G729 :: "int \<Rightarrow> int \<Rightarrow> int list \<Rightarrow> int list" where
  "updateExcErr_G729 val indx p =
     (let L_tmp = - 1;
          L_tmp =
           (if indx < LP_SUBFRAME_DIM then
              (let tmp = s32 (shl32 (err_scale (p ! 0) val) 2 + BWF_HARMONIC);
                   L_tmp = max L_tmp tmp;
                   L_tmp1 = ShiftL_32s (err_scale tmp val) 2;
                   L_tmp1 = Add_32s L_tmp1 BWF_HARMONIC
               in max L_tmp L_tmp1)
            else
              (let area1 = areas ! nat (indx - LP_SUBFRAME_DIM);
                   area2 = areas ! nat (indx - 1)
               in err_loop (nat (area2 - area1 + 1)) area1 val p L_tmp))
      in [L_tmp, p ! 0, p ! 1, p ! 2])"

fun calcErr_loop :: "nat \<Rightarrow> int \<Rightarrow> int list \<Rightarrow> int" where
  "calcErr_loop 0 i p = 0"
| "calcErr_loop (Suc k) i p = (if p ! nat i > 983040000 then 1 else calcErr_loop k (i - 1) p)"

definition calcErr_G729 :: "int \<Rightarrow> int list \<Rightarrow> int" where
  "calcErr_G729 val p =
     (let area1 = areas ! nat (max 0 (val - LP_SUBFRAME_DIM - 10));
          i = areas ! nat (val + 10 - 2)
      in calcErr_loop (nat (i - area1 + 1)) i p)"

text \<open>The subframe loops call the two around the gain quantisation.\<close>

definition tame_delay :: "int \<times> int \<Rightarrow> int" where
  "tame_delay delay = (if snd delay > 0 then fst delay + 1 else fst delay)"

subsection \<open>Legal delays survive\<close>

text \<open>The first subframe: thirds of a sample up to 84 2/3, whole samples from 85 on.\<close>

definition legal_first :: "int \<times> int \<Rightarrow> bool" where
  "legal_first delay \<longleftrightarrow> (case delay of (d0, d1) \<Rightarrow>
     (d0 = 19 \<and> d1 = 1) \<or> (20 \<le> d0 \<and> d0 \<le> 84 \<and> - 1 \<le> d1 \<and> d1 \<le> 1)
     \<or> (d0 = 85 \<and> - 1 \<le> d1 \<and> d1 \<le> 0) \<or> (86 \<le> d0 \<and> d0 \<le> 143 \<and> d1 = 0))"

text \<open>The second subframe: thirds in a window of ten samples around the first delay; for Annex D
  thirds only in the middle of the window.\<close>

definition legal_second :: "G729Codec_Type \<Rightarrow> int \<Rightarrow> int \<times> int \<Rightarrow> bool" where
  "legal_second ct valOpenDelay delay \<longleftrightarrow> (case delay of (d0, d1) \<Rightarrow>
     let k = d0 - min_search_delay valOpenDelay
     in if ct = G729D_CODEC
        then (0 \<le> k \<and> k \<le> 9 \<and> d1 = 0) \<or> (4 \<le> k \<and> k \<le> 5 \<and> - 1 \<le> d1 \<and> d1 \<le> 1)
             \<or> (k = 3 \<and> d1 = 1) \<or> (k = 6 \<and> d1 = - 1)
        else - 1 \<le> d1 \<and> d1 \<le> 1 \<and> (0 \<le> k \<and> k \<le> 9 \<or> k = - 1 \<and> d1 = 1 \<or> k = 10 \<and> d1 = - 1))"

lemma min_search_delay_range: "20 \<le> min_search_delay v" "min_search_delay v \<le> 134"
  by (simp_all add: min_search_delay_def g729_dims)

lemma third_split:
  fixes k :: int
  assumes "- 1 \<le> d" "d \<le> 1"
  shows "(3 * k + 1 + d) div 3 = k"
  using assms by presburger

lemma first_delay_roundtrip:
  assumes "legal_first (d0, d1)"
  shows "DecodeAdaptCodebookDelays prev old True False (PitchIndex ct True v (d0, d1)) type = ((d0, d1), d0, d1)
    \<and> 0 \<le> PitchIndex ct True v (d0, d1) \<and> PitchIndex ct True v (d0, d1) \<le> 255"
proof (cases "d0 \<le> 85 \<and> 3 * (d0 - 19) + d1 - 1 < 197")
  case True
  have d1: "- 1 \<le> d1" "d1 \<le> 1" and d0: "19 \<le> d0" "d0 \<le> 85"
    using assms True by (auto simp: legal_first_def)
  have idx: "PitchIndex ct True v (d0, d1) = 3 * (d0 - 19) + d1 - 1"
    using True d0 d1 by (simp add: PitchIndex_def s16_id)
  have "0 \<le> 3 * (d0 - 19) + d1 - 1"
    using assms by (auto simp: legal_first_def)
  moreover have "(3 * (d0 - 19) + d1 - 1 + 2) div 3 = d0 - 19"
    using third_split [OF d1, of "d0 - 19"] by (simp add: algebra_simps)
  ultimately show ?thesis
    using True d0 d1 by (simp add: idx DecodeAdaptCodebookDelays_def s16_id Let_def)
next
  case False
  then have "85 \<le> d0" "d0 \<le> 143" "d1 = 0"
    using assms by (auto simp: legal_first_def)
  then show ?thesis
    by (auto simp: PitchIndex_def DecodeAdaptCodebookDelays_def s16_id Let_def)
qed

lemma decoder_min:
  assumes "0 \<le> v" "v \<le> 1000"
  shows "decoder_min v = min_search_delay v"
proof -
  have "s16 (v - 5) = v - 5" "s16 (v - 5 + 9) = v - 5 + 9" "s16 (20 + 9) = 29"
    using assms by (simp_all add: s16_id)
  then show ?thesis
    by (simp add: decoder_min_def min_search_delay_def MIN_PITCH_LAG_def MAX_PITCH_LAG_def Let_def)
qed

text \<open>The decoder's second subframe in terms of the window start.\<close>

lemma decode_second:
  assumes "0 \<le> v" "v \<le> 1000" "type \<noteq> G729D_CODEC" "0 \<le> x" "x \<le> 1000"
  shows "DecodeAdaptCodebookDelays prev (v, f) False False x type =
    (let d0 = min_search_delay v + (x + 2) div 3 - 1; d1 = x - 2 - 3 * ((x + 2) div 3 - 1)
     in ((d0, d1), d0, d1))"
proof -
  let ?q = "(x + 2) div 3"
  have q: "0 \<le> ?q" "3 * ?q \<le> x + 2" "x + 2 < 3 * ?q + 3"
    using assms(4) by presburger+
  have m: "20 \<le> min_search_delay v" "min_search_delay v \<le> 134"
    by (rule min_search_delay_range)+
  have "s16 (min_search_delay v + ?q - 1) = min_search_delay v + ?q - 1"
    "s16 (x - 2 - 3 * (?q - 1)) = x - 2 - 3 * (?q - 1)"
    using q m assms by (simp_all add: s16_id)
  then show ?thesis
    using assms decoder_min [OF assms(1,2)] by (simp add: DecodeAdaptCodebookDelays_def Let_def)
qed

lemma decode_second_D:
  assumes "0 \<le> v" "v \<le> 1000" "0 \<le> x" "x \<le> 15"
  shows "DecodeAdaptCodebookDelays prev (v, f) False False x G729D_CODEC =
    (let m = min_search_delay v;
         d = (if x \<le> 3 then (m + x, 0)
              else if x < 12 then
                (let d1 = table0 ! nat (x - 4); d0 = (x - d1) div 3 + 2 + m
                 in if d1 = 2 then (d0 + 1, - 1) else (d0, d1))
              else (m + x - 6, 0))
     in (d, d))"
proof -
  have m: "20 \<le> min_search_delay v" "min_search_delay v \<le> 134"
    by (rule min_search_delay_range)+
  have x: "x AND 15 = x"
    using assms by (simp add: and_15)
  have "x \<in> set [0..15]"
    using assms by simp
  then have "x = 0 \<or> x = 1 \<or> x = 2 \<or> x = 3 \<or> x = 4 \<or> x = 5 \<or> x = 6 \<or> x = 7 \<or> x = 8 \<or> x = 9 \<or> x = 10
     \<or> x = 11 \<or> x = 12 \<or> x = 13 \<or> x = 14 \<or> x = 15"
    using assms by presburger
  then show ?thesis
    using decoder_min [OF assms(1,2)] m x
    by (elim disjE) (simp_all add: DecodeAdaptCodebookDelays_def table0_def s16_id Let_def)
qed

lemma second_delay_roundtrip:
  assumes "legal_second ct v (d0, d1)" "0 \<le> v" "v \<le> 1000" "ct = G729D_CODEC \<longleftrightarrow> type = G729D_CODEC"
  shows "DecodeAdaptCodebookDelays prev (v, f) False False (PitchIndex ct False v (d0, d1)) type
      = ((d0, d1), d0, d1)
    \<and> 0 \<le> PitchIndex ct False v (d0, d1)
    \<and> PitchIndex ct False v (d0, d1) \<le> (if ct = G729D_CODEC then 15 else 31)"
proof -
  define m where "m = min_search_delay v"
  have m: "20 \<le> m" "m \<le> 134"
    unfolding m_def by (rule min_search_delay_range)+
  obtain k where k: "d0 = m + k"
    by (metis add.commute diff_add_cancel)
  show ?thesis
  proof (cases "ct = G729D_CODEC")
    case True
    have "(k, d1) \<in> {(0, 0), (1, 0), (2, 0), (3, 0), (3, 1), (4, - 1), (4, 0), (4, 1), (5, - 1),
        (5, 0), (5, 1), (6, - 1), (6, 0), (7, 0), (8, 0), (9, 0)}"
    proof -
      have "0 \<le> k \<and> k \<le> 9 \<and> d1 = 0 \<or> 4 \<le> k \<and> k \<le> 5 \<and> - 1 \<le> d1 \<and> d1 \<le> 1 \<or> k = 3 \<and> d1 = 1 \<or> k = 6 \<and> d1 = - 1"
        using assms(1) True unfolding legal_second_def m_def [symmetric] k by (simp add: Let_def)
      then show ?thesis
        by simp presburger
    qed
    moreover have "type = G729D_CODEC"
      using assms True by simp
    ultimately show ?thesis
      using True m assms(2,3)
      by (elim insertE emptyE)
        (simp_all add: PitchIndex_def m_def [symmetric] k s16_id decode_second_D table0_def Let_def)
  next
    case False
    have d1: "- 1 \<le> d1" "d1 \<le> 1" and kr: "- 1 \<le> k" "k \<le> 10" and idx: "0 \<le> k * 3 + 2 + d1" "k * 3 + 2 + d1 \<le> 31"
      using assms(1) False unfolding legal_second_def m_def [symmetric] k by (auto simp: Let_def)
    have i: "PitchIndex ct False v (d0, d1) = k * 3 + 2 + d1"
      using False idx by (simp add: PitchIndex_def m_def [symmetric] k s16_id Let_def)
    have "(k * 3 + 2 + d1 + 2) div 3 = k + 1"
      using third_split [OF d1, of "k + 1"] by (simp add: algebra_simps)
    then show ?thesis
      using False assms idx i by (simp add: decode_second m_def [symmetric] k Let_def)
  qed
qed

subsection \<open>Every index decodes into range\<close>

lemma decode_first_range:
  assumes "0 \<le> x" "x \<le> 255"
  shows "case DecodeAdaptCodebookDelays prev old True False x type of (p, d0, d1) \<Rightarrow>
    p = (d0, d1) \<and> 19 \<le> d0 \<and> d0 \<le> 143 \<and> - 1 \<le> d1 \<and> d1 \<le> 1"
proof (cases "x < 197")
  case True
  let ?q = "(x + 2) div 3"
  have q: "0 \<le> ?q" "3 * ?q \<le> x + 2" "x + 2 < 3 * ?q + 3"
    using assms(1) by presburger+
  then have "s16 (?q + 19) = ?q + 19" "s16 (x - (?q + 19) * 3 + 58) = x - (?q + 19) * 3 + 58"
    using assms True by (simp_all add: s16_id)
  then show ?thesis
    using True q by (simp add: DecodeAdaptCodebookDelays_def Let_def)
next
  case False
  then show ?thesis
    using assms by (simp add: DecodeAdaptCodebookDelays_def s16_id Let_def)
qed

lemma decode_second_range:
  assumes "0 \<le> v" "v \<le> 1000" "0 \<le> x" "x \<le> 31"
  shows "case DecodeAdaptCodebookDelays prev (v, f) False False x type of (p, d0, d1) \<Rightarrow>
    p = (d0, d1) \<and> 19 \<le> d0 \<and> d0 \<le> 144 \<and> - 1 \<le> d1 \<and> d1 \<le> 1"
proof (cases "type = G729D_CODEC")
  case False
  let ?q = "(x + 2) div 3"
  have "0 \<le> ?q" "3 * ?q \<le> x + 2" "x + 2 < 3 * ?q + 3"
    using assms(3) by presburger+
  then show ?thesis
    using decode_second [OF assms(1,2) False, of x prev f] assms min_search_delay_range [of v]
    by (simp add: Let_def)
next
  case True
  have m: "20 \<le> min_search_delay v" "min_search_delay v \<le> 134"
    by (rule min_search_delay_range)+
  have and15: "DecodeAdaptCodebookDelays prev (v, f) False False x G729D_CODEC
      = DecodeAdaptCodebookDelays prev (v, f) False False (x AND 15) G729D_CODEC"
    by (simp add: DecodeAdaptCodebookDelays_def and_15)
  have y: "0 \<le> x AND 15" "x AND 15 \<le> 15"
    by (simp_all add: and_15)
  define y where "y = x AND 15"
  have "y = 0 \<or> y = 1 \<or> y = 2 \<or> y = 3 \<or> y = 4 \<or> y = 5 \<or> y = 6 \<or> y = 7 \<or> y = 8 \<or> y = 9 \<or> y = 10
     \<or> y = 11 \<or> y = 12 \<or> y = 13 \<or> y = 14 \<or> y = 15"
    using y unfolding y_def [symmetric] by presburger
  then show ?thesis
    using m unfolding True and15 y_def [symmetric]
    by (elim disjE) (simp_all add: decode_second_D assms table0_def Let_def)
qed

lemma decode_bad_range:
  assumes "19 \<le> fst prev" "fst prev \<le> 144" "- 1 \<le> snd prev" "snd prev \<le> 1"
  shows "case DecodeAdaptCodebookDelays prev old first True x type of (p, d0, d1) \<Rightarrow>
    19 \<le> fst p \<and> fst p \<le> 144 \<and> - 1 \<le> snd p \<and> snd p \<le> 1
    \<and> 19 \<le> d0 \<and> d0 \<le> 144 \<and> - 1 \<le> d1 \<and> d1 \<le> 1"
  using assms by (auto simp: DecodeAdaptCodebookDelays_def s16_id MAX_PITCH_LAG_def Let_def)

subsection \<open>Taming\<close>

definition ERR_MAX :: int where "ERR_MAX = 1415651000"

lemma err_scale_exact:
  assumes "0 \<le> x" "x < 2147483648" "0 \<le> val" "val \<le> 32767"
  shows "err_scale x val = x div 65536 * val + (x div 2 mod 32768) * val div 32768"
    "0 \<le> err_scale x val" "65536 * err_scale x val \<le> x * val"
proof -
  let ?h = "x div 65536" and ?l = "x div 2 mod 32768"
  have h: "0 \<le> ?h" "?h \<le> 32767" and l: "0 \<le> ?l" "?l \<le> 32767"
    using assms by auto
  have hv: "0 \<le> ?h * val" "?h * val \<le> 32767 * 32767"
    using h assms mult_mono [of ?h 32767 val 32767] by auto
  have lv: "0 \<le> ?l * val" "?l * val \<le> 32767 * 32767"
    using l assms mult_mono [of ?l 32767 val 32767] by auto
  then have d: "0 \<le> ?l * val div 32768" "?l * val div 32768 \<le> 32767"
    by auto
  have m: "drop_bit 1 x AND MAX_16S = ?l"
    by (simp add: and_7fff drop_bit_eq_div)
  show e: "err_scale x val = ?h * val + ?l * val div 32768"
  proof -
    have "s16 (drop_bit 16 x) = ?h" "s16 ?l = ?l"
      using h l by (simp_all add: drop_bit_eq_div s16_id)
    moreover have "s32 (?h * val + ?l * val div 32768) = ?h * val + ?l * val div 32768"
      by (rule s32_id) (use hv d in linarith)
    moreover have "drop_bit 15 (?l * val) = ?l * val div 32768"
      by (simp add: drop_bit_eq_div)
    ultimately show ?thesis
      by (simp only: err_scale_def m Let_def)
  qed
  show "0 \<le> err_scale x val"
    using hv d by (simp add: e)
  have xs: "65536 * ?h + 2 * ?l \<le> x"
  proof -
    have "x mod 65536 = 2 * ?l + x mod 2"
      using zmod_zmult2_eq [of 32768 x 2] by simp
    moreover have "65536 * ?h + x mod 65536 = x"
      by (rule mult_div_mod_eq)
    moreover have "0 \<le> x mod 2"
      by simp
    ultimately show ?thesis
      by linarith
  qed
  have "65536 * (?l * val div 32768) \<le> 2 * (?l * val)"
  proof -
    have "32768 * (y div 32768) + y mod 32768 = y" "0 \<le> y mod 32768" for y :: int
      by (rule mult_div_mod_eq) simp
    from this [of "?l * val"] show ?thesis
      by linarith
  qed
  then have "65536 * err_scale x val \<le> (65536 * ?h + 2 * ?l) * val"
    by (simp add: e algebra_simps)
  also have "\<dots> \<le> x * val"
    using xs assms by (intro mult_right_mono) auto
  finally show "65536 * err_scale x val \<le> x * val" .
qed

text \<open>One application of the gain, with the rounding the code adds.\<close>

lemma err_step:
  assumes "0 \<le> x" "x \<le> ERR_MAX" "0 \<le> val"
    and "val \<le> 16383 \<or> val \<le> 19661 \<and> x \<le> 1179680000"
  shows "s32 (shl32 (err_scale x val) 2 + BWF_HARMONIC) = 4 * err_scale x val + 16384"
    "0 \<le> 4 * err_scale x val + 16384" "4 * err_scale x val + 16384 \<le> ERR_MAX"
    "val \<le> 19661 \<Longrightarrow> x \<le> 983040000 \<Longrightarrow> 4 * err_scale x val + 16384 \<le> 1179680000"
proof -
  have e: "0 \<le> err_scale x val" "65536 * err_scale x val \<le> x * val"
  proof -
    have "val \<le> 32767"
      using assms(4) by linarith
    moreover have "x < 2147483648"
      using assms(2) unfolding ERR_MAX_def by linarith
    ultimately show "0 \<le> err_scale x val" "65536 * err_scale x val \<le> x * val"
      using err_scale_exact(2,3) [of x val] assms(1,3) by blast+
  qed
  have b: "4 * err_scale x val + 16384 \<le> ERR_MAX"
    using assms(4)
  proof
    assume "val \<le> 16383"
    then have "x * val \<le> x * 16383"
      using assms by (intro mult_left_mono)
    then show ?thesis
      using e assms(2) unfolding ERR_MAX_def by linarith
  next
    assume "val \<le> 19661 \<and> x \<le> 1179680000"
    then have "x * val \<le> 1179680000 * 19661"
      using assms by (intro mult_mono) auto
    then show ?thesis
      using e unfolding ERR_MAX_def by linarith
  qed
  show "0 \<le> 4 * err_scale x val + 16384" "4 * err_scale x val + 16384 \<le> ERR_MAX"
    using e b by auto
  show "s32 (shl32 (err_scale x val) 2 + BWF_HARMONIC) = 4 * err_scale x val + 16384"
    using e b by (simp add: shl32_def push_bit_eq_mult s32_id BWF_HARMONIC_def ERR_MAX_def)
  assume "val \<le> 19661" "x \<le> 983040000"
  then have "x * val \<le> 983040000 * 19661"
    using assms by (intro mult_mono) auto
  then show "4 * err_scale x val + 16384 \<le> 1179680000"
    using e by linarith
qed

definition err_ok :: "int list \<Rightarrow> bool" where
  "err_ok p \<longleftrightarrow> length p = 4 \<and> (\<forall>e\<in>set p. 0 \<le> e \<and> e \<le> ERR_MAX)"

lemma err_ok_nth: "err_ok p \<Longrightarrow> 0 \<le> i \<Longrightarrow> i \<le> 3 \<Longrightarrow> 0 \<le> p ! nat i \<and> p ! nat i \<le> ERR_MAX"
  by (simp add: err_ok_def nth_mem)

lemma calcErr_loop_zero:
  "calcErr_loop k i p = 0 \<Longrightarrow> i - int k < j \<Longrightarrow> j \<le> i \<Longrightarrow> p ! nat j \<le> 983040000"
proof (induction k arbitrary: i)
  case (Suc k)
  then show ?case
    by (cases "j = i") (auto split: if_splits)
qed simp

lemma calcErr_01: "calcErr_loop k i p = 0 \<or> calcErr_loop k i p = 1"
  by (induction k arbitrary: i) auto

lemma calcErr_loop_one:
  "calcErr_loop k i p = 1 \<longleftrightarrow> (\<exists>j. i - int k < j \<and> j \<le> i \<and> 983040000 < p ! nat j)"
proof (induction k arbitrary: i)
  case (Suc k)
  have "i - int (Suc k) < j \<and> j \<le> i \<longleftrightarrow> j = i \<or> i - 1 - int k < j \<and> j \<le> i - 1" for j by auto
  then have "(\<exists>j. i - int (Suc k) < j \<and> j \<le> i \<and> P j) \<longleftrightarrow> P i \<or> (\<exists>j. i - 1 - int k < j \<and> j \<le> i - 1 \<and> P j)" for P
    by metis
  then show ?case using Suc [of "i - 1"] by simp
qed simp

text \<open>The table of areas: monotone where the code reads it, and the window that is checked
  contains the window that is updated.\<close>

lemma areas_window:
  assumes "40 \<le> d" "d \<le> 144" "v = d \<or> v = d + 1" "v \<le> 144"
  shows "areas ! nat (max 0 (v - 50)) \<le> areas ! nat (d - 40)"
    "areas ! nat (d - 40) \<le> areas ! nat (d - 1)"
    "areas ! nat (d - 1) \<le> areas ! nat (v + 8)"
    "0 \<le> areas ! nat (d - 40)" "areas ! nat (d - 1) \<le> 3"
proof -
  have tab: "list_all (\<lambda>d. areas ! (d - 50) \<le> areas ! (d - 40) \<and> areas ! (d - 49) \<le> areas ! (d - 40)
      \<and> areas ! (d - 40) \<le> areas ! (d - 1) \<and> areas ! (d - 1) \<le> areas ! (d + 8)
      \<and> 0 \<le> areas ! (d - 40) \<and> areas ! (d - 1) \<le> 3
      \<and> (d < 144 \<longrightarrow> areas ! (d - 1) \<le> areas ! (d + 9))) [40..<145]"
    by code_simp
  define n where "n = nat d"
  have n1: "d = int n"
    using assms(1) by (simp add: n_def)
  then have n2: "40 \<le> n" "n < 145"
    using assms(1,2) by linarith+
  have n: "n \<in> set [40..<145]"
    by (simp only: set_upt atLeastLessThan_iff n2 simp_thms)
  have i1: "nat (max 0 (v - 50)) = n - 50 \<or> nat (max 0 (v - 50)) = n - 49"
    using assms(3) n1 n2 by (auto simp: max_def nat_diff_distrib')
  have i2: "nat (d - 40) = n - 40" "nat (d - 1) = n - 1"
    using n1 n2 by auto
  have i3: "nat (v + 8) = n + 8 \<or> nat (v + 8) = n + 9 \<and> n < 144"
    using assms(3,4) n1 n2 by (auto simp: nat_add_distrib)
  have t: "areas ! (n - 50) \<le> areas ! (n - 40)" "areas ! (n - 49) \<le> areas ! (n - 40)"
    "areas ! (n - 40) \<le> areas ! (n - 1)" "areas ! (n - 1) \<le> areas ! (n + 8)"
    "0 \<le> areas ! (n - 40)" "areas ! (n - 1) \<le> 3" "n < 144 \<Longrightarrow> areas ! (n - 1) \<le> areas ! (n + 9)"
    using bspec [OF tab [unfolded list_all_iff] n] by blast+
  show "areas ! nat (max 0 (v - 50)) \<le> areas ! nat (d - 40)"
    using i1 t(1,2) unfolding i2 by metis
  show "areas ! nat (d - 1) \<le> areas ! nat (v + 8)"
    using i3 t(4,7) unfolding i2 by metis
  show "areas ! nat (d - 40) \<le> areas ! nat (d - 1)" "0 \<le> areas ! nat (d - 40)" "areas ! nat (d - 1) \<le> 3"
    unfolding i2 by (rule t)+
qed

lemma areas_low:
  assumes "19 \<le> d" "d < 40" "v = d \<or> v = d + 1"
  shows "areas ! nat (max 0 (v - 50)) = 0" "0 \<le> areas ! nat (v + 8)"
proof -
  show "areas ! nat (max 0 (v - 50)) = 0"
  proof -
    have "max 0 (v - 50) = 0"
      using assms by auto
    then show ?thesis
      by (simp add: areas_def)
  qed
  have "nat (v + 8) < length areas"
    using assms by auto
  then show "0 \<le> areas ! nat (v + 8)"
    using areas_range table_bounds by blast
qed

text \<open>The gain after the taming decision: at most 1.2, below 1.0 when the flag is set.\<close>

definition tamed_gain :: "int \<Rightarrow> int \<Rightarrow> bool" where
  "tamed_gain flag gain \<longleftrightarrow> 0 \<le> gain \<and> gain \<le> 19661 \<and> (flag = 1 \<longrightarrow> gain \<le> 16383)"

lemma err_loop_bounded:
  assumes "err_ok p" "0 \<le> val" "0 \<le> i" "i + int k \<le> 4" "- 1 \<le> L" "L \<le> ERR_MAX"
    and "\<forall>j. i \<le> j \<and> j < i + int k \<longrightarrow> val \<le> 16383 \<or> val \<le> 19661 \<and> p ! nat j \<le> 1179680000"
  shows "err_loop k i val p L \<le> ERR_MAX \<and> L \<le> err_loop k i val p L
    \<and> (0 < k \<longrightarrow> 0 \<le> err_loop k i val p L)"
  using assms
proof (induction k arbitrary: i L)
  case (Suc k)
  have e: "0 \<le> p ! nat i" "p ! nat i \<le> ERR_MAX"
    using err_ok_nth [of p i] Suc.prems by auto
  have g: "val \<le> 16383 \<or> val \<le> 19661 \<and> p ! nat i \<le> 1179680000"
    using Suc.prems(7) by auto
  let ?x = "s32 (shl32 (err_scale (p ! nat i) val) 2 + BWF_HARMONIC)"
  have x: "0 \<le> ?x" "?x \<le> ERR_MAX"
    unfolding err_step(1) [OF e Suc.prems(2) g] by (rule err_step(2,3) [OF e Suc.prems(2) g])+
  have "err_loop k (i + 1) val p (max L ?x) \<le> ERR_MAX \<and> max L ?x \<le> err_loop k (i + 1) val p (max L ?x)"
    using Suc.IH [of "i + 1" "max L ?x"] Suc.prems x by auto
  then show ?case
    using x by (simp add: Let_def)
qed simp

lemma updateExcErr_bounded:
  assumes "err_ok p" "19 \<le> d" "d \<le> 144" "v = d \<or> v = d + 1" "v \<le> 144"
    and gain: "tamed_gain (calcErr_G729 v p) val"
  shows "err_ok (updateExcErr_G729 val d p)"
proof -
  have val: "0 \<le> val" "val \<le> 19661"
    using gain by (auto simp: tamed_gain_def)
  have flag: "val \<le> 16383 \<or> calcErr_G729 v p = 0"
    using gain calcErr_01 by (auto simp: tamed_gain_def calcErr_G729_def Let_def)
  have window: "p ! nat j \<le> 983040000"
    if "calcErr_G729 v p = 0" "areas ! nat (max 0 (v - 50)) \<le> j" "j \<le> areas ! nat (v + 8)" for j
  proof (rule calcErr_loop_zero)
    show "calcErr_loop (nat (areas ! nat (v + 8) - areas ! nat (max 0 (v - 50)) + 1)) (areas ! nat (v + 8)) p = 0"
      using that by (simp add: calcErr_G729_def LP_SUBFRAME_DIM_def Let_def add.commute)
  qed (use that in auto)
  have "\<exists>x. updateExcErr_G729 val d p = [x, p ! 0, p ! 1, p ! 2] \<and> 0 \<le> x \<and> x \<le> ERR_MAX"
  proof (cases "d < 40")
    case True
    have e: "0 \<le> p ! 0" "p ! 0 \<le> ERR_MAX"
      using err_ok_nth [OF assms(1), of 0] by auto
    have g: "val \<le> 16383 \<or> val \<le> 19661 \<and> p ! 0 \<le> 1179680000"
      using flag window [of 0] areas_low [OF assms(2) True assms(4)] val by auto
    let ?t = "4 * err_scale (p ! 0) val + 16384"
    have t: "0 \<le> ?t" "?t \<le> ERR_MAX"
      by (rule err_step(2,3) [OF e val(1) g])+
    have g2: "val \<le> 16383 \<or> val \<le> 19661 \<and> ?t \<le> 1179680000"
    proof (cases "val \<le> 16383")
      case False
      then have "p ! 0 \<le> 983040000"
        using flag window [of 0] areas_low [OF assms(2) True assms(4)] by auto
      then show ?thesis
        using err_step(4) [OF e val(1) g val(2)] val by simp
    qed simp
    let ?u = "4 * err_scale ?t val + 16384"
    have u: "0 \<le> ?u" "?u \<le> ERR_MAX"
      by (rule err_step(2,3) [OF t val(1) g2])+
    have s: "0 \<le> err_scale ?t val"
      using err_scale_exact(2) [of ?t val] t val by (auto simp: ERR_MAX_def)
    have sh: "ShiftL_32s (err_scale ?t val) 2 = 4 * err_scale ?t val"
      using u s by (simp add: ShiftL_32s_clamp ERR_MAX_def)
    have ad: "Add_32s (4 * err_scale ?t val) BWF_HARMONIC = ?u"
      using u s by (simp add: Add_32s_clamp BWF_HARMONIC_def ERR_MAX_def)
    have "updateExcErr_G729 val d p = [max (max (- 1) ?t) ?u, p ! 0, p ! 1, p ! 2]"
      using True err_step(1) [OF e val(1) g]
      by (simp add: updateExcErr_G729_def LP_SUBFRAME_DIM_def Let_def sh ad)
    then show ?thesis
      using t u by auto
  next
    case False
    then have d: "40 \<le> d" by simp
    note w = areas_window [OF d assms(3,4,5)]
    let ?a = "areas ! nat (d - 40)" and ?b = "areas ! nat (d - 1)"
    have "\<forall>j. ?a \<le> j \<and> j < ?a + int (nat (?b - ?a + 1)) \<longrightarrow> val \<le> 16383 \<or> val \<le> 19661 \<and> p ! nat j \<le> 1179680000"
    proof (intro allI impI)
      fix j
      assume "?a \<le> j \<and> j < ?a + int (nat (?b - ?a + 1))"
      then have "areas ! nat (max 0 (v - 50)) \<le> j" "j \<le> areas ! nat (v + 8)"
        using w by linarith+
      then show "val \<le> 16383 \<or> val \<le> 19661 \<and> p ! nat j \<le> 1179680000"
        using flag window [of j] val by linarith
    qed
    moreover have "?a + int (nat (?b - ?a + 1)) \<le> 4" "0 < nat (?b - ?a + 1)"
      using w by linarith+
    moreover have "- 1 \<le> ERR_MAX"
      by (simp add: ERR_MAX_def)
    ultimately have "err_loop (nat (?b - ?a + 1)) ?a val p (- 1) \<le> ERR_MAX
        \<and> 0 \<le> err_loop (nat (?b - ?a + 1)) ?a val p (- 1)"
      using err_loop_bounded [OF assms(1) val(1) w(4), of "nat (?b - ?a + 1)" "- 1"] by blast
    then show ?thesis
      using False by (simp add: updateExcErr_G729_def LP_SUBFRAME_DIM_def Let_def)
  qed
  then show ?thesis
    using assms(1) err_ok_nth [OF assms(1), of 0] err_ok_nth [OF assms(1), of 1] err_ok_nth [OF assms(1), of 2]
    by (auto simp: err_ok_def)
qed

subsection \<open>Properties\<close>

text \<open>
  C15: Every legal pitch delay of a frame survives transmission: the first subframe's index and the
  second subframe's index (relative to the first delay) are in the range of their bit fields and
  decode to the same delays, in every codec mode.
\<close>
theorem pitch_delays_roundtrip:
  assumes "legal_first (d0, d1)" and "legal_second ct d0 (e0, e1)"
    and "ct = G729D_CODEC \<longleftrightarrow> type = G729D_CODEC"
  shows "let i1 = PitchIndex ct True v (d0, d1);
             i2 = PitchIndex ct False d0 (e0, e1);
             (prev1, delay1) = DecodeAdaptCodebookDelays prev old True False i1 type
         in 0 \<le> i1 \<and> i1 \<le> 255 \<and> 0 \<le> i2 \<and> i2 \<le> (if ct = G729D_CODEC then 15 else 31)
            \<and> delay1 = (d0, d1)
            \<and> DecodeAdaptCodebookDelays prev1 delay1 False False i2 type = ((e0, e1), e0, e1)"
proof -
  have "0 \<le> d0" "d0 \<le> 1000"
    using assms(1) by (auto simp: legal_first_def)
  then show ?thesis
    using first_delay_roundtrip [OF assms(1), of prev old ct v type]
      second_delay_roundtrip [OF assms(2) _ _ assms(3)]
    by (simp add: Let_def)
qed

theorem pitch_delays_roundtrip_witness:
  "DecodeAdaptCodebookDelays ((60, - 1)) (60, - 1) False False
     (PitchIndex G729_CODEC False 60 (58, 1)) G729_CODEC = ((58, 1), 58, 1)"
  using pitch_delays_roundtrip [of 60 "- 1" G729_CODEC 58 1 G729_CODEC 0 "(60, 0)" "(0, 0)"]
  by (simp add: legal_first_def legal_second_def min_search_delay_def g729_dims PitchIndex_def
      DecodeAdaptCodebookDelays_def Let_def s16_id)

text \<open>
  C35: Whatever bits arrive, the decoder's delays stay within 19 to 144 samples, the reach of its
  excitation buffer: for any first index of eight bits, any second index of five bits and any
  mixture of bad subframes, starting from delays in that range.
\<close>
theorem decoded_delay_bounded:
  assumes "0 \<le> x" and "x \<le> (if first then 255 else 31)"
    and "19 \<le> fst prev" "fst prev \<le> 144" "- 1 \<le> snd prev" "snd prev \<le> 1"
    and "19 \<le> v" "v \<le> 144"
  shows "case DecodeAdaptCodebookDelays prev (v, f) first bad x type of (p, d0, d1) \<Rightarrow>
    19 \<le> fst p \<and> fst p \<le> 144 \<and> - 1 \<le> snd p \<and> snd p \<le> 1 \<and> 19 \<le> d0 \<and> d0 \<le> 144 \<and> - 1 \<le> d1 \<and> d1 \<le> 1"
proof (cases bad)
  case True
  then show ?thesis
    using decode_bad_range [OF assms(3-6)] by simp
next
  case False
  then show ?thesis
    using decode_first_range [of x prev "(v, f)" type] decode_second_range [of v x prev f type] assms
    by (cases first) (auto split: prod.splits)
qed

theorem decoded_delay_bounded_witness:
  "case DecodeAdaptCodebookDelays (60, 0) (134, 1) False False 31 G729_CODEC of (p, d0, d1) \<Rightarrow>
    19 \<le> fst p \<and> fst p \<le> 144 \<and> - 1 \<le> snd p \<and> snd p \<le> 1 \<and> 19 \<le> d0 \<and> d0 \<le> 144 \<and> - 1 \<le> d1 \<and> d1 \<le> 1"
  by (rule decoded_delay_bounded) simp_all

text \<open>
  C14: The taming decision is sound. Let the four error estimates be in \<open>0\<close> to \<open>ERR_MAX < 2^31\<close> and let
  a subframe have the delay \<open>d\<close> with fraction \<open>f\<close>. \<open>calcErr_G729\<close> answers 1 exactly when an estimate of
  the zones in its window exceeds 60000 (in Q14). If it answers 0, \<open>updateExcErr_G729\<close> with any pitch
  gain from 0 to 1.2 (19661 in Q14) leaves all four estimates in that range; whatever it answers, a gain
  below 1.0 (at most 16383) does. Nothing is said here about the gains the quantiser of the signal library
  returns.
\<close>
theorem taming_decision_sound:
  assumes "err_ok p" "19 \<le> d" "d \<le> 144" "f \<in> {- 1, 0, 1}" "tame_delay (d, f) \<le> 144" "0 \<le> gain"
  defines "flag \<equiv> calcErr_G729 (tame_delay (d, f)) p"
  shows "(flag = 0 \<or> flag = 1)
    \<and> (flag = 1 \<longleftrightarrow> (\<exists>j \<in> {areas ! nat (max 0 (tame_delay (d, f) - 50)) .. areas ! nat (tame_delay (d, f) + 8)}.
                      983040000 < p ! nat j))
    \<and> (flag = 0 \<and> gain \<le> 19661 \<longrightarrow> err_ok (updateExcErr_G729 gain d p))
    \<and> (gain \<le> 16383 \<longrightarrow> err_ok (updateExcErr_G729 gain d p))"
proof -
  define v where "v = tame_delay (d, f)"
  have v: "v = d \<or> v = d + 1" "v \<le> 144" using assms(5) by (auto simp: v_def tame_delay_def)
  note upd = updateExcErr_bounded [OF assms(1-3) v]
  have "flag = 0 \<or> flag = 1"
    unfolding flag_def calcErr_G729_def Let_def by (rule calcErr_01)
  moreover have "flag = 1 \<longleftrightarrow> (\<exists>j \<in> {areas ! nat (max 0 (v - 50)) .. areas ! nat (v + 8)}. 983040000 < p ! nat j)"
  proof -
    have "i - int (nat (i - a + 1)) < j \<and> j \<le> i \<longleftrightarrow> j \<in> {a..i}" for i a j :: int by auto
    then have "calcErr_loop (nat (i - a + 1)) i p = 1 \<longleftrightarrow> (\<exists>j \<in> {a..i}. 983040000 < p ! nat j)" for i a :: int
      unfolding calcErr_loop_one by blast
    then show ?thesis
      by (simp add: flag_def v_def [symmetric] calcErr_G729_def Let_def LP_SUBFRAME_DIM_def add.commute [of 8])
  qed
  moreover have "flag = 0 \<and> gain \<le> 19661 \<longrightarrow> err_ok (updateExcErr_G729 gain d p)"
    using upd [of gain] assms(6) by (simp add: tamed_gain_def flag_def v_def)
  moreover have "gain \<le> 16383 \<longrightarrow> err_ok (updateExcErr_G729 gain d p)"
    using upd [of gain] assms(6) by (simp add: tamed_gain_def)
  ultimately show ?thesis by (simp add: v_def)
qed

theorem taming_decision_sound_witness:
  "calcErr_G729 61 [983040000, 0, 0, 0] = 0 \<and> err_ok (updateExcErr_G729 19661 60 [983040000, 0, 0, 0])"
proof -
  have ok: "err_ok [983040000, 0, 0, 0]" by (simp add: err_ok_def ERR_MAX_def)
  have z: "calcErr_G729 61 [983040000, 0, 0, 0] = 0" by code_simp
  show ?thesis
    using taming_decision_sound [OF ok, of 60 1 19661] z by (simp add: tame_delay_def)
qed

end
