(* ===== verification/G729_Energy.thy ===== *)
theory G729_Energy
  imports IppArith G729_Tables
begin

text \<open>
  The logarithm, energy and autocorrelation helpers of \<open>owng729.c\<close>: the table driven
  \<open>Log2_G729\<close>, the quantiser of the comfort noise energy (\<open>ownQuantizeEnergy\<close>,
  \<open>QuantSIDGain_G729B_16s\<close>), the sum of scaled autocorrelations \<open>Sum_G729_16s_Sfs\<close>, the
  decibel energy \<open>enerDB\<close> and the backward lag window. The minimum and dot product of the signal
  processing library are parameters. The lemmas show that the logarithm is exact in its integer part and monotone, that
  the quantiser's index always fits the five bits it is sent in and orders the energies, and that
  every table is read inside its bounds.
\<close>

subsection \<open>The code\<close>

definition Log2_G729 :: "int \<Rightarrow> int \<times> int" where
  "Log2_G729 val =
     (if val \<le> 0 then (0, 0)
      else let order = s16 (Exp_32s val);
               val = shl32 val (shift_count order);
               i = s16 (drop_bit 25 val);
               j = s16 (drop_bit 10 val AND MAX_16S);
               i = s16 (i - 32);
               L_tmp = shl32 (logTable ! nat i) 15;
               L_tmp = s32 (L_tmp - s32 ((logTable ! nat i - logTable ! nat (i + 1)) * j))
           in (s16 (30 - order), s16 (drop_bit 15 L_tmp)))"

definition ownQuantizeEnergy :: "int \<Rightarrow> int \<Rightarrow> int \<times> int" where
  "ownQuantizeEnergy val order =
     (let (e, fractal) = Log2_G729 val;
          tmp1 = s16 (e - order);
          tmp = s16 (shl32 tmp1 10);
          tmp = s16 (tmp + drop_bit 5 (fractal + 0x10))
      in if tmp \<le> - 2721 then (- 12, 0)
         else if tmp > 22111 then (66, 31)
         else if tmp \<le> 4762 then
           (let tmp = s16 (tmp + 3401);
                index = s16 (drop_bit 15 (tmp * 24));
                index = (if index < 1 then 1 else index)
            in (s16 (shl32 index 2 - 8), index))
         else
           (let tmp = s16 (tmp - 340);
                index = s16 (drop_bit 17 (tmp * 193) - 1);
                index = (if index < 6 then 6 else index)
            in (s16 (shl32 index 1 + 4), index)))"

text \<open>The shift counts of the two functions below may be negative; see \<open>shift_count\<close>.\<close>

definition sid_energy_sum :: "int list \<Rightarrow> int list \<Rightarrow> int \<Rightarrow> nat \<Rightarrow> int" where
  "sid_energy_sum src sfs order len =
     fold (\<lambda>i val. s32 (val + shl32 (src ! i) (shift_count (s16 (order - sfs ! i))))) [0..<len] 0"

definition QuantSIDGain_G729B_16s :: "(int list \<Rightarrow> int) \<Rightarrow> int list \<Rightarrow> int list \<Rightarrow> nat \<Rightarrow> int \<times> int" where
  "QuantSIDGain_G729B_16s ippsMin src sfs len =
     (if len = 0 then
        (let val = src ! 0;
             val = (if sfs ! 0 < 0 then drop_bit (shift_count (- (sfs ! 0))) val
                    else shl32 val (shift_count (sfs ! 0)));
             high = s16 (drop_bit 16 val);
             low = s16 (drop_bit 1 val AND MAX_16S);
             val = s32 (high * energy_fact ! 0 + drop_bit 15 (low * energy_fact ! 0))
         in ownQuantizeEnergy val 0)
      else
        (let order = ippsMin (take len sfs);
             order = s16 (order + 16 - energy_off ! len);
             val = sid_energy_sum src sfs order len;
             high = s16 (drop_bit 16 val);
             low = s16 (drop_bit 1 val AND MAX_16S);
             val = s32 (high * energy_fact ! len
                        + drop_bit 14 (u32 (drop_bit 1 (low * energy_fact ! len)) AND 0xffff8000))
         in ownQuantizeEnergy val order))"

fun min_sfs :: "int list \<Rightarrow> int \<Rightarrow> int" where
  "min_sfs [] sfs = sfs"
| "min_sfs (x # xs) sfs = min_sfs xs (if x < sfs then x else sfs)"

definition acf_scaled :: "int \<Rightarrow> int \<Rightarrow> int" where
  "acf_scaled order x =
     (if order < 0 then drop_bit (shift_count (- order)) x else shl32 x (shift_count order))"

definition acf_sum :: "int list \<Rightarrow> int list \<Rightarrow> int \<Rightarrow> nat \<Rightarrow> nat \<Rightarrow> int" where
  "acf_sum src sfs_list sfs len j =
     fold (\<lambda>i s. s32 (s + acf_scaled (s16 (sfs - sfs_list ! i)) (src ! (11 * i + j)))) [0..<len] 0"

definition Sum_G729_16s_Sfs :: "int list \<Rightarrow> int list \<Rightarrow> nat \<Rightarrow> (int list \<times> int) option" where
  "Sum_G729_16s_Sfs src sfs_list len =
     (let sfs = min_sfs (take (len - 1) (tl sfs_list)) (sfs_list ! 0);
          sfs = s16 (sfs + 14);
          pSum = map (acf_sum src sfs_list sfs len) [0..<11]
      in case Norm_32s_I (pSum ! 0) of
           None \<Rightarrow> None
         | Some (order, sum0) \<Rightarrow>
             (let order = s16 order
              in Some (s16 (drop_bit 16 sum0)
                       # map (\<lambda>i. s16 (drop_bit 16 (shl32 (pSum ! i) (shift_count order)))) [1..<11],
                     s16 (sfs + s16 (order - 16)))))"

text \<open>The loop of \<open>enerDB\<close>; a 32-bit value is at most 32 after 31 halvings.\<close>

fun ener_loop :: "nat \<Rightarrow> int \<Rightarrow> int \<Rightarrow> (int \<times> int) option" where
  "ener_loop 0 i L_energy = None"
| "ener_loop (Suc fuel) i L_energy =
     (if L_energy > 32 then ener_loop fuel (s16 (i + 1)) (drop_bit 1 L_energy) else Some (i, L_energy))"

definition enerDB :: "(int list \<Rightarrow> int list \<Rightarrow> int) \<Rightarrow> int list \<Rightarrow> int option" where
  "enerDB dotProd synth =
     (let L_energy = dotProd synth synth;
          L_energy = (if L_energy > drop_bit 1 MAX_32S then drop_bit 1 MAX_32S else L_energy)
      in case ener_loop 32 0 L_energy of
           None \<Rightarrow> None
         | Some (i, L_energy) \<Rightarrow>
             (let index = s16 (L_energy - 16)
              in Some (if index < 0 then 1
                       else s16 ((if i > 1 then s16 (i * 617) else 617) + energyLogTable ! nat index))))"

definition NormBy0_32s :: "int list \<Rightarrow> int list option" where
  "NormBy0_32s src =
     (case Norm_32s_I (s32 (src ! 0 + 1)) of
        None \<Rightarrow> None
      | Some (norm, sum0) \<Rightarrow>
          Some (sum0 # map (\<lambda>x. shl32 (s32 (x + 1)) (shift_count norm)) (tl src)))"

definition BWDLagWindow :: "int list \<Rightarrow> (int list \<times> int list) option" where
  "BWDLagWindow src =
     (let src = src ! 0 # map (\<lambda>i. Mul_32s (drop_bit 1 (src ! (i + 1))) (drop_bit 1 (wlag_bwd ! i))) [0..<30]
      in case NormBy0_32s src of None \<Rightarrow> None | Some dst \<Rightarrow> Some (src, dst))"

subsection \<open>The logarithm\<close>

text \<open>The two table entries around a normalised mantissa \<open>x\<close>, \<open>2^20 \<le> x < 2^21\<close>, interpolated.\<close>

definition log_interp :: "int \<Rightarrow> int" where
  "log_interp x =
     (let i = nat (x div 32768 - 32); j = x mod 32768
      in (logTable ! i * 32768 + (logTable ! Suc i - logTable ! i) * j) div 32768)"

lemma logTable_step:
  assumes "i < 32"
  shows "0 \<le> logTable ! i" "logTable ! i < logTable ! Suc i" "logTable ! Suc i \<le> 32767"
proof -
  have "list_all (\<lambda>i. 0 \<le> logTable ! i \<and> logTable ! i < logTable ! Suc i \<and> logTable ! Suc i \<le> 32767) [0..<32]"
    by code_simp
  with assms have "0 \<le> logTable ! i \<and> logTable ! i < logTable ! Suc i \<and> logTable ! Suc i \<le> 32767"
    by (simp add: list_all_iff)
  then show "0 \<le> logTable ! i" "logTable ! i < logTable ! Suc i" "logTable ! Suc i \<le> 32767"
    by simp_all
qed

lemma logTable_mono: "i \<le> k \<Longrightarrow> k \<le> 32 \<Longrightarrow> logTable ! i \<le> logTable ! k"
proof (induction k rule: dec_induct)
  case (step m)
  then show ?case using logTable_step [of m] by simp
qed simp

lemma convex_bounds:
  fixes a b j :: int
  assumes "a \<le> b" "0 \<le> j" "j < 32768"
  shows "a * 32768 \<le> a * 32768 + (b - a) * j" "a * 32768 + (b - a) * j \<le> b * 32768"
proof -
  have "0 \<le> (b - a) * j" using assms by (intro mult_nonneg_nonneg) simp_all
  then show "a * 32768 \<le> a * 32768 + (b - a) * j" by simp
  have "(b - a) * j \<le> (b - a) * 32768" using assms by (intro mult_left_mono) simp_all
  then show "a * 32768 + (b - a) * j \<le> b * 32768" by (simp add: left_diff_distrib)
qed

lemma log_interp_bounds:
  assumes "2 ^ 20 \<le> x" "x < 2 ^ 21"
  defines "i \<equiv> nat (x div 32768 - 32)"
  shows "i < 32" "logTable ! i \<le> log_interp x" "log_interp x \<le> logTable ! Suc i"
    "log_interp x = (logTable ! i * 32768 + (logTable ! Suc i - logTable ! i) * (x mod 32768)) div 32768"
proof -
  show i: "i < 32" using assms by simp
  show eq: "log_interp x = (logTable ! i * 32768 + (logTable ! Suc i - logTable ! i) * (x mod 32768)) div 32768"
    by (simp add: log_interp_def i_def Let_def)
  note c = convex_bounds [of "logTable ! i" "logTable ! Suc i" "x mod 32768"]
  have "logTable ! i \<le> logTable ! Suc i" using logTable_step [OF i] by simp
  note c' = c [OF this]
  show "logTable ! i \<le> log_interp x"
    unfolding eq using zdiv_mono1 [OF c'(1), of 32768] by simp
  show "log_interp x \<le> logTable ! Suc i"
    unfolding eq using zdiv_mono1 [OF c'(2), of 32768] by simp
qed

lemma log_interp_range:
  "2 ^ 20 \<le> x \<Longrightarrow> x < 2 ^ 21 \<Longrightarrow> 0 \<le> log_interp x \<and> log_interp x \<le> 32767"
  using log_interp_bounds [of x] logTable_step [of "nat (x div 32768 - 32)"] by linarith

lemma Log2_eq:
  assumes "0 < val" "in32 val"
  defines "n \<equiv> nat (Exp_32s val)"
  shows "n \<le> 30" "2 ^ 30 \<le> val * 2 ^ n" "val * 2 ^ n < 2 ^ 31"
    "Log2_G729 val = (int (30 - n), log_interp (val * 2 ^ n div 1024))"
proof -
  note e = Exp_32s_pos [OF assms(1,2)]
  from e show n: "n \<le> 30" and lo: "2 ^ 30 \<le> val * 2 ^ n" and hi: "val * 2 ^ n < 2 ^ 31"
    by (simp_all add: n_def)
  have order: "s16 (Exp_32s val) = int n" using e by (simp add: n_def s16_id)
  have count: "shift_count (int n) = n" using n by (simp add: shift_count_def)
  have v: "shl32 val n = val * 2 ^ n"
    using lo hi by (simp add: shl32_def push_bit_eq_mult s32_id)
  define v where "v = val * 2 ^ n"
  define x where "x = v div 1024"
  have x: "2 ^ 20 \<le> x" "x < 2 ^ 21" using lo hi by (simp_all add: x_def v_def)
  have i: "s16 (s16 (drop_bit 25 v) - 32) = x div 32768 - 32"
  proof -
    have "v div 33554432 = x div 32768" by (simp add: x_def zdiv_zmult2_eq [symmetric])
    then have *: "drop_bit 25 v = x div 32768" by (simp add: drop_bit_eq_div)
    have "32 \<le> x div 32768" "x div 32768 < 64" using x by simp_all
    then show ?thesis by (simp add: * s16_id)
  qed
  have j: "s16 (drop_bit 10 v AND MAX_16S) = x mod 32768"
  proof -
    have "x mod 32768 < 32768" "0 \<le> x mod 32768" by simp_all
    then have "in16 (x mod 32768)" by linarith
    then have "s16 (x mod 32768) = x mod 32768" by (rule s16_id)
    then show ?thesis by (simp only: and_7fff drop_bit_eq_div x_def) simp
  qed
  define k where "k = nat (x div 32768 - 32)"
  have k: "k < 32" "nat (x div 32768 - 32 + 1) = Suc k" using x by (simp_all add: k_def)
  note T = logTable_step [OF k(1)]
  define a b j where "a = logTable ! k" and "b = logTable ! Suc k" and "j = x mod 32768"
  have ab: "0 \<le> a" "a \<le> b" "b \<le> 32767" "0 \<le> j" "j < 32768" using T by (simp_all add: a_def b_def j_def)
  note c = convex_bounds [OF ab(2,4,5)]
  have p: "0 \<le> (b - a) * j" "(b - a) * j \<le> 32767 * 32768"
    using ab c by simp_all
  have L: "s32 (shl32 a 15 - s32 ((a - b) * j)) = a * 32768 + (b - a) * j"
  proof -
    have "s32 ((a - b) * j) = (a - b) * j" using p by (intro s32_id) (simp add: left_diff_distrib)
    moreover have "shl32 a 15 = a * 32768" using ab by (simp add: shl32_def push_bit_eq_mult s32_id)
    moreover have "in32 (a * 32768 + (b - a) * j)" using c ab p by simp
    ultimately show ?thesis by (simp add: s32_id left_diff_distrib)
  qed
  have "s16 (drop_bit 15 (a * 32768 + (b - a) * j)) = log_interp x"
    using log_interp_bounds(4) [OF x] log_interp_range [OF x]
    by (simp add: drop_bit_eq_div a_def b_def j_def k_def s16_id)
  then show "Log2_G729 val = (int (30 - n), log_interp (val * 2 ^ n div 1024))"
    using assms(1) n order i j k L
    by (simp add: Log2_G729_def Let_def count v v_def [symmetric] x_def [symmetric] a_def b_def j_def
        k_def [symmetric] s16_id of_nat_diff)
qed

lemma log_interp_mono:
  assumes "2 ^ 20 \<le> x" "x \<le> y" "y < 2 ^ 21"
  shows "log_interp x \<le> log_interp y"
proof -
  have x: "x < 2 ^ 21" and y: "2 ^ 20 \<le> y" using assms by simp_all
  note bx = log_interp_bounds [OF assms(1) x] and b_y = log_interp_bounds [OF y assms(3)]
  have le: "x div 32768 \<le> y div 32768" using assms by (simp add: zdiv_mono1)
  show ?thesis
  proof (cases "x div 32768 = y div 32768")
    case True
    then have "x mod 32768 \<le> y mod 32768"
      using assms(2) div_mult_mod_eq [of x 32768] div_mult_mod_eq [of y 32768] by linarith
    then have "(b - a) * (x mod 32768) \<le> (b - a) * (y mod 32768)" if "a \<le> b" for a b :: int
      using that by (intro mult_left_mono) simp_all
    with logTable_step [OF b_y(1)] show ?thesis
      unfolding bx(4) b_y(4) True by (intro zdiv_mono1 add_left_mono) simp_all
  next
    case False
    with le have "Suc (nat (x div 32768 - 32)) \<le> nat (y div 32768 - 32)" using assms x y by simp
    from logTable_mono [OF this] b_y(1) bx(3) b_y(2) show ?thesis by simp
  qed
qed

subsection \<open>The logarithm is the logarithm\<close>

lemma Log2_range:
  assumes "in32 val"
  shows "0 \<le> fst (Log2_G729 val)" "fst (Log2_G729 val) \<le> 30"
    "0 \<le> snd (Log2_G729 val)" "snd (Log2_G729 val) \<le> 32767"
proof -
  have "0 \<le> fst (Log2_G729 val) \<and> fst (Log2_G729 val) \<le> 30
        \<and> 0 \<le> snd (Log2_G729 val) \<and> snd (Log2_G729 val) \<le> 32767"
  proof (cases "0 < val")
    case False
    then show ?thesis by (simp add: Log2_G729_def)
  next
    case True
    note L = Log2_eq [OF True assms]
    from L(2,3) have "2 ^ 20 \<le> val * 2 ^ nat (Exp_32s val) div 1024" "val * 2 ^ nat (Exp_32s val) div 1024 < 2 ^ 21"
      by simp_all
    from log_interp_range [OF this] show ?thesis unfolding L(4) by simp
  qed
  then show "0 \<le> fst (Log2_G729 val)" "fst (Log2_G729 val) \<le> 30"
    "0 \<le> snd (Log2_G729 val)" "snd (Log2_G729 val) \<le> 32767" by simp_all
qed

lemma Log2_floor:
  assumes "0 < val" "in32 val"
  shows "2 ^ nat (fst (Log2_G729 val)) \<le> val" "val < 2 ^ Suc (nat (fst (Log2_G729 val)))"
proof -
  note L = Log2_eq [OF assms]
  define n where "n = nat (Exp_32s val)"
  have e: "nat (fst (Log2_G729 val)) = 30 - n" unfolding L(4) n_def by simp
  have p: "(2::int) ^ 30 = 2 ^ (30 - n) * 2 ^ n" "(2::int) ^ 31 = 2 ^ Suc (30 - n) * 2 ^ n"
    using L(1) by (simp_all add: n_def flip: power_add power_Suc)
  have "2 ^ (30 - n) * 2 ^ n \<le> val * 2 ^ n" "val * 2 ^ n < 2 ^ Suc (30 - n) * 2 ^ n"
    using L(2,3) by (simp_all only: n_def [symmetric] p)
  then show "2 ^ nat (fst (Log2_G729 val)) \<le> val" "val < 2 ^ Suc (nat (fst (Log2_G729 val)))"
    unfolding e by (simp_all only: mult_le_cancel_right mult_less_cancel_right) simp_all
qed

definition log_value :: "int \<times> int \<Rightarrow> int" where
  "log_value r = fst r * 32768 + snd r"

lemma Log2_mono:
  assumes "val \<le> val'" "in32 val" "in32 val'"
  shows "log_value (Log2_G729 val) \<le> log_value (Log2_G729 val')"
proof (cases "0 < val")
  case False
  then have "log_value (Log2_G729 val) = 0" by (simp add: Log2_G729_def log_value_def)
  then show ?thesis using Log2_range [OF assms(3)] by (simp add: log_value_def)
next
  case True
  then have pos': "0 < val'" using assms by simp
  note f = Log2_floor [OF True assms(2)] and f' = Log2_floor [OF pos' assms(3)]
  note r = Log2_range [OF assms(2)] and r' = Log2_range [OF assms(3)]
  have "(2::int) ^ nat (fst (Log2_G729 val)) < 2 ^ Suc (nat (fst (Log2_G729 val')))"
    using f(1) f'(2) assms(1) by linarith
  then have "nat (fst (Log2_G729 val)) < Suc (nat (fst (Log2_G729 val')))"
    by (rule power_less_imp_less_exp [rotated]) simp
  then have le: "fst (Log2_G729 val) \<le> fst (Log2_G729 val')" using r r' by simp
  show ?thesis
  proof (cases "fst (Log2_G729 val) = fst (Log2_G729 val')")
    case False
    with le have "fst (Log2_G729 val) + 1 \<le> fst (Log2_G729 val')" by simp
    then have "(fst (Log2_G729 val) + 1) * 32768 \<le> fst (Log2_G729 val') * 32768" by simp
    then show ?thesis using r(4) r'(3) by (simp add: log_value_def)
  next
    case same: True
    note L = Log2_eq [OF True assms(2)] and L' = Log2_eq [OF pos' assms(3)]
    have n: "nat (Exp_32s val) = nat (Exp_32s val')"
      using same L(1) L'(1) unfolding L(4) L'(4) by (simp only: fst_conv of_nat_eq_iff)
    define c where "c = (2::int) ^ nat (Exp_32s val')"
    have "val * c \<le> val' * c" using assms(1) by (simp add: c_def)
    then have "val * c div 1024 \<le> val' * c div 1024" by (rule zdiv_mono1) simp
    moreover have "2 ^ 20 \<le> val * c div 1024" "val' * c div 1024 < 2 ^ 21"
      using L(2) L'(3) by (simp_all add: n c_def)
    ultimately have "log_interp (val * c div 1024) \<le> log_interp (val' * c div 1024)"
      by (intro log_interp_mono)
    then show ?thesis using same unfolding L(4) L'(4) log_value_def by (simp add: n c_def)
  qed
qed

text \<open>
  The logarithm of the codec is one: for every positive 32-bit value the integer part is
  exactly the position of its leading bit, the fraction is a fifteen bit number, and a larger value
  never has a smaller logarithm.
\<close>

theorem Log2_G729_is_logarithm:
  assumes "0 < val" "val \<le> val'" "val' \<le> MAX_32S"
  shows "let (e, f) = Log2_G729 val; (e', f') = Log2_G729 val' in
    2 ^ nat e \<le> val \<and> val < 2 ^ Suc (nat e) \<and> 0 \<le> e \<and> e \<le> 30 \<and> 0 \<le> f \<and> f \<le> 32767
    \<and> e * 32768 + f \<le> e' * 32768 + f'"
proof -
  have r: "in32 val" "in32 val'" using assms by simp_all
  from Log2_floor [OF assms(1) r(1)] Log2_range [OF r(1)] Log2_mono [OF assms(2) r] show ?thesis
    by (simp add: log_value_def split_beta Let_def)
qed

theorem Log2_G729_is_logarithm_witness:
  "let (e, f) = Log2_G729 1000; (e', f') = Log2_G729 1001 in
    2 ^ nat e \<le> (1000::int) \<and> (1000::int) < 2 ^ Suc (nat e) \<and> 0 \<le> e \<and> e \<le> 30 \<and> 0 \<le> f \<and> f \<le> 32767
    \<and> e * 32768 + f \<le> e' * 32768 + f'"
  by (rule Log2_G729_is_logarithm) simp_all

subsection \<open>The energy quantiser\<close>

text \<open>The quantised value of \<open>ownQuantizeEnergy\<close> as a function of the level in 1/1024 octaves.\<close>

definition energy_index :: "int \<Rightarrow> int" where
  "energy_index tmp =
     (if tmp \<le> - 2721 then 0
      else if tmp > 22111 then 31
      else if tmp \<le> 4762 then max 1 ((tmp + 3401) * 24 div 32768)
      else max 6 ((tmp - 340) * 193 div 131072 - 1))"

definition energy_level :: "int \<Rightarrow> int" where
  "energy_level i = (if i = 0 then - 12 else if i < 6 then 4 * i - 8 else 2 * i + 4)"

definition log_level :: "int \<Rightarrow> int \<Rightarrow> int" where
  "log_level val order =
     s16 (s16 (shl32 (s16 (fst (Log2_G729 val) - order)) 10) + (snd (Log2_G729 val) + 16) div 32)"

lemma energy_index_bands:
  "- 2720 \<le> tmp \<Longrightarrow> tmp \<le> 4762 \<Longrightarrow> (tmp + 3401) * 24 div 32768 \<in> {0..5}"
  "4763 \<le> tmp \<Longrightarrow> tmp \<le> 22111 \<Longrightarrow> (tmp - 340) * 193 div 131072 - 1 \<in> {5..31}"
  for tmp :: int
proof -
  assume "- 2720 \<le> tmp" "tmp \<le> 4762"
  then have "0 \<le> (tmp + 3401) * 24" "(tmp + 3401) * 24 < 6 * 32768" by simp_all
  then have "0 \<le> (tmp + 3401) * 24 div 32768" "(tmp + 3401) * 24 div 32768 < 6"
    by (simp add: pos_imp_zdiv_nonneg_iff, simp only: int_div_less_iff)
  then show "(tmp + 3401) * 24 div 32768 \<in> {0..5}" by simp
next
  assume "4763 \<le> tmp" "tmp \<le> 22111"
  then have "6 * 131072 \<le> (tmp - 340) * 193" "(tmp - 340) * 193 < 33 * 131072" by simp_all
  then have "6 \<le> (tmp - 340) * 193 div 131072" "(tmp - 340) * 193 div 131072 < 33"
    by (simp_all only: int_div_less_iff int_le_div_iff)
  then show "(tmp - 340) * 193 div 131072 - 1 \<in> {5..31}" by simp
qed

lemma energy_index_range: "0 \<le> energy_index tmp" "energy_index tmp \<le> 31"
  using energy_index_bands [of tmp] by (auto simp: energy_index_def)

lemma energy_index_mono: "tmp \<le> tmp' \<Longrightarrow> energy_index tmp \<le> energy_index tmp'"
proof -
  assume le: "tmp \<le> tmp'"
  define p q where "p t = (t + 3401) * 24 div 32768" and "q t = (t - 340) * 193 div 131072 - 1" for t :: int
  have mono: "p tmp \<le> p tmp'" "q tmp \<le> q tmp'"
    unfolding p_def q_def using le by (auto intro!: zdiv_mono1 diff_right_mono)
  have b: "- 2720 \<le> t \<Longrightarrow> t \<le> 4762 \<Longrightarrow> 0 \<le> p t \<and> p t \<le> 5"
    "4763 \<le> t \<Longrightarrow> t \<le> 22111 \<Longrightarrow> 5 \<le> q t \<and> q t \<le> 31" for t
    using energy_index_bands [of t] by (simp_all add: p_def q_def)
  have e: "energy_index t = (if t \<le> - 2721 then 0 else if t > 22111 then 31
      else if t \<le> 4762 then max 1 (p t) else max 6 (q t))" for t
    by (simp add: energy_index_def p_def q_def)
  show ?thesis
    unfolding e using le mono b [of tmp] b [of tmp'] by (simp split: if_split) linarith
qed

lemma ownQuantizeEnergy_eq:
  assumes "in32 val"
  shows "ownQuantizeEnergy val order
    = (energy_level (energy_index (log_level val order)), energy_index (log_level val order))"
proof -
  define tmp where "tmp = log_level val order"
  have frac: "drop_bit 5 (snd (Log2_G729 val) + 16) = (snd (Log2_G729 val) + 16) div 32"
    by (simp add: drop_bit_eq_div)
  have start: "ownQuantizeEnergy val order =
    (if tmp \<le> - 2721 then (- 12, 0)
     else if tmp > 22111 then (66, 31)
     else if tmp \<le> 4762 then
       (let tmp = s16 (tmp + 3401);
            index = s16 (drop_bit 15 (tmp * 24));
            index = (if index < 1 then 1 else index)
        in (s16 (shl32 index 2 - 8), index))
     else
       (let tmp = s16 (tmp - 340);
            index = s16 (drop_bit 17 (tmp * 193) - 1);
            index = (if index < 6 then 6 else index)
        in (s16 (shl32 index 1 + 4), index)))"
    by (simp only: ownQuantizeEnergy_def Let_def split_beta frac tmp_def log_level_def)
  note b = energy_index_bands [of tmp]
  consider "tmp \<le> - 2721" | "tmp > 22111" | "- 2721 < tmp" "tmp \<le> 4762" | "4762 < tmp" "tmp \<le> 22111"
    by linarith
  then have "ownQuantizeEnergy val order = (energy_level (energy_index tmp), energy_index tmp)"
  proof cases
    case 3
    then have t: "s16 (tmp + 3401) = tmp + 3401" by (simp add: s16_id)
    define q where "q = (tmp + 3401) * 24 div 32768"
    have q: "0 \<le> q" "q \<le> 5" using b(1) 3 by (simp_all add: q_def)
    have "s16 (drop_bit 15 ((tmp + 3401) * 24)) = q" using q by (simp add: drop_bit_eq_div q_def s16_id)
    moreover have "energy_index tmp = max 1 q" using 3 by (simp add: energy_index_def q_def)
    moreover have "q < 1 \<Longrightarrow> q = 0" using q by simp
    ultimately show ?thesis using 3 q
      by (auto simp: start t Let_def energy_level_def shl32_def push_bit_eq_mult s32_id s16_id)
  next
    case 4
    then have t: "s16 (tmp - 340) = tmp - 340" by (simp add: s16_id)
    define q where "q = (tmp - 340) * 193 div 131072 - 1"
    have q: "5 \<le> q" "q \<le> 31" using b(2) 4 by (simp_all add: q_def)
    have "s16 (drop_bit 17 ((tmp - 340) * 193) - 1) = q" using q by (simp add: drop_bit_eq_div q_def s16_id)
    moreover have "energy_index tmp = max 6 q" using 4 by (simp add: energy_index_def q_def)
    ultimately show ?thesis using 4 q
      by (auto simp: start t Let_def energy_level_def shl32_def push_bit_eq_mult s32_id s16_id)
  qed (simp_all add: start energy_index_def energy_level_def)
  then show ?thesis by (simp add: tmp_def)
qed

lemma log_level_mono:
  assumes "0 \<le> order" "order \<le> 31" "val \<le> val'" "in32 val" "in32 val'"
  shows "log_level val order \<le> log_level val' order"
proof -
  have *: "log_level v order = (log_value (Log2_G729 v) + 16) div 32 - 1024 * order" if "in32 v" for v
  proof -
    note r = Log2_range [OF that]
    define e f where "e = fst (Log2_G729 v)" and "f = snd (Log2_G729 v)"
    have ef: "0 \<le> e" "e \<le> 30" "0 \<le> f" "f \<le> 32767" using r by (simp_all add: e_def f_def)
    have 1: "s16 (shl32 (s16 (e - order)) 10) = (e - order) * 1024"
      using ef assms(1,2) by (simp add: shl32_def push_bit_eq_mult s32_id s16_id)
    have 2: "0 \<le> (f + 16) div 32" "(f + 16) div 32 \<le> 1024" using ef by simp_all
    have "(e * 32768 + f + 16) div 32 = e * 1024 + (f + 16) div 32"
      using div_mult_self1 [of 32 "f + 16" "e * 1024"] by (simp add: add.commute algebra_simps)
    then show ?thesis
      using 1 2 ef assms(1,2) by (simp add: log_level_def log_value_def e_def [symmetric] f_def [symmetric] s16_id)
  qed
  show ?thesis
    unfolding * [OF assms(4)] * [OF assms(5)]
    using Log2_mono [OF assms(3-5)] zdiv_mono1 [of "log_value (Log2_G729 val) + 16" "log_value (Log2_G729 val') + 16" 32]
    by simp
qed

text \<open>
  The gain index of a silence descriptor always fits the five bits it is sent in, the decoded
  level is the one of that index, and with a common scale a larger energy never gets a smaller
  index.
\<close>

theorem SID_gain_quantiser:
  assumes "0 \<le> order" "order \<le> 31" "val \<le> val'" "in32 val" "in32 val'"
  shows "let (db, i) = ownQuantizeEnergy val order; (db', i') = ownQuantizeEnergy val' order in
    0 \<le> i \<and> i \<le> 31 \<and> db = energy_level i \<and> i \<le> i'"
  using energy_index_range energy_index_mono [OF log_level_mono [OF assms]]
  by (simp add: ownQuantizeEnergy_eq [OF assms(4)] ownQuantizeEnergy_eq [OF assms(5)])

theorem SID_gain_quantiser_witness:
  "let (db, i) = ownQuantizeEnergy 5000 3; (db', i') = ownQuantizeEnergy 70000 3 in
    0 \<le> i \<and> i \<le> 31 \<and> db = energy_level i \<and> i \<le> i'"
  by (rule SID_gain_quantiser) simp_all

lemma sid_sum_in32: "in32 (sid_energy_sum src sfs order len)"
  unfolding sid_energy_sum_def by (induction len) simp_all

text \<open>
  Whatever energies and scale factors \<open>QuantSIDGain_G729B_16s\<close> is given, and whatever the
  library's minimum returns, the index it stores is between 0 and 31 and the level is the one the
  decoder reads from that index.
\<close>

theorem QuantSIDGain_index_fits:
  "let (db, i) = QuantSIDGain_G729B_16s ippsMin src sfs len in 0 \<le> i \<and> i \<le> 31 \<and> db = energy_level i"
  using energy_index_range by (simp add: QuantSIDGain_G729B_16s_def Let_def ownQuantizeEnergy_eq)

subsection \<open>Loops, table reads and normalisation\<close>

lemma ener_loop_run:
  assumes "0 \<le> x" "x < 2 ^ (n + 5)" "0 \<le> i" "i + int n \<le> 32766"
  shows "\<exists>k y. ener_loop (Suc n) i x = Some (i + int k, y) \<and> k \<le> n \<and> 0 \<le> y \<and> y \<le> 32"
  using assms
proof (induction n arbitrary: i x)
  case 0
  then show ?case by simp
next
  case (Suc n)
  show ?case
  proof (cases "x > 32")
    case False
    then show ?thesis using Suc.prems by (auto intro: exI [of _ 0])
  next
    case True
    have "x < 2 ^ (n + 5) * 2" using Suc.prems(2) by (simp only: add_Suc power_Suc mult.commute)
    then have "x div 2 < 2 ^ (n + 5)" by (simp only: int_div_less_iff)
    then have "0 \<le> drop_bit 1 x" "drop_bit 1 x < 2 ^ (n + 5)" "s16 (i + 1) = i + 1"
      using Suc.prems by (simp_all add: drop_bit_eq_div s16_id)
    with Suc.IH [of "drop_bit 1 x" "i + 1"] Suc.prems
    obtain k y where *: "ener_loop (Suc n) (i + 1) (drop_bit 1 x) = Some (i + 1 + int k, y)" "k \<le> n" "0 \<le> y" "y \<le> 32"
      by auto
    have "ener_loop (Suc (Suc n)) i x = ener_loop (Suc n) (s16 (i + 1)) (drop_bit 1 x)"
      using True by simp
    also have "\<dots> = Some (i + int (Suc k), y)"
      unfolding \<open>s16 (i + 1) = i + 1\<close> * by simp
    finally show ?thesis using * by (intro exI [of _ "Suc k"] exI [of _ y]) simp
  qed
qed

lemma energyLogTable_nth: "i < 17 \<Longrightarrow> 2466 \<le> energyLogTable ! i \<and> energyLogTable ! i \<le> 3083"
  by (rule table_bounds) (simp_all add: energyLogTable_def)

lemma enerDB_bounds:
  assumes "0 \<le> dotProd synth synth"
  shows "\<exists>y. enerDB dotProd synth = Some y \<and> 1 \<le> y \<and> y \<le> 18508"
proof -
  define x where "x = (if dotProd synth synth > drop_bit 1 MAX_32S then drop_bit 1 MAX_32S else dotProd synth synth)"
  have x: "0 \<le> x" "x < 2 ^ (25 + 5)" using assms by (auto simp: x_def drop_bit_eq_div)
  obtain k y where r: "ener_loop 26 0 x = Some (int k, y)" "k \<le> 25" "0 \<le> y" "y \<le> 32"
    using ener_loop_run [OF x, of 0] by auto
  have more: "ener_loop n i z = Some r \<Longrightarrow> ener_loop (n + m) i z = Some r" for n m i z r
    by (induction n i z rule: ener_loop.induct) (auto split: if_splits)
  from more [OF r(1), of 6] have run: "ener_loop 32 0 x = Some (int k, y)" by simp
  have eq: "enerDB dotProd synth = Some (if s16 (y - 16) < 0 then 1
      else s16 ((if int k > 1 then s16 (int k * 617) else 617) + energyLogTable ! nat (s16 (y - 16))))"
    by (simp only: enerDB_def Let_def x_def [symmetric] run option.case prod.case)
  show ?thesis
  proof (cases "y < 16")
    case True
    then show ?thesis using r(3) by (simp add: eq s16_id)
  next
    case False
    define c where "c = (if int k > 1 then int k * 617 else 617)"
    have c: "617 \<le> c" "c \<le> 15425" using r(2) by (auto simp: c_def)
    have t: "2466 \<le> energyLogTable ! nat (y - 16)" "energyLogTable ! nat (y - 16) \<le> 3083"
      using energyLogTable_nth [of "nat (y - 16)"] False r(4) by simp_all
    have "(if int k > 1 then s16 (int k * 617) else 617) = c" using c by (auto simp: c_def s16_id)
    then have "enerDB dotProd synth = Some (c + energyLogTable ! nat (y - 16))"
      using r(3,4) False t c by (simp add: eq s16_id)
    then show ?thesis using c t by simp
  qed
qed

text \<open>
  The decibel energy of a frame ends its normalisation loop for every value the dot product
  returns, reads its table inside the bounds, and is between 1 and 18508.
\<close>

theorem enerDB_total:
  assumes "0 \<le> dotProd synth synth"
  shows "\<exists>y. enerDB dotProd synth = Some y \<and> 1 \<le> y \<and> y \<le> 18508"
  using assms by (rule enerDB_bounds)

theorem enerDB_total_witness:
  "\<exists>y. enerDB (\<lambda>xs ys. sum_list (map2 (*) xs ys)) [300, - 400, 5] = Some y \<and> 1 \<le> y \<and> y \<le> 18508"
  by (rule enerDB_total) simp

lemma acf_sum_in32: "in32 (acf_sum src sfs_list sfs len j)"
  unfolding acf_sum_def by (induction len) simp_all

text \<open>
  \<open>Sum_G729_16s_Sfs\<close> always returns, with eleven 16-bit coefficients and a 16-bit scale factor;
  when the sum of the first coefficients is positive, the first result is normalised: its leading bit
  is set, so that no precision is lost.
\<close>

theorem Sum_G729_normalises:
  "\<exists>dst sfs'. Sum_G729_16s_Sfs src sfs_list len = Some (dst, sfs') \<and> length dst = 11
    \<and> list_all in16 dst \<and> in16 sfs'
    \<and> (acf_sum src sfs_list (s16 (min_sfs (take (len - 1) (tl sfs_list)) (sfs_list ! 0) + 14)) len 0 \<le> 0
       \<or> 16384 \<le> dst ! 0)"
proof -
  define s where "s = acf_sum src sfs_list (s16 (min_sfs (take (len - 1) (tl sfs_list)) (sfs_list ! 0) + 14)) len 0"
  have n: "Norm_32s_I s = Some (Exp_32s s, s * 2 ^ nat (Exp_32s s))"
    unfolding s_def by (rule Norm_32s_I_eq [OF acf_sum_in32])
  have "16384 \<le> s16 (drop_bit 16 (s * 2 ^ nat (Exp_32s s)))" if "0 < s"
  proof -
    have "16384 * 65536 \<le> s * 2 ^ nat (Exp_32s s)" "s * 2 ^ nat (Exp_32s s) < 32768 * 65536"
      using Exp_32s_pos [OF that] acf_sum_in32 [of src sfs_list _ len 0] by (simp_all add: s_def)
    then have "16384 \<le> s * 2 ^ nat (Exp_32s s) div 65536" "s * 2 ^ nat (Exp_32s s) div 65536 < 32768"
      by (simp_all only: int_le_div_iff int_div_less_iff)
    then show ?thesis by (simp add: drop_bit_eq_div s16_id)
  qed
  then have "s \<le> 0 \<or> 16384 \<le> s16 (drop_bit 16 (s * 2 ^ nat (Exp_32s s)))" by linarith
  then show ?thesis
    using n unfolding s_def by (simp add: Sum_G729_16s_Sfs_def Let_def list_all_iff)
qed

lemma NormBy0_total: "\<exists>dst. NormBy0_32s src = Some dst \<and> (src \<noteq> [] \<longrightarrow> length dst = length src)"
  by (simp add: NormBy0_32s_def Norm_32s_I_eq)

lemma BWDLagWindow_total:
  "\<exists>src' dst. BWDLagWindow src = Some (src', dst) \<and> length src' = 31 \<and> length dst = 31"
  by (simp add: BWDLagWindow_def NormBy0_32s_def Norm_32s_I_eq Let_def)

end
