(* ===== verification/G729_Adapt.thy ===== *)
theory G729_Adapt
  imports G729_Energy "HOL-Library.Monad_Syntax"
begin

text \<open>
  The adaptive decisions of the G.729 coder (\<open>owng729.c\<close>): the log area ratios and the
  perceptual weighting factors, the pitch tracking of the Annex E decoder, and the choice between
  the forward and the backward LP filter with its stationarity measures. The signal library's
  filters, interpolations and dot product are parameters. The lemmas show that the log area ratio is odd and
  monotone, that the weighting factors stay in their ranges, and the invariants of the decision
  states.
\<close>

subsection \<open>Log area ratios and weighting factors\<close>

definition RCToLAR :: "int \<Rightarrow> int" where
  "RCToLAR rc =
     (let refC = s16 (drop_bit 4 (Abs_16s rc));
          d = (if refC \<le> 1299 then refC
               else let (Ax, L_Bx) = (if refC \<le> 1815 then (4567, 3271557)
                                      else if refC \<le> 1944 then (11776, 16357786)
                                      else (27443, 46808433));
                        refC = s16 (drop_bit 1 refC);
                        L_tmp = shl32 (refC * Ax) 1;
                        L_tmp = Sub_32s L_tmp L_Bx
                    in s16 (drop_bit 11 L_tmp))
      in if rc < 0 then Cnvrt_32s16s (- d) else d)"

definition ippsRCToLAR_G729_16s :: "int list \<Rightarrow> int list" where
  "ippsRCToLAR_G729_16s pSrc = map RCToLAR pSrc"

fun min_gap :: "int list \<Rightarrow> int \<Rightarrow> int" where
  "min_gap (x # y # zs) L_min = min_gap (y # zs) (if y - x < L_min then y - x else L_min)"
| "min_gap _ L_min = L_min"

definition PWFlat :: "int \<Rightarrow> int \<Rightarrow> int \<Rightarrow> int" where
  "PWFlat lar0 lar1 flat =
     (if flat \<noteq> 0 then (if lar0 < - 3562 \<and> lar1 > 1336 then 0 else flat)
      else (if lar0 > - 3116 \<or> lar1 < 890 then 1 else flat))"

definition ippsPWGammaFactor_G729_16s ::
  "(int list \<Rightarrow> int list) \<Rightarrow> int list \<Rightarrow> int list \<Rightarrow> int \<Rightarrow> int \<times> int \<times> int" where
  "ippsPWGammaFactor_G729_16s lshift1 pLAR pLSF flat =
     (let flat = PWFlat (pLAR ! 0) (pLAR ! 1) flat
      in if flat = 0 then
           (let pMem = lshift1 (take 10 pLSF);
                L_min = min_gap (tl pMem) (pMem ! 1 - pMem ! 0);
                L_tmp = s32 (SIX_PI * L_min);
                L_tmp = drop_bit 15 L_tmp;
                L_tmp = 1024 - L_tmp;
                L_tmp = shl32 L_tmp 5
            in (flat, N0_98, if L_tmp > BWF2 then BWF2 else if L_tmp < 13107 then 13107 else s16 L_tmp))
         else (flat, 30802, 19661))"

subsection \<open>Pitch tracking\<close>

record pitch_track =
  prevDelay :: int
  stat_N :: int
  pitchStatDelay :: int
  pitchStatFraction :: int

fun pitch_mult_loop :: "nat \<Rightarrow> int \<Rightarrow> int \<Rightarrow> int \<Rightarrow> int \<Rightarrow> int" where
  "pitch_mult_loop 0 pitch_mult step target dist_min = dist_min"
| "pitch_mult_loop (Suc k) pitch_mult step target dist_min =
     (let dist = Abs_16s (s16 (pitch_mult - target))
      in pitch_mult_loop k (s16 (pitch_mult + step)) step target (if dist \<le> dist_min then dist else dist_min))"

definition PitchTracking_G729E :: "int \<times> int \<Rightarrow> pitch_track \<Rightarrow> (int \<times> int) \<times> pitch_track" where
  "PitchTracking_G729E d p =
     (let (delay, delay_frac) = d;
          dist = s16 (delay - prevDelay p);
          is_mult = (if dist < 0 then 0 else 1 :: int);
          dist = (if dist < 0 then s16 (- dist) else dist)
      in if dist < 5 then
           (let n = s16 (stat_N p + 1); n = (if n > 7 then 7 else n)
            in ((delay, delay_frac),
                \<lparr>prevDelay = delay, stat_N = n, pitchStatDelay = delay, pitchStatFraction = delay_frac\<rparr>))
         else
           (let dist_min =
              (if is_mult = 0
               then pitch_mult_loop 3 (s16 (delay + delay)) delay (prevDelay p) dist
               else pitch_mult_loop 3 (s16 (prevDelay p + prevDelay p)) (prevDelay p) delay dist)
            in if dist_min < 5 then
                 (let (delay, delay_frac) =
                        (if stat_N p > 0 then (pitchStatDelay p, pitchStatFraction p) else (delay, delay_frac));
                      n = s16 (stat_N p - 1);
                      n = (if n < 0 then 0 else n)
                  in ((delay, delay_frac), p\<lparr>prevDelay := delay, stat_N := n\<rparr>))
               else
                 ((delay, delay_frac),
                  \<lparr>prevDelay = delay, stat_N = 0, pitchStatDelay = delay, pitchStatFraction = delay_frac\<rparr>)))"

subsection \<open>Forward or backward LP filter\<close>

record lp_state =
  interpCoeff2_2 :: int
  pPrevFilt :: "int list"
  prevLPmode :: int
  statGlobal :: int
  BWDFrameCounter :: int
  val_BWDFrameCounter :: int
  BWDcounter2 :: int
  FWDcounter2 :: int
  dominantBWDmode :: int

definition count_mode :: "int \<Rightarrow> lp_state \<Rightarrow> lp_state" where
  "count_mode mode s =
     (if mode = 0 then s\<lparr>FWDcounter2 := s16 (FWDcounter2 s + 1)\<rparr>
      else s\<lparr>BWDcounter2 := s16 (BWDcounter2 s + 1)\<rparr>)"

definition dominant_decision :: "lp_state \<Rightarrow> lp_state" where
  "dominant_decision s =
     (let count_all = s16 (BWDcounter2 s + FWDcounter2 s);
          (count_all, s) =
            (if count_all = 100
             then (drop_bit 1 count_all,
                   s\<lparr>BWDcounter2 := drop_bit 1 (BWDcounter2 s), FWDcounter2 := drop_bit 1 (FWDcounter2 s)\<rparr>)
             else (count_all, s));
          tmp = s16 (shl32 (FWDcounter2 s) 2)
      in s\<lparr>dominantBWDmode := (if count_all \<ge> 10 \<and> BWDcounter2 s > tmp then 1 else 0)\<rparr>)"

definition tstDominantBWDmode :: "int \<Rightarrow> lp_state \<Rightarrow> lp_state" where
  "tstDominantBWDmode mode s = dominant_decision (count_mode mode s)"

text \<open>The two table searches of \<open>stat\<close>: the first threshold that is exceeded gives the step.\<close>

fun stat_up :: "nat list \<Rightarrow> int \<Rightarrow> int \<Rightarrow> int \<Rightarrow> int" where
  "stat_up [] prevB prevF g = g"
| "stat_up (i # is) prevB prevF g =
     (if prevB > prevF + gThrs ! i then s16 (g + gStats ! i) else stat_up is prevB prevF g)"

fun stat_down :: "nat list \<Rightarrow> int \<Rightarrow> int \<Rightarrow> int \<Rightarrow> int" where
  "stat_down [] prevB prevF g = g"
| "stat_down (i # is) prevB prevF g =
     (if prevB < prevF - gThrs ! i then s16 (g - gStats1 ! i) else stat_down is prevB prevF g)"

definition stat_counters :: "int \<Rightarrow> lp_state \<Rightarrow> lp_state" where
  "stat_counters mode s =
     (if mode = 1 then
        (let s = s\<lparr>BWDFrameCounter := s16 (BWDFrameCounter s + 1),
                   val_BWDFrameCounter := s16 (val_BWDFrameCounter s + 250)\<rparr>
         in if BWDFrameCounter s = 20 then s\<lparr>statGlobal := Add_16s (statGlobal s) 2500\<rparr>
            else if BWDFrameCounter s > 20 then s\<lparr>statGlobal := s16 (statGlobal s + 500)\<rparr> else s)
      else if mode = 0 \<and> prevLPmode s = 1 then
        (let s = (if BWDFrameCounter s < 20
                  then s\<lparr>statGlobal := s16 (statGlobal s - 5000 + val_BWDFrameCounter s)\<rparr> else s)
         in s\<lparr>BWDFrameCounter := 0, val_BWDFrameCounter := 0\<rparr>)
      else s)"

definition stat_clamp :: "int \<Rightarrow> int" where
  "stat_clamp g = (if g > 32000 then 32000 else if g < 0 then 0 else g)"

definition stat_G729E :: "int \<Rightarrow> int \<Rightarrow> int \<Rightarrow> lp_state \<Rightarrow> lp_state" where
  "stat_G729E prevB prevF mode s =
     (let s = stat_counters mode s;
          g = statGlobal s;
          g = (if g < 13000 then stat_up [1..<6] prevB prevF g else g);
          g = stat_down [0..<5] prevB prevF g
      in s\<lparr>statGlobal := stat_clamp g\<rparr>)"

text \<open>
  \<open>residual a order x at len\<close> stands for the residual filter of the library on \<open>len\<close> samples
  of the buffer \<open>x\<close> from \<open>at\<close> on; \<open>interpC a c b d\<close> and \<open>interp a b\<close> for its interpolations.
\<close>

record lp_ipps =
  residual :: "int list \<Rightarrow> nat \<Rightarrow> int list \<Rightarrow> nat \<Rightarrow> nat \<Rightarrow> int list"
  interpC :: "int list \<Rightarrow> int \<Rightarrow> int list \<Rightarrow> int \<Rightarrow> int list"
  interp :: "int list \<Rightarrow> int list \<Rightarrow> int list"
  dot_prod :: "int list \<Rightarrow> int list \<Rightarrow> int"

definition LPC_mode :: "int \<Rightarrow> int \<Rightarrow> int \<Rightarrow> int \<Rightarrow> lp_state \<Rightarrow> int" where
  "LPC_mode gpredB prevB prevF LSPdist s =
     (let temp = s16 (drop_bit 7 (statGlobal s));
          temp = s16 (temp * 3);
          gap = s16 (temp + 205);
          mode = (if gpredB > prevF - gap \<and> prevB > prevF - gap \<and> prevB > 0 \<and> gpredB > 0 then 1 else 0);
          mode = (if statGlobal s < 13000 then 0 else mode);
          L_threshLPC = (if statGlobal s < 32000 then 0 else 32212255)
      in if LSPdist < L_threshLPC \<and> mode = 0 \<and> prevLPmode s = 1 \<and> prevB > 0 \<and> gpredB > 0 then 1 else mode)"

definition LSP_distance :: "int list \<Rightarrow> int list \<Rightarrow> int" where
  "LSP_distance oldLSP newLSP =
     fold (\<lambda>i d. let temp = s16 (oldLSP ! i - newLSP ! i) in s32 (d + temp * temp)) [0..<10] 0"

definition SetLPCMode_G729E ::
  "lp_ipps \<Rightarrow> int list \<Rightarrow> nat \<Rightarrow> int list \<Rightarrow> int list \<Rightarrow> int list \<Rightarrow> int list \<Rightarrow> lp_state
   \<Rightarrow> (int \<times> int list \<times> lp_state) option" where
  "SetLPCMode_G729E F pSignal at fwdA pBwdLPC newLSP oldLSP s = do {
     sigEnergy \<leftarrow> enerDB (dot_prod F) (take 80 (drop at pSignal));
     let bwd2 = drop 31 pBwdLPC;
     e \<leftarrow> enerDB (dot_prod F) (residual F bwd2 30 pSignal at 80);
     let prevB = s16 (sigEnergy - e);
     let c = s16 (interpCoeff2_2 s - 410);
     let s = s\<lparr>interpCoeff2_2 := (if c < 0 then 0 else c)\<rparr>;
     let temp = s16 (4096 - interpCoeff2_2 s);
     let bwd2 = interpC F bwd2 temp (pPrevFilt s) (interpCoeff2_2 s);
     let bwd1 = interp F bwd2 (pPrevFilt s);
     e \<leftarrow> enerDB (dot_prod F) (residual F bwd1 30 pSignal at 40 @ residual F bwd2 30 pSignal (at + 40) 40);
     let gpredB = s16 (sigEnergy - e);
     e \<leftarrow> enerDB (dot_prod F) (residual F fwdA 10 pSignal at 40 @ residual F (drop 11 fwdA) 10 pSignal (at + 40) 40);
     let prevF = s16 (sigEnergy - e);
     let mode = LPC_mode gpredB prevB prevF (LSP_distance oldLSP newLSP) s;
     let (mode, s) =
       (if sigEnergy < BWF_HARMONIC_E
        then (0, if statGlobal s > 13000 then s\<lparr>statGlobal := 13000\<rparr> else s)
        else (mode, stat_G729E prevB prevF mode (tstDominantBWDmode mode s)));
     let s = (if mode = 0 then s\<lparr>interpCoeff2_2 := 4506\<rparr> else s);
     Some (mode, bwd1 @ bwd2, s)
   }"

subsection \<open>The log area ratio is odd and monotone\<close>

definition lar_mag :: "int \<Rightarrow> int" where
  "lar_mag r =
     (if r \<le> 1299 then r
      else if r \<le> 1815 then (r div 2 * 9134 - 3271557) div 2048
      else if r \<le> 1944 then (r div 2 * 23552 - 16357786) div 2048
      else (r div 2 * 54886 - 46808433) div 2048)"

lemma lar_mag_mono:
  assumes "x \<le> y" "y \<le> 2047"
  shows "lar_mag x \<le> lar_mag y"
proof -
  define f g h where "f r = (r div 2 * 9134 - 3271557) div 2048"
    and "g r = (r div 2 * 23552 - 16357786) div 2048"
    and "h r = (r div 2 * 54886 - 46808433) div 2048" for r :: int
  have half: "a \<le> b \<Longrightarrow> a div 2 \<le> b div 2" for a b :: int by (rule zdiv_mono1) simp_all
  have fm: "f a \<le> f b" and gm: "g a \<le> g b" and hm: "h a \<le> h b" if "a \<le> b" for a b
    unfolding f_def g_def h_def by (intro zdiv_mono1 diff_right_mono mult_right_mono half [OF that]; simp)+
  have e: "lar_mag r = (if r \<le> 1299 then r else if r \<le> 1815 then f r else if r \<le> 1944 then g r else h r)" for r
    by (simp add: lar_mag_def f_def g_def h_def)
  have f1: "1299 \<le> f 1300" and fg: "f 1815 \<le> g 1816" and gh: "g 1944 \<le> h 1945"
    by (simp_all add: f_def g_def h_def)
  have F: "1299 \<le> f r" if "1299 < r" for r using f1 fm [of 1300 r] that by linarith
  have G: "f 1815 \<le> g r" if "1815 < r" for r using fg gm [of 1816 r] that by linarith
  have H: "g 1944 \<le> h r" if "1944 < r" for r using gh hm [of 1945 r] that by linarith
  have B1: "f x \<le> f 1815" if "x \<le> 1815" using fm [OF that] .
  have B2: "g x \<le> g 1944" if "x \<le> 1944" using gm [OF that] .
  have FG: "1299 \<le> f 1815" "f 1815 \<le> g 1944" using F [of 1815] G [of 1944] by simp_all
  consider "y \<le> 1299" | "1299 < y" "y \<le> 1815" | "1815 < y" "y \<le> 1944" | "1944 < y" by linarith
  then show ?thesis
  proof cases
    case 1
    then show ?thesis using assms by (simp add: e)
  next
    case 2
    then show ?thesis using assms F [of y] fm [of x y] by (simp add: e)
  next
    case 3
    then show ?thesis using assms G [of y] B1 FG gm [of x y] by (auto simp: e)
  next
    case 4
    then show ?thesis using assms H [of y] B1 B2 FG hm [of x y] by (auto simp: e)
  qed
qed

lemma lar_mag_bounds: "0 \<le> r \<Longrightarrow> r \<le> 2047 \<Longrightarrow> 0 \<le> lar_mag r \<and> lar_mag r \<le> 4560"
  using lar_mag_mono [of 0 r] lar_mag_mono [of r 2047] by (simp add: lar_mag_def)

lemma RCToLAR_eq:
  assumes "in16 rc"
  shows "RCToLAR rc = (if rc < 0 then - lar_mag (min 32767 \<bar>rc\<bar> div 16) else lar_mag (min 32767 \<bar>rc\<bar> div 16))"
proof -
  define r where "r = min 32767 \<bar>rc\<bar> div 16"
  have a: "0 \<le> min 32767 \<bar>rc\<bar>" "min 32767 \<bar>rc\<bar> < 2048 * 16" by auto
  then have r: "0 \<le> r" "r \<le> 2047" unfolding r_def using int_div_less_iff [of 16 "min 32767 \<bar>rc\<bar>" 2048]
    by (simp_all add: pos_imp_zdiv_nonneg_iff)
  have refC: "s16 (drop_bit 4 (Abs_16s rc)) = r"
  proof -
    have "drop_bit 4 (Abs_16s rc) = r"
      by (simp add: Abs_16s_eq [OF assms] drop_bit_eq_div r_def min.commute)
    then show ?thesis using r by (simp add: s16_id)
  qed
  have "in16 (r div 2)" using in16_div [of r 2] r by simp
  then have half: "s16 (drop_bit 1 r) = r div 2" by (simp add: drop_bit_eq_div s16_id)
  have piece: "s16 (drop_bit 11 (Sub_32s (shl32 (r div 2 * A) 1) B)) = (r div 2 * (2 * A) - B) div 2048"
    if "0 \<le> A" "A \<le> 27443" "0 \<le> B" "B \<le> 46808433" for A B
  proof -
    have "0 \<le> r div 2 * A" "r div 2 * A \<le> 1023 * 27443"
      using r that mult_mono [of "r div 2" 1023 A 27443] by simp_all
    moreover have "r div 2 * (2 * A) = 2 * (r div 2 * A)" by simp
    ultimately have "0 \<le> r div 2 * (2 * A)" "r div 2 * (2 * A) \<le> 56148378" by linarith+
    note b = this
    have "push_bit 1 (r div 2 * A) = r div 2 * (2 * A)" by (simp add: push_bit_eq_mult)
    then have "shl32 (r div 2 * A) 1 = s32 (r div 2 * (2 * A))" by (simp only: shl32_def)
    also have "\<dots> = r div 2 * (2 * A)" by (rule s32_id) (use b in linarith)
    finally have "shl32 (r div 2 * A) 1 = r div 2 * (2 * A)" .
    moreover note b
    moreover have "- 46808433 \<le> r div 2 * (2 * A) - B" "r div 2 * (2 * A) - B \<le> 56148378"
      using b that by linarith+
    then have "- 46808433 div 2048 \<le> (r div 2 * (2 * A) - B) div 2048"
      "(r div 2 * (2 * A) - B) div 2048 \<le> 56148378 div 2048"
      by (simp_all only: zdiv_mono1 zero_less_numeral)
    ultimately show ?thesis using that by (simp add: Sub_32s_clamp drop_bit_eq_div s16_id)
  qed
  have "s16 (drop_bit 11 (Sub_32s (shl32 (r div 2 * 4567) 1) 3271557)) = (r div 2 * 9134 - 3271557) div 2048"
    "s16 (drop_bit 11 (Sub_32s (shl32 (r div 2 * 11776) 1) 16357786)) = (r div 2 * 23552 - 16357786) div 2048"
    "s16 (drop_bit 11 (Sub_32s (shl32 (r div 2 * 27443) 1) 46808433)) = (r div 2 * 54886 - 46808433) div 2048"
    using piece [of 4567 3271557] piece [of 11776 16357786] piece [of 27443 46808433] by simp_all
  note p = this [unfolded One_nat_def]
  have mag: "RCToLAR rc = (if rc < 0 then Cnvrt_32s16s (- lar_mag r) else lar_mag r)"
    unfolding RCToLAR_def Let_def refC half lar_mag_def by (simp add: p)
  show ?thesis
    unfolding r_def [symmetric] using lar_mag_bounds [OF r] by (simp add: mag Cnvrt_32s16s_clamp)
qed

text \<open>
  The log area ratio of a reflection coefficient is odd and nondecreasing over its whole range,
  and stays below 4560: the four segments of its approximation meet in order.
\<close>

theorem RCToLAR_odd_mono:
  assumes "- 32767 \<le> x" "x \<le> y" "y \<le> 32767"
  shows "RCToLAR x \<le> RCToLAR y \<and> \<bar>RCToLAR x\<bar> \<le> 4560 \<and> RCToLAR (- x) = - RCToLAR x"
proof -
  define m where "m t = lar_mag (min 32767 \<bar>t\<bar> div 16)" for t
  have d: "0 \<le> min 32767 \<bar>t\<bar> div 16 \<and> min 32767 \<bar>t\<bar> div 16 \<le> 2047" for t :: int
    using int_div_less_iff [of 16 "min 32767 \<bar>t\<bar>" 2048] by (auto simp: pos_imp_zdiv_nonneg_iff)
  have b: "0 \<le> m t \<and> m t \<le> 4560" for t unfolding m_def by (rule lar_mag_bounds) (use d in simp_all)
  have mono: "m s \<le> m t" if "\<bar>s\<bar> \<le> \<bar>t\<bar>" for s t
    unfolding m_def using that d [of t] by (intro lar_mag_mono zdiv_mono1) simp_all
  have e: "RCToLAR t = (if t < 0 then - m t else m t)" if "in16 t" for t
    using RCToLAR_eq [OF that] by (simp add: m_def)
  have ex: "RCToLAR x = (if x < 0 then - m x else m x)" "RCToLAR y = (if y < 0 then - m y else m y)"
    "RCToLAR (- x) = (if - x < 0 then - m x else m x)"
    using e [of x] e [of y] e [of "- x"] assms by (simp_all add: m_def)
  have m0: "m 0 = 0" by (simp add: m_def lar_mag_def)
  have "RCToLAR x \<le> RCToLAR y"
    using mono [of y x] mono [of x y] b [of x] b [of y] assms(2) by (auto simp: ex)
  moreover have "\<bar>RCToLAR x\<bar> \<le> 4560" using b [of x] by (simp add: ex)
  moreover have "RCToLAR (- x) = - RCToLAR x" using m0 by (auto simp: ex)
  ultimately show ?thesis by simp
qed

theorem RCToLAR_odd_mono_witness:
  "RCToLAR (- 20000) \<le> RCToLAR 31000 \<and> \<bar>RCToLAR (- 20000)\<bar> \<le> 4560 \<and> RCToLAR (- (- 20000)) = - RCToLAR (- 20000)"
  by (rule RCToLAR_odd_mono) simp_all

subsection \<open>The weighting factors\<close>

text \<open>
  The perceptual weighting factors stay in their ranges whatever the spectrum, the numerator
  factor above the denominator factor, and the flat/tilted decision has its hysteresis: it changes
  only when both log area ratios pass the outer thresholds, or one of them comes back over the inner
  ones.
\<close>

theorem PWGammaFactor_ranges:
  assumes "flat \<in> {0, 1}"
  shows "let (flat', g1, g2) = ippsPWGammaFactor_G729_16s lshift1 [lar0, lar1] pLSF flat in
    flat' \<in> {0, 1} \<and> g1 = (if flat' = 0 then 32113 else 30802) \<and> 13107 \<le> g2 \<and> g2 \<le> 22938 \<and> g2 < g1
    \<and> (flat' \<noteq> flat) = (if flat = 1 then lar0 < - 3562 \<and> lar1 > 1336 else lar0 > - 3116 \<or> lar1 < 890)"
  using assms
  by (auto simp: ippsPWGammaFactor_G729_16s_def PWFlat_def Let_def N0_98_def BWF2_def s16_id)

theorem PWGammaFactor_ranges_witness:
  "let (flat', g1, g2) = ippsPWGammaFactor_G729_16s (map (\<lambda>x. s16 (2 * x))) [- 4000, 1500]
      [2339, 4679, 7018, 9358, 11698, 14037, 16377, 18717, 21056, 23396] 1 in
    flat' \<in> {0, 1} \<and> g1 = (if flat' = 0 then 32113 else 30802) \<and> 13107 \<le> g2 \<and> g2 \<le> 22938 \<and> g2 < g1
    \<and> (flat' \<noteq> 1) = (if (1::int) = 1 then (- 4000::int) < - 3562 \<and> (1500::int) > 1336 else (- 4000::int) > - 3116 \<or> (1500::int) < 890)"
  by (rule PWGammaFactor_ranges) simp

subsection \<open>Pitch tracking\<close>

definition track_ok :: "pitch_track \<Rightarrow> bool" where
  "track_ok p \<longleftrightarrow> 0 \<le> stat_N p \<and> stat_N p \<le> 7
     \<and> 0 \<le> prevDelay p \<and> prevDelay p \<le> MAX_PITCH_LAG
     \<and> (0 < stat_N p \<longrightarrow> MIN_PITCH_LAG \<le> pitchStatDelay p \<and> pitchStatDelay p \<le> MAX_PITCH_LAG)"

lemma PitchTracking_step:
  assumes "track_ok p" "MIN_PITCH_LAG \<le> d" "d \<le> MAX_PITCH_LAG" "PitchTracking_G729E (d, f) p = ((d', f'), p')"
  shows "track_ok p'" "MIN_PITCH_LAG \<le> d'" "d' \<le> MAX_PITCH_LAG" "prevDelay p' = d'"
    "\<bar>d - prevDelay p\<bar> < 5 \<Longrightarrow> d' = d \<and> f' = f"
  using assms
  by (auto simp: PitchTracking_G729E_def track_ok_def Let_def g729_dims s16_id split: if_splits prod.splits)

fun track_run :: "(int \<times> int) list \<Rightarrow> pitch_track \<Rightarrow> (int \<times> int) list" where
  "track_run [] p = []"
| "track_run (d # ds) p = (case PitchTracking_G729E d p of (d', p') \<Rightarrow> d' # track_run ds p')"

text \<open>
  However the decoded pitch delays of the concealed frames jump, the tracked delays that
  replace them stay legal lags, and two delays that are close together are never changed.
\<close>

theorem PitchTracking_stays_legal:
  assumes "track_ok p" "\<forall>(d, f) \<in> set ds. MIN_PITCH_LAG \<le> d \<and> d \<le> MAX_PITCH_LAG"
  shows "(\<forall>(d', f') \<in> set (track_run ds p). MIN_PITCH_LAG \<le> d' \<and> d' \<le> MAX_PITCH_LAG)
    \<and> (ds \<noteq> [] \<longrightarrow> \<bar>fst (hd ds) - prevDelay p\<bar> < 5 \<longrightarrow> hd (track_run ds p) = hd ds)"
  using assms
proof (induction ds arbitrary: p)
  case (Cons x ds)
  obtain d f where x: "x = (d, f)" by force
  obtain d' f' p' where r: "PitchTracking_G729E (d, f) p = ((d', f'), p')" by (metis prod.exhaust)
  have d: "MIN_PITCH_LAG \<le> d" "d \<le> MAX_PITCH_LAG" using Cons.prems(2) by (simp_all add: x)
  note step = PitchTracking_step [OF Cons.prems(1) d r]
  from Cons.IH [OF step(1)] Cons.prems(2) step show ?case by (simp add: x r)
qed simp

theorem PitchTracking_stays_legal_witness:
  "fst (track_run [(33, 1), (120, 0)] \<lparr>prevDelay = 30, stat_N = 0, pitchStatDelay = 0, pitchStatFraction = 0\<rparr> ! 1) \<le> MAX_PITCH_LAG
    \<and> hd (track_run [(33, 1), (120, 0)] \<lparr>prevDelay = 30, stat_N = 0, pitchStatDelay = 0, pitchStatFraction = 0\<rparr>) = (33, 1)"
proof -
  define p where "p = \<lparr>prevDelay = 30, stat_N = 0, pitchStatDelay = 0, pitchStatFraction = 0\<rparr>"
  define r where "r = track_run [(33, 1), (120, 0)] p"
  have "length r = 2" by (simp add: r_def split_beta)
  then have m: "r ! 1 \<in> set r" by (intro nth_mem) simp
  have p: "track_ok p" "prevDelay p = 30" by (simp_all add: p_def track_ok_def g729_dims)
  have "(\<forall>(d', f') \<in> set r. MIN_PITCH_LAG \<le> d' \<and> d' \<le> MAX_PITCH_LAG)
      \<and> ([(33, 1), (120, 0)] \<noteq> ([] :: (int \<times> int) list) \<longrightarrow> \<bar>fst (hd [(33, 1), (120::int, 0::int)]) - prevDelay p\<bar> < 5
           \<longrightarrow> hd r = hd [(33, 1), (120, 0)])"
    unfolding r_def by (rule PitchTracking_stays_legal [OF p(1)]) (simp add: g729_dims)
  with p m have "fst (r ! 1) \<le> MAX_PITCH_LAG \<and> hd r = (33, 1)" by (auto simp: split_beta)
  then show ?thesis by (simp only: r_def p_def)
qed

subsection \<open>The LP mode decision\<close>

definition lp_ok :: "lp_state \<Rightarrow> bool" where
  "lp_ok s \<longleftrightarrow> 0 \<le> interpCoeff2_2 s \<and> interpCoeff2_2 s \<le> 4506 \<and> 0 \<le> statGlobal s \<and> statGlobal s \<le> 32000
     \<and> 0 \<le> BWDcounter2 s \<and> 0 \<le> FWDcounter2 s \<and> BWDcounter2 s + FWDcounter2 s < 100
     \<and> dominantBWDmode s \<in> {0, 1} \<and> in16 (BWDFrameCounter s) \<and> in16 (val_BWDFrameCounter s)"

definition frame_counts :: "lp_state \<Rightarrow> int \<times> int \<times> int" where
  "frame_counts s = (BWDFrameCounter s, val_BWDFrameCounter s, prevLPmode s)"

lemma tstDominant_frame_counts: "frame_counts (tstDominantBWDmode mode s) = frame_counts s"
  by (simp add: tstDominantBWDmode_def dominant_decision_def count_mode_def frame_counts_def Let_def split: prod.split)

text \<open>The frame counters: counted up in backward mode, reset on the change to forward mode; both are 16 bits wide.\<close>

lemma stat_frame_counts:
  assumes "frame_counts s = (b, v, p)"
  shows "frame_counts (stat_G729E prevB prevF mode s) =
    (if mode = 1 then (s16 (b + 1), s16 (v + 250), p) else if mode = 0 \<and> p = 1 then (0, 0, p) else (b, v, p))"
  using assms by (auto simp: frame_counts_def stat_G729E_def stat_counters_def Let_def)

lemma count_mode_ok:
  assumes "lp_ok s"
  shows "0 \<le> BWDcounter2 (count_mode mode s)" "0 \<le> FWDcounter2 (count_mode mode s)"
    "BWDcounter2 (count_mode mode s) + FWDcounter2 (count_mode mode s) \<le> 100"
    "interpCoeff2_2 (count_mode mode s) = interpCoeff2_2 s" "statGlobal (count_mode mode s) = statGlobal s"
  using assms by (simp_all add: count_mode_def lp_ok_def s16_id)

lemma dominant_decision_ok:
  assumes "0 \<le> BWDcounter2 s" "0 \<le> FWDcounter2 s" "BWDcounter2 s + FWDcounter2 s \<le> 100"
  shows "0 \<le> BWDcounter2 (dominant_decision s)" "0 \<le> FWDcounter2 (dominant_decision s)"
    "BWDcounter2 (dominant_decision s) + FWDcounter2 (dominant_decision s) < 100"
    "interpCoeff2_2 (dominant_decision s) = interpCoeff2_2 s" "statGlobal (dominant_decision s) = statGlobal s"
    "dominantBWDmode (dominant_decision s) \<in> {0, 1}"
proof -
  have c: "s16 (BWDcounter2 s + FWDcounter2 s) = BWDcounter2 s + FWDcounter2 s" using assms by (simp add: s16_id)
  obtain B F d where r: "dominant_decision s = s\<lparr>BWDcounter2 := B, FWDcounter2 := F, dominantBWDmode := d\<rparr>"
    and b: "0 \<le> B" "0 \<le> F" "B + F < 100" "d \<in> {0, 1}"
  proof (cases "BWDcounter2 s + FWDcounter2 s = 100")
    case True
    have "\<exists>d \<in> {0, 1}. dominant_decision s
        = s\<lparr>BWDcounter2 := BWDcounter2 s div 2, FWDcounter2 := FWDcounter2 s div 2, dominantBWDmode := d\<rparr>"
      unfolding dominant_decision_def Let_def using c True by (simp only: refl if_True prod.case) (simp add: drop_bit_eq_div)
    then show thesis using that assms by fastforce
  next
    case False
    have "\<exists>d \<in> {0, 1}. dominant_decision s
        = s\<lparr>BWDcounter2 := BWDcounter2 s, FWDcounter2 := FWDcounter2 s, dominantBWDmode := d\<rparr>"
      unfolding dominant_decision_def c Let_def by (simp only: False if_False prod.case) simp
    then obtain d where "d \<in> {0, 1}" and d: "dominant_decision s
        = s\<lparr>BWDcounter2 := BWDcounter2 s, FWDcounter2 := FWDcounter2 s, dominantBWDmode := d\<rparr>" by blast
    then show thesis using assms False by (intro that [OF d]) simp_all
  qed
  then show "0 \<le> BWDcounter2 (dominant_decision s)" "0 \<le> FWDcounter2 (dominant_decision s)"
    "BWDcounter2 (dominant_decision s) + FWDcounter2 (dominant_decision s) < 100"
    "interpCoeff2_2 (dominant_decision s) = interpCoeff2_2 s" "statGlobal (dominant_decision s) = statGlobal s"
    "dominantBWDmode (dominant_decision s) \<in> {0, 1}"
    using b unfolding r by simp_all
qed

lemma tstDominant_ok: "lp_ok s \<Longrightarrow> lp_ok (tstDominantBWDmode mode s)"
  using dominant_decision_ok [OF count_mode_ok(1-3), of s mode] count_mode_ok [of s mode]
    tstDominant_frame_counts [of mode s]
  by (simp add: tstDominantBWDmode_def lp_ok_def frame_counts_def)

lemma stat_counters_keeps:
  "interpCoeff2_2 (stat_counters mode s) = interpCoeff2_2 s"
  "BWDcounter2 (stat_counters mode s) = BWDcounter2 s"
  "FWDcounter2 (stat_counters mode s) = FWDcounter2 s"
  "dominantBWDmode (stat_counters mode s) = dominantBWDmode s"
  by (simp_all add: stat_counters_def Let_def)

lemma stat_clamp_range: "0 \<le> stat_clamp g" "stat_clamp g \<le> 32000"
  by (simp_all add: stat_clamp_def)

lemma stat_G729E_ok:
  assumes "lp_ok s"
  shows "lp_ok (stat_G729E prevB prevF mode s)"
proof -
  obtain b v p where c: "frame_counts s = (b, v, p)" by (metis prod.exhaust)
  have "in16 (BWDFrameCounter (stat_G729E prevB prevF mode s)) \<and> in16 (val_BWDFrameCounter (stat_G729E prevB prevF mode s))"
    using stat_frame_counts [OF c, of prevB prevF mode] assms c by (auto simp: frame_counts_def lp_ok_def split: if_splits)
  then show ?thesis
    using assms by (simp add: stat_G729E_def lp_ok_def Let_def stat_counters_keeps stat_clamp_range)
qed

lemma LPC_mode_cases: "LPC_mode gpredB prevB prevF dist s \<in> {0, 1}"
  by (simp add: LPC_mode_def Let_def)

lemma LPC_mode_forward:
  "statGlobal s < 13000 \<Longrightarrow> 0 \<le> dist \<Longrightarrow> LPC_mode gpredB prevB prevF dist s = 0"
  by (simp add: LPC_mode_def Let_def)

text \<open>
  C34: Choosing the LP mode returns, with mode 0 or 1, for any library whose dot product of an array with itself is not
  negative. The state stays in its ranges: the interpolation weight within 0 and 4506, and 4506 after forward mode; the global
  stationarity within 0 and 32000; the mode counters not negative and together below 100; the dominant mode 0 or 1. The two
  frame counters have 16 bits only: backward mode adds 1 and 250 to them, wrapping around, forward mode leaves or resets
  them. \<open>prevLPmode\<close> and the previous filter are not written. A signal that was not stationary (below 13000) is
  coded forward, provided the 32-bit sum of squares that is the distance of the spectra has not
  overflowed into a negative number.
\<close>

theorem SetLPCMode_invariant:
  assumes "lp_ok s" "\<And>x. 0 \<le> dot_prod F x x"
  shows "\<exists>mode lpc s'. SetLPCMode_G729E F pSignal at fwdA pBwdLPC newLSP oldLSP s = Some (mode, lpc, s')
    \<and> lp_ok s' \<and> mode \<in> {0, 1} \<and> (mode = 0 \<longrightarrow> interpCoeff2_2 s' = 4506)
    \<and> (mode = 1 \<longrightarrow> BWDFrameCounter s' = s16 (BWDFrameCounter s + 1)
        \<and> val_BWDFrameCounter s' = s16 (val_BWDFrameCounter s + 250))
    \<and> (mode = 0 \<longrightarrow> (BWDFrameCounter s', val_BWDFrameCounter s') \<in> {(BWDFrameCounter s, val_BWDFrameCounter s), (0, 0)})
    \<and> prevLPmode s' = prevLPmode s \<and> pPrevFilt s' = pPrevFilt s
    \<and> (0 \<le> LSP_distance oldLSP newLSP \<and> mode = 1 \<longrightarrow> 13000 \<le> statGlobal s)"
proof -
  have e: "\<exists>e. enerDB (dot_prod F) xs = Some e" for xs
    using enerDB_bounds [of "dot_prod F" xs, OF assms(2)] by blast
  define w where "w = (if s16 (interpCoeff2_2 s - 410) < 0 then 0 else s16 (interpCoeff2_2 s - 410))"
  define s1 where "s1 = s\<lparr>interpCoeff2_2 := w\<rparr>"
  have "in16 (interpCoeff2_2 s - 410)" using assms(1) by (simp add: lp_ok_def)
  then have "0 \<le> w" "w \<le> 4506" using assms(1) by (auto simp: w_def lp_ok_def s16_id)
  then have s1: "lp_ok s1" "statGlobal s1 = statGlobal s" "frame_counts s1 = frame_counts s" "pPrevFilt s1 = pPrevFilt s"
    using assms(1) by (simp_all add: s1_def lp_ok_def frame_counts_def)
  obtain e0 where e0: "enerDB (dot_prod F) (take 80 (drop at pSignal)) = Some e0" using e by blast
  obtain e1 where e1: "enerDB (dot_prod F) (residual F (drop 31 pBwdLPC) 30 pSignal at 80) = Some e1" using e by blast
  define b2 where "b2 = interpC F (drop 31 pBwdLPC) (s16 (4096 - interpCoeff2_2 s1)) (pPrevFilt s1) (interpCoeff2_2 s1)"
  define b1 where "b1 = interp F b2 (pPrevFilt s1)"
  obtain e2 where e2: "enerDB (dot_prod F) (residual F b1 30 pSignal at 40 @ residual F b2 30 pSignal (at + 40) 40) = Some e2"
    using e by blast
  obtain e3 where e3: "enerDB (dot_prod F)
      (residual F fwdA 10 pSignal at 40 @ residual F (drop 11 fwdA) 10 pSignal (at + 40) 40) = Some e3"
    using e by blast
  define m where "m = LPC_mode (s16 (e0 - e2)) (s16 (e0 - e1)) (s16 (e0 - e3)) (LSP_distance oldLSP newLSP) s1"
  define mode where "mode = (if e0 < BWF_HARMONIC_E then 0 else m)"
  define s2 where "s2 = (if e0 < BWF_HARMONIC_E
      then (if statGlobal s1 > 13000 then s1\<lparr>statGlobal := 13000\<rparr> else s1)
      else stat_G729E (s16 (e0 - e1)) (s16 (e0 - e3)) m (tstDominantBWDmode m s1))"
  define s3 where "s3 = (if mode = 0 then s2\<lparr>interpCoeff2_2 := 4506\<rparr> else s2)"
  have "SetLPCMode_G729E F pSignal at fwdA pBwdLPC newLSP oldLSP s = Some (mode, b1 @ b2, s3)"
    unfolding SetLPCMode_G729E_def Let_def e0 bind.bind_lunit e1 w_def [symmetric] s1_def [symmetric]
    by (simp add: e2 e3 b1_def [symmetric] b2_def [symmetric] m_def [symmetric] mode_def s2_def s3_def)
  moreover have "lp_ok s2"
    using s1(1) stat_G729E_ok [OF tstDominant_ok [OF s1(1)]] by (auto simp: s2_def lp_ok_def)
  then have "lp_ok s3" by (simp add: s3_def lp_ok_def)
  moreover have "mode \<in> {0, 1}" using LPC_mode_cases unfolding mode_def m_def by auto
  moreover have "13000 \<le> statGlobal s" if "0 \<le> LSP_distance oldLSP newLSP \<and> mode = 1"
  proof (rule ccontr)
    assume "\<not> 13000 \<le> statGlobal s"
    then have "m = 0" using LPC_mode_forward that s1(2) by (simp add: m_def)
    with that show False by (simp add: mode_def split: if_splits)
  qed
  moreover have "mode = 0 \<Longrightarrow> interpCoeff2_2 s3 = 4506" by (simp add: s3_def)
  moreover have "frame_counts s3 = (if mode = 1 then (s16 (BWDFrameCounter s + 1), s16 (val_BWDFrameCounter s + 250), prevLPmode s)
      else if e0 \<ge> BWF_HARMONIC_E \<and> prevLPmode s = 1 then (0, 0, prevLPmode s) else frame_counts s)"
  proof -
    have c: "frame_counts (tstDominantBWDmode m s1) = (BWDFrameCounter s, val_BWDFrameCounter s, prevLPmode s)"
      using tstDominant_frame_counts [of m s1] s1(3) by (simp add: frame_counts_def)
    have "m \<in> {0, 1}" unfolding m_def by (rule LPC_mode_cases)
    moreover have "frame_counts s3 = frame_counts s2" by (simp add: s3_def frame_counts_def)
    ultimately show ?thesis
      using stat_frame_counts [OF c, of "s16 (e0 - e1)" "s16 (e0 - e3)" m] s1(3)
      by (auto simp: s2_def mode_def frame_counts_def)
  qed
  moreover have "pPrevFilt s3 = pPrevFilt s"
    using s1(4) by (simp add: s3_def s2_def stat_G729E_def stat_counters_def tstDominantBWDmode_def dominant_decision_def
        count_mode_def Let_def split: prod.split)
  ultimately show ?thesis
    by (intro exI [of _ mode] exI [of _ "b1 @ b2"] exI [of _ s3]) (auto simp: frame_counts_def split: if_splits)
qed

text \<open>A concrete library: the residual copies the signal, the interpolations keep the first filter, the dot
  product sums.\<close>

definition lp_ipps_copy :: lp_ipps where
  "lp_ipps_copy = \<lparr>residual = \<lambda>a n x at len. take len (drop at x), interpC = \<lambda>a c b d. a, interp = \<lambda>a b. a,
     dot_prod = \<lambda>x y. sum_list (map2 (*) x y)\<rparr>"

definition lp_start :: lp_state where
  "lp_start = \<lparr>interpCoeff2_2 = 4506, pPrevFilt = replicate 31 0, prevLPmode = 0, statGlobal = 10000,
     BWDFrameCounter = 0, val_BWDFrameCounter = 0, BWDcounter2 = 0, FWDcounter2 = 0, dominantBWDmode = 0\<rparr>"

lemma dot_prod_copy_nonneg: "0 \<le> dot_prod lp_ipps_copy x x"
  by (auto simp: lp_ipps_copy_def zip_same_conv_map split_beta intro!: sum_list_nonneg)

theorem SetLPCMode_invariant_witness:
  "\<exists>mode lpc s'. SetLPCMode_G729E lp_ipps_copy (replicate 80 300) 0 (replicate 22 0) (replicate 62 0) presetLSP presetLSP lp_start
      = Some (mode, lpc, s')
    \<and> lp_ok s' \<and> mode \<in> {0, 1} \<and> (mode = 0 \<longrightarrow> interpCoeff2_2 s' = 4506)"
proof -
  have "lp_ok lp_start" by (simp add: lp_ok_def lp_start_def)
  from SetLPCMode_invariant [OF this dot_prod_copy_nonneg] show ?thesis by blast
qed

end
