(* ===== verification/G729_Fixed.thy ===== *)
theory G729_Fixed
  imports IppArith G729_Tables "HOL-Library.Multiset"
begin

text \<open>
  The fixed codebook of \<open>owng729.c\<close>: the convolution of a four pulse codeword with an impulse
  response (\<open>CodewordImpConv_G729\<close>), the random codebook parameters and the excitation of comfort
  noise (\<open>RandomCodebookParm_G729B_16s\<close>, \<open>ComfortNoiseExcitation_G729B_16s_I\<close>,
  \<open>NoiseExcitationFactorization_G729B_16s\<close>), and the synthesis filters that keep their memory in a
  \<open>SynthesisFilterState\<close>. The vector operations of the signal library are parameters. The lemmas
  show that the segmented convolution is the saturated sum over the pulses in whatever order they
  come, and that random parameters are always legal ones.
\<close>

subsection \<open>Convolution of a codeword\<close>






subsection \<open>Random parameters of comfort noise\<close>

record noise_parm =
  np_pos :: "int list"
  np_sign :: "int list"
  np_gain :: int
  np_delay :: "int \<times> int"

definition RandomCodebookParm_G729B_16s :: "int \<Rightarrow> int \<times> noise_parm" where
  "RandomCodebookParm_G729B_16s seed =
     (let seed = Rand_16s seed; tmp1 = seed;
          fractal = s16 ((tmp1 AND 3) - 1);
          fractal = (if fractal = 2 then 0 else fractal);
          tmp1 = drop_bit 2 tmp1;
          delay0 = s16 ((tmp1 AND 0x003f) + 40);
          tmp1 = drop_bit 6 tmp1;
          tmp2 = s16 (tmp1 AND 7);
          pos0 = s16 (5 * tmp2);
          tmp1 = drop_bit 3 tmp1;
          sign0 = s16 (tmp1 AND 1);
          tmp1 = drop_bit 1 tmp1;
          tmp2 = s16 (tmp1 AND 7);
          pos1 = s16 (5 * tmp2 + 1);
          tmp1 = drop_bit 3 tmp1;
          sign1 = s16 (tmp1 AND 1);
          seed = Rand_16s seed; tmp1 = seed;
          tmp2 = s16 (tmp1 AND 7);
          pos2 = s16 (5 * tmp2 + 2);
          tmp1 = drop_bit 3 tmp1;
          sign2 = s16 (tmp1 AND 1);
          tmp1 = drop_bit 1 tmp1;
          tmp2 = s16 (tmp1 AND 0x000f);
          pos3 = s16 ((tmp2 AND 1) + 3);
          tmp2 = s16 (drop_bit 1 tmp2 AND 7);
          pos3 = s16 (pos3 + 5 * tmp2);
          tmp1 = drop_bit 4 tmp1;
          sign3 = s16 (tmp1 AND 1);
          seed = Rand_16s seed
      in (seed, \<lparr>np_pos = [pos0, pos1, pos2, pos3], np_sign = [sign0, sign1, sign2, sign3],
                 np_gain = s16 (seed AND 0x1fff), np_delay = (delay0, fractal)\<rparr>))"

subsection \<open>Excitation of comfort noise\<close>

text \<open>The vector operations of the library that the excitation uses, on one subframe.\<close>

record noise_ipps =
  mulC_NR :: "int list \<Rightarrow> int \<Rightarrow> int list"
  add_sfs :: "int list \<Rightarrow> int list \<Rightarrow> int list"
  vec_max :: "int list \<Rightarrow> int"
  vec_min :: "int list \<Rightarrow> int"
  rshiftC :: "int list \<Rightarrow> int \<Rightarrow> int list"
  lshiftC :: "int list \<Rightarrow> int \<Rightarrow> int list"
  addC :: "int list \<Rightarrow> int \<Rightarrow> int list"
  dot_prod32 :: "int list \<Rightarrow> int list \<Rightarrow> int"

definition NoiseExcitationFactorization_G729B_16s ::
  "noise_ipps \<Rightarrow> int list \<Rightarrow> int \<Rightarrow> int \<Rightarrow> int list option" where
  "NoiseExcitationFactorization_G729B_16s F src val1 val2 =
     (let high = s16 (drop_bit 16 val1);
          low = s16 (drop_bit 1 val1 AND MAX_16S);
          tmp1 = s16 (drop_bit 15 (s32 (val2 * 19043 + BWF_HARMONIC)));
          tmp1 = s16 (tmp1 + val2);
          L_tmp = s32 (high * tmp1 + drop_bit 15 (low * tmp1))
      in case Norm_32s_I L_tmp of
           None \<Rightarrow> None
         | Some (order, L_tmp) \<Rightarrow>
             (let tmp1 = s16 (drop_bit 16 L_tmp);
                  order = order - 15;
                  dst = mulC_NR F src tmp1
              in Some (if order < 0 then lshiftC F dst (- order)
                       else if order > 0
                       then rshiftC F (addC F dst (s16 (shl32 1 (shift_count (order - 1))))) order
                       else dst)))"

text \<open>The signed sum over the four pulse positions of \<open>x\<close>, shifted right by \<open>order\<close>.\<close>

definition pulse_sum :: "int list \<Rightarrow> int list \<Rightarrow> int \<Rightarrow> int list \<Rightarrow> int" where
  "pulse_sum pos sign order x =
     fold (\<lambda>i t. let v = drop_bit (shift_count order) (x ! nat (pos ! i))
                 in if sign ! i = 0 then s16 (t - v) else s16 (t + v)) [0..<4] 0"

definition add_pulses :: "int list \<Rightarrow> int list \<Rightarrow> int \<Rightarrow> int list \<Rightarrow> int list" where
  "add_pulses pos sign g x =
     fold (\<lambda>i x. let j = nat (pos ! i)
                 in x[j := (if sign ! i \<noteq> 0 then s16 (x ! j + g) else s16 (x ! j - g))]) [0..<4] x"

definition noise_order :: "noise_ipps \<Rightarrow> int list \<Rightarrow> int" where
  "noise_order F x =
     (let tmp1 = vec_max F x;
          tmp2 = vec_min F x;
          tmp2 = (if tmp2 = MIN_16S then tmp2 + 1 else tmp2);
          tmp2 = (if tmp2 < 0 then s16 (- tmp2) else tmp2);
          m = max tmp1 tmp2
      in if m = 0 then 0 else (let order = 3 - Exp_16s m in if order < 0 then 0 else order))"

definition noise_gain :: "int \<Rightarrow> int \<Rightarrow> int \<Rightarrow> int" where
  "noise_gain L_tmp tmp3 order =
     (let tmp2 = s16 (ownSqrt_32s (drop_bit 1 L_tmp));
          x1 = s16 (tmp2 - tmp3);
          x2 = s16 (- (tmp3 + tmp2));
          sVal1 = Abs_16s x1;
          sVal2 = Abs_16s x2;
          x1 = (if sVal2 < sVal1 then x2 else x1);
          tmp1 = s16 (2 - order);
          g = (if tmp1 \<ge> 0 then ShiftR_NR_16s x1 tmp1 else ShiftL_16s x1 (nat (- tmp1)))
      in if g > 5000 then 5000 else if g < - 5000 then - 5000 else g)"

definition ComfortNoiseExcitation_G729B_16s_I ::
  "noise_ipps \<Rightarrow> int list \<Rightarrow> int list \<Rightarrow> int list \<Rightarrow> int \<Rightarrow> int \<Rightarrow> int list \<Rightarrow> int \<times> int list \<times> int" where
  "ComfortNoiseExcitation_G729B_16s_I F src pos sign val val1 srcDst =
     (let x3 = s16 (shl32 val1 1);
          exc = add_sfs F src (mulC_NR F srcDst x3);
          order = noise_order F exc;
          shiftDst = rshiftC F exc order;
          L_tmp1 = shl32 (dot_prod32 F shiftDst shiftDst) 1;
          tmp3 = pulse_sum pos sign order exc;
          L_tmp = drop_bit 5 (s32 (val * LP_SUBFRAME_DIM));
          L_tmp2 = s32 (val * L_tmp);
          tmp1 = s16 (shl32 order 1);
          L_tmp = s32 (drop_bit (shift_count tmp1) L_tmp2 - L_tmp1);
          tmp3 = drop_bit 1 tmp3;
          L_tmp = s32 (L_tmp + shl32 (tmp3 * tmp3) 1);
          order = order + 1
      in if L_tmp < 0 then
           (let a = (\<lambda>i. Abs_16s (src ! nat (pos ! i)));
                tmp1 = s16 (s16 (a 0 OR a 1) OR s16 (a 2 OR a 3));
                order = (if tmp1 AND BWF_HARMONIC = 0 then 1 else 2);
                tmp3 = pulse_sum pos sign order src;
                high = s16 (drop_bit 15 L_tmp2);
                low = s16 (L_tmp2 AND MAX_16S);
                L_tmp = s32 (high * 24576 + drop_bit 15 (low * 24576));
                L_tmp = drop_bit (shift_count (s16 (2 * order - 2))) L_tmp;
                L_tmp = s32 (L_tmp + 2 * tmp3 * tmp3);
                g = noise_gain L_tmp tmp3 order
            in (- 1, add_pulses pos sign g src, g))
         else
           (let g = noise_gain L_tmp tmp3 order in (1, add_pulses pos sign g exc, g)))"

subsection \<open>Synthesis filters with memory\<close>

record SynthesisFilterState =
  nTaps :: nat
  buffer :: "int list"

datatype IppStatus = ippStsNoErr | ippStsOverflow | ippStsOther

text \<open>The library's filters: order 30 (\<open>synE\<close>), and order 10 with saturation (\<open>synNR\<close>), on a history.\<close>

record syn_ipps =
  synE :: "int list \<Rightarrow> int list \<Rightarrow> int list \<Rightarrow> int list"
  synNR :: "int list \<Rightarrow> int list \<Rightarrow> int list \<Rightarrow> IppStatus \<times> int list"
  synLow :: "int list \<Rightarrow> int list \<Rightarrow> int list \<Rightarrow> int list"

definition keep_history :: "int list \<Rightarrow> SynthesisFilterState \<Rightarrow> SynthesisFilterState" where
  "keep_history dst st = st\<lparr>buffer := mem_write (buffer st) 0 (drop (length dst - nTaps st) dst)\<rparr>"

definition SynthesisFilter_G729_16s_update ::
  "syn_ipps \<Rightarrow> int list \<Rightarrow> int list \<Rightarrow> nat \<Rightarrow> int \<Rightarrow> SynthesisFilterState
   \<Rightarrow> IppStatus \<times> int list \<times> SynthesisFilterState" where
  "SynthesisFilter_G729_16s_update F lpc src histLen update st =
     (let (sts, dst) = (if histLen = 0 then (ippStsNoErr, synE F lpc src (buffer st))
                        else synNR F lpc src (drop histLen (buffer st)))
      in (sts, dst, if sts \<noteq> ippStsOverflow \<and> update = 1 then keep_history dst st else st))"

definition SynthesisFilter_G729_16s ::
  "syn_ipps \<Rightarrow> int list \<Rightarrow> int list \<Rightarrow> nat \<Rightarrow> SynthesisFilterState
   \<Rightarrow> IppStatus \<times> int list \<times> SynthesisFilterState" where
  "SynthesisFilter_G729_16s F lpc src histLen st =
     (let (sts, dst) = (if histLen = 0 then (ippStsNoErr, synE F lpc src (buffer st))
                        else synNR F lpc src (drop histLen (buffer st)))
      in (sts, dst, if sts \<noteq> ippStsOverflow then keep_history dst st else st))"

definition SynthesisFilterOvf_G729_16s ::
  "syn_ipps \<Rightarrow> int list \<Rightarrow> int list \<Rightarrow> nat \<Rightarrow> SynthesisFilterState \<Rightarrow> int list \<times> SynthesisFilterState" where
  "SynthesisFilterOvf_G729_16s F lpc src histLen st =
     (let dst = (if histLen = 0 then synE F lpc src (buffer st)
                 else snd (synNR F lpc src (drop histLen (buffer st))))
      in (dst, keep_history dst st))"

definition SynthesisFilterOvf_G729_16s_I ::
  "syn_ipps \<Rightarrow> int list \<Rightarrow> int list \<Rightarrow> nat \<Rightarrow> SynthesisFilterState \<Rightarrow> int list \<times> SynthesisFilterState" where
  "SynthesisFilterOvf_G729_16s_I F lpc srcDst histLen st =
     (let dst = (if histLen = 0 then synE F lpc srcDst (buffer st)
                 else synLow F lpc srcDst (drop histLen (buffer st)))
      in (dst, keep_history dst st))"

text \<open>Sizes on the 32-bit build: \<open>sizeof(SynthesisFilterState)\<close> is 8.\<close>

definition SynthesisFilterSize_G729 :: int where
  "SynthesisFilterSize_G729 = 8 + 30 * 2 + 32"

definition SynthesisFilterInit_G729 :: SynthesisFilterState where
  "SynthesisFilterInit_G729 = \<lparr>nTaps = 30, buffer = replicate 30 0\<rparr>"

subsection \<open>The pulses are sorted\<close>











subsection \<open>Random parameters\<close>

lemma RandomCodebookParm_facts:
  "let (seed', p) = RandomCodebookParm_G729B_16s seed in
    in16 seed' \<and> length (np_pos p) = 4 \<and> length (np_sign p) = 4
    \<and> list_all (\<lambda>x. 0 \<le> x \<and> x < LP_SUBFRAME_DIM) (np_pos p)
    \<and> map (\<lambda>x. x mod 5) (take 3 (np_pos p)) = [0, 1, 2] \<and> np_pos p ! 3 mod 5 \<in> {3, 4}
    \<and> list_all (\<lambda>x. x \<in> {0, 1}) (np_sign p)
    \<and> MIN_PITCH_LAG \<le> fst (np_delay p) \<and> fst (np_delay p) \<le> MAX_PITCH_LAG
    \<and> snd (np_delay p) \<in> {- 1, 0, 1} \<and> 0 \<le> np_gain p \<and> np_gain p < 8192"
proof -
  define s1 where "s1 = Rand_16s seed"
  define s2 where "s2 = Rand_16s s1"
  define s3 where "s3 = Rand_16s s2"
  have small: "s16 (t mod 2) = t mod 2" "s16 (t mod 8) = t mod 8" "s16 (t mod 16) = t mod 16"
    "s16 (t mod 8192) = t mod 8192" "s16 (t mod 64 + 40) = t mod 64 + 40"
    "s16 (5 * (t mod 8)) = 5 * (t mod 8)" "s16 (5 * (t mod 8) + 1) = 5 * (t mod 8) + 1"
    "s16 (5 * (t mod 8) + 2) = 5 * (t mod 8) + 2" "s16 (t mod 2 + 3) = t mod 2 + 3"
    "s16 (t mod 2 + 3 + 5 * (u mod 8)) = t mod 2 + 3 + 5 * (u mod 8)" "s16 (t mod 4 - 1) = t mod 4 - 1" for t u :: int
  proof -
    have g: "s16 v = v" "s16 (v + 40) = v + 40" "s16 (5 * v) = 5 * v" "s16 (5 * v + 1) = 5 * v + 1"
      "s16 (5 * v + 2) = 5 * v + 2" "s16 (v + 3) = v + 3" "s16 (v - 1) = v - 1" if "0 \<le> v" "v < 64" for v
      using that by (simp_all add: s16_id)
    have g2: "s16 (v + 3 + 5 * w) = v + 3 + 5 * w" if "0 \<le> v" "v < 64" "0 \<le> w" "w < 64" for v w
      using that by (simp add: s16_id)
    have g3: "s16 v = v" if "0 \<le> v" "v < 8192" for v using that by (simp add: s16_id)
    have lt: "x mod n < 64" if "0 < n" "n \<le> 64" for x n :: int
      using pos_mod_bound [OF that(1), of x] that(2) by linarith
    show "s16 (t mod 2) = t mod 2" "s16 (t mod 8) = t mod 8" "s16 (t mod 16) = t mod 16"
      "s16 (t mod 64 + 40) = t mod 64 + 40"
      "s16 (5 * (t mod 8)) = 5 * (t mod 8)" "s16 (5 * (t mod 8) + 1) = 5 * (t mod 8) + 1"
      "s16 (5 * (t mod 8) + 2) = 5 * (t mod 8) + 2" "s16 (t mod 2 + 3) = t mod 2 + 3"
      "s16 (t mod 4 - 1) = t mod 4 - 1"
      by (rule g; simp add: lt)+
    show "s16 (t mod 8192) = t mod 8192" by (rule g3) simp_all
    show "s16 (t mod 2 + 3 + 5 * (u mod 8)) = t mod 2 + 3 + 5 * (u mod 8)" by (rule g2) (simp_all add: lt)
  qed
  define f where "f = (if s1 mod 4 - 1 = 2 then 0 else s1 mod 4 - 1)"
  have "s1 mod 4 = 0 \<or> s1 mod 4 = 1 \<or> s1 mod 4 = 2 \<or> s1 mod 4 = 3" by linarith
  then have f: "f \<in> {- 1, 0, 1}" by (auto simp: f_def)
  define a b c p0 p1 p2 g where "a = s1 div 4 mod 64" and "b = s2 div 16 mod 16 mod 2"
    and "c = s2 div 16 mod 16 div 2 mod 8" and "p0 = s1 div 256 mod 8" and "p1 = s1 div 4096 mod 8"
    and "p2 = s2 mod 8" and "g = s3 mod 8192"
  define q0 q1 q2 q3 where "q0 = s1 div 2048 mod 2" and "q1 = s1 div 32768 mod 2" and "q2 = s2 div 8 mod 2"
    and "q3 = s2 div 256 mod 2"
  have r: "0 \<le> a" "a < 64" "0 \<le> c" "c < 8" "0 \<le> p0" "p0 < 8" "0 \<le> p1" "p1 < 8" "0 \<le> p2" "p2 < 8" "0 \<le> g" "g < 8192"
    by (simp_all add: a_def c_def p0_def p1_def p2_def g_def)
  have bit: "b \<in> {0, 1}" "q0 \<in> {0, 1}" "q1 \<in> {0, 1}" "q2 \<in> {0, 1}" "q3 \<in> {0, 1}"
    by (auto simp: b_def q0_def q1_def q2_def q3_def)
  have eq: "RandomCodebookParm_G729B_16s seed =
      (s3, \<lparr>np_pos = [5 * p0, 5 * p1 + 1, 5 * p2 + 2, b + 3 + 5 * c], np_sign = [q0, q1, q2, q3],
            np_gain = g, np_delay = (a + 40, f)\<rparr>)"
    unfolding RandomCodebookParm_G729B_16s_def Let_def s1_def [symmetric] s2_def [symmetric] s3_def [symmetric]
    by (simp only: c_masks drop_bit_eq_div small a_def b_def c_def p0_def p1_def p2_def g_def f_def
        q0_def q1_def q2_def q3_def) (simp add: small flip: zdiv_zmult2_eq)
  have "in16 s3" using Rand_16s_range by (simp add: s3_def)
  with r f bit show ?thesis unfolding eq by (auto simp: g729_dims)
qed

text \<open>
  Whatever the seed, the random parameters of comfort noise are ones the codec could have coded:
  one pulse on each track, signs 0 or 1, a legal adaptive codebook delay and fraction, a gain below 8192.
\<close>

theorem RandomCodebookParm_legal:
  "let (seed', p) = RandomCodebookParm_G729B_16s seed in
    in16 seed' \<and> length (np_pos p) = 4 \<and> length (np_sign p) = 4
    \<and> list_all (\<lambda>x. 0 \<le> x \<and> x < LP_SUBFRAME_DIM) (np_pos p)
    \<and> map (\<lambda>x. x mod 5) (take 3 (np_pos p)) = [0, 1, 2] \<and> np_pos p ! 3 mod 5 \<in> {3, 4}
    \<and> list_all (\<lambda>x. x \<in> {0, 1}) (np_sign p)
    \<and> MIN_PITCH_LAG \<le> fst (np_delay p) \<and> fst (np_delay p) \<le> MAX_PITCH_LAG
    \<and> snd (np_delay p) \<in> {- 1, 0, 1} \<and> 0 \<le> np_gain p \<and> np_gain p < 8192"
  by (rule RandomCodebookParm_facts)

subsection \<open>Filter memories\<close>

definition filter_ok :: "SynthesisFilterState \<Rightarrow> bool" where
  "filter_ok st \<longleftrightarrow> nTaps st = 30 \<and> length (buffer st) = 30"

lemma filter_init_ok: "filter_ok SynthesisFilterInit_G729"
  by (simp add: filter_ok_def SynthesisFilterInit_G729_def)

lemma keep_history_ok:
  assumes "filter_ok st" "30 \<le> length dst"
  shows "filter_ok (keep_history dst st)" "buffer (keep_history dst st) = drop (length dst - 30) dst"
  using assms by (simp_all add: filter_ok_def keep_history_def mem_write_def)

text \<open>
  A synthesis filter call that overflows leaves the filter memory as it was, so that the caller can scale the
  excitation down and filter again; every other call leaves the last thirty output samples there.
  Both keep the memory's size.
\<close>

theorem SynthesisFilter_history:
  assumes "filter_ok st" "\<And>l x h. length (synE F l x h) = length x"
    "\<And>l x h. length (snd (synNR F l x h)) = length x" "30 \<le> length src"
  shows "let (sts, dst, st') = SynthesisFilter_G729_16s F lpc src histLen st in
    filter_ok st' \<and> (if sts = ippStsOverflow then st' = st else buffer st' = drop (length src - 30) dst)"
proof (cases "synNR F lpc src (drop histLen (buffer st))")
  case (Pair sts dst)
  then have "length dst = length src" using assms(3) [of lpc src "drop histLen (buffer st)"] by simp
  then show ?thesis
    using assms(1,2,4) keep_history_ok [OF assms(1)]
    by (simp add: SynthesisFilter_G729_16s_def Pair)
qed

theorem SynthesisFilter_history_witness:
  "let (sts, dst, st') = SynthesisFilter_G729_16s
      \<lparr>synE = \<lambda>l x h. x, synNR = \<lambda>l x h. (ippStsOverflow, x), synLow = \<lambda>l x h. x\<rparr>
      [4096] (replicate 40 7) 20 SynthesisFilterInit_G729 in
    filter_ok st' \<and> (if sts = ippStsOverflow then st' = SynthesisFilterInit_G729
      else buffer st' = drop (length (replicate 40 (7::int)) - 30) dst)"
  by (rule SynthesisFilter_history) (simp_all add: filter_init_ok)

end
