(* ===== verification/G729_Vad.thy ===== *)
theory G729_Vad
  imports G729_Energy G729_Bits
begin

text \<open>
  The voice activity detector (\<open>vadg729.c\<close>, \<open>vadg729.h\<close>) and the music detector of Annex E
  (\<open>VADMusicDetection\<close> in \<open>owng729.c\<close>). The memory is the record \<open>VADmemory\<close>, its fields of
  the music detector the record \<open>VADmusic\<close>; \<open>VoiceActivityDetect_G729\<close> is the composition of the
  stages of the function, in their order. The dot product and the minimum of the signal library are parameters.
  The lemmas show the memory invariant and that every table and buffer index is legal for an
  endless run of frames, across the wrap of the frame counter.
\<close>

subsection \<open>Memory\<close>

record VADmemory =
  LSFMean :: "int list"
  minBuf :: "int list"
  VADPrev :: int
  VADPPrev :: int
  minPrev :: int
  minNext :: int
  minVAD :: int
  EMean :: int
  SEMean :: int
  SLEMean :: int
  SZCMean :: int
  VADPrevEnergy :: int
  SILcounter :: int
  updateCounter :: int
  extCounter :: int
  VADflag :: int
  VADflag2 :: int
  lessCounter :: int
  frameCounter :: int

record VADmusic =
  musicRC :: "int list"
  musicCounter :: int
  musicSEMean :: int
  musicMCounter :: int
  conscCounter :: int
  conscCounterFlagP :: int
  MeanPgain :: int
  count_pflag :: int
  conscCounterFlagR :: int
  Mcount_pflag :: int

definition VoiceActivityDetectInit_G729 :: "VADmemory \<times> VADmusic" where
  "VoiceActivityDetectInit_G729 =
     (\<lparr>LSFMean = replicate 10 0, minBuf = replicate 16 0, VADPrev = 1, VADPPrev = 1,
       minPrev = MAX_16S, minNext = MAX_16S, minVAD = MAX_16S, EMean = 0, SEMean = 0, SLEMean = 0,
       SZCMean = 0, VADPrevEnergy = MAX_16S, SILcounter = 0, updateCounter = 0, extCounter = 0,
       VADflag = 1, VADflag2 = 0, lessCounter = 0, frameCounter = 0\<rparr>,
      \<lparr>musicRC = replicate 10 0, musicCounter = 0, musicSEMean = 0, musicMCounter = 0, conscCounter = 0,
       conscCounterFlagP = 0, MeanPgain = BWF_HARMONIC_E, count_pflag = 0, conscCounterFlagR = 0,
       Mcount_pflag = 0\<rparr>)"

subsection \<open>Features of a frame\<close>

definition ZEROcrossBegin :: nat where "ZEROcrossBegin = 120"
definition ZEROcrossEnd :: nat where "ZEROcrossEnd = 200"
definition VADinitFrame :: int where "VADinitFrame = 32"

definition ownSignChangeRate :: "int list \<Rightarrow> int" where
  "ownSignChangeRate src =
     fold (\<lambda>i sum. sum + (if src ! (i - 1) * src ! i < 0 then 1 else 0)) [1..<Suc (ZEROcrossEnd - ZEROcrossBegin)] 0"

definition vad_energy :: "int \<Rightarrow> int \<Rightarrow> int" where
  "vad_energy autoExp x =
     (let (e, fractal) = Log2_G729 x;
          L_tmp = s32 ((autoExp + e) * 9864 + drop_bit 15 (fractal * 9864))
      in s16 (s16 (drop_bit 4 L_tmp) - 6108))"

definition low_band :: "(int list \<Rightarrow> int list \<Rightarrow> int) \<Rightarrow> int list \<Rightarrow> int" where
  "low_band dotProd acf =
     (let pTmp = map (\<lambda>i. s16 (drop_bit 16 (acf ! i))) [0..<13];
          L_tmp = dotProd (tl pTmp) (tl lbfCorr);
          L_tmp = s32 (4 * L_tmp)
      in Add_32s L_tmp (s32 (2 * pTmp ! 0 * lbfCorr ! 0)))"

definition spectral_distance :: "int list \<Rightarrow> int list \<Rightarrow> int" where
  "spectral_distance lsf mean =
     s16 (drop_bit 15 (fold (\<lambda>i d. let j = s16 (lsf ! i - mean ! i) in s32 (d + j * j)) [0..<10] 0))"

record vad_feat =
  v_energy :: int
  v_energyLow :: int
  v_dist :: int
  v_ZC :: int

definition vad_features ::
  "(int list \<Rightarrow> int list \<Rightarrow> int) \<Rightarrow> int list \<Rightarrow> int list \<Rightarrow> int list \<Rightarrow> int \<Rightarrow> VADmemory \<Rightarrow> vad_feat" where
  "vad_features dotProd src lsf acf autoExp m =
     \<lparr>v_energy = vad_energy autoExp (acf ! 0),
      v_energyLow = vad_energy autoExp (low_band dotProd acf),
      v_dist = spectral_distance lsf (LSFMean m),
      v_ZC = s16 (ownSignChangeRate (drop ZEROcrossBegin src) * 410)\<rparr>"

subsection \<open>The decision\<close>

definition ownMakeDecision :: "int \<Rightarrow> int \<Rightarrow> int \<Rightarrow> int \<Rightarrow> int" where
  "ownMakeDecision lowBandE highBandE spectrDist crossZeroRate =
     (if drop_bit 7 (s32 (crossZeroRate * (- 14680) + BWF_HARMONIC_E * (- 28521))) > shl32 (- spectrDist) 16 then 1
      else if drop_bit 6 (s32 (crossZeroRate * 19065 + BWF_HARMONIC_E * (- 19446))) > shl32 (- spectrDist) 16 then 1
      else if drop_bit 1 (s32 (crossZeroRate * 20480 + BWF_HARMONIC_E * BWF_HARMONIC)) < shl32 (- highBandE) 16 then 1
      else if drop_bit 1 (s32 (crossZeroRate * (- BWF_HARMONIC) + BWF_HARMONIC_E * 19660)) < shl32 (- highBandE) 16 then 1
      else if highBandE * MAX_16S < - 1024 * 30802 then 1
      else if s32 (spectrDist * (- 28160) + 64 * 19988) < shl32 (- highBandE) 9 then 1
      else if spectrDist * MAX_16S > 32 * 30199 then 1
      else if drop_bit 1 (s32 (crossZeroRate * (- 20480) + BWF_HARMONIC_E * BWF2)) < shl32 (- highBandE) 16 then 1
      else if drop_bit 1 (s32 (crossZeroRate * 23831 + 4096 * 31576)) < shl32 (- highBandE) 16 then 1
      else if highBandE * MAX_16S < - 2048 * 17367 then 1
      else if s32 (spectrDist * (- 22400) + 32 * 25395) < shl32 (- lowBandE) 8 then 1
      else if s32 (highBandE * (- 30427) + 256 * (- 29959)) > shl32 (- lowBandE) 15 then 1
      else if s32 (highBandE * (- 23406) + 512 * 28087) < shl32 (- lowBandE) 15 then 1
      else if s32 (highBandE * 24576 + 1024 * COEFF1) < shl32 (- lowBandE) 14 then 1
      else 0)"

subsection \<open>The stages of \<open>VoiceActivityDetect_G729\<close>\<close>

definition next_frame :: "int \<Rightarrow> int" where
  "next_frame n = (if n = MAX_16S then 256 else n + 1)"

text \<open>Tracking of the minimum energy: 16 minima of eight frames each.\<close>

definition min_early :: "int \<Rightarrow> VADmemory \<Rightarrow> VADmemory" where
  "min_early energy m =
     (let fc = frameCounter m
      in if fc < 129 then
           (let m = (if energy < minVAD m then m\<lparr>minVAD := energy, minPrev := energy\<rparr> else m)
            in if fc AND 7 = 0
               then m\<lparr>minBuf := (minBuf m)[nat (drop_bit 3 fc - 1) := minVAD m], minVAD := MAX_16S\<rparr>
               else m)
         else m)"

definition min_refresh :: "(int list \<Rightarrow> int) \<Rightarrow> VADmemory \<Rightarrow> VADmemory" where
  "min_refresh vecMin m = (if frameCounter m AND 7 = 0 then m\<lparr>minPrev := vecMin (minBuf m)\<rparr> else m)"

definition min_late :: "(int list \<Rightarrow> int) \<Rightarrow> int \<Rightarrow> VADmemory \<Rightarrow> VADmemory" where
  "min_late vecMin energy m =
     (let fc = frameCounter m
      in if fc \<ge> 129 then
           (let m = (if fc AND 7 = 1 then m\<lparr>minVAD := minPrev m, minNext := MAX_16S\<rparr> else m);
                m = (if energy < minVAD m then m\<lparr>minVAD := energy\<rparr> else m);
                m = (if energy < minNext m then m\<lparr>minNext := energy\<rparr> else m)
            in if fc AND 7 = 0
               then (let b = tl (minBuf m) @ [minNext m] in m\<lparr>minBuf := b, minPrev := vecMin b\<rparr>)
               else m)
         else m)"

definition min_tracking :: "(int list \<Rightarrow> int) \<Rightarrow> int \<Rightarrow> VADmemory \<Rightarrow> VADmemory" where
  "min_tracking vecMin energy m = min_late vecMin energy (min_refresh vecMin (min_early energy m))"

text \<open>The first 32 frames: frames below 15 dB count as silence, the others enter the means.\<close>

definition start_stage :: "int list \<Rightarrow> vad_feat \<Rightarrow> int \<times> VADmemory \<Rightarrow> int \<times> VADmemory" where
  "start_stage lsf f s =
     (let (vad, m) = s
      in if frameCounter m \<le> VADinitFrame then
           (if v_energy f < 3072 then (0, m\<lparr>lessCounter := s16 (lessCounter m + 1)\<rparr>)
            else (1, m\<lparr>EMean := s16 (EMean m + drop_bit 5 (v_energy f)),
                       SZCMean := s16 (SZCMean m + drop_bit 5 (v_ZC f)),
                       LSFMean := map (\<lambda>i. s16 (LSFMean m ! i + drop_bit 5 (lsf ! i))) [0..<10]\<rparr>))
         else (vad, m))"

definition scale_mean :: "int \<Rightarrow> int \<Rightarrow> int" where
  "scale_mean n x = s16 (drop_bit (nat (ishift ! nat n)) (x * ifactor ! nat n))"

definition mean_stage :: "VADmemory \<Rightarrow> VADmemory" where
  "mean_stage m =
     (if frameCounter m = VADinitFrame then
        (let n = lessCounter m;
             e = scale_mean n (EMean m)
         in m\<lparr>EMean := e, SZCMean := scale_mean n (SZCMean m), LSFMean := map (scale_mean n) (LSFMean m),
              SEMean := s16 (e - 2048), SLEMean := s16 (e - 2458)\<rparr>)
      else m)"

definition first_decision :: "vad_feat \<Rightarrow> VADmemory \<Rightarrow> int" where
  "first_decision f m =
     (if v_energy f < 3072 then 0
      else ownMakeDecision (s16 (SLEMean m - v_energyLow f)) (s16 (SEMean m - v_energy f)) (v_dist f)
             (s16 (SZCMean m - v_ZC f)))"

text \<open>The four smoothing stages of the decision.\<close>

definition smooth_1 :: "vad_feat \<Rightarrow> int \<times> VADmemory \<Rightarrow> int \<times> VADmemory" where
  "smooth_1 f s =
     (let (vad, m) = s; m = m\<lparr>VADflag2 := 0\<rparr>
      in if VADPrev m = 1 \<and> vad = 0 \<and> s16 (SEMean m - v_energy f) < - 410 \<and> v_energy f > 3072
         then (1, m\<lparr>VADflag2 := 1\<rparr>) else (vad, m))"

definition smooth_2 :: "vad_feat \<Rightarrow> int \<times> VADmemory \<Rightarrow> int \<times> VADmemory" where
  "smooth_2 f s =
     (let (vad, m) = s
      in if VADflag m = 1 then
           (if VADPPrev m = 1 \<and> VADPrev m = 1 \<and> vad = 0 \<and> Abs_16s (s16 (VADPrevEnergy m - v_energy f)) \<le> 614
            then (let m = m\<lparr>extCounter := s16 (extCounter m + 1), VADflag2 := 1\<rparr>
                  in (1, if extCounter m \<le> 4 then m\<lparr>VADflag := 1\<rparr> else m\<lparr>VADflag := 0, extCounter := 0\<rparr>))
            else (vad, m))
         else (vad, m\<lparr>VADflag := 1\<rparr>))"

definition smooth_3 :: "vad_feat \<Rightarrow> int \<times> VADmemory \<Rightarrow> int \<times> VADmemory" where
  "smooth_3 f s =
     (let (vad, m) = s;
          m = (if vad = 0 then m\<lparr>SILcounter := s16 (SILcounter m + 1)\<rparr> else m);
          (vad, m) = (if vad = 1 \<and> SILcounter m > 10 \<and> v_energy f - VADPrevEnergy m \<le> 614
                      then (0, m\<lparr>SILcounter := 0\<rparr>) else (vad, m))
      in if vad = 1 then (vad, m\<lparr>SILcounter := 0\<rparr>) else (vad, m))"

definition smooth_4 :: "vad_feat \<Rightarrow> int \<Rightarrow> int \<times> VADmemory \<Rightarrow> int \<times> VADmemory" where
  "smooth_4 f rc s =
     (let (vad, m) = s
      in if v_energy f - 614 < SEMean m \<and> frameCounter m > 128 \<and> VADflag2 m = 0 \<and> rc < 19661
         then (0, m) else (vad, m))"

definition vad_row :: "int \<Rightarrow> int list" where
  "vad_row n =
     (if n < 20 then vadTable ! 0 else if n < 30 then vadTable ! 1 else if n < 40 then vadTable ! 2
      else if n < 50 then vadTable ! 3 else if n < 60 then vadTable ! 4 else vadTable ! 5)"

definition mix :: "int \<Rightarrow> int \<Rightarrow> int \<Rightarrow> int \<Rightarrow> int" where
  "mix a x b y = s16 (drop_bit 15 (s32 (a * x + b * y)))"

definition update_stage :: "int list \<Rightarrow> vad_feat \<Rightarrow> int \<Rightarrow> VADmemory \<Rightarrow> VADmemory" where
  "update_stage lsf f rc m =
     (let m =
        (if v_energy f - 614 < SEMean m \<and> rc < 24576 \<and> v_dist f < 83 then
           (let n = s16 (updateCounter m + 1); row = vad_row n
            in m\<lparr>updateCounter := n,
                 SEMean := mix (row ! 0) (SEMean m) (row ! 1) (v_energy f),
                 SLEMean := mix (row ! 0) (SLEMean m) (row ! 1) (v_energyLow f),
                 SZCMean := mix (row ! 2) (SZCMean m) (row ! 3) (v_ZC f),
                 LSFMean := map (\<lambda>i. mix (row ! 4) (LSFMean m ! i) (row ! 5) (lsf ! i)) [0..<10]\<rparr>)
         else m)
      in if frameCounter m > 128 \<and> (SEMean m < minVAD m \<and> v_dist f < 83 \<or> SEMean m - minVAD m > 2048)
         then m\<lparr>SEMean := minVAD m, updateCounter := 0\<rparr> else m)"

definition VoiceActivityDetect_G729 ::
  "(int list \<Rightarrow> int list \<Rightarrow> int) \<Rightarrow> (int list \<Rightarrow> int) \<Rightarrow> int list \<Rightarrow> int list \<Rightarrow> int list \<Rightarrow> int \<Rightarrow> int
   \<Rightarrow> int \<times> VADmemory \<Rightarrow> int \<times> VADmemory" where
  "VoiceActivityDetect_G729 dotProd vecMin src lsf acf autoExp rc s =
     (let (vad, m) = s;
          f = vad_features dotProd src lsf acf autoExp m;
          m = m\<lparr>frameCounter := next_frame (frameCounter m)\<rparr>;
          m = min_tracking vecMin (v_energy f) m;
          (vad, m) = start_stage lsf f (vad, m);
          (vad, m) =
            (if frameCounter m \<ge> VADinitFrame then
               (let m = mean_stage m;
                    (vad, m) = smooth_4 f rc (smooth_3 f (smooth_2 f (smooth_1 f (first_decision f m, m))))
                in (vad, update_stage lsf f rc m))
             else (vad, m))
      in (vad, m\<lparr>VADPrevEnergy := v_energy f\<rparr>))"

text \<open>After every frame the encoder shifts the last two decisions.\<close>

definition vad_shift :: "int \<Rightarrow> VADmemory \<Rightarrow> VADmemory" where
  "vad_shift vad m = m\<lparr>VADPPrev := VADPrev m, VADPrev := vad\<rparr>"

subsection \<open>Music detection\<close>

definition music_pderr :: "int list \<Rightarrow> int" where
  "music_pderr rc =
     fold (\<lambda>i pderr. let j = s16 (drop_bit 15 (rc ! i * rc ! i)); j = s16 (MAX_16S - j)
                     in s16 (drop_bit 15 (pderr * j))) [0..<4] MAX_16S"

definition music_logE :: "int \<Rightarrow> int \<Rightarrow> int \<Rightarrow> int" where
  "music_logE autoCorr expAutoCorr pderr =
     (let L_tmp = s32 (2 * drop_bit 16 autoCorr * pderr
                       + 2 * drop_bit 15 ((drop_bit 1 autoCorr AND 0x7fff) * pderr));
          (e, fractal) = Log2_G729 L_tmp;
          L_tmp = s32 (9864 * e + drop_bit 15 (fractal * 9864));
          i = s16 (expAutoCorr - 2);
          L_tmp = s32 (L_tmp + 9864 * i);
          L_tmp = ShiftL_32s L_tmp 12
      in s16 (drop_bit 16 L_tmp - 4875))"

definition music_dist :: "int list \<Rightarrow> int list \<Rightarrow> int" where
  "music_dist mean rc =
     (let L_tmp = fold (\<lambda>i d. let j = s16 (mean ! i - rc ! i) in s32 (d + j * j)) [0..<10] 0
      in if L_tmp > MAX_32S div 2 then drop_bit 16 MAX_32S else s16 (drop_bit 15 L_tmp))"

definition music_means :: "int list \<Rightarrow> int \<Rightarrow> int \<Rightarrow> VADmusic \<Rightarrow> VADmusic" where
  "music_means rc logE vad m =
     (if vad = 0
      then m\<lparr>musicRC := map (\<lambda>i. mix COEFF1 (musicRC m ! i) PITCH_SHARP_MIN (rc ! i)) [0..<10],
             musicSEMean := mix COEFF1 (musicSEMean m) PITCH_SHARP_MIN logE\<rparr>
      else m)"

definition music_pgain :: "int list \<Rightarrow> VADmusic \<Rightarrow> VADmusic" where
  "music_pgain pgains m =
     (let L_tmp = fold (\<lambda>i t. s32 (t + pgains ! i * 6554)) [0..<5] 0;
          L_tmp = s32 (drop_bit 15 L_tmp * 6554);
          L_tmp = s32 (L_tmp + MeanPgain m * 26214)
      in m\<lparr>MeanPgain := s16 (drop_bit 15 L_tmp)\<rparr>)"

definition lag_spread :: "int list \<Rightarrow> int" where
  "lag_spread lags =
     (let tmp3 = fold (\<lambda>i t. s16 (t + lags ! i)) [0..<5] 0;
          L_tmp = fold (\<lambda>i t. let j = s16 (shl32 (lags ! i) 2); j = s16 (j + lags ! i); j = s16 (j - tmp3)
                              in s32 (t + j * j)) [0..<5] 0
      in if L_tmp > 256 then drop_bit 16 MAX_32S else s16 (shl32 L_tmp 7))"

definition pitch_flag :: "G729Codec_Type \<Rightarrow> int list \<Rightarrow> int \<Rightarrow> VADmusic \<Rightarrow> int" where
  "pitch_flag codecType lags vadPrev m =
     (let threshold = (if codecType = G729D_CODEC then 11960 else 10322);
          flag2 = (if MeanPgain m > threshold then 1 else 0);
          flag1 = (if lag_spread lags < 21632 \<and> MeanPgain m > 7373 then 1 else 0)
      in s16 ((vadPrev AND (flag1 OR flag2)) OR flag2))"

definition music_count :: "int list \<Rightarrow> int \<Rightarrow> int \<Rightarrow> int \<Rightarrow> VADmusic \<Rightarrow> VADmusic" where
  "music_count rc stat_flg vad fc m =
     (let m = (if rc ! 1 \<le> 14746 \<and> rc ! 1 \<ge> 0 \<and> MeanPgain m < BWF_HARMONIC_E
               then m\<lparr>conscCounterFlagR := s16 (conscCounterFlagR m + 1)\<rparr> else m\<lparr>conscCounterFlagR := 0\<rparr>);
          m = (if stat_flg = 1 \<and> vad = 1 then m\<lparr>musicCounter := s16 (musicCounter m + 256)\<rparr> else m);
          m = (if fc AND 63 = 0
               then m\<lparr>musicMCounter := (if fc = 64 then musicCounter m
                       else mix COEFF1 (musicMCounter m) PITCH_SHARP_MIN (musicCounter m))\<rparr>
               else m);
          m = m\<lparr>conscCounter := (if musicCounter m = 0 then s16 (conscCounter m + 1) else 0)\<rparr>;
          m = (if conscCounter m > 500 \<or> conscCounterFlagR m > 150 then m\<lparr>musicMCounter := 0\<rparr> else m)
      in if fc AND 63 = 0 then m\<lparr>musicCounter := 0\<rparr> else m)"

definition pflag_count :: "int \<Rightarrow> int \<Rightarrow> VADmusic \<Rightarrow> VADmusic" where
  "pflag_count flag fc m =
     (let m = (if flag = 1 then m\<lparr>count_pflag := s16 (count_pflag m + 256)\<rparr> else m);
          m = (if fc AND 63 = 0
               then m\<lparr>Mcount_pflag :=
                 (if fc = 64 then count_pflag m
                  else if count_pflag m > 6400 then mix N0_98 (Mcount_pflag m) 655 (count_pflag m)
                  else if count_pflag m > 5120 then mix 31130 (Mcount_pflag m) 1638 (count_pflag m)
                  else mix COEFF1 (Mcount_pflag m) PITCH_SHARP_MIN (count_pflag m))\<rparr>
               else m);
          m = m\<lparr>conscCounterFlagP := (if count_pflag m = 0 then s16 (conscCounterFlagP m + 1) else 0)\<rparr>;
          m = (if conscCounterFlagP m > 100 \<or> conscCounterFlagR m > 150 then m\<lparr>Mcount_pflag := 0\<rparr> else m)
      in if fc AND 63 = 0 then m\<lparr>count_pflag := 0\<rparr> else m)"

definition VADMusicDetection ::
  "G729Codec_Type \<Rightarrow> int \<Rightarrow> int \<Rightarrow> int list \<Rightarrow> int list \<Rightarrow> int list \<Rightarrow> int \<Rightarrow> VADmemory
   \<Rightarrow> int \<times> VADmusic \<Rightarrow> int \<times> VADmusic" where
  "VADMusicDetection codecType autoCorr expAutoCorr rc lags pgains stat_flg v s =
     (let (vad, m) = s;
          logE = music_logE autoCorr expAutoCorr (music_pderr rc);
          spectrDist = music_dist (musicRC m) rc;
          m = music_means rc logE vad m;
          m = music_pgain pgains m;
          flag = pitch_flag codecType lags (VADPrev v) m;
          m = music_count rc stat_flg vad (frameCounter v) m;
          m = pflag_count flag (frameCounter v) m;
          vad =
            (if codecType = G729E_CODEC then
               (if spectrDist > 4915 \<and> logE > musicSEMean m + 819 \<and> VADPrevEnergy v > 10240 then 1
                else if (spectrDist > 12452 \<or> logE > musicSEMean m + 819) \<and> VADPrevEnergy v > 10240 then 1
                else if (Mcount_pflag m > 2560 \<or> musicMCounter m > 280 \<or> frameCounter v < 64)
                        \<and> VADPrevEnergy v > 1433 then 1
                else vad)
             else vad)
      in (vad, m))"

subsection \<open>The memory invariant\<close>

definition vad_ok :: "VADmemory \<Rightarrow> bool" where
  "vad_ok m \<longleftrightarrow> length (LSFMean m) = 10 \<and> length (minBuf m) = 16
     \<and> 0 \<le> frameCounter m \<and> frameCounter m \<le> MAX_16S
     \<and> 0 \<le> lessCounter m \<and> lessCounter m \<le> min (frameCounter m) 32
     \<and> 0 \<le> extCounter m \<and> extCounter m \<le> 4 \<and> VADflag m \<in> {0, 1} \<and> VADflag2 m \<in> {0, 1}
     \<and> in16 (updateCounter m) \<and> in16 (SILcounter m)"

lemma next_frame_ok:
  assumes "vad_ok m"
  defines "m' \<equiv> m\<lparr>frameCounter := next_frame (frameCounter m)\<rparr>"
  shows "vad_ok m'" "lessCounter m' < frameCounter m'" "1 \<le> frameCounter m'"
  using assms by (auto simp: vad_ok_def next_frame_def)

definition vad_frame_view :: "VADmemory \<Rightarrow> int \<times> int \<times> int \<times> int \<times> int \<times> nat \<times> int \<times> int" where
  "vad_frame_view m =
     (frameCounter m, lessCounter m, extCounter m, VADflag m, VADflag2 m, length (LSFMean m),
      updateCounter m, SILcounter m)"

lemma min_tracking_view: "vad_frame_view (min_tracking vecMin energy m) = vad_frame_view m"
proof -
  have "vad_frame_view (min_early energy m) = vad_frame_view m" for m
    by (simp add: min_early_def Let_def vad_frame_view_def)
  moreover have "vad_frame_view (min_refresh vecMin m) = vad_frame_view m" for m
    by (simp add: min_refresh_def vad_frame_view_def)
  moreover have "vad_frame_view (min_late vecMin energy m) = vad_frame_view m" for m
    by (simp add: min_late_def Let_def vad_frame_view_def)
  ultimately show ?thesis by (simp add: min_tracking_def)
qed

lemmas min_tracking_keeps = min_tracking_view [unfolded vad_frame_view_def prod.inject]

lemma min_tracking_length:
  assumes "length (minBuf m) = 16"
  shows "length (minBuf (min_tracking vecMin energy m)) = 16"
proof -
  have "length (minBuf m) = 16 \<Longrightarrow> length (minBuf (min_early energy m)) = 16" for m
    by (simp add: min_early_def Let_def)
  moreover have "length (minBuf m) = 16 \<Longrightarrow> length (minBuf (min_refresh vecMin m)) = 16" for m
    by (simp add: min_refresh_def)
  moreover have "length (minBuf m) = 16 \<Longrightarrow> length (minBuf (min_late vecMin energy m)) = 16" for m
    by (simp add: min_late_def Let_def)
  ultimately show ?thesis using assms by (simp add: min_tracking_def)
qed

lemma min_tracking_ok: "vad_ok m \<Longrightarrow> vad_ok (min_tracking vecMin energy m)"
  by (simp add: vad_ok_def min_tracking_keeps min_tracking_length)

lemma start_stage_ok:
  assumes "vad_ok m" "lessCounter m < frameCounter m" "start_stage lsf f (vad, m) = (vad', m')"
  shows "vad_ok m'" "frameCounter m' = frameCounter m" "vad' \<in> {0, 1, vad}"
    "frameCounter m \<le> VADinitFrame \<Longrightarrow> vad' \<in> {0, 1}"
proof -
  have "in16 (lessCounter m + 1)" using assms(1) by (simp add: vad_ok_def)
  then show "vad_ok m'" "frameCounter m' = frameCounter m" "vad' \<in> {0, 1, vad}"
    "frameCounter m \<le> VADinitFrame \<Longrightarrow> vad' \<in> {0, 1}"
    using assms by (auto simp: start_stage_def vad_ok_def s16_id VADinitFrame_def split: if_splits)
qed

lemma mean_stage_ok:
  assumes "vad_ok m"
  shows "vad_ok (mean_stage m)" "frameCounter (mean_stage m) = frameCounter m"
  using assms by (simp_all add: mean_stage_def vad_ok_def Let_def)

lemma if_member: "a \<in> S \<Longrightarrow> b \<in> S \<Longrightarrow> (if c then a else b) \<in> S"
  by simp

lemma ownMakeDecision_cases: "ownMakeDecision a b c d \<in> {0, 1}"
  unfolding ownMakeDecision_def by (intro if_member) (simp_all only: insert_iff simp_thms)

lemma first_decision_cases: "first_decision f m \<in> {0, 1}"
  using ownMakeDecision_cases by (simp add: first_decision_def)

lemma smooth_1_ok:
  assumes "vad_ok m" "smooth_1 f (vad, m) = (vad', m')" "vad \<in> {0, 1}"
  shows "vad_ok m' \<and> frameCounter m' = frameCounter m \<and> vad' \<in> {0, 1}"
  using assms by (auto simp: smooth_1_def vad_ok_def Let_def split: if_splits)

lemma smooth_2_ok:
  assumes "vad_ok m" "smooth_2 f (vad, m) = (vad', m')" "vad \<in> {0, 1}"
  shows "vad_ok m' \<and> frameCounter m' = frameCounter m \<and> vad' \<in> {0, 1}"
proof -
  have "s16 (extCounter m + 1) = extCounter m + 1" using assms(1) by (simp add: vad_ok_def s16_id)
  then show ?thesis using assms by (auto simp: smooth_2_def vad_ok_def Let_def split: if_splits)
qed

lemma smooth_3_ok:
  assumes "vad_ok m" "smooth_3 f (vad, m) = (vad', m')" "vad \<in> {0, 1}"
  shows "vad_ok m' \<and> frameCounter m' = frameCounter m \<and> vad' \<in> {0, 1}"
  using assms by (auto simp: smooth_3_def vad_ok_def Let_def split: if_splits)

lemma smooth_4_ok:
  assumes "vad_ok m" "smooth_4 f rc (vad, m) = (vad', m')" "vad \<in> {0, 1}"
  shows "vad_ok m' \<and> frameCounter m' = frameCounter m \<and> vad' \<in> {0, 1}"
  using assms by (auto simp: smooth_4_def split: if_splits)

lemma update_stage_ok:
  assumes "vad_ok m"
  shows "vad_ok (update_stage lsf f rc m)" "frameCounter (update_stage lsf f rc m) = frameCounter m"
  using assms by (simp_all add: update_stage_def vad_ok_def Let_def)

lemma decision_ok:
  assumes "vad_ok m"
  shows "\<exists>vad' m'. smooth_4 f rc (smooth_3 f (smooth_2 f (smooth_1 f (first_decision f m, m)))) = (vad', m')
    \<and> vad_ok m' \<and> frameCounter m' = frameCounter m \<and> vad' \<in> {0, 1}"
proof -
  obtain v1 m1 where 1: "smooth_1 f (first_decision f m, m) = (v1, m1)" by force
  obtain v2 m2 where 2: "smooth_2 f (v1, m1) = (v2, m2)" by force
  obtain v3 m3 where 3: "smooth_3 f (v2, m2) = (v3, m3)" by force
  obtain v4 m4 where 4: "smooth_4 f rc (v3, m3) = (v4, m4)" by force
  note s1 = smooth_1_ok [OF assms 1 first_decision_cases]
  then have s2: "vad_ok m2 \<and> frameCounter m2 = frameCounter m1 \<and> v2 \<in> {0, 1}" using smooth_2_ok [OF _ 2] by blast
  then have s3: "vad_ok m3 \<and> frameCounter m3 = frameCounter m2 \<and> v3 \<in> {0, 1}" using smooth_3_ok [OF _ 3] by blast
  then have s4: "vad_ok m4 \<and> frameCounter m4 = frameCounter m3 \<and> v4 \<in> {0, 1}" using smooth_4_ok [OF _ 4] by blast
  from s1 s2 s3 s4 show ?thesis by (simp add: 1 2 3 4)
qed

lemma VoiceActivityDetect_step:
  assumes "vad_ok m" "VoiceActivityDetect_G729 dotProd vecMin src lsf acf autoExp rc (vad, m) = (vad', m')"
  shows "vad_ok m'" "frameCounter m' = next_frame (frameCounter m)" "vad' \<in> {0, 1}"
proof -
  define f where "f = vad_features dotProd src lsf acf autoExp m"
  define m1 where "m1 = m\<lparr>frameCounter := next_frame (frameCounter m)\<rparr>"
  note n = next_frame_ok [OF assms(1), folded m1_def]
  define m2 where "m2 = min_tracking vecMin (v_energy f) m1"
  have m2: "vad_ok m2" "lessCounter m2 < frameCounter m2" "frameCounter m2 = frameCounter m1"
    using min_tracking_ok [OF n(1)] n(2) by (simp_all add: m2_def min_tracking_keeps)
  obtain v3 m3 where 3: "start_stage lsf f (vad, m2) = (v3, m3)" by force
  note s3 = start_stage_ok [OF m2(1,2) 3]
  have fc: "frameCounter m3 = next_frame (frameCounter m)" using s3(2) m2(3) by (simp add: m1_def)
  have body: "(vad', m') = (let (vad, m) =
            (if frameCounter m3 \<ge> VADinitFrame then
               (let m = mean_stage m3;
                    (vad, m) = smooth_4 f rc (smooth_3 f (smooth_2 f (smooth_1 f (first_decision f m, m))))
                in (vad, update_stage lsf f rc m))
             else (v3, m3))
      in (vad, m\<lparr>VADPrevEnergy := v_energy f\<rparr>))"
    unfolding assms(2) [symmetric] VoiceActivityDetect_G729_def f_def [symmetric] m1_def [symmetric] m2_def [symmetric]
    by (simp only: prod.case Let_def f_def [symmetric] m1_def [symmetric] m2_def [symmetric] 3)
  have pe: "vad_ok (x\<lparr>VADPrevEnergy := e\<rparr>) = vad_ok x" for x e by (simp add: vad_ok_def)
  show "vad_ok m'" "frameCounter m' = next_frame (frameCounter m)" "vad' \<in> {0, 1}"
  proof (atomize (full), cases "frameCounter m3 \<ge> VADinitFrame")
    case True
    note ms = mean_stage_ok [OF s3(1)]
    obtain v4 m4 where 4: "smooth_4 f rc (smooth_3 f (smooth_2 f (smooth_1 f (first_decision f (mean_stage m3), mean_stage m3)))) = (v4, m4)"
      "vad_ok m4" "frameCounter m4 = frameCounter (mean_stage m3)" "v4 \<in> {0, 1}"
      using decision_ok [OF ms(1)] by blast
    have "vad' = v4" "m' = (update_stage lsf f rc m4)\<lparr>VADPrevEnergy := v_energy f\<rparr>"
      using body True by (simp_all add: Let_def 4)
    then show "vad_ok m' \<and> frameCounter m' = next_frame (frameCounter m) \<and> vad' \<in> {0, 1}"
      using update_stage_ok [OF 4(2)] 4(3,4) ms(2) fc by (simp add: pe)
  next
    case False
    have "vad' = v3" "m' = m3\<lparr>VADPrevEnergy := v_energy f\<rparr>" using body False by simp_all
    moreover have "v3 \<in> {0, 1}" using s3(2,4) m2(3) False by simp
    ultimately show "vad_ok m' \<and> frameCounter m' = next_frame (frameCounter m) \<and> vad' \<in> {0, 1}"
      using s3(1) fc by (simp add: pe)
  qed
qed

subsection \<open>Endless runs\<close>

text \<open>The states the detector reaches, frame after frame, whatever the frames hold.\<close>

inductive vad_reachable ::
  "(int list \<Rightarrow> int list \<Rightarrow> int) \<Rightarrow> (int list \<Rightarrow> int) \<Rightarrow> int \<Rightarrow> VADmemory \<Rightarrow> bool" for dotProd vecMin where
  start: "vad_reachable dotProd vecMin 1 (fst VoiceActivityDetectInit_G729)"
| frame: "vad_reachable dotProd vecMin vad m
    \<Longrightarrow> VoiceActivityDetect_G729 dotProd vecMin src lsf acf autoExp rc (vad, m) = (vad', m')
    \<Longrightarrow> vad_reachable dotProd vecMin vad' (vad_shift vad' m')"

lemma vad_reachable_ok:
  assumes "vad_reachable dotProd vecMin vad m"
  shows "vad_ok m \<and> vad \<in> {0, 1}"
  using assms
proof (induction rule: vad_reachable.induct)
  case start
  show ?case by (simp add: vad_ok_def VoiceActivityDetectInit_G729_def)
next
  case (frame vad m src lsf acf autoExp rc vad' m')
  then have ok: "vad_ok m" by blast
  have "vad_ok m'" "vad' \<in> {0, 1}"
    using VoiceActivityDetect_step(1) [OF ok frame.hyps(2)] VoiceActivityDetect_step(3) [OF ok frame.hyps(2)] .
  then show ?case by (simp add: vad_ok_def vad_shift_def)
qed

text \<open>The minimum buffer is written at one place of the first 128 frames; the place exists.\<close>

lemma min_index:
  assumes "1 \<le> n" "n < 129" "n AND 7 = 0"
  shows "0 \<le> drop_bit 3 n - 1" "drop_bit 3 n - 1 < (16::int)"
proof -
  have m: "n mod 8 = 0"
    using assms(3) take_bit_eq_mask [of 3 n] by (simp add: mask_eq_exp_minus_1 take_bit_eq_mod)
  have "n = 8 * (n div 8) + n mod 8" by simp
  then have "n = 8 * (n div 8)" using m by linarith
  then have "1 \<le> n div 8" "n div 8 \<le> 16" using assms(1,2) by linarith+
  then show "0 \<le> drop_bit 3 n - 1" "drop_bit 3 n - 1 < (16::int)" by (simp_all add: drop_bit_eq_div)
qed

text \<open>
  C13: Let the detector be in any state that it reaches from initialisation, over any number of
  frames of any content, and process one more frame, of any content. It decides 0 or 1. If the frame writes the minimum buffer by its number
  (one of the first 128, divisible by 8), the place is one of the 16; and the counter of quiet frames, the index of
  both mean correction tables, lies inside them. The flags stay 0 or 1, the hangover counter between 0
  and 4; the frame counter advances, and where it wraps (32767 to 256) it does not fall back into the
  first 128 frames. The counters of updates and of silent frames are promised 16 bits only: they wrap.
\<close>

theorem VAD_run_safe:
  assumes "vad_reachable dotProd vecMin vad m"
    and "VoiceActivityDetect_G729 dotProd vecMin src lsf acf autoExp rc (vad, m) = (vad', m')"
  defines "n \<equiv> next_frame (frameCounter m)"
  shows "vad' \<in> {0, 1} \<and> VADflag m' \<in> {0, 1} \<and> VADflag2 m' \<in> {0, 1}
    \<and> (n < 129 \<and> n AND 7 = 0 \<longrightarrow> 0 \<le> drop_bit 3 n - 1 \<and> drop_bit 3 n - 1 < int (length (minBuf m)))
    \<and> length (minBuf m') = 16 \<and> length (LSFMean m') = 10
    \<and> 0 \<le> lessCounter m' \<and> lessCounter m' < int (length ifactor) \<and> lessCounter m' < int (length ishift)
    \<and> 0 \<le> extCounter m' \<and> extCounter m' \<le> 4
    \<and> frameCounter m' = n \<and> 1 \<le> n \<and> n \<le> 32767 \<and> (128 < frameCounter m \<longrightarrow> 128 < n)
    \<and> in16 (updateCounter m') \<and> in16 (SILcounter m')"
proof -
  have ok: "vad_ok m" using vad_reachable_ok [OF assms(1)] by simp
  note step = VoiceActivityDetect_step [OF ok assms(2)]
  have "1 \<le> n" "n \<le> 32767" "128 < frameCounter m \<longrightarrow> 128 < n"
    using ok by (auto simp: n_def next_frame_def vad_ok_def)
  then show ?thesis
    using step ok min_index [of n] by (auto simp: vad_ok_def ifactor_def ishift_def n_def [symmetric])
qed

theorem VAD_run_safe_witness:
  "\<exists>vad' m'. VoiceActivityDetect_G729 (\<lambda>x y. 0) (\<lambda>b. hd b) (replicate 240 0) presetLSP (replicate 13 0) 5 100
      (1, fst VoiceActivityDetectInit_G729) = (vad', m')
    \<and> vad' \<in> {0, 1} \<and> length (minBuf m') = 16 \<and> frameCounter m' = 1 \<and> in16 (updateCounter m')"
proof -
  obtain vad' m' where r: "VoiceActivityDetect_G729 (\<lambda>x y. 0) (\<lambda>b. hd b) (replicate 240 0) presetLSP
      (replicate 13 0) 5 100 (1, fst VoiceActivityDetectInit_G729) = (vad', m')" by force
  have "next_frame (frameCounter (fst VoiceActivityDetectInit_G729)) = 1"
    by (simp add: next_frame_def VoiceActivityDetectInit_G729_def)
  with VAD_run_safe [OF vad_reachable.start r] r show ?thesis by auto
qed

subsection \<open>Running means\<close>

lemma mix_between:
  assumes "0 \<le> a" "0 \<le> b" "a + b = 32768" "in16 x" "in16 y"
  shows "min x y \<le> mix a x b y" "mix a x b y \<le> max x y"
proof -
  define lo hi where "lo = min x y" and "hi = max x y"
  have b: "lo \<le> x" "lo \<le> y" "x \<le> hi" "y \<le> hi" "in16 lo" "in16 hi" using assms by (auto simp: lo_def hi_def)
  have "a * lo + b * lo \<le> a * x + b * y" "a * x + b * y \<le> a * hi + b * hi"
    using assms b by (intro add_mono mult_left_mono; simp)+
  then have s: "lo * 32768 \<le> a * x + b * y" "a * x + b * y \<le> hi * 32768"
    using assms(3) by (simp_all add: distrib_right [symmetric] mult.commute)
  then have "in32 (a * x + b * y)" using b(5,6) by simp
  moreover from s have "lo \<le> (a * x + b * y) div 32768"
    by (simp only: int_le_div_iff)
  moreover from s have "(a * x + b * y) div 32768 \<le> hi"
    using int_div_less_iff [of 32768 "a * x + b * y" "hi + 1"] by simp
  ultimately show "min x y \<le> mix a x b y" "mix a x b y \<le> max x y"
    using b(5,6) unfolding lo_def [symmetric] hi_def [symmetric]
    by (simp_all add: mix_def s32_id drop_bit_eq_div s16_id)
qed

lemma vad_row_weights: "0 \<le> vad_row n ! 0" "0 \<le> vad_row n ! 1" "vad_row n ! 0 + vad_row n ! 1 = 32768"
  by (simp_all add: vad_row_def vadTable_def)

text \<open>
  The background energy mean moves towards the frame's energy and never past it: after an update
  it lies between its old value and the new energy, or it is reset to the tracked minimum.
\<close>

theorem VAD_mean_between:
  assumes "in16 (SEMean m)" "in16 (v_energy f)"
  shows "SEMean (update_stage lsf f rc m) = minVAD m
    \<or> min (SEMean m) (v_energy f) \<le> SEMean (update_stage lsf f rc m)
      \<and> SEMean (update_stage lsf f rc m) \<le> max (SEMean m) (v_energy f)"
  using mix_between [OF vad_row_weights assms] by (auto simp: update_stage_def Let_def)

theorem VAD_mean_between_witness:
  "let m = (fst VoiceActivityDetectInit_G729)\<lparr>SEMean := 4000\<rparr>;
       f = \<lparr>v_energy = 3500, v_energyLow = 3000, v_dist = 20, v_ZC = 410\<rparr>
   in SEMean (update_stage presetLSP f 1000 m) = minVAD m
    \<or> min (SEMean m) (v_energy f) \<le> SEMean (update_stage presetLSP f 1000 m)
      \<and> SEMean (update_stage presetLSP f 1000 m) \<le> max (SEMean m) (v_energy f)"
  unfolding Let_def by (rule VAD_mean_between) simp_all

text \<open>Both silence counters wrap: after 32767 updates the mean adapts at its starting rate again.\<close>

lemma updateCounter_wraps:
  assumes "updateCounter m = 32767" "v_energy f - 614 < SEMean m" "rc < 24576" "v_dist f < 83" "frameCounter m \<le> 128"
  shows "updateCounter (update_stage lsf f rc m) = - 32768"
    "SEMean (update_stage lsf f rc m) = mix 24576 (SEMean m) 8192 (v_energy f)"
proof -
  have "s16 (32767 + 1) = - 32768" by (simp add: s16_def)
  then show "updateCounter (update_stage lsf f rc m) = - 32768"
    "SEMean (update_stage lsf f rc m) = mix 24576 (SEMean m) 8192 (v_energy f)"
    using assms by (simp_all add: update_stage_def Let_def vad_row_def vadTable_def)
qed

end
