(* ===== verification/G729_Cng.thy ===== *)
theory G729_Cng
  imports G729_Fixed G729_Energy G729_Pitch
begin

text \<open>
  Comfort noise generation in the encoder (\<open>encg729.c\<close>: \<open>Init_CNG_encoder\<close>, \<open>CNG_Update\<close>,
  \<open>ACFsumUpd\<close>, \<open>CNG_encoder\<close>): the autocorrelation history, the decision between a silence
  descriptor and an untransmitted frame, the descriptor's spectrum and gain, and the excitation. The
  linear prediction and vector quantisation routines of the signal library are parameters. The
  lemmas show the state invariant, that two descriptors of a pause are at least three frames apart,
  and that the noise gain and every table index stay in range.
\<close>

subsection \<open>State\<close>

record cng_state =
  ACFsum :: "int list"
  ACFsumSfs :: "int list"
  pACF :: "int list"
  ACFsfs :: "int list"
  energy :: "int list"
  energySfs :: "int list"
  energyDim :: int
  gainNow :: int
  sidGain :: int
  ACFcounter :: int
  speechDiff :: int
  SIDframeCounter :: int
  prevDTXEnergy :: int
  ACnorm :: int
  reflC :: "int list"
  prevCoeff :: "int list"
  quantLspSID :: "int list"
  prevSubfrLPC :: "int list"
  prevRC :: "int list"
  prevLSPfreq :: "int list list"
  coderErr :: "int list"
  seed :: int
  CNGidx :: int

definition Init_CNG_encoder :: "cng_state \<Rightarrow> cng_state" where
  "Init_CNG_encoder s =
     s\<lparr>ACFsum := replicate (nat TOTAL_ACF_DIM) 0, ACFsumSfs := replicate (nat ACF_TOTAL) 40,
       pACF := replicate (nat ACF_DIM) 0, ACFsfs := replicate (nat ACF_NOW) 40,
       energySfs := replicate (nat GAIN_NUM) 40, energy := replicate (nat GAIN_NUM) 0,
       gainNow := 0, ACFcounter := 0, speechDiff := 0\<rparr>"

subsection \<open>Autocorrelation history\<close>

text \<open>\<open>Sum_G729_16s_Sfs\<close> writes eleven sums over the head of the history; it always returns.\<close>

definition ACFsumUpd :: "cng_state \<Rightarrow> cng_state option" where
  "ACFsumUpd s =
     (case Sum_G729_16s_Sfs (pACF s) (ACFsfs s) 2 of
        None \<Rightarrow> None
      | Some (dst, sfs) \<Rightarrow>
          Some (s\<lparr>ACFsum := dst @ take 22 (ACFsum s), ACFsumSfs := sfs # take 2 (ACFsumSfs s)\<rparr>))"

definition CNG_Update :: "int list \<Rightarrow> int \<Rightarrow> int \<Rightarrow> cng_state \<Rightarrow> cng_state option" where
  "CNG_Update val1 val2 Vad s =
     (let s = s\<lparr>pACF := take 11 val1 @ take 11 (pACF s),
                ACFsfs := [s16 (- (16 + val2)), ACFsfs s ! 0],
                ACFcounter := s16 (ACFcounter s + 1)\<rparr>
      in if ACFcounter s = ACF_NOW
         then (let s = s\<lparr>ACFcounter := 0\<rparr> in if Vad \<noteq> 0 then ACFsumUpd s else Some s)
         else Some s)"

subsection \<open>The signal library\<close>

record cng_ipps =
  levinson :: "int list \<Rightarrow> IppStatus \<times> int list \<times> int list \<times> int"
  dot_auto :: "int list \<Rightarrow> int list \<Rightarrow> int \<times> int"
  auto_corr :: "int list \<Rightarrow> int list \<times> int"
  lpc_lsp :: "bool \<Rightarrow> int list \<Rightarrow> int list \<Rightarrow> int list"
  lsp_lsf :: "int list \<Rightarrow> int list"
  lsf_quant :: "int list \<Rightarrow> int list list \<Rightarrow> int list \<times> int list \<times> int list list"
  lsf_lsp :: "int list \<Rightarrow> int list"
  lsp_lpc :: "int list \<Rightarrow> int list"
  interpolate :: "int list \<Rightarrow> int list \<Rightarrow> int list"
  min16 :: "int list \<Rightarrow> int"
  adaptive :: "int \<times> int \<Rightarrow> int list \<Rightarrow> nat \<Rightarrow> int list"
  noise_exc :: "int \<Rightarrow> int \<times> int list"
  inv_sqrt :: "int \<Rightarrow> int"
  noise :: noise_ipps

subsection \<open>The stages of \<open>CNG_encoder\<close>\<close>

text \<open>
  Energy of the frame: the last two autocorrelations are summed and the predictor error taken. Where the sum at lag 0 is 0
  the code writes no coefficients and \<open>Coeff\<close> keeps what the scratch memory held; the third component is zeros
  there. It is read only if the distance test of the descriptor prefers the current spectrum.
\<close>

definition cng_energy :: "cng_ipps \<Rightarrow> cng_state \<Rightarrow> (cng_state \<times> int list \<times> int list) option" where
  "cng_energy F s =
     (case Sum_G729_16s_Sfs (pACF s) (ACFsfs s) 2 of
        None \<Rightarrow> None
      | Some (curAcf, sfs) \<Rightarrow>
          (let s = s\<lparr>energy := [energy s ! 0, energy s ! 0], energySfs := [sfs, energySfs s ! 0]\<rparr>
           in if curAcf ! 0 = 0 then Some (s\<lparr>energy := [0, energy s ! 1]\<rparr>, curAcf, replicate 11 0)
              else (case levinson F (map (\<lambda>x. shl32 x 16) curAcf) of (sts, coeff, rc, e) \<Rightarrow>
                let s = s\<lparr>energy := [e, energy s ! 1]\<rparr>
                in if sts = ippStsOverflow then Some (s, curAcf, prevSubfrLPC s)
                   else Some (s\<lparr>prevSubfrLPC := coeff, prevRC := [rc ! 0, rc ! 1]\<rparr>, curAcf, coeff))))"

definition cng_threshold :: "int \<Rightarrow> int \<Rightarrow> int \<Rightarrow> int \<Rightarrow> int" where
  "cng_threshold fct e norm distSfs =
     (let tmp1 = s16 (s16 (norm + 9) - s16 distSfs);
          thresh = s32 (e + drop_bit 15 (s32 (e * fct + BWF_HARMONIC)))
      in if tmp1 < 0 then drop_bit (shift_count (- tmp1)) thresh else shl32 thresh (shift_count tmp1))"

text \<open>The number of energies that enter the gain; whether the signal has changed.\<close>

definition cng_dim :: "int \<Rightarrow> cng_state \<Rightarrow> cng_state" where
  "cng_dim VADPrev s =
     (if VADPrev \<noteq> 0 then s\<lparr>energyDim := 1\<rparr>
      else if energyDim s < GAIN_NUM then s\<lparr>energyDim := s16 (energyDim s + 1)\<rparr> else s)"

definition cng_change :: "cng_ipps \<Rightarrow> int \<Rightarrow> int list \<Rightarrow> cng_state \<Rightarrow> cng_state" where
  "cng_change F energyVal curAcf s =
     (let (dist, distSfs) = dot_auto F (reflC s) curAcf;
          s = (if dist > cng_threshold 4855 (energy s ! 0) (ACnorm s) distSfs then s\<lparr>speechDiff := 1\<rparr> else s)
      in if Abs_16s (s16 (prevDTXEnergy s - energyVal)) > 2 then s\<lparr>speechDiff := 1\<rparr> else s)"

text \<open>The decision: the frame type (2 a silence descriptor, 0 nothing), the level and its index.\<close>

definition cng_decide ::
  "cng_ipps \<Rightarrow> int \<Rightarrow> int list \<Rightarrow> cng_state \<Rightarrow> int \<times> int \<times> int \<times> cng_state" where
  "cng_decide F VADPrev curAcf s =
     (let s = cng_dim VADPrev s;
          (energyVal, curIgain) = QuantSIDGain_G729B_16s (min16 F) (energy s) (energySfs s) (nat (energyDim s))
      in if VADPrev \<noteq> 0 then (2, energyVal, curIgain, s\<lparr>SIDframeCounter := 0\<rparr>)
         else
           (let s = cng_change F energyVal curAcf s;
                n = s16 (SIDframeCounter s + 1)
            in if n < SID_FRAME_MIN then (0, energyVal, curIgain, s\<lparr>SIDframeCounter := n\<rparr>)
               else (if speechDiff s \<noteq> 0 then 2 else 0, energyVal, curIgain,
                     s\<lparr>SIDframeCounter := SID_FRAME_MIN\<rparr>)))"

text \<open>The past average filter, from the summed autocorrelations.\<close>

definition cng_average :: "cng_ipps \<Rightarrow> cng_state \<Rightarrow> cng_state option" where
  "cng_average F s =
     (case Sum_G729_16s_Sfs (ACFsum s) (ACFsumSfs s) 3 of
        None \<Rightarrow> None
      | Some (sacf, _) \<Rightarrow>
          Some (if sacf ! 0 = 0 then s\<lparr>prevCoeff := presetOldA\<rparr>
                else (case levinson F (map (\<lambda>x. shl32 x 16) sacf) of (sts, coeff, rc, e) \<Rightarrow>
                  if sts = ippStsOverflow then s\<lparr>prevCoeff := prevSubfrLPC s\<rparr>
                  else s\<lparr>prevCoeff := coeff, prevSubfrLPC := coeff, prevRC := [rc ! 0, rc ! 1]\<rparr>)))"

text \<open>Ordering of the line spectral frequencies with a minimum distance.\<close>

fun lsf_spread :: "nat \<Rightarrow> nat \<Rightarrow> int list \<Rightarrow> int list" where
  "lsf_spread i 0 lsp = lsp"
| "lsf_spread i (Suc k) lsp =
     (let lsp = (if lsp ! (i + 1) - lsp ! i < shl32 BW_EXP_FACT 1
                 then lsp[i + 1 := s16 (lsp ! i + shl32 BW_EXP_FACT 1)] else lsp)
      in lsf_spread (i + 1) k lsp)"

definition lsf_order :: "int list \<Rightarrow> int list" where
  "lsf_order lsp =
     (let lsp = (if lsp ! 0 < LSF_MIN then lsp[0 := LSF_MIN] else lsp);
          lsp = lsf_spread 0 9 lsp;
          lsp = (if lsp ! 9 > LSF_MAX then lsp[9 := LSF_MAX] else lsp)
      in if lsp ! 9 < lsp ! 8 then lsp[8 := s16 (lsp ! 9 - BW_EXP_FACT)] else lsp)"

definition cng_descriptor ::
  "cng_ipps \<Rightarrow> bool \<Rightarrow> int list \<Rightarrow> int list \<Rightarrow> int list \<Rightarrow> int \<Rightarrow> int \<Rightarrow> cng_state \<Rightarrow> (int list \<times> cng_state) option" where
  "cng_descriptor F annexA prevSubfrLSPquant curAcf Coeff energyVal curIgain s =
     (case cng_average F (s\<lparr>SIDframeCounter := 0, speechDiff := 0\<rparr>) of
        None \<Rightarrow> None
      | Some s \<Rightarrow>
          (let (r, norm) = auto_corr F (prevCoeff s);
               s = s\<lparr>reflC := r, ACnorm := norm\<rparr>;
               (dist, distSfs) = dot_auto F (reflC s) curAcf;
               (LPCc, s) =
                 (if dist \<le> cng_threshold 3161 (energy s ! 0) (ACnorm s) distSfs then (prevCoeff s, s)
                  else let (r, norm) = auto_corr F Coeff in (Coeff, s\<lparr>reflC := r, ACnorm := norm\<rparr>));
               newLSP = lpc_lsp F annexA LPCc prevSubfrLSPquant;
               lsp = lsf_order (lsp_lsf F newLSP);
               (lsfq, ana, freq) = lsf_quant F lsp (prevLSPfreq s)
           in Some ([2, ana ! 0, ana ! 1, ana ! 2, s16 curIgain],
                    s\<lparr>prevLSPfreq := freq, quantLspSID := lsf_lsp F lsfq, prevDTXEnergy := energyVal,
                      sidGain := SIDgain ! nat curIgain\<rparr>)))"

definition cng_gain :: "int \<Rightarrow> cng_state \<Rightarrow> cng_state" where
  "cng_gain VADPrev s =
     (if VADPrev \<noteq> 0 then s\<lparr>gainNow := sidGain s\<rparr>
      else (let g = s16 (drop_bit 15 (s32 (gainNow s * GAIN0 + BWF_HARMONIC)))
            in s\<lparr>gainNow := s16 (g + drop_bit 15 (s32 (sidGain s * GAIN1 + BWF_HARMONIC)))\<rparr>))"

text \<open>One subframe of excitation: \<open>prev\<close> is the excitation buffer, \<open>at\<close> the subframe's position in it.\<close>

definition cng_subframe ::
  "cng_ipps \<Rightarrow> nat \<Rightarrow> int list \<times> cng_state \<Rightarrow> (int list \<times> cng_state) option" where
  "cng_subframe F at t =
     (let (prev, s) = t;
          (sd, p) = RandomCodebookParm_G729B_16s (seed s);
          prev = adaptive F (np_delay p) prev at;
          (sd, invSq, cached, idx) =
            (if CNGidx s > CNG_STACK_SIZE - 1 then
               (let (sd, e) = noise_exc F sd
                in (sd, inv_sqrt F (dot_prod32 (noise F) e e), e, CNGidx s))
             else (cngSeedOut ! nat (CNGidx s), cngInvSqrt ! nat (CNGidx s), cngCache ! nat (CNGidx s),
                   s16 (CNGidx s + 1)))
      in case NoiseExcitationFactorization_G729B_16s (noise F) cached invSq (gainNow s) of
           None \<Rightarrow> None
         | Some excg \<Rightarrow>
             (let from = 154 + at;
                  (sgn, e, _) = ComfortNoiseExcitation_G729B_16s_I (noise F) excg (np_pos p) (np_sign p)
                                  (gainNow s) (np_gain p) (take 40 (drop from prev));
                  Gp = (if sgn < 0 then 0 else np_gain p)
              in Some (mem_write prev from e,
                       s\<lparr>seed := sd, CNGidx := idx,
                         coderErr := updateExcErr_G729 Gp (fst (np_delay p)) (coderErr s)\<rparr>)))"

definition cng_excitation :: "cng_ipps \<Rightarrow> int list \<times> cng_state \<Rightarrow> (int list \<times> cng_state) option" where
  "cng_excitation F t =
     (let (prev, s) = t
      in if gainNow s = 0 then
           Some (mem_write prev 154 (replicate 80 0),
                 s\<lparr>coderErr := updateExcErr_G729 0 (LP_SUBFRAME_DIM + 1)
                                (updateExcErr_G729 0 (LP_SUBFRAME_DIM + 1) (coderErr s))\<rparr>)
         else (case cng_subframe F 0 t of None \<Rightarrow> None | Some t \<Rightarrow> cng_subframe F 40 t))"

text \<open>The whole: the excitation, the quantised LSPs, the two filters, the parameters and the state.\<close>

definition CNG_encoder ::
  "cng_ipps \<Rightarrow> bool \<Rightarrow> int \<Rightarrow> int list \<Rightarrow> int list \<Rightarrow> cng_state
   \<Rightarrow> (int list \<times> int list \<times> int list \<times> int list \<times> cng_state) option" where
  "CNG_encoder F annexA VADPrev prevExcitat prevSubfrLSPquant s =
     (case cng_energy F s of
        None \<Rightarrow> None
      | Some (s, curAcf, Coeff) \<Rightarrow>
          (let (ftyp, energyVal, curIgain, s) = cng_decide F VADPrev curAcf s
           in case (if ftyp = 2 then cng_descriptor F annexA prevSubfrLSPquant curAcf Coeff energyVal curIgain s
                    else Some ([ftyp], s)) of
                None \<Rightarrow> None
              | Some (ana, s) \<Rightarrow>
                  (case cng_excitation F (prevExcitat, cng_gain VADPrev s) of
                     None \<Rightarrow> None
                   | Some (exc, s) \<Rightarrow>
                       (let lsp = interpolate F prevSubfrLSPquant (quantLspSID s);
                            Aq = lsp_lpc F lsp @ lsp_lpc F (quantLspSID s)
                        in case (if ACFcounter s = 0 then ACFsumUpd s else Some s) of
                             None \<Rightarrow> None
                           | Some s \<Rightarrow> Some (exc, quantLspSID s, Aq, ana, s\<lparr>ACnorm := s16 (ACnorm s)\<rparr>)))))"

subsection \<open>The state invariant\<close>

definition cng_ok :: "cng_state \<Rightarrow> bool" where
  "cng_ok s \<longleftrightarrow> length (ACFsum s) = 33 \<and> length (ACFsumSfs s) = 3 \<and> length (pACF s) = 22 \<and> length (ACFsfs s) = 2
     \<and> ACFcounter s \<in> {0, 1} \<and> 0 \<le> SIDframeCounter s \<and> SIDframeCounter s \<le> 3
     \<and> 0 \<le> energyDim s \<and> energyDim s \<le> 2
     \<and> 0 \<le> gainNow s \<and> gainNow s \<le> 15962 \<and> 0 \<le> sidGain s \<and> sidGain s \<le> 15962
     \<and> 0 \<le> CNGidx s \<and> CNGidx s \<le> 32 \<and> err_ok (coderErr s)"

lemma Sum_total: "\<exists>dst sfs'. Sum_G729_16s_Sfs src sfs len = Some (dst, sfs') \<and> length dst = 11"
  using Norm_32s_I_eq [OF acf_sum_in32] by (simp add: Sum_G729_16s_Sfs_def Let_def)

lemma ACFsumUpd_ok:
  assumes "cng_ok s"
  shows "\<exists>s'. ACFsumUpd s = Some s' \<and> cng_ok s' \<and> SIDframeCounter s' = SIDframeCounter s \<and> quantLspSID s' = quantLspSID s"
proof -
  obtain dst sfs' where r: "Sum_G729_16s_Sfs (pACF s) (ACFsfs s) 2 = Some (dst, sfs')" "length dst = 11"
    using Sum_total by blast
  show ?thesis using assms r(2) by (simp add: ACFsumUpd_def r(1) cng_ok_def)
qed

lemma CNG_Update_ok:
  assumes "cng_ok s" "length val1 = 11"
  shows "\<exists>s'. CNG_Update val1 val2 Vad s = Some s' \<and> cng_ok s' \<and> SIDframeCounter s' = SIDframeCounter s"
proof -
  define t where "t = s\<lparr>pACF := take 11 val1 @ take 11 (pACF s), ACFsfs := [s16 (- (16 + val2)), ACFsfs s ! 0],
     ACFcounter := s16 (ACFcounter s + 1)\<rparr>"
  have c: "ACFcounter t \<in> {1, 2}" using assms(1) by (auto simp: t_def cng_ok_def s16_id)
  have ok: "cng_ok (t\<lparr>ACFcounter := 0\<rparr>)" "ACFcounter t = 1 \<Longrightarrow> cng_ok t"
    using assms by (simp_all add: t_def cng_ok_def)
  have eq: "CNG_Update val1 val2 Vad s = (if ACFcounter t = ACF_NOW
      then (if Vad \<noteq> 0 then ACFsumUpd (t\<lparr>ACFcounter := 0\<rparr>) else Some (t\<lparr>ACFcounter := 0\<rparr>)) else Some t)"
    by (simp only: CNG_Update_def Let_def t_def [symmetric])
  have t: "SIDframeCounter t = SIDframeCounter s" by (simp add: t_def)
  show ?thesis
    using c ok ACFsumUpd_ok [OF ok(1)] t by (auto simp: eq ACF_NOW_def)
qed

lemma cng_energy_ok:
  assumes "cng_ok s"
  shows "\<exists>s' a c. cng_energy F s = Some (s', a, c) \<and> cng_ok s' \<and> SIDframeCounter s' = SIDframeCounter s"
proof -
  obtain dst sfs' where r: "Sum_G729_16s_Sfs (pACF s) (ACFsfs s) 2 = Some (dst, sfs')"
    using Sum_total by blast
  show ?thesis using assms
    by (cases "levinson F (map (\<lambda>x. shl32 x 16) dst)") (simp add: cng_energy_def r cng_ok_def Let_def)
qed

lemma QuantSIDGain_range: "snd (QuantSIDGain_G729B_16s m e sf n) \<in> {0..31}"
  using energy_index_range by (simp add: QuantSIDGain_G729B_16s_def Let_def ownQuantizeEnergy_eq)

lemma cng_dim_ok:
  assumes "cng_ok s"
  shows "cng_ok (cng_dim v s)" "SIDframeCounter (cng_dim v s) = SIDframeCounter s"
  using assms by (simp_all add: cng_dim_def cng_ok_def s16_id GAIN_NUM_def)

lemma cng_change_ok:
  "cng_ok (cng_change F e a s) = cng_ok s" "SIDframeCounter (cng_change F e a s) = SIDframeCounter s"
  by (simp_all add: cng_change_def cng_ok_def Let_def split_beta)

lemma cng_ok_counter: "cng_ok s \<Longrightarrow> 0 \<le> n \<Longrightarrow> n \<le> 3 \<Longrightarrow> cng_ok (s\<lparr>SIDframeCounter := n\<rparr>)"
  by (simp add: cng_ok_def)

lemma cng_decide_ok:
  assumes "cng_ok s" "cng_decide F VADPrev curAcf s = (ftyp, ev, ci, s')"
  shows "cng_ok s'" "ftyp \<in> {0, 2}" "0 \<le> ci" "ci \<le> 31" "VADPrev \<noteq> 0 \<Longrightarrow> ftyp = 2"
    "VADPrev = 0 \<Longrightarrow> ftyp = 2 \<Longrightarrow> 2 \<le> SIDframeCounter s"
    "SIDframeCounter s' \<le> SIDframeCounter s + 1"
proof -
  define t where "t = cng_dim VADPrev s"
  note t = cng_dim_ok [OF assms(1), of VADPrev, folded t_def]
  obtain e i where q: "QuantSIDGain_G729B_16s (min16 F) (energy t) (energySfs t) (nat (energyDim t)) = (e, i)" by force
  have i: "i \<in> {0..31}" using QuantSIDGain_range by (metis q snd_conv)
  have n: "s16 (SIDframeCounter s + 1) = SIDframeCounter s + 1" "0 \<le> SIDframeCounter s" "SIDframeCounter s \<le> 3"
    using assms(1) by (simp_all add: cng_ok_def s16_id)
  define u where "u = cng_change F e curAcf t"
  have u: "cng_ok u" "SIDframeCounter u = SIDframeCounter s" using t by (simp_all add: u_def cng_change_ok)
  have r: "cng_decide F VADPrev curAcf s = (if VADPrev \<noteq> 0 then (2, e, i, t\<lparr>SIDframeCounter := 0\<rparr>)
     else if SIDframeCounter s + 1 < 3 then (0, e, i, u\<lparr>SIDframeCounter := SIDframeCounter s + 1\<rparr>)
     else (if speechDiff u \<noteq> 0 then 2 else 0, e, i, u\<lparr>SIDframeCounter := 3\<rparr>))"
    by (simp only: cng_decide_def Let_def t_def [symmetric] q prod.case u_def [symmetric] u(2) n(1) SID_FRAME_MIN_def)
  have "cng_ok s' \<and> ftyp \<in> {0, 2} \<and> ci = i \<and> (VADPrev \<noteq> 0 \<longrightarrow> ftyp = 2)
    \<and> (VADPrev = 0 \<longrightarrow> ftyp = 2 \<longrightarrow> 2 \<le> SIDframeCounter s) \<and> SIDframeCounter s' \<le> SIDframeCounter s + 1"
    using assms(2) n(2,3) cng_ok_counter [OF t(1)] cng_ok_counter [OF u(1)] unfolding r
    by (auto split: if_splits)
  then show "cng_ok s'" "ftyp \<in> {0, 2}" "0 \<le> ci" "ci \<le> 31" "VADPrev \<noteq> 0 \<Longrightarrow> ftyp = 2"
    "VADPrev = 0 \<Longrightarrow> ftyp = 2 \<Longrightarrow> 2 \<le> SIDframeCounter s"
    "SIDframeCounter s' \<le> SIDframeCounter s + 1"
    using i by simp_all
qed

lemma SIDgain_nth: "i < 32 \<Longrightarrow> 0 \<le> SIDgain ! i \<and> SIDgain ! i \<le> 15962"
  by (rule table_bounds) (simp_all add: SIDgain_def)

lemma cng_average_ok:
  assumes "cng_ok s"
  shows "\<exists>s'. cng_average F s = Some s' \<and> cng_ok s' \<and> SIDframeCounter s' = SIDframeCounter s"
proof -
  obtain dst sfs' where r: "Sum_G729_16s_Sfs (ACFsum s) (ACFsumSfs s) 3 = Some (dst, sfs')"
    using Sum_total by blast
  show ?thesis using assms
    by (cases "levinson F (map (\<lambda>x. shl32 x 16) dst)") (simp add: cng_average_def r cng_ok_def)
qed

lemma cng_descriptor_ok:
  assumes "cng_ok s" "0 \<le> ci" "ci \<le> 31"
  shows "\<exists>ana s'. cng_descriptor F annexA q a c ev ci s = Some (ana, s') \<and> cng_ok s' \<and> SIDframeCounter s' = 0
    \<and> length ana = 5 \<and> ana ! 0 = 2 \<and> ana ! 4 = ci"
proof -
  have ok: "cng_ok (s\<lparr>SIDframeCounter := 0, speechDiff := 0\<rparr>)" using assms(1) by (simp add: cng_ok_def)
  then obtain t where t: "cng_average F (s\<lparr>SIDframeCounter := 0, speechDiff := 0\<rparr>) = Some t" "cng_ok t" "SIDframeCounter t = 0"
    using cng_average_ok [OF ok] by auto
  have g: "0 \<le> SIDgain ! nat ci" "SIDgain ! nat ci \<le> 15962" using SIDgain_nth [of "nat ci"] assms(2,3) by auto
  have c: "s16 ci = ci" using assms(2,3) by (simp add: s16_id)
  show ?thesis
    using t(2,3) g
    by (simp add: cng_descriptor_def t(1) c cng_ok_def Let_def split_beta)
qed

lemma cng_gain_ok:
  assumes "cng_ok s"
  shows "cng_ok (cng_gain v s)" "SIDframeCounter (cng_gain v s) = SIDframeCounter s" "quantLspSID (cng_gain v s) = quantLspSID s"
proof -
  define a b where "a = gainNow s" and "b = sidGain s"
  have ab: "0 \<le> a" "a \<le> 15962" "0 \<le> b" "b \<le> 15962" using assms by (simp_all add: a_def b_def cng_ok_def)
  have x: "0 \<le> (a * 28672 + 16384) div 32768" "(a * 28672 + 16384) div 32768 * 8 \<le> a * 7 + 4"
    and y: "0 \<le> (b * 4096 + 16384) div 32768" "(b * 4096 + 16384) div 32768 * 8 \<le> b + 4"
    using ab by auto
  define p q where "p = (a * 28672 + 16384) div 32768" and "q = (b * 4096 + 16384) div 32768"
  have "p \<le> 13967" "q \<le> 1995" using x(2) y(2) ab unfolding p_def [symmetric] q_def [symmetric] by linarith+
  then have pq: "0 \<le> p" "0 \<le> q" "p + q \<le> 15962" "p \<le> 32767" using x y by (simp_all add: p_def q_def)
  have "s16 (drop_bit 15 (s32 (gainNow s * GAIN0 + BWF_HARMONIC))) = p"
    "drop_bit 15 (s32 (sidGain s * GAIN1 + BWF_HARMONIC)) = q"
    using ab pq unfolding a_def b_def p_def q_def
    by (simp_all add: g729_dims s32_id drop_bit_eq_div s16_id)
  then have g: "cng_gain v s = s\<lparr>gainNow := (if v \<noteq> 0 then sidGain s else p + q)\<rparr>"
    using pq by (simp add: cng_gain_def Let_def s16_id)
  show "cng_ok (cng_gain v s)" using assms pq by (simp add: g cng_ok_def)
  show "SIDframeCounter (cng_gain v s) = SIDframeCounter s" "quantLspSID (cng_gain v s) = quantLspSID s"
    by (simp_all add: g)
qed

lemma noise_err_ok:
  assumes "err_ok e" "19 \<le> d" "d \<le> 144" "0 \<le> g" "g \<le> 16383"
  shows "err_ok (updateExcErr_G729 g d e)"
  using assms by (intro updateExcErr_bounded [of e d d]) (auto simp: tamed_gain_def)

text \<open>The facts about the random parameters that the excitation needs.\<close>

lemma random_parm:
  assumes "RandomCodebookParm_G729B_16s sd = (sd', p)"
  shows "20 \<le> fst (np_delay p)" "fst (np_delay p) \<le> 143" "0 \<le> np_gain p" "np_gain p \<le> 8191"
  using RandomCodebookParm_facts [of sd] by (simp_all add: assms g729_dims)

lemma NoiseExcitation_total: "\<exists>e. NoiseExcitationFactorization_G729B_16s F src v1 v2 = Some e"
  by (simp add: NoiseExcitationFactorization_G729B_16s_def Let_def Norm_32s_I_eq)

lemma cng_subframe_ok:
  assumes "cng_ok s"
  shows "\<exists>prev' s'. cng_subframe F at (prev, s) = Some (prev', s') \<and> cng_ok s' \<and> SIDframeCounter s' = SIDframeCounter s"
proof -
  obtain sd p where p: "RandomCodebookParm_G729B_16s (seed s) = (sd, p)" by force
  define prev1 where "prev1 = adaptive F (np_delay p) prev at"
  obtain sd' inv e idx where c: "(if CNGidx s > CNG_STACK_SIZE - 1 then
      (let (sd, e) = noise_exc F sd in (sd, inv_sqrt F (dot_prod32 (noise F) e e), e, CNGidx s))
      else (cngSeedOut ! nat (CNGidx s), cngInvSqrt ! nat (CNGidx s), cngCache ! nat (CNGidx s), s16 (CNGidx s + 1)))
      = (sd', inv, e, idx)" "0 \<le> idx" "idx \<le> 32"
  proof (cases "CNGidx s > CNG_STACK_SIZE - 1")
    case True
    have r: "0 \<le> CNGidx s" "CNGidx s \<le> 32" using assms by (simp_all add: cng_ok_def)
    obtain a b where "noise_exc F sd = (a, b)" by force
    with True show thesis by (intro that [OF _ r]) simp
  next
    case False
    have "0 \<le> CNGidx s" using assms by (simp add: cng_ok_def)
    with False have r: "s16 (CNGidx s + 1) = CNGidx s + 1" "0 \<le> CNGidx s + 1" "CNGidx s + 1 \<le> 32"
      by (simp_all add: g729_dims s16_id)
    show thesis by (rule that [OF _ r(2,3)]) (simp add: False r(1))
  qed
  obtain g where g: "NoiseExcitationFactorization_G729B_16s (noise F) e inv (gainNow s) = Some g"
    using NoiseExcitation_total by blast
  obtain sgn x y where n: "ComfortNoiseExcitation_G729B_16s_I (noise F) g (np_pos p) (np_sign p) (gainNow s) (np_gain p)
      (take 40 (drop (154 + at) prev1)) = (sgn, x, y)" by (metis prod.exhaust)
  have eq: "cng_subframe F at (prev, s) = Some (mem_write prev1 (154 + at) x,
      s\<lparr>seed := sd', CNGidx := idx,
        coderErr := updateExcErr_G729 (if sgn < 0 then 0 else np_gain p) (fst (np_delay p)) (coderErr s)\<rparr>)"
    by (simp only: cng_subframe_def Let_def prod.case p prev1_def [symmetric] c(1) [unfolded Let_def] g option.case n)
  have "err_ok (updateExcErr_G729 (if sgn < 0 then 0 else np_gain p) (fst (np_delay p)) (coderErr s))"
    using random_parm [OF p] assms by (intro noise_err_ok) (auto simp: cng_ok_def)
  then show ?thesis using assms c(2,3) by (simp add: eq cng_ok_def)
qed

lemma cng_excitation_ok:
  assumes "cng_ok s"
  shows "\<exists>prev' s'. cng_excitation F (prev, s) = Some (prev', s') \<and> cng_ok s' \<and> SIDframeCounter s' = SIDframeCounter s"
proof (cases "gainNow s = 0")
  case True
  define e where "e = updateExcErr_G729 0 (LP_SUBFRAME_DIM + 1) (updateExcErr_G729 0 (LP_SUBFRAME_DIM + 1) (coderErr s))"
  have "err_ok e" unfolding e_def using assms by (intro noise_err_ok) (auto simp: cng_ok_def g729_dims)
  then show ?thesis using assms True by (simp add: cng_excitation_def e_def [symmetric] cng_ok_def)
next
  case False
  then show ?thesis
    using cng_subframe_ok [OF assms, of F 0 prev] cng_subframe_ok [of _ F 40]
    by (auto simp: cng_excitation_def) metis
qed

text \<open>One call of \<open>CNG_encoder\<close>.\<close>

lemma CNG_encoder_step:
  assumes "cng_ok s"
  shows "\<exists>exc q Aq ana s'. CNG_encoder F annexA VADPrev prev lspq s = Some (exc, q, Aq, ana, s') \<and> cng_ok s'
    \<and> ana ! 0 \<in> {0, 2} \<and> (ana ! 0 = 2 \<longrightarrow> length ana = 5 \<and> 0 \<le> ana ! 4 \<and> ana ! 4 \<le> 31 \<and> SIDframeCounter s' = 0)
    \<and> (VADPrev \<noteq> 0 \<longrightarrow> ana ! 0 = 2) \<and> (VADPrev = 0 \<longrightarrow> ana ! 0 = 2 \<longrightarrow> 2 \<le> SIDframeCounter s)
    \<and> SIDframeCounter s' \<le> SIDframeCounter s + 1"
proof -
  obtain s1 a c where 1: "cng_energy F s = Some (s1, a, c)" "cng_ok s1" "SIDframeCounter s1 = SIDframeCounter s"
    using cng_energy_ok [OF assms] by blast
  obtain ft ev ci s2 where 2: "cng_decide F VADPrev a s1 = (ft, ev, ci, s2)" by (metis prod.exhaust)
  note d = cng_decide_ok [OF 1(2) 2]
  obtain ana s3 where 3: "(if ft = 2 then cng_descriptor F annexA lspq a c ev ci s2 else Some ([ft], s2)) = Some (ana, s3)"
    "cng_ok s3" "ana ! 0 = ft" "SIDframeCounter s3 = (if ft = 2 then 0 else SIDframeCounter s2)"
    "ft = 2 \<Longrightarrow> length ana = 5 \<and> ana ! 4 = ci"
  proof (cases "ft = 2")
    case True
    then show thesis using that cng_descriptor_ok [OF d(1,3,4), of F annexA lspq a c ev] by auto
  next
    case False
    then show thesis using that [of "[ft]" s2] d(1) by simp
  qed
  note g = cng_gain_ok [OF 3(2), of VADPrev]
  obtain exc s4 where 4: "cng_excitation F (prev, cng_gain VADPrev s3) = Some (exc, s4)" "cng_ok s4"
    "SIDframeCounter s4 = SIDframeCounter s3"
    using cng_excitation_ok [OF g(1), of F prev] g(2) by auto
  obtain s5 where 5: "(if ACFcounter s4 = 0 then ACFsumUpd s4 else Some s4) = Some s5" "cng_ok s5"
    "SIDframeCounter s5 = SIDframeCounter s4"
    using ACFsumUpd_ok [OF 4(2)] 4(2) by (cases "ACFcounter s4 = 0") auto
  have 6: "cng_ok (s5\<lparr>ACnorm := s16 (ACnorm s5)\<rparr>)" using 5(2) by (simp add: cng_ok_def)
  have "0 \<le> SIDframeCounter s" using assms by (simp add: cng_ok_def)
  then show ?thesis
    using 6 3 4(3) 5(3) d 1(3)
    by (simp add: CNG_encoder_def 1(1) 2 3(1) 4(1) 5(1) Let_def)
qed

subsection \<open>Spacing of the descriptors\<close>

text \<open>
  The frames of a pause after its first one: every frame enters the history and then the generator,
  with \<open>VADPrev = 0\<close>. \<open>cng_pause F annexA s ts s'\<close>: from \<open>s\<close> to \<open>s'\<close> with the frame types \<open>ts\<close>.
\<close>

inductive cng_pause :: "cng_ipps \<Rightarrow> bool \<Rightarrow> cng_state \<Rightarrow> int list \<Rightarrow> cng_state \<Rightarrow> bool" for F annexA s where
  start: "cng_pause F annexA s [] s"
| frame: "cng_pause F annexA s ts s1 \<Longrightarrow> length val1 = 11 \<Longrightarrow> CNG_Update val1 val2 0 s1 = Some s2
    \<Longrightarrow> CNG_encoder F annexA 0 prev lspq s2 = Some (exc, q, Aq, ana, s3)
    \<Longrightarrow> cng_pause F annexA s (ts @ [ana ! 0]) s3"

lemma cng_pause_spacing:
  assumes "cng_pause F annexA s ts s'" "cng_ok s"
  shows "cng_ok s' \<and> set ts \<subseteq> {0, 2} \<and> SIDframeCounter s' \<le> SIDframeCounter s + int (length ts)
    \<and> (\<forall>i < length ts. ts ! i = 2 \<longrightarrow> SIDframeCounter s' \<le> int (length ts) - 1 - int i \<and> 2 \<le> SIDframeCounter s + int i)
    \<and> (\<forall>i j. i < j \<longrightarrow> j < length ts \<longrightarrow> ts ! i = 2 \<longrightarrow> ts ! j = 2 \<longrightarrow> i + 3 \<le> j)"
  using assms
proof (induction rule: cng_pause.induct)
  case start
  then show ?case by simp
next
  case (frame ts s1 val1 val2 s2 prev lspq exc q Aq ana s3)
  note IH = frame.IH [OF frame.prems]
  have s2: "cng_ok s2" "SIDframeCounter s2 = SIDframeCounter s1"
    using CNG_Update_ok [of s1 val1 val2 0] IH frame.hyps(2,3) by auto
  note e = CNG_encoder_step [OF s2(1), of F annexA 0 prev lspq, unfolded frame.hyps(4)]
  then have s3: "cng_ok s3" "ana ! 0 \<in> {0, 2}" "ana ! 0 = 2 \<Longrightarrow> SIDframeCounter s3 = 0 \<and> 2 \<le> SIDframeCounter s1"
    "SIDframeCounter s3 \<le> SIDframeCounter s1 + 1"
    using s2(2) by auto
  show ?case
  proof (intro conjI allI impI)
    show "cng_ok s3" by (rule s3)
    show "set (ts @ [ana ! 0]) \<subseteq> {0, 2}" using IH s3(2) by auto
    show "SIDframeCounter s3 \<le> SIDframeCounter s + int (length (ts @ [ana ! 0]))" using IH s3(4) by simp
  next
    fix i assume i: "i < length (ts @ [ana ! 0])" "(ts @ [ana ! 0]) ! i = 2"
    show "SIDframeCounter s3 \<le> int (length (ts @ [ana ! 0])) - 1 - int i"
    proof (cases "i = length ts")
      case True
      then show ?thesis using i s3(3) by simp
    next
      case False
      then have "SIDframeCounter s1 \<le> int (length ts) - 1 - int i" using i IH by (simp add: nth_append)
      then show ?thesis using s3(4) by simp
    qed
    show "2 \<le> SIDframeCounter s + int i"
    proof (cases "i = length ts")
      case True
      then show ?thesis using i s3(3) IH by simp
    next
      case False
      then show ?thesis using i IH by (simp add: nth_append)
    qed
  next
    fix i j assume ij: "i < j" "j < length (ts @ [ana ! 0])" "(ts @ [ana ! 0]) ! i = 2" "(ts @ [ana ! 0]) ! j = 2"
    show "i + 3 \<le> j"
    proof (cases "j = length ts")
      case True
      then have "ana ! 0 = 2" "i < length ts" "ts ! i = 2" using ij by (simp_all add: nth_append)
      then have "2 \<le> SIDframeCounter s1" "SIDframeCounter s1 \<le> int (length ts) - 1 - int i" using s3(3) IH by auto
      then show ?thesis using True by linarith
    next
      case False
      then show ?thesis using ij IH by (simp add: nth_append)
    qed
  qed
qed

text \<open>
  C12: During a pause two silence descriptors are always at least three frames apart, and after the
  descriptor that opened the pause (counter 0) the next two frames are never descriptors; every other frame is
  untransmitted. The generator always returns, whatever the signal library computes.
\<close>

theorem SID_spacing:
  assumes "cng_pause F annexA s ts s'" "cng_ok s"
  shows "set ts \<subseteq> {0, 2}
    \<and> (\<forall>i j. i < j \<longrightarrow> j < length ts \<longrightarrow> ts ! i = 2 \<longrightarrow> ts ! j = 2 \<longrightarrow> i + 3 \<le> j)
    \<and> (SIDframeCounter s = 0 \<longrightarrow> (\<forall>i < length ts. ts ! i = 2 \<longrightarrow> 2 \<le> i))
    \<and> (\<forall>VADPrev prev lspq. CNG_encoder F annexA VADPrev prev lspq s' \<noteq> None)"
proof -
  note c = cng_pause_spacing [OF assms]
  have "CNG_encoder F annexA v prev lspq s' \<noteq> None" for v prev lspq
    using CNG_encoder_step [of s' F annexA v prev lspq] c by auto
  then show ?thesis using c by auto
qed

text \<open>A concrete library, and the state after initialisation and a first descriptor.\<close>

definition cng_lib :: cng_ipps where
  "cng_lib = \<lparr>levinson = \<lambda>r. (ippStsNoErr, replicate 11 0, replicate 10 0, 100), dot_auto = \<lambda>x y. (0, 0),
     auto_corr = \<lambda>x. (x, 0), lpc_lsp = \<lambda>a x y. y, lsp_lsf = \<lambda>x. resetPrevLSP,
     lsf_quant = \<lambda>x f. (x, [0, 0, 0], f), lsf_lsp = \<lambda>x. x, lsp_lpc = \<lambda>x. presetOldA,
     interpolate = \<lambda>x y. x, min16 = \<lambda>x. hd x, adaptive = \<lambda>d x at. x, noise_exc = \<lambda>s. (s, replicate 40 0),
     inv_sqrt = \<lambda>x. x,
     noise = \<lparr>mulC_NR = \<lambda>x c. x, add_sfs = \<lambda>x y. x, vec_max = \<lambda>x. 0, vec_min = \<lambda>x. 0,
       rshiftC = \<lambda>x n. x, lshiftC = \<lambda>x n. x, addC = \<lambda>x c. x, dot_prod32 = \<lambda>x y. 0\<rparr>\<rparr>"

definition cng_start :: cng_state where
  "cng_start = Init_CNG_encoder \<lparr>ACFsum = [], ACFsumSfs = [], pACF = [], ACFsfs = [], energy = [], energySfs = [],
     energyDim = 1, gainNow = 0, sidGain = 2, ACFcounter = 0, speechDiff = 0, SIDframeCounter = 0,
     prevDTXEnergy = 0, ACnorm = 0, reflC = replicate 11 0, prevCoeff = presetOldA, quantLspSID = presetLSP,
     prevSubfrLPC = presetOldA, prevRC = [0, 0], prevLSPfreq = replicate 4 resetPrevLSP,
     coderErr = replicate 4 16384, seed = 11111, CNGidx = 0\<rparr>"

lemma cng_start_ok: "cng_ok cng_start" "SIDframeCounter cng_start = 0"
  by (simp_all add: cng_start_def Init_CNG_encoder_def cng_ok_def g729_dims err_ok_def ERR_MAX_def)

theorem SID_spacing_witness:
  "\<exists>t s'. cng_pause cng_lib False cng_start [t] s' \<and> set [t] \<subseteq> {0, 2}
    \<and> (\<forall>i j. i < j \<longrightarrow> j < length [t] \<longrightarrow> [t] ! i = 2 \<longrightarrow> [t] ! j = 2 \<longrightarrow> i + 3 \<le> j)
    \<and> (SIDframeCounter cng_start = 0 \<longrightarrow> (\<forall>i < length [t]. [t] ! i = 2 \<longrightarrow> 2 \<le> i))
    \<and> (\<forall>VADPrev prev lspq. CNG_encoder cng_lib False VADPrev prev lspq s' \<noteq> None)"
proof -
  obtain s2 where 2: "CNG_Update (replicate 11 5) 3 0 cng_start = Some s2" "cng_ok s2"
    using CNG_Update_ok [OF cng_start_ok(1), of "replicate 11 5"] by auto
  obtain exc q Aq ana s3 where 3: "CNG_encoder cng_lib False 0 (replicate 236 0) presetLSP s2 = Some (exc, q, Aq, ana, s3)"
    using CNG_encoder_step [OF 2(2)] by blast
  have "cng_pause cng_lib False cng_start ([] @ [ana ! 0]) s3"
    by (rule cng_pause.frame [OF cng_pause.start _ 2(1) 3]) simp
  then have "cng_pause cng_lib False cng_start [ana ! 0] s3" by simp
  from SID_spacing [OF this cng_start_ok(1)] this show ?thesis by blast
qed

text \<open>What \<open>Init_CNG_encoder\<close> leaves as the initialisation of the object has set it.\<close>

definition cng_preset :: "cng_state \<Rightarrow> bool" where
  "cng_preset s \<longleftrightarrow> 0 \<le> SIDframeCounter s \<and> SIDframeCounter s \<le> 3 \<and> 0 \<le> energyDim s \<and> energyDim s \<le> 2
     \<and> 0 \<le> sidGain s \<and> sidGain s \<le> 15962 \<and> 0 \<le> CNGidx s \<and> CNGidx s \<le> 32 \<and> err_ok (coderErr s)"

text \<open>
  C27: The state invariant of the generator: the autocorrelation histories have their lengths, the counters and the
  number of energies are within 0 to 3, 0 to 1 and 0 to 2, both gains within 0 and 15962, the index of the random cache
  within 0 and 32, and the four error estimates within their bound. \<open>Init_CNG_encoder\<close> establishes it
  where the fields it does not write are in range. \<open>CNG_Update\<close> alone, called on every frame, and \<open>ACFsumUpd\<close>
  keep it and leave the frame counter as it is. \<open>CNG_encoder\<close>, called on the frames without speech, keeps it, whatever the
  signal library computes; the frame type is 0 or 2, it is 2 after speech, and a descriptor (type 2) has four parameters, the last
  one, its gain index, of five bits. Each of the four returns.
\<close>

theorem CNG_invariant:
  "(cng_preset s \<longrightarrow> cng_ok (Init_CNG_encoder s))
    \<and> (cng_ok s \<and> length val1 = 11 \<longrightarrow>
        (\<exists>s'. CNG_Update val1 val2 Vad s = Some s' \<and> cng_ok s' \<and> SIDframeCounter s' = SIDframeCounter s))
    \<and> (cng_ok s \<longrightarrow> (\<exists>s'. ACFsumUpd s = Some s' \<and> cng_ok s' \<and> SIDframeCounter s' = SIDframeCounter s))
    \<and> (cng_ok s \<longrightarrow> (\<exists>exc q Aq ana s'. CNG_encoder F annexA VADPrev prev lspq s = Some (exc, q, Aq, ana, s')
        \<and> cng_ok s' \<and> ana ! 0 \<in> {0, 2} \<and> (VADPrev \<noteq> 0 \<longrightarrow> ana ! 0 = 2)
        \<and> (ana ! 0 = 2 \<longrightarrow> length ana = 5 \<and> ana ! 4 \<in> {0..31})))"
proof (intro conjI impI)
  assume "cng_preset s"
  then show "cng_ok (Init_CNG_encoder s)"
    by (simp add: cng_preset_def Init_CNG_encoder_def cng_ok_def g729_dims)
next
  assume "cng_ok s \<and> length val1 = 11"
  then show "\<exists>s'. CNG_Update val1 val2 Vad s = Some s' \<and> cng_ok s' \<and> SIDframeCounter s' = SIDframeCounter s"
    by (intro CNG_Update_ok) simp_all
next
  assume "cng_ok s"
  from ACFsumUpd_ok [OF this]
  show "\<exists>s'. ACFsumUpd s = Some s' \<and> cng_ok s' \<and> SIDframeCounter s' = SIDframeCounter s" by blast
next
  assume "cng_ok s"
  from CNG_encoder_step [OF this, of F annexA VADPrev prev lspq]
  show "\<exists>exc q Aq ana s'. CNG_encoder F annexA VADPrev prev lspq s = Some (exc, q, Aq, ana, s')
        \<and> cng_ok s' \<and> ana ! 0 \<in> {0, 2} \<and> (VADPrev \<noteq> 0 \<longrightarrow> ana ! 0 = 2)
        \<and> (ana ! 0 = 2 \<longrightarrow> length ana = 5 \<and> ana ! 4 \<in> {0..31})"
    by auto
qed

theorem CNG_invariant_witness:
  "cng_ok (Init_CNG_encoder cng_start)
    \<and> (\<exists>s'. CNG_Update (replicate 11 5) 3 0 cng_start = Some s' \<and> cng_ok s')
    \<and> (\<exists>exc q Aq ana s'. CNG_encoder cng_lib False 1 (replicate 236 0) presetLSP cng_start = Some (exc, q, Aq, ana, s')
        \<and> cng_ok s' \<and> ana ! 0 = 2)"
proof -
  have ok: "cng_ok cng_start" by (rule cng_start_ok)
  then have p: "cng_preset cng_start" by (simp add: cng_ok_def cng_preset_def)
  show ?thesis
    using CNG_invariant [of cng_start "replicate 11 5" 3 0 cng_lib False 1 "replicate 236 0" presetLSP] ok p by fastforce
qed

end
