(* ===== verification/G729_Codec.thy ===== *)
theory G729_Codec
  imports G729_Adapt G729_Cng G729_Vad ScratchMem
begin

text \<open>
  The codec objects of \<open>g729api.h\<close> as the application sees them (\<open>encg729.c\<close>, \<open>decg729.c\<close>): their
  sizes, the placement of the filter and detector memories behind them, initialisation, the
  attachment of the scratch memory, the modes, and the dispatch of a frame to one of the three
  encoders or decoders. Sizes of structures and of the signal library's states are parameters; the
  signal paths of the encoders and decoders are parameters of the dispatch. The lemmas show that the
  memories fit the allocated size, aligned and disjoint, and that initialisation establishes the
  invariants of all components.
\<close>

subsection \<open>Types\<close>

datatype APIG729_Status =
    APIG729_StsBadCodecType | APIG729_StsNotInitialized | APIG729_StsBadArgErr
  | APIG729_StsDeactivated | APIG729_StsErr | APIG729_StsNoErr

text \<open>The value of the C enumeration; any other value is none of the five codecs.\<close>

definition codec_of :: "int \<Rightarrow> G729Codec_Type option" where
  "codec_of n =
     (if n = 0 then Some G729_CODEC else if n = 1 then Some G729A_CODEC else if n = 2 then Some G729D_CODEC
      else if n = 3 then Some G729E_CODEC else if n = 4 then Some G729I_CODEC else None)"

record g729_sizes =
  sizeof_encoder :: int
  sizeof_decoder :: int
  sizeof_vad :: int
  hpf_size :: int
  phdisp_size :: int
  winhybrid_size :: int

record G729Coder_Obj =
  objSize :: int
  key :: int
  obj_mode :: int
  codecType :: G729Codec_Type

definition codec_num :: "G729Codec_Type \<Rightarrow> int" where
  "codec_num c =
     (case c of G729_CODEC \<Rightarrow> 0 | G729A_CODEC \<Rightarrow> 1 | G729D_CODEC \<Rightarrow> 2 | G729E_CODEC \<Rightarrow> 3 | G729I_CODEC \<Rightarrow> 4)"

subsection \<open>Sizes\<close>

definition VoiceActivityDetectSize_G729 :: "g729_sizes \<Rightarrow> int" where
  "VoiceActivityDetectSize_G729 z = sizeof_vad z + 32"

definition EncoderObjSize :: "g729_sizes \<Rightarrow> int" where
  "EncoderObjSize z =
     sizeof_encoder z + hpf_size z + 2 * SynthesisFilterSize_G729 + VoiceActivityDetectSize_G729 z + 4 * 32"

definition DecoderObjSize :: "g729_sizes \<Rightarrow> int" where
  "DecoderObjSize z =
     sizeof_decoder z + hpf_size z + 2 * SynthesisFilterSize_G729 + phdisp_size z + 4 * 32"

definition apiG729Codec_ScratchMemoryAlloc :: int where
  "apiG729Codec_ScratchMemoryAlloc = G729_ENCODER_SCRATCH_MEMORY_SIZE"

definition apiG729Encoder_Alloc :: "g729_sizes \<Rightarrow> int \<Rightarrow> APIG729_Status + int" where
  "apiG729Encoder_Alloc z ct =
     (if codec_of ct = None then Inl APIG729_StsBadCodecType else Inr (EncoderObjSize z))"

definition apiG729Decoder_Alloc :: "g729_sizes \<Rightarrow> int \<Rightarrow> APIG729_Status + int" where
  "apiG729Decoder_Alloc z ct =
     (if codec_of ct = None then Inl APIG729_StsBadCodecType else Inr (DecoderObjSize z))"

subsection \<open>Placement of the memories behind the object\<close>

record layout =
  at_hpf :: int
  at_syn :: int
  at_syn0 :: int
  at_last :: int

text \<open>The high pass filter, two synthesis filters, and the detector (encoder) or phase dispersion (decoder).\<close>

definition place :: "int \<Rightarrow> int \<Rightarrow> int \<Rightarrow> layout" where
  "place objSz hpfSz obj =
     (let p = IPP_ALIGNED_PTR (obj + objSz) 16;
          q = IPP_ALIGNED_PTR (p + hpfSz) 16;
          r = IPP_ALIGNED_PTR (q + SynthesisFilterSize_G729) 16;
          t = IPP_ALIGNED_PTR (r + SynthesisFilterSize_G729) 16
      in \<lparr>at_hpf = p, at_syn = q, at_syn0 = r, at_last = t\<rparr>)"

text \<open>Inside a synthesis filter: the history of thirty samples behind the structure, 32 byte aligned.\<close>

definition syn_buffer :: "int \<Rightarrow> int" where
  "syn_buffer p = IPP_ALIGNED_PTR (p + 8) 32"

subsection \<open>The encoder object\<close>

record G729Encoder_Obj =
  objPrm :: G729Coder_Obj
  Mem :: ScratchMem_Obj
  encSyn :: "int list"
  speechHistory :: "int list"
  BWDsynth :: "int list"
  prevFrameQuantEn :: "int list"
  resFilMem0 :: "int list"
  resFilMem :: "int list"
  prevSubfrLSP :: "int list"
  prevSubfrLSPquant :: "int list"
  hwState :: "int list"
  pPrevBwdLPC :: "int list"
  pBwdLPC2 :: "int list"
  betaPreFilter :: int
  prevWgtSpeech :: "int list"
  prevExcitat :: "int list"
  encPrm :: "int list"
  zeroPostFiltVec1 :: "int list"
  e_codecType :: int
  prevSubfrSmooth :: int
  pPrevBwdRC :: "int list"
  prevLAR :: "int list"
  e_layout :: layout
  preProc :: "int list"
  synFltw :: SynthesisFilterState
  synFltw0 :: SynthesisFilterState
  vadMem :: "VADmemory \<times> VADmusic"
  e_mode :: int
  extraTime :: int
  pLag :: "int list"
  pGain :: "int list"
  cng :: cng_state
  lp :: lp_state

definition apiG729Encoder_Mode :: "int \<Rightarrow> G729Encoder_Obj \<Rightarrow> APIG729_Status \<times> G729Encoder_Obj" where
  "apiG729Encoder_Mode m e =
     (if m \<noteq> 1 \<and> m \<noteq> 0 then (APIG729_StsBadArgErr, e)
      else (APIG729_StsNoErr, e\<lparr>objPrm := (objPrm e)\<lparr>obj_mode := m\<rparr>\<rparr>))"

text \<open>Attaching the scratch memory; the null pointer is address 0.\<close>

definition attach :: "int \<Rightarrow> ScratchMem_Obj \<Rightarrow> ScratchMem_Obj" where
  "attach buff m = m\<lparr>base := buff, CurPtr := buff, VecPtr := buff + G729_ENCODER_SCRATCH_MEMORY_SIZE\<rparr>"

definition apiG729Encoder_InitBuff :: "int \<Rightarrow> G729Encoder_Obj \<Rightarrow> APIG729_Status \<times> G729Encoder_Obj" where
  "apiG729Encoder_InitBuff buff e =
     (if buff = 0 then (APIG729_StsBadArgErr, e) else (APIG729_StsNoErr, e\<lparr>Mem := attach buff (Mem e)\<rparr>))"

definition zero_mem :: ScratchMem_Obj where
  "zero_mem = \<lparr>base = 0, CurPtr = 0, VecPtr = 0, offset = 0\<rparr>"

text \<open>The object is cleared; then the fields of the adaptation, and those of the noise generator.\<close>

definition init_lp :: "bool \<Rightarrow> lp_state" where
  "init_lp annexA =
     \<lparr>interpCoeff2_2 = (if annexA then 0 else 4506), pPrevFilt = (if annexA then 0 else 4096) # replicate 30 0,
      prevLPmode = 0, statGlobal = (if annexA then 0 else 10000), BWDFrameCounter = 0, val_BWDFrameCounter = 0,
      BWDcounter2 = 0, FWDcounter2 = 0, dominantBWDmode = 0\<rparr>"

definition zero_cng :: cng_state where
  "zero_cng = \<lparr>ACFsum = replicate 33 0, ACFsumSfs = replicate 3 0, pACF = replicate 22 0, ACFsfs = replicate 2 0,
     energy = replicate 2 0, energySfs = replicate 2 0, energyDim = 0, gainNow = 0, sidGain = 0, ACFcounter = 0,
     speechDiff = 0, SIDframeCounter = 0, prevDTXEnergy = 0, ACnorm = 0, reflC = replicate 11 0,
     prevCoeff = replicate 11 0, quantLspSID = replicate 10 0, prevSubfrLPC = replicate 11 0, prevRC = [0, 0],
     prevLSPfreq = replicate 4 (replicate 10 0), coderErr = replicate 4 0, seed = 0, CNGidx = 0\<rparr>"

definition init_cng :: cng_state where
  "init_cng = Init_CNG_encoder
     (zero_cng\<lparr>prevSubfrLPC := presetOldA, prevRC := prevRCpreset,
        prevLSPfreq := replicate 4 resetPrevLSP, coderErr := replicate 4 BWF_HARMONIC,
        seed := SEED_INIT, CNGidx := 0\<rparr>)"

definition encoder_start :: "g729_sizes \<Rightarrow> int \<Rightarrow> G729Codec_Type \<Rightarrow> int \<Rightarrow> G729Encoder_Obj" where
  "encoder_start z obj ct m =
     (let annexA = (ct = G729A_CODEC)
      in \<lparr>objPrm = \<lparr>objSize = EncoderObjSize z, key = ENC_KEY, obj_mode = m, codecType = ct\<rparr>,
          Mem = zero_mem, encSyn = replicate 80 0, speechHistory = replicate 240 0, BWDsynth = replicate 145 0,
          prevFrameQuantEn = replicate 4 (- 14336), resFilMem0 = replicate 30 0, resFilMem = replicate 70 0,
          prevSubfrLSP = presetLSP, prevSubfrLSPquant = presetLSP, hwState = replicate 31 0,
          pPrevBwdLPC = replicate 31 0, pBwdLPC2 = replicate 31 0, betaPreFilter = PITCH_SHARP_MIN,
          prevWgtSpeech = replicate 224 0, prevExcitat = replicate 236 0, encPrm = replicate 19 0,
          zeroPostFiltVec1 = replicate 71 0, e_codecType = 0, prevSubfrSmooth = (if annexA then 0 else 1),
          pPrevBwdRC = [0, 0], prevLAR = [0, 0],
          e_layout = place (sizeof_encoder z) (hpf_size z) obj,
          preProc = [enc_tab2 ! 0, enc_tab2 ! 1, enc_tab2 ! 2, enc_tab1 ! 0, enc_tab1 ! 1, enc_tab1 ! 2],
          synFltw = SynthesisFilterInit_G729, synFltw0 = SynthesisFilterInit_G729,
          vadMem = VoiceActivityDetectInit_G729, e_mode = m, extraTime = 0,
          pLag = replicate 5 (if annexA then 0 else 20), pGain = replicate 5 (if annexA then 0 else 11469),
          cng = init_cng, lp = init_lp annexA\<rparr>)"

text \<open>
  \<open>hw\<close> is what the signal library's window initialisation leaves in \<open>hwState\<close>. When its state
  does not fit there, the initialisation returns at once, without attaching the scratch memory.
\<close>

definition apiG729Encoder_Init ::
  "g729_sizes \<Rightarrow> int list \<Rightarrow> int \<Rightarrow> int \<Rightarrow> int \<Rightarrow> G729Encoder_Obj \<Rightarrow> APIG729_Status \<times> G729Encoder_Obj" where
  "apiG729Encoder_Init z hw obj ct m e =
     (if obj = 0 then (APIG729_StsBadArgErr, e)
      else case codec_of ct of
        None \<Rightarrow> (APIG729_StsBadCodecType, e)
      | Some c \<Rightarrow>
          (let oldMemBuff = base (Mem e);
               e = encoder_start z obj c m
           in if c = G729A_CODEC then (APIG729_StsNoErr, snd (apiG729Encoder_InitBuff oldMemBuff e))
              else if winhybrid_size z > 31 * 4 then (APIG729_StsNotInitialized, e)
              else (APIG729_StsNoErr,
                    snd (apiG729Encoder_InitBuff oldMemBuff
                      (e\<lparr>hwState := hw, pPrevBwdLPC := 4096 # replicate 30 0, pBwdLPC2 := 4096 # replicate 30 0\<rparr>)))))"

subsection \<open>The decoder object\<close>

record G729Decoder_Obj =
  d_objPrm :: G729Coder_Obj
  d_Mem :: ScratchMem_Obj
  resFilBuf1 :: "int list"
  d_prevLSPfreq :: "int list list"
  LTPostFilt :: "int list"
  d_prevExcitat :: "int list"
  d_prevSubfrLSP :: "int list"
  d_prevSubfrLSPquant :: "int list"
  d_zeroPostFiltVec1 :: "int list"
  decPrm :: "int list"
  d_coderErr :: "int list"
  pBwdLPC :: "int list"
  d_pBwdLPC2 :: "int list"
  d_pPrevBwdLPC :: "int list"
  d_hwState :: "int list"
  d_pPrevFilt :: "int list"
  d_codecType :: G729Codec_Type
  preemphFilt :: int
  d_seed :: int
  voiceFlag :: int
  gainExact :: int
  d_betaPreFilter :: int
  d_gainNow :: int
  d_sidGain :: int
  seedSavage :: int
  CNGvar :: int
  SIDflag0 :: int
  lspSID :: "int list"
  SIDflag1 :: int
  d_CNGidx :: int
  d_layout :: layout
  postProc :: "int list"
  d_synFltw :: SynthesisFilterState
  d_synFltw0 :: SynthesisFilterState
  pstFltMode :: int
  gains :: "int list"
  prevFrameDelay :: int
  prevMA :: int
  d_prevFrameQuantEn :: "int list"
  prevVoiceFlag :: int
  prevBFI :: int
  d_prevLPmode :: int
  interpCoeff2 :: int
  d_interpCoeff2_2 :: int
  valGainAttenuation :: int
  BFIcount :: int
  d_pPrevBwdRC :: "int list"
  d_BWDFrameCounter :: int
  prevFrameDelay2 :: int
  d_pitch :: pitch_track
  gammaPost1 :: int
  gammaPost2 :: int
  gammaHarm :: int
  d_BWDcounter2 :: int
  d_FWDcounter2 :: int

text \<open>What all decoders start from.\<close>

definition decoder_start :: "g729_sizes \<Rightarrow> int \<Rightarrow> G729Codec_Type \<Rightarrow> G729Decoder_Obj" where
  "decoder_start z obj ct =
     \<lparr>d_objPrm = \<lparr>objSize = DecoderObjSize z, key = DEC_KEY, obj_mode = 0, codecType = ct\<rparr>,
      d_Mem = zero_mem, resFilBuf1 = replicate 192 0, d_prevLSPfreq = replicate 4 resetPrevLSP,
      LTPostFilt = replicate 145 0, d_prevExcitat = replicate 234 0, d_prevSubfrLSP = presetLSP,
      d_prevSubfrLSPquant = resetPrevLSP, d_zeroPostFiltVec1 = replicate 42 0, decPrm = replicate 20 0,
      d_coderErr = replicate 4 0, pBwdLPC = replicate 31 0, d_pBwdLPC2 = replicate 31 0,
      d_pPrevBwdLPC = replicate 31 0, d_hwState = replicate 31 0, d_pPrevFilt = replicate 31 0,
      d_codecType = ct, preemphFilt = 0, d_seed = SEED_INIT, voiceFlag = 60, gainExact = 0,
      d_betaPreFilter = PITCH_SHARP_MIN, d_gainNow = 0, d_sidGain = 0, seedSavage = 21845, CNGvar = 3,
      SIDflag0 = 0, lspSID = replicate 10 0, SIDflag1 = 0, d_CNGidx = 0,
      d_layout = place (sizeof_decoder z) (hpf_size z) obj,
      postProc = [dec_tab2 ! 0, dec_tab2 ! 1, dec_tab2 ! 2, dec_tab1 ! 0, dec_tab1 ! 1, dec_tab1 ! 2],
      d_synFltw = SynthesisFilterInit_G729, d_synFltw0 = SynthesisFilterInit_G729, pstFltMode = 1, gains = [0, 0],
      prevFrameDelay = 60, prevMA = 0, d_prevFrameQuantEn = replicate 4 (- 14336), prevVoiceFlag = 0, prevBFI = 0,
      d_prevLPmode = 0, interpCoeff2 = 0, d_interpCoeff2_2 = 0, valGainAttenuation = 0, BFIcount = 0,
      d_pPrevBwdRC = [0, 0], d_BWDFrameCounter = 0, prevFrameDelay2 = 0,
      d_pitch = \<lparr>prevDelay = 0, stat_N = 0, pitchStatDelay = 0, pitchStatFraction = 0\<rparr>,
      gammaPost1 = 0, gammaPost2 = 0, gammaHarm = 0, d_BWDcounter2 = 0, d_FWDcounter2 = 0\<rparr>"

text \<open>The part of the codecs D, E and I up to the check of the window state, and after it.\<close>

definition decoder_full :: "G729Decoder_Obj \<Rightarrow> G729Decoder_Obj" where
  "decoder_full d =
     d\<lparr>prevMA := 0, gammaPost1 := BWF2, gammaPost2 := 21300, gammaHarm := BWF_HARMONIC_E,
       d_BWDcounter2 := 0, d_FWDcounter2 := 0, pBwdLPC := 4096 # replicate 30 0, d_pBwdLPC2 := 4096 # replicate 30 0,
       prevVoiceFlag := 0, prevBFI := 0, d_prevLPmode := 0, interpCoeff2 := 0, d_interpCoeff2_2 := 4506,
       d_pPrevFilt := 4096 # replicate 30 0, d_pitch := (d_pitch d)\<lparr>prevDelay := 30, stat_N := 0\<rparr>,
       d_pPrevBwdLPC := 4096 # replicate 30 0, d_pPrevBwdRC := [0, 0], valGainAttenuation := MAX_16S,
       BFIcount := 0, d_BWDFrameCounter := 0, gainExact := BWF_HARMONIC\<rparr>"

definition decoder_sid :: "G729Decoder_Obj \<Rightarrow> G729Decoder_Obj" where
  "decoder_sid d = d\<lparr>SIDflag0 := 0, SIDflag1 := 1, d_CNGidx := 0, lspSID := lspSID_init\<rparr>"

definition apiG729Decoder_InitBuff :: "int \<Rightarrow> G729Decoder_Obj \<Rightarrow> APIG729_Status \<times> G729Decoder_Obj" where
  "apiG729Decoder_InitBuff buff d =
     (if buff = 0 then (APIG729_StsBadArgErr, d) else (APIG729_StsNoErr, d\<lparr>d_Mem := attach buff (d_Mem d)\<rparr>))"

definition apiG729Decoder_Init ::
  "g729_sizes \<Rightarrow> int list \<Rightarrow> int \<Rightarrow> int \<Rightarrow> G729Decoder_Obj \<Rightarrow> APIG729_Status \<times> G729Decoder_Obj" where
  "apiG729Decoder_Init z hw obj ct d =
     (case codec_of ct of
        None \<Rightarrow> (APIG729_StsBadCodecType, d)
      | Some c \<Rightarrow>
          (let oldMemBuff = base (d_Mem d);
               d = decoder_start z obj c
           in if c = G729_CODEC
              then (APIG729_StsNoErr, snd (apiG729Decoder_InitBuff oldMemBuff (d\<lparr>gainExact := BWF_HARMONIC\<rparr>)))
              else if c = G729A_CODEC
              then (APIG729_StsNoErr, snd (apiG729Decoder_InitBuff oldMemBuff (decoder_sid (d\<lparr>gainExact := 4096\<rparr>))))
              else if winhybrid_size z > 4 * 31 then (APIG729_StsNotInitialized, decoder_full d)
              else (APIG729_StsNoErr,
                    snd (apiG729Decoder_InitBuff oldMemBuff
                      ((decoder_sid (decoder_full d))\<lparr>d_hwState := hw, d_sidGain := SIDgain ! 0\<rparr>)))))"

definition apiG729Decoder_Mode :: "int \<Rightarrow> G729Decoder_Obj \<Rightarrow> APIG729_Status \<times> G729Decoder_Obj" where
  "apiG729Decoder_Mode m d = (APIG729_StsNoErr, d\<lparr>pstFltMode := m\<rparr>)"

subsection \<open>Dispatch\<close>

text \<open>\<open>apiG729Encode\<close> and \<open>apiG729Decode\<close>: the path of the frame, and the codec type the path finds.\<close>

datatype g729_path = Path_A | Path_Base | Path_Full

definition enc_dispatch :: "int \<Rightarrow> G729Encoder_Obj \<Rightarrow> g729_path \<times> G729Encoder_Obj" where
  "enc_dispatch ct e =
     (let vadEnable = (obj_mode (objPrm e) = 1);
          e = e\<lparr>e_codecType := (if codecType (objPrm e) \<noteq> G729I_CODEC then codec_num (codecType (objPrm e)) else ct)\<rparr>;
          baseMode = (e_codecType e = 0 \<and> \<not> vadEnable)
      in (if ct = 1 then Path_A else if baseMode then Path_Base else Path_Full, e))"

definition dec_dispatch :: "int \<Rightarrow> G729Decoder_Obj \<Rightarrow> g729_path" where
  "dec_dispatch frametype d =
     (if d_codecType d = G729A_CODEC then Path_A
      else if d_codecType d = G729_CODEC \<and> frametype \<noteq> 2 \<and> frametype \<noteq> 4 then Path_Base
      else Path_Full)"

text \<open>The codec type the decoder leaves: \<open>G729Decode\<close> sets it on voice frames, \<open>G729BaseDecode\<close> on type 3.\<close>

definition dec_codec :: "g729_path \<Rightarrow> int \<Rightarrow> G729Codec_Type \<Rightarrow> G729Codec_Type" where
  "dec_codec p frametype c =
     (if p = Path_Full
      then (if frametype = 2 then G729D_CODEC else if frametype = 3 then G729_CODEC
            else if frametype = 4 then G729E_CODEC else c)
      else if p = Path_Base \<and> frametype = 3 then G729_CODEC else c)"

text \<open>
  The signal paths are parameters: status, bytes or samples, frame type and new object of a frame.
  Whatever their error, the application sees \<open>APIG729_StsErr\<close>.
\<close>

record g729_paths =
  run_enc :: "g729_path \<Rightarrow> int \<Rightarrow> int list \<Rightarrow> G729Encoder_Obj \<Rightarrow> APIG729_Status \<times> int list \<times> int \<times> G729Encoder_Obj"
  run_dec :: "g729_path \<Rightarrow> int \<Rightarrow> int list \<Rightarrow> G729Decoder_Obj \<Rightarrow> APIG729_Status \<times> int list \<times> G729Decoder_Obj"

definition apiG729Encode ::
  "g729_paths \<Rightarrow> int list \<Rightarrow> int \<Rightarrow> G729Encoder_Obj \<Rightarrow> APIG729_Status \<times> int list \<times> int \<times> G729Encoder_Obj" where
  "apiG729Encode F src ct e =
     (case enc_dispatch ct e of (p, e) \<Rightarrow>
      case run_enc F p ct src e of (sts, dst, frametype, e) \<Rightarrow>
        (if sts \<noteq> APIG729_StsNoErr then APIG729_StsErr else APIG729_StsNoErr, dst, frametype, e))"

definition apiG729Decode ::
  "g729_paths \<Rightarrow> int list \<Rightarrow> int \<Rightarrow> G729Decoder_Obj \<Rightarrow> APIG729_Status \<times> int list \<times> G729Decoder_Obj" where
  "apiG729Decode F src frametype d =
     (case run_dec F (dec_dispatch frametype d) frametype src d of (sts, dst, d) \<Rightarrow>
        (if sts \<noteq> APIG729_StsNoErr then APIG729_StsErr else APIG729_StsNoErr, dst, d))"

subsection \<open>The memories behind an object\<close>

lemma aligned_16:
  "p \<le> IPP_ALIGNED_PTR p 16" "IPP_ALIGNED_PTR p 16 \<le> p + 15" "IPP_ALIGNED_PTR p 16 mod 16 = 0"
  using aligned_ptr [of p 4] by simp_all

lemma aligned_32: "p \<le> IPP_ALIGNED_PTR p 32" "IPP_ALIGNED_PTR p 32 \<le> p + 31" "IPP_ALIGNED_PTR p 32 mod 32 = 0"
  using aligned_ptr [of p 5] by simp_all

lemma place_end:
  "at_last (place objSz hpf obj) \<le> obj + objSz + hpf + 2 * SynthesisFilterSize_G729 + 4 * 15"
  using aligned_16(2) [of "obj + objSz"] aligned_16(2) [of "IPP_ALIGNED_PTR (obj + objSz) 16 + hpf"]
    aligned_16(2) [of "IPP_ALIGNED_PTR (IPP_ALIGNED_PTR (obj + objSz) 16 + hpf) 16 + SynthesisFilterSize_G729"]
    aligned_16(2) [of "IPP_ALIGNED_PTR (IPP_ALIGNED_PTR (IPP_ALIGNED_PTR (obj + objSz) 16 + hpf) 16
       + SynthesisFilterSize_G729) 16 + SynthesisFilterSize_G729"]
  unfolding place_def Let_def by simp

lemma syn_buffer_inside:
  "p + 8 \<le> syn_buffer p" "syn_buffer p + 30 * 2 \<le> p + SynthesisFilterSize_G729" "syn_buffer p mod 32 = 0"
  using aligned_32 [of "p + 8"] by (simp_all add: syn_buffer_def SynthesisFilterSize_G729_def)

text \<open>The memories with their sizes; and a sequence of disjoint, aligned memories between two addresses.\<close>

definition memories :: "layout \<Rightarrow> int \<Rightarrow> int \<Rightarrow> (int \<times> int) list" where
  "memories L hpf lastSz =
     [(at_hpf L, hpf), (at_syn L, SynthesisFilterSize_G729), (at_syn0 L, SynthesisFilterSize_G729), (at_last L, lastSz)]"

fun well_placed :: "int \<Rightarrow> int \<Rightarrow> (int \<times> int) list \<Rightarrow> bool" where
  "well_placed lo hi [] \<longleftrightarrow> lo \<le> hi"
| "well_placed lo hi ((p, n) # bs) \<longleftrightarrow> lo \<le> p \<and> p mod 16 = 0 \<and> 0 \<le> n \<and> well_placed (p + n) hi bs"

lemma place_well_placed:
  assumes "0 \<le> hpf" "0 \<le> lastSz"
  shows "well_placed (obj + objSz) (obj + (objSz + hpf + 2 * SynthesisFilterSize_G729 + lastSz + 4 * 15))
           (memories (place objSz hpf obj) hpf lastSz)"
  using place_end [of objSz hpf obj] assms
  by (simp add: memories_def place_def Let_def aligned_16 SynthesisFilterSize_G729_def)

lemma well_placed_mono: "well_placed lo hi bs \<Longrightarrow> hi \<le> hi' \<Longrightarrow> well_placed lo hi' bs"
  by (induction lo hi bs rule: well_placed.induct) simp_all

text \<open>
  C20: The memories that initialisation places behind an object, the high pass filter, the two synthesis
  filters and the detector (encoder) or the phase dispersion (decoder), are aligned, pairwise disjoint, and lie
  in the bytes the application was told to allocate, behind the structure; and the aligned history buffer of a
  synthesis filter, of thirty samples, lies inside that filter's memory.
\<close>

theorem codec_memories_fit:
  assumes "0 \<le> hpf_size z" "0 \<le> sizeof_vad z" "0 \<le> phdisp_size z"
  shows "well_placed (obj + sizeof_encoder z) (obj + EncoderObjSize z)
        (memories (place (sizeof_encoder z) (hpf_size z) obj) (hpf_size z) (sizeof_vad z))
    \<and> well_placed (obj + sizeof_decoder z) (obj + DecoderObjSize z)
        (memories (place (sizeof_decoder z) (hpf_size z) obj) (hpf_size z) (phdisp_size z))
    \<and> p + 8 \<le> syn_buffer p \<and> syn_buffer p + 30 * 2 \<le> p + SynthesisFilterSize_G729"
proof (intro conjI syn_buffer_inside)
  show "well_placed (obj + sizeof_encoder z) (obj + EncoderObjSize z)
        (memories (place (sizeof_encoder z) (hpf_size z) obj) (hpf_size z) (sizeof_vad z))"
    by (rule well_placed_mono [OF place_well_placed])
       (simp_all add: assms EncoderObjSize_def VoiceActivityDetectSize_G729_def)
  show "well_placed (obj + sizeof_decoder z) (obj + DecoderObjSize z)
        (memories (place (sizeof_decoder z) (hpf_size z) obj) (hpf_size z) (phdisp_size z))"
    by (rule well_placed_mono [OF place_well_placed]) (simp_all add: assms DecoderObjSize_def)
qed

definition sample_sizes :: g729_sizes where
  "sample_sizes = \<lparr>sizeof_encoder = 3400, sizeof_decoder = 2300, sizeof_vad = 1300, hpf_size = 40,
     phdisp_size = 64, winhybrid_size = 124\<rparr>"

theorem codec_memories_fit_witness:
  "well_placed (16 + 3400) (16 + EncoderObjSize sample_sizes) (memories (place 3400 40 16) 40 1300)
    \<and> well_placed (16 + 2300) (16 + DecoderObjSize sample_sizes) (memories (place 2300 40 16) 40 64)
    \<and> (4096::int) + 8 \<le> syn_buffer 4096 \<and> syn_buffer 4096 + 30 * 2 \<le> 4096 + SynthesisFilterSize_G729"
  using codec_memories_fit [of sample_sizes 16 4096] by (simp add: sample_sizes_def)

subsection \<open>Initialisation\<close>

text \<open>The invariant of an encoder object: the invariants of its components and the dimensions of its arrays.\<close>

definition encoder_ok :: "G729Encoder_Obj \<Rightarrow> bool" where
  "encoder_ok e \<longleftrightarrow> key (objPrm e) = ENC_KEY \<and> cng_ok (cng e) \<and> lp_ok (lp e) \<and> vad_ok (fst (vadMem e))
     \<and> filter_ok (synFltw e) \<and> filter_ok (synFltw0 e)
     \<and> length (encSyn e) = 80 \<and> length (speechHistory e) = 240 \<and> length (BWDsynth e) = 145
     \<and> length (prevFrameQuantEn e) = 4 \<and> length (resFilMem0 e) = 30 \<and> length (resFilMem e) = 70
     \<and> length (prevSubfrLSP e) = 10 \<and> length (prevSubfrLSPquant e) = 10 \<and> length (hwState e) = 31
     \<and> length (pPrevBwdLPC e) = 31 \<and> length (pBwdLPC2 e) = 31 \<and> length (pPrevFilt (lp e)) = 31
     \<and> length (prevWgtSpeech e) = 224 \<and> length (prevExcitat e) = 236 \<and> length (encPrm e) = 19
     \<and> length (zeroPostFiltVec1 e) = 71 \<and> length (pLag e) = 5 \<and> length (pGain e) = 5
     \<and> (\<forall>t\<in>set (pLag e). t = 0 \<or> MIN_PITCH_LAG \<le> t \<and> t \<le> MAX_PITCH_LAG)"

definition decoder_ok :: "G729Decoder_Obj \<Rightarrow> bool" where
  "decoder_ok d \<longleftrightarrow> key (d_objPrm d) = DEC_KEY \<and> filter_ok (d_synFltw d) \<and> filter_ok (d_synFltw0 d)
     \<and> track_ok (d_pitch d) \<and> MIN_PITCH_LAG \<le> prevFrameDelay d \<and> prevFrameDelay d \<le> MAX_PITCH_LAG
     \<and> CNGvar d \<in> {0, 1, 2, 3, 4} \<and> 0 \<le> d_CNGidx d \<and> d_CNGidx d \<le> CNG_STACK_SIZE
     \<and> length (resFilBuf1 d) = 192 \<and> length (d_prevLSPfreq d) = 4 \<and> length (LTPostFilt d) = 145
     \<and> length (d_prevExcitat d) = 234 \<and> length (d_prevSubfrLSP d) = 10 \<and> length (d_prevSubfrLSPquant d) = 10
     \<and> length (d_zeroPostFiltVec1 d) = 42 \<and> length (decPrm d) = 20 \<and> length (pBwdLPC d) = 31
     \<and> length (d_pBwdLPC2 d) = 31 \<and> length (d_pPrevBwdLPC d) = 31 \<and> length (d_hwState d) = 31
     \<and> length (d_pPrevFilt d) = 31 \<and> length (lspSID d) = 10 \<and> length (d_prevFrameQuantEn d) = 4"

lemma lists_31: "length (x # replicate 30 y) = 31" by simp

lemma init_cng_ok: "cng_ok init_cng"
  by (simp add: init_cng_def zero_cng_def Init_CNG_encoder_def cng_ok_def err_ok_def ERR_MAX_def g729_dims)

lemma init_lp_ok: "lp_ok (init_lp a)" "length (pPrevFilt (init_lp a)) = 31"
  by (simp_all add: init_lp_def lp_ok_def)

lemma dims_10: "length presetLSP = 10" "length resetPrevLSP = 10" "length lspSID_init = 10"
  by (simp_all add: presetLSP_def resetPrevLSP_def lspSID_init_def)

lemma init_vad_ok: "vad_ok (fst VoiceActivityDetectInit_G729)"
  by (simp add: vad_ok_def VoiceActivityDetectInit_G729_def)


lemma encoder_start_ok: "encoder_ok (encoder_start z obj c m)"
  by (simp add: encoder_ok_def encoder_start_def Let_def init_cng_ok init_lp_ok init_vad_ok filter_init_ok dims_10 g729_dims)

lemma decoder_start_ok: "decoder_ok (decoder_start z obj c)"
  by (simp add: decoder_ok_def decoder_start_def filter_init_ok dims_10 track_ok_def g729_dims)

lemma enc_attached:
  assumes "encoder_ok e" "Mem e = zero_mem"
  shows "encoder_ok (snd (apiG729Encoder_InitBuff b e))" "objPrm (snd (apiG729Encoder_InitBuff b e)) = objPrm e"
    "base (Mem (snd (apiG729Encoder_InitBuff b e))) = b" "CurPtr (Mem (snd (apiG729Encoder_InitBuff b e))) = b"
  using assms by (simp_all add: apiG729Encoder_InitBuff_def attach_def zero_mem_def encoder_ok_def)

lemma dec_attached:
  assumes "decoder_ok d \<and> d_Mem d = zero_mem \<and> d_codecType d = c"
  shows "decoder_ok (snd (apiG729Decoder_InitBuff b d))" "d_codecType (snd (apiG729Decoder_InitBuff b d)) = c"
    "base (d_Mem (snd (apiG729Decoder_InitBuff b d))) = b" "CurPtr (d_Mem (snd (apiG729Decoder_InitBuff b d))) = b"
  using assms by (simp_all add: apiG729Decoder_InitBuff_def attach_def zero_mem_def decoder_ok_def)

lemma decoder_full_ok:
  assumes "decoder_ok d"
  shows "decoder_ok (decoder_full d)"
  using assms by (simp add: decoder_ok_def decoder_full_def track_ok_def g729_dims)

lemma decoder_sid_ok:
  assumes "decoder_ok d"
  shows "decoder_ok (decoder_sid d)"
  using assms by (simp add: decoder_ok_def decoder_sid_def dims_10 g729_dims)

lemma decoder_variants_ok:
  fixes z :: g729_sizes and obj :: int and c :: G729Codec_Type
  assumes "length hw = 31"
  defines "d \<equiv> decoder_start z obj c"
  defines "d1 \<equiv> d\<lparr>gainExact := BWF_HARMONIC\<rparr>" and "d2 \<equiv> decoder_sid (d\<lparr>gainExact := 4096\<rparr>)"
    and "d3 \<equiv> (decoder_sid (decoder_full d))\<lparr>d_hwState := hw, d_sidGain := SIDgain ! 0\<rparr>"
  shows "decoder_ok d1 \<and> d_Mem d1 = zero_mem \<and> d_codecType d1 = c"
    "decoder_ok d2 \<and> d_Mem d2 = zero_mem \<and> d_codecType d2 = c"
    "decoder_ok d3 \<and> d_Mem d3 = zero_mem \<and> d_codecType d3 = c"
proof -
  have d: "decoder_ok d" "d_Mem d = zero_mem" "d_codecType d = c"
    unfolding d_def by (rule decoder_start_ok) (simp_all add: decoder_start_def)
  show "decoder_ok d1 \<and> d_Mem d1 = zero_mem \<and> d_codecType d1 = c"
    using d by (simp add: d1_def decoder_ok_def)
  have "decoder_ok (d\<lparr>gainExact := 4096\<rparr>)" using d by (simp add: decoder_ok_def)
  then have "decoder_ok d2" unfolding d2_def by (rule decoder_sid_ok)
  then show "decoder_ok d2 \<and> d_Mem d2 = zero_mem \<and> d_codecType d2 = c"
    using d by (simp add: d2_def decoder_sid_def)
  have "decoder_ok (decoder_sid (decoder_full d))"
    by (intro decoder_sid_ok decoder_full_ok d)
  then have "decoder_ok d3" using assms(1) by (simp add: d3_def decoder_ok_def)
  then show "decoder_ok d3 \<and> d_Mem d3 = zero_mem \<and> d_codecType d3 = c"
    using d by (simp add: d3_def decoder_sid_def decoder_full_def)
qed

text \<open>
  The codecs with a window need the signal library's window state to fit into \<open>hwState\<close>, 124 bytes; where
  it does not, the initialisation stops before it attaches the scratch memory again.
\<close>

definition stops_early :: "g729_sizes \<Rightarrow> bool \<Rightarrow> bool" where
  "stops_early z windowed \<longleftrightarrow> windowed \<and> 124 < winhybrid_size z"

lemma encoder_init_ok:
  assumes "obj \<noteq> 0" "length hw = 31" "codec_of ct = Some c"
    "apiG729Encoder_Init z hw obj ct m e = (sts, e')"
  shows "encoder_ok e' \<and> codecType (objPrm e') = c \<and> obj_mode (objPrm e') = m
    \<and> e_layout e' = place (sizeof_encoder z) (hpf_size z) obj
    \<and> (if stops_early z (c \<noteq> G729A_CODEC) then sts = APIG729_StsNotInitialized \<and> Mem e' = zero_mem
       else sts = APIG729_StsNoErr \<and> base (Mem e') = base (Mem e) \<and> CurPtr (Mem e') = base (Mem e))"
proof -
  let ?e = "encoder_start z obj c m"
  let ?e2 = "?e\<lparr>hwState := hw, pPrevBwdLPC := 4096 # replicate 30 0, pBwdLPC2 := 4096 # replicate 30 0\<rparr>"
  have e: "encoder_ok ?e" "encoder_ok ?e2"
    using encoder_start_ok [of z obj c m] assms(2) by (simp_all add: encoder_ok_def)
  have em: "Mem ?e = zero_mem" "Mem ?e2 = zero_mem" "objPrm ?e2 = objPrm ?e"
    "codecType (objPrm ?e) = c" "obj_mode (objPrm ?e) = m" "e_layout ?e = place (sizeof_encoder z) (hpf_size z) obj"
    by (simp_all add: encoder_start_def Let_def)
  have l: "e_layout (snd (apiG729Encoder_InitBuff x y)) = e_layout y" for x y
    by (simp add: apiG729Encoder_InitBuff_def)
  show ?thesis
    using enc_attached [OF e(1) em(1), of "base (Mem e)"] enc_attached [OF e(2) em(2), of "base (Mem e)"] assms e em l
    by (cases "c = G729A_CODEC"; cases "124 < winhybrid_size z")
       (auto simp: apiG729Encoder_Init_def Let_def stops_early_def)
qed

lemma decoder_init_ok:
  assumes "length hw = 31" "codec_of ct = Some c"
    "apiG729Decoder_Init z hw obj ct d = (sts, d')"
  shows "decoder_ok d' \<and> d_codecType d' = c \<and> d_layout d' = place (sizeof_decoder z) (hpf_size z) obj
    \<and> (if stops_early z (c \<notin> {G729_CODEC, G729A_CODEC}) then sts = APIG729_StsNotInitialized \<and> d_Mem d' = zero_mem
       else sts = APIG729_StsNoErr \<and> base (d_Mem d') = base (d_Mem d) \<and> CurPtr (d_Mem d') = base (d_Mem d))"
proof -
  note v = decoder_variants_ok [OF assms(1), of z obj c]
  note dec = dec_attached [OF v(1)] dec_attached [OF v(2)] dec_attached [OF v(3)]
  have l: "d_layout (snd (apiG729Decoder_InitBuff x y)) = d_layout y" for x y
    by (simp add: apiG729Decoder_InitBuff_def)
  have p: "d_layout (decoder_start z obj c) = place (sizeof_decoder z) (hpf_size z) obj"
    "d_layout (decoder_sid y) = d_layout y" "d_layout (decoder_full y) = d_layout y"
    "d_Mem (decoder_full y) = d_Mem y" "d_codecType (decoder_full y) = d_codecType y" for y
    by (simp_all add: decoder_start_def decoder_sid_def decoder_full_def)
  show ?thesis
  proof (cases "stops_early z (c \<notin> {G729_CODEC, G729A_CODEC})")
    case True
    then have "sts = APIG729_StsNotInitialized \<and> d' = decoder_full (decoder_start z obj c)"
      using assms by (auto simp: apiG729Decoder_Init_def Let_def stops_early_def)
    moreover have "decoder_ok (decoder_full (decoder_start z obj c))"
      by (intro decoder_full_ok decoder_start_ok)
    moreover have "d_Mem (decoder_start z obj c) = zero_mem" "d_codecType (decoder_start z obj c) = c"
      by (simp_all add: decoder_start_def)
    ultimately show ?thesis using True p by simp
  next
    case False
    then have "sts = APIG729_StsNoErr \<and> d' = snd (apiG729Decoder_InitBuff (base (d_Mem d))
     (if c = G729_CODEC then decoder_start z obj c\<lparr>gainExact := BWF_HARMONIC\<rparr>
      else if c = G729A_CODEC then decoder_sid (decoder_start z obj c\<lparr>gainExact := 4096\<rparr>)
      else decoder_sid (decoder_full (decoder_start z obj c))\<lparr>d_hwState := hw, d_sidGain := SIDgain ! 0\<rparr>))"
      using assms by (auto simp: apiG729Decoder_Init_def Let_def stops_early_def)
    then show ?thesis
      using False dec [where b = "base (d_Mem d)"] l p
      by (cases "c = G729_CODEC"; cases "c = G729A_CODEC") (simp_all del: not_None_eq)
  qed
qed

text \<open>
  C21: Initialisation of an object at \<open>obj\<close>, whatever its memory holds. An encoder refuses a null
  object, and both refuse a number that names no codec: nothing is written then. Otherwise the memory becomes an
  encoder or decoder object that satisfies the invariants of all its components, for each of the five codecs.
  If the signal library's window state fits into \<open>hwState\<close>, or the codec does not use it, the result is
  \<open>APIG729_StsNoErr\<close> and the scratch memory attached before, if any, is attached again and
  empty; if not, the result is \<open>APIG729_StsNotInitialized\<close> and the object is left without scratch memory.
  Nothing is said of a decoder at the null address, which the function does not check. \<open>hw\<close> is what the
  library leaves in the 31 entries of \<open>hwState\<close>.
\<close>

theorem codec_init_establishes:
  assumes "length hw = 31"
  shows "(case apiG729Encoder_Init z hw obj ct m e of (sts, e') \<Rightarrow>
      if obj = 0 then sts = APIG729_StsBadArgErr \<and> e' = e
      else (case codec_of ct of
          None \<Rightarrow> sts = APIG729_StsBadCodecType \<and> e' = e
        | Some c \<Rightarrow> encoder_ok e' \<and> codecType (objPrm e') = c \<and> obj_mode (objPrm e') = m
            \<and> e_layout e' = place (sizeof_encoder z) (hpf_size z) obj
            \<and> (if c \<noteq> G729A_CODEC \<and> 124 < winhybrid_size z
               then sts = APIG729_StsNotInitialized \<and> Mem e' = zero_mem
               else sts = APIG729_StsNoErr \<and> base (Mem e') = base (Mem e) \<and> CurPtr (Mem e') = base (Mem e))))
    \<and> (obj \<noteq> 0 \<longrightarrow> (case apiG729Decoder_Init z hw obj ct d of (sts, d') \<Rightarrow>
        (case codec_of ct of
          None \<Rightarrow> sts = APIG729_StsBadCodecType \<and> d' = d
        | Some c \<Rightarrow> decoder_ok d' \<and> d_codecType d' = c
            \<and> d_layout d' = place (sizeof_decoder z) (hpf_size z) obj
            \<and> (if c \<notin> {G729_CODEC, G729A_CODEC} \<and> 124 < winhybrid_size z
               then sts = APIG729_StsNotInitialized \<and> d_Mem d' = zero_mem
               else sts = APIG729_StsNoErr \<and> base (d_Mem d') = base (d_Mem d) \<and> CurPtr (d_Mem d') = base (d_Mem d)))))"
proof (cases "codec_of ct")
  case None
  then show ?thesis by (simp add: apiG729Encoder_Init_def apiG729Decoder_Init_def)
next
  case (Some c)
  obtain sts e' sts2 d' where r: "apiG729Encoder_Init z hw obj ct m e = (sts, e')"
    "apiG729Decoder_Init z hw obj ct d = (sts2, d')" by (metis prod.exhaust)
  show ?thesis
  proof (cases "obj = 0")
    case True
    then show ?thesis using r by (simp add: apiG729Encoder_Init_def)
  next
    case False
    show ?thesis
      using encoder_init_ok [OF False assms Some r(1)] decoder_init_ok [OF assms Some r(2)] False
      unfolding stops_early_def r Some prod.case option.case if_not_P [OF False] by blast
  qed
qed

theorem codec_init_establishes_witness:
  "(case apiG729Encoder_Init sample_sizes (replicate 31 7) 4096 3 1 (encoder_start sample_sizes 64 G729A_CODEC 0) of
      (sts, e') \<Rightarrow> sts = APIG729_StsNoErr \<and> encoder_ok e' \<and> codecType (objPrm e') = G729E_CODEC)
    \<and> (case apiG729Decoder_Init (sample_sizes\<lparr>winhybrid_size := 200\<rparr>) (replicate 31 7) 4096 3
          (decoder_start sample_sizes 64 G729A_CODEC) of
      (sts, d') \<Rightarrow> sts = APIG729_StsNotInitialized \<and> decoder_ok d' \<and> d_Mem d' = zero_mem)"
proof -
  have c: "codec_of 3 = Some G729E_CODEC" by (simp add: codec_of_def)
  have h: "length (replicate 31 7 :: int list) = 31" by simp
  note init = codec_init_establishes [OF h, where obj = 4096 and ct = 3]
  show ?thesis
    using init [where z = sample_sizes and m = 1 and e = "encoder_start sample_sizes 64 G729A_CODEC 0"]
      init [where z = "sample_sizes\<lparr>winhybrid_size := 200\<rparr>" and d = "decoder_start sample_sizes 64 G729A_CODEC"]
    unfolding c by (auto simp: sample_sizes_def split: prod.splits)
qed

end
