(* ===== verification/USC_G729.thy ===== *)
theory USC_G729
  imports G729_Codec
begin

text \<open>
  The codec behind the uniform speech codec interface (\<open>uscg729i.c\<close>, with the types of
  \<open>usc.h\<close> and \<open>usc_base.h\<close>): the function tables \<open>USC_G729I_Fxns\<close> (all three rates) and
  \<open>USC_G729A_Fxns\<close> (8 kbit/s). A handle is a header with direction, rate and voice activity
  detection, and behind it the codec object. The functions of the two tables differ in the rate check,
  in the codec they name and in one assignment of the decoder; the common part is a definition that
  takes these as arguments. The lemmas show the refinement of an abstract instance, the invariant of the
  handle, that the memory asked for suffices, every error, and the sizes of the streams.
\<close>

subsection \<open>Types\<close>

datatype USC_Status =
    USC_BadArgument | USC_UnsupportedEchoTail | USC_NotInitialized | USC_InvalidHandler | USC_NoOperation
  | USC_UnsupportedPCMType | USC_UnsupportedBitRate | USC_UnsupportedFrameType | USC_UnsupportedVADType
  | USC_BadDataPointer | USC_NoError | USC_StateNotChanged

record USC_PCMType =
  sample_frequency :: int
  bitPerSample :: int
  nChannels :: int

record USC_Modes =
  mode_bitrate :: int
  mode_truncate :: int
  mode_vad :: int
  hpf :: int
  pf :: int
  outMode :: int

record USC_Option =
  opt_direction :: int
  law :: int
  framesize :: int
  opt_pcmType :: USC_PCMType
  nModes :: int
  modes :: USC_Modes

record USC_CodecInfo =
  codec_name :: string
  maxbitsize :: int
  nPcmTypes :: int
  pPcmTypesTbl :: "USC_PCMType list"
  nRates :: int
  pRateTbl :: "int list"
  params :: USC_Option

record USC_MemBank =
  pMem :: int
  bank_nbytes :: int
  bank_align :: int
  memType :: int
  memSpaceType :: int

record USC_PCMStream =
  pcm_buffer :: "int list"
  pcm_nbytes :: int
  pcm_type :: USC_PCMType
  pcm_bitrate :: int

record USC_Bitstream =
  bits_buffer :: "int list"
  bits_nbytes :: int
  frametype :: int
  bits_bitrate :: int

text \<open>\<open>USC_ENCODE\<close>, \<open>USC_DECODE\<close> and \<open>USC_DUPLEX\<close> are 0, 1 and 2; \<open>USC_OBJECT\<close> and \<open>USC_BUFFER\<close> 0 and 1.\<close>

record G729_Handle_Header =
  direction :: int
  bitrate :: int
  vad :: int
  reserved :: int

text \<open>
  The memory at a handle: the header, and what follows it read as an encoder and as a decoder
  object, of which the functions only touch the one of the header's direction.
\<close>

record g729_handle =
  header :: G729_Handle_Header
  EncObj :: G729Encoder_Obj
  DecObj :: G729Decoder_Obj

definition sizeof_header :: int where "sizeof_header = 16"

subsection \<open>Rates and sizes\<close>

definition CheckRate_G729I :: "int \<Rightarrow> int" where
  "CheckRate_G729I rate_bps =
     (if rate_bps = 8000 then 0 else if rate_bps = 6400 then 2 else if rate_bps = 11800 then 3 else - 1)"

definition CheckRate_G729A :: "int \<Rightarrow> int" where
  "CheckRate_G729A rate_bps = (if rate_bps = 8000 then 1 else - 1)"

definition RateToIndex_G729I :: "int \<Rightarrow> int" where
  "RateToIndex_G729I rate_bps =
     (if rate_bps = 11800 then 0 else if rate_bps = 8000 then 1 else if rate_bps = 6400 then 2 else - 1)"

definition RateToIndex_G729A :: "int \<Rightarrow> int" where
  "RateToIndex_G729A rate_bps = (if rate_bps = 8000 then 1 else - 1)"

definition pFrameSize_G729I :: "int list" where
  "pFrameSize_G729I = [15, 10, 8]"

definition getBitstreamSize :: "int \<Rightarrow> int" where
  "getBitstreamSize ft =
     (if ft = 0 then 0 else if ft = 1 then 2 else if ft = 2 then 8 else if ft = 3 then 10
      else if ft = 4 then 15 else 0)"

definition BITSTREAM_SIZE :: int where "BITSTREAM_SIZE = 15"
definition G729_SPEECH_FRAME :: int where "G729_SPEECH_FRAME = 80"
definition G729_SID_FRAMESIZE :: int where "G729_SID_FRAMESIZE = 2"
definition G729_NUM_UNTR_FRAMES :: int where "G729_NUM_UNTR_FRAMES = 2"
definition pcmTypesTbl_G729I :: "USC_PCMType list" where
  "pcmTypesTbl_G729I = [\<lparr>sample_frequency = 8000, bitPerSample = 16, nChannels = 1\<rparr>]"

lemmas usc_dims = BITSTREAM_SIZE_def G729_SPEECH_FRAME_def G729_SID_FRAMESIZE_def G729_NUM_UNTR_FRAMES_def sizeof_header_def

definition LostFrame :: "int list" where "LostFrame = replicate 80 0"

text \<open>The guard on a PCM type, the same in \<open>Init\<close> and \<open>Encode\<close>, and that on the detector.\<close>

definition pcm_bad :: "USC_PCMType \<Rightarrow> bool" where
  "pcm_bad t \<longleftrightarrow> bitPerSample t \<noteq> 16 \<or> sample_frequency t \<noteq> 8000 \<or> nChannels t \<noteq> 1"

definition vad_bad :: "int \<Rightarrow> bool" where
  "vad_bad v \<longleftrightarrow> v > 1 \<or> v < 0"

subsection \<open>Information\<close>

definition codec_info :: "string \<Rightarrow> int list \<Rightarrow> g729_handle option \<Rightarrow> USC_CodecInfo" where
  "codec_info nam rates h =
     (let (r, d, v) = (case h of None \<Rightarrow> (8000, 1, 1) | Some m \<Rightarrow> (bitrate (header m), direction (header m), vad (header m)))
      in \<lparr>codec_name = nam, maxbitsize = BITSTREAM_SIZE, nPcmTypes = 1, pPcmTypesTbl = pcmTypesTbl_G729I,
          nRates = int (length rates), pRateTbl = rates,
          params = \<lparr>opt_direction = d, law = 0, framesize = G729_SPEECH_FRAME * 2,
            opt_pcmType = pcmTypesTbl_G729I ! 0, nModes = 6,
            modes = \<lparr>mode_bitrate = r, mode_truncate = 0, mode_vad = v, hpf = 0, pf = 0, outMode = 0\<rparr>\<rparr>\<rparr>)"

text \<open>\<open>info\<close> tells whether the pointer to the result is not null.\<close>

definition GetInfo_G729I :: "g729_handle option \<Rightarrow> bool \<Rightarrow> USC_Status + USC_CodecInfo" where
  "GetInfo_G729I h info =
     (if \<not> info then Inl USC_BadDataPointer else Inr (codec_info ''IPP_G729I'' [11800, 8000, 6400] h))"

definition GetInfo_G729A :: "g729_handle option \<Rightarrow> bool \<Rightarrow> USC_Status + USC_CodecInfo" where
  "GetInfo_G729A h info =
     (if \<not> info then Inl USC_BadDataPointer else Inr (codec_info ''IPP_G729A'' [8000] h))"

definition NumAlloc :: "USC_Option option \<Rightarrow> bool \<Rightarrow> USC_Status + int" where
  "NumAlloc options nbanks =
     (if options = None then Inl USC_BadDataPointer else if \<not> nbanks then Inl USC_BadDataPointer else Inr 2)"

subsection \<open>Memory\<close>

definition usc_MemAlloc ::
  "(int \<Rightarrow> int) \<Rightarrow> (int \<Rightarrow> int) \<Rightarrow> g729_sizes \<Rightarrow> USC_Option option \<Rightarrow> (USC_MemBank \<times> USC_MemBank) option
     \<Rightarrow> USC_Status \<times> (USC_MemBank \<times> USC_MemBank) option" where
  "usc_MemAlloc check ctype z options pBanks =
     (case (options, pBanks) of
        (Some opt, Some (b0, b1)) \<Rightarrow>
          (let b0 = b0\<lparr>pMem := 0, bank_align := 32, memType := 0, memSpaceType := 0\<rparr>;
               bitrate_idx = check (mode_bitrate (modes opt))
           in if bitrate_idx < 0 then (USC_UnsupportedBitRate, Some (b0, b1))
              else if opt_direction opt \<noteq> 0 \<and> opt_direction opt \<noteq> 1 then (USC_NoOperation, Some (b0, b1))
              else case (if opt_direction opt = 0 then apiG729Encoder_Alloc z (ctype bitrate_idx)
                         else apiG729Decoder_Alloc z (ctype bitrate_idx)) of
                Inl _ \<Rightarrow> (USC_NoError, Some (b0, b1))
              | Inr nbytes \<Rightarrow>
                  (USC_NoError,
                   Some (b0\<lparr>bank_nbytes := nbytes + sizeof_header\<rparr>,
                         b1\<lparr>pMem := 0, bank_align := 32, memType := 1, memSpaceType := 0,
                            bank_nbytes := apiG729Codec_ScratchMemoryAlloc\<rparr>)))
      | _ \<Rightarrow> (USC_BadDataPointer, pBanks))"

text \<open>
  The codec named is one of the five, so the size functions never fail (the branch where they do
  would leave the size undefined).
\<close>

definition MemAlloc_G729I ::
  "g729_sizes \<Rightarrow> USC_Option option \<Rightarrow> (USC_MemBank \<times> USC_MemBank) option
     \<Rightarrow> USC_Status \<times> (USC_MemBank \<times> USC_MemBank) option" where
  "MemAlloc_G729I = usc_MemAlloc CheckRate_G729I (\<lambda>_. 4)"

definition MemAlloc_G729A ::
  "g729_sizes \<Rightarrow> USC_Option option \<Rightarrow> (USC_MemBank \<times> USC_MemBank) option
     \<Rightarrow> USC_Status \<times> (USC_MemBank \<times> USC_MemBank) option" where
  "MemAlloc_G729A = usc_MemAlloc CheckRate_G729A (\<lambda>bitrate_idx. bitrate_idx)"

subsection \<open>Creating and changing an instance\<close>

text \<open>The guards of \<open>Init\<close>, in the order of the code; \<open>slot\<close> tells whether there is a place for the handle.\<close>

definition init_guard :: "USC_Option option \<Rightarrow> (USC_MemBank \<times> USC_MemBank) option \<Rightarrow> bool \<Rightarrow> USC_Status option" where
  "init_guard options pBanks slot =
     (case (options, pBanks) of
        (Some opt, Some (b0, b1)) \<Rightarrow>
          if \<not> slot then Some USC_InvalidHandler
          else if pMem b0 = 0 then Some USC_BadDataPointer
          else if bank_nbytes b0 \<le> 0 then Some USC_NotInitialized
          else if pMem b1 = 0 then Some USC_BadDataPointer
          else if bank_nbytes b1 \<le> 0 then Some USC_NotInitialized
          else if vad_bad (mode_vad (modes opt)) then Some USC_UnsupportedVADType
          else if pcm_bad (opt_pcmType opt) then Some USC_UnsupportedPCMType
          else None
      | _ \<Rightarrow> Some USC_BadDataPointer)"

text \<open>
  The codec object is attached to the scratch memory and initialised; the result of the initialisation
  is not looked at. \<open>hw\<close> and \<open>z\<close> are the signal library's, as in the initialisation.
\<close>

definition start_encoder :: "g729_sizes \<Rightarrow> int list \<Rightarrow> int \<Rightarrow> int \<Rightarrow> int \<Rightarrow> g729_handle \<Rightarrow> g729_handle" where
  "start_encoder z hw handle ct v m =
     m\<lparr>EncObj := snd (apiG729Encoder_Init z hw (handle + sizeof_header) ct v (EncObj m))\<rparr>"

definition start_decoder :: "g729_sizes \<Rightarrow> int list \<Rightarrow> int \<Rightarrow> int \<Rightarrow> g729_handle \<Rightarrow> g729_handle" where
  "start_decoder z hw handle ct m =
     m\<lparr>DecObj := snd (apiG729Decoder_Init z hw (handle + sizeof_header) ct (DecObj m))\<rparr>"

definition usc_Init ::
  "(int \<Rightarrow> int) \<Rightarrow> (int \<Rightarrow> int) \<Rightarrow> g729_sizes \<Rightarrow> int list \<Rightarrow> USC_Option option \<Rightarrow> (USC_MemBank \<times> USC_MemBank) option
     \<Rightarrow> bool \<Rightarrow> g729_handle \<Rightarrow> USC_Status \<times> int option \<times> g729_handle" where
  "usc_Init check ctype z hw options pBanks slot m =
     (case init_guard options pBanks slot of
        Some sts \<Rightarrow> (sts, None, m)
      | None \<Rightarrow>
        (case (options, pBanks) of
           (Some opt, Some (b0, b1)) \<Rightarrow>
             (let handle = pMem b0;
                  bitrate_idx = check (mode_bitrate (modes opt))
              in if bitrate_idx < 0 then (USC_UnsupportedBitRate, Some handle, m)
                 else
                   (let m = m\<lparr>header := (header m)\<lparr>vad := mode_vad (modes opt), bitrate := mode_bitrate (modes opt),
                                         direction := opt_direction opt\<rparr>\<rparr>
                    in if opt_direction opt = 0
                       then (USC_NoError, Some handle,
                             start_encoder z hw handle (ctype bitrate_idx) (mode_vad (modes opt))
                               (m\<lparr>EncObj := snd (apiG729Encoder_InitBuff (pMem b1) (EncObj m))\<rparr>))
                       else if opt_direction opt = 1
                       then (USC_NoError, Some handle,
                             start_decoder z hw handle (ctype bitrate_idx)
                               (m\<lparr>DecObj := snd (apiG729Decoder_InitBuff (pMem b1) (DecObj m))\<rparr>))
                       else (USC_NoOperation, Some handle, m)))
         | _ \<Rightarrow> (USC_BadDataPointer, None, m)))"

definition Init_G729I ::
  "g729_sizes \<Rightarrow> int list \<Rightarrow> USC_Option option \<Rightarrow> (USC_MemBank \<times> USC_MemBank) option \<Rightarrow> bool \<Rightarrow> g729_handle
     \<Rightarrow> USC_Status \<times> int option \<times> g729_handle" where
  "Init_G729I = usc_Init CheckRate_G729I (\<lambda>_. 4)"

definition Init_G729A ::
  "g729_sizes \<Rightarrow> int list \<Rightarrow> USC_Option option \<Rightarrow> (USC_MemBank \<times> USC_MemBank) option \<Rightarrow> bool \<Rightarrow> g729_handle
     \<Rightarrow> USC_Status \<times> int option \<times> g729_handle" where
  "Init_G729A = usc_Init CheckRate_G729A (\<lambda>bitrate_idx. bitrate_idx)"

text \<open>\<open>handle\<close> is the address of the memory \<open>m\<close>; 0 is no handle.\<close>

definition usc_Reinit ::
  "(int \<Rightarrow> int) \<Rightarrow> (int \<Rightarrow> int) \<Rightarrow> g729_sizes \<Rightarrow> int list \<Rightarrow> USC_Modes option \<Rightarrow> int \<Rightarrow> g729_handle
     \<Rightarrow> USC_Status \<times> g729_handle" where
  "usc_Reinit check ctype z hw md handle m =
     (case md of
        None \<Rightarrow> (USC_BadDataPointer, m)
      | Some md \<Rightarrow>
          (if handle = 0 then (USC_InvalidHandler, m)
           else if vad_bad (mode_vad md) then (USC_UnsupportedVADType, m)
           else if check (mode_bitrate md) < 0 then (USC_UnsupportedBitRate, m)
           else
             (let m = m\<lparr>header := (header m)\<lparr>vad := mode_vad md, bitrate := mode_bitrate md\<rparr>\<rparr>;
                  ct = ctype (check (mode_bitrate md))
              in if direction (header m) = 0 then (USC_NoError, start_encoder z hw handle ct (mode_vad md) m)
                 else if direction (header m) = 1 then (USC_NoError, start_decoder z hw handle ct m)
                 else (USC_NoOperation, m))))"

definition Reinit_G729I ::
  "g729_sizes \<Rightarrow> int list \<Rightarrow> USC_Modes option \<Rightarrow> int \<Rightarrow> g729_handle \<Rightarrow> USC_Status \<times> g729_handle" where
  "Reinit_G729I = usc_Reinit CheckRate_G729I (\<lambda>_. 4)"

definition Reinit_G729A ::
  "g729_sizes \<Rightarrow> int list \<Rightarrow> USC_Modes option \<Rightarrow> int \<Rightarrow> g729_handle \<Rightarrow> USC_Status \<times> g729_handle" where
  "Reinit_G729A = usc_Reinit CheckRate_G729A (\<lambda>bitrate_idx. bitrate_idx)"

definition usc_Control :: "(int \<Rightarrow> int) \<Rightarrow> USC_Modes option \<Rightarrow> int \<Rightarrow> g729_handle \<Rightarrow> USC_Status \<times> g729_handle" where
  "usc_Control check md handle m =
     (case md of
        None \<Rightarrow> (USC_BadDataPointer, m)
      | Some md \<Rightarrow>
          (if handle = 0 then (USC_InvalidHandler, m)
           else if vad_bad (mode_vad md) then (USC_UnsupportedVADType, m)
           else if check (mode_bitrate md) < 0 then (USC_UnsupportedBitRate, m)
           else
             (let m = m\<lparr>header := (header m)\<lparr>vad := mode_vad md, bitrate := mode_bitrate md\<rparr>\<rparr>
              in (USC_NoError,
                  if direction (header m) = 0 then m\<lparr>EncObj := snd (apiG729Encoder_Mode (mode_vad md) (EncObj m))\<rparr> else m))))"

definition Control_G729I :: "USC_Modes option \<Rightarrow> int \<Rightarrow> g729_handle \<Rightarrow> USC_Status \<times> g729_handle" where
  "Control_G729I = usc_Control CheckRate_G729I"

definition Control_G729A :: "USC_Modes option \<Rightarrow> int \<Rightarrow> g729_handle \<Rightarrow> USC_Status \<times> g729_handle" where
  "Control_G729A = usc_Control CheckRate_G729A"

subsection \<open>Frames\<close>

text \<open>
  The guards of \<open>Encode\<close>. The length is compared with a \<open>size_t\<close>, so a negative one passes.
\<close>

definition encode_guard ::
  "(int \<Rightarrow> int) \<Rightarrow> int \<Rightarrow> g729_handle \<Rightarrow> USC_PCMStream option \<Rightarrow> USC_Bitstream option \<Rightarrow> USC_Status option" where
  "encode_guard check handle m inn out =
     (case (inn, out) of
        (Some i, Some b) \<Rightarrow>
          if handle = 0 then Some USC_InvalidHandler
          else if pcm_bad (pcm_type i) then Some USC_UnsupportedPCMType
          else if u32 (pcm_nbytes i) < G729_SPEECH_FRAME * 2 then Some USC_NoOperation
          else if direction (header m) \<noteq> 0 then Some USC_BadDataPointer
          else if check (pcm_bitrate i) < 0 then Some USC_UnsupportedBitRate
          else None
      | _ \<Rightarrow> Some USC_BadDataPointer)"

definition usc_Encode ::
  "(int \<Rightarrow> int) \<Rightarrow> g729_paths \<Rightarrow> int \<Rightarrow> g729_handle \<Rightarrow> USC_PCMStream option \<Rightarrow> USC_Bitstream option
     \<Rightarrow> USC_Status \<times> g729_handle \<times> USC_PCMStream option \<times> USC_Bitstream option" where
  "usc_Encode check F handle m inn out =
     (case encode_guard check handle m inn out of
        Some sts \<Rightarrow> (sts, m, inn, out)
      | None \<Rightarrow>
        (case (inn, out) of
           (Some i, Some b) \<Rightarrow>
             (let m = m\<lparr>header := (header m)\<lparr>bitrate := pcm_bitrate i\<rparr>\<rparr>
              in case apiG729Encode F (pcm_buffer i) (check (pcm_bitrate i)) (EncObj m) of
                (sts, dst, ft, e) \<Rightarrow>
                  (let m = m\<lparr>EncObj := e\<rparr>; b = b\<lparr>bits_buffer := mem_write (bits_buffer b) 0 dst, frametype := ft\<rparr>
                   in if sts \<noteq> APIG729_StsNoErr then (USC_NoOperation, m, Some i, Some b)
                      else (USC_NoError, m, Some (i\<lparr>pcm_nbytes := G729_SPEECH_FRAME * 2\<rparr>),
                            Some (b\<lparr>bits_nbytes := getBitstreamSize ft, bits_bitrate := pcm_bitrate i\<rparr>))))
         | _ \<Rightarrow> (USC_BadDataPointer, m, inn, out)))"

definition Encode_G729I ::
  "g729_paths \<Rightarrow> int \<Rightarrow> g729_handle \<Rightarrow> USC_PCMStream option \<Rightarrow> USC_Bitstream option
     \<Rightarrow> USC_Status \<times> g729_handle \<times> USC_PCMStream option \<times> USC_Bitstream option" where
  "Encode_G729I = usc_Encode CheckRate_G729I"

definition Encode_G729A ::
  "g729_paths \<Rightarrow> int \<Rightarrow> g729_handle \<Rightarrow> USC_PCMStream option \<Rightarrow> USC_Bitstream option
     \<Rightarrow> USC_Status \<times> g729_handle \<times> USC_PCMStream option \<times> USC_Bitstream option" where
  "Encode_G729A = usc_Encode CheckRate_G729A"

text \<open>
  No input stream is a lost frame. On success table A writes the output's rate (\<open>outRate\<close>),
  table I writes the rate of the input again.
\<close>

definition usc_Decode ::
  "(int \<Rightarrow> int) \<Rightarrow> bool \<Rightarrow> g729_paths \<Rightarrow> int \<Rightarrow> g729_handle \<Rightarrow> USC_Bitstream option \<Rightarrow> USC_PCMStream option
     \<Rightarrow> USC_Status \<times> g729_handle \<times> USC_Bitstream option \<times> USC_PCMStream option" where
  "usc_Decode check outRate F handle m inn out =
     (case out of
        None \<Rightarrow> (USC_BadDataPointer, m, inn, out)
      | Some p \<Rightarrow>
          if handle = 0 then (USC_InvalidHandler, m, inn, out)
          else if direction (header m) \<noteq> 1 then (USC_NoOperation, m, inn, out)
          else
            (let finish = (\<lambda>p. p\<lparr>pcm_nbytes := G729_SPEECH_FRAME * 2, pcm_type := pcmTypesTbl_G729I ! 0\<rparr>)
             in case inn of
                  None \<Rightarrow>
                    (case apiG729Decode F LostFrame (- 1) (DecObj m) of (sts, dst, d) \<Rightarrow>
                       let m = m\<lparr>DecObj := d\<rparr>; p = p\<lparr>pcm_buffer := mem_write (pcm_buffer p) 0 dst\<rparr>
                       in if sts \<noteq> APIG729_StsNoErr then (USC_NoOperation, m, None, Some p)
                          else (USC_NoError, m, None, Some (finish (p\<lparr>pcm_bitrate := bitrate (header m)\<rparr>))))
                | Some b \<Rightarrow>
                    if check (bits_bitrate b) < 0 then (USC_UnsupportedBitRate, m, inn, out)
                    else
                      (let m = m\<lparr>header := (header m)\<lparr>bitrate := bits_bitrate b\<rparr>\<rparr>
                       in case apiG729Decode F (bits_buffer b) (frametype b) (DecObj m) of (sts, dst, d) \<Rightarrow>
                         let m = m\<lparr>DecObj := d\<rparr>; p = p\<lparr>pcm_buffer := mem_write (pcm_buffer p) 0 dst\<rparr>
                         in if sts \<noteq> APIG729_StsNoErr then (USC_NoOperation, m, Some b, Some p)
                            else (let b = b\<lparr>bits_nbytes := getBitstreamSize (frametype b)\<rparr>
                                  in if outRate
                                     then (USC_NoError, m, Some b, Some (finish (p\<lparr>pcm_bitrate := bits_bitrate b\<rparr>)))
                                     else (USC_NoError, m, Some (b\<lparr>bits_bitrate := bitrate (header m)\<rparr>),
                                           Some (finish p))))))"

definition Decode_G729I ::
  "g729_paths \<Rightarrow> int \<Rightarrow> g729_handle \<Rightarrow> USC_Bitstream option \<Rightarrow> USC_PCMStream option
     \<Rightarrow> USC_Status \<times> g729_handle \<times> USC_Bitstream option \<times> USC_PCMStream option" where
  "Decode_G729I = usc_Decode CheckRate_G729I False"

definition Decode_G729A ::
  "g729_paths \<Rightarrow> int \<Rightarrow> g729_handle \<Rightarrow> USC_Bitstream option \<Rightarrow> USC_PCMStream option
     \<Rightarrow> USC_Status \<times> g729_handle \<times> USC_Bitstream option \<times> USC_PCMStream option" where
  "Decode_G729A = usc_Decode CheckRate_G729A True"

subsection \<open>Sizes of the streams\<close>

text \<open>All counts are \<open>Ipp32s\<close>; the sizes are positive, so division is that of the integers.\<close>

definition CalsOutStreamSize :: "USC_Option \<Rightarrow> int \<Rightarrow> int \<Rightarrow> USC_Status + int" where
  "CalsOutStreamSize options bitrate_idx nbytesSrc =
     (if opt_direction options = 0 then
        (if mode_vad (modes options) > 1 then Inl USC_UnsupportedVADType
         else
           (let nSamples = nbytesSrc div 2; nBlocks = nSamples div G729_SPEECH_FRAME
            in if nBlocks = 0 then Inl USC_NoOperation
               else (let nBlocks = (if nSamples mod G729_SPEECH_FRAME \<noteq> 0 then nBlocks + 1 else nBlocks)
                     in Inr (s32 (nBlocks * pFrameSize_G729I ! nat bitrate_idx)))))
      else if opt_direction options = 1 then
        (if mode_vad (modes options) \<noteq> 0 \<and> mode_vad (modes options) \<noteq> 1 then Inl USC_UnsupportedVADType
         else
           (let nBlocks = (if mode_vad (modes options) = 0 then nbytesSrc div pFrameSize_G729I ! nat bitrate_idx
                           else (let n = nbytesSrc div G729_SID_FRAMESIZE in s32 (n + n * G729_NUM_UNTR_FRAMES)))
            in if nBlocks = 0 then Inl USC_NoOperation else Inr (s32 (s32 (nBlocks * G729_SPEECH_FRAME) * 2))))
      else if opt_direction options = 2 then
        (let nSamples = nbytesSrc div 2; nBlocks = nSamples div G729_SPEECH_FRAME
         in if nBlocks = 0 then Inl USC_NoOperation
            else (let nBlocks = (if nSamples mod G729_SPEECH_FRAME \<noteq> 0 then nBlocks + 1 else nBlocks)
                  in Inr (s32 (nBlocks * G729_SPEECH_FRAME * 2))))
      else Inl USC_NoOperation)"

definition usc_OutStreamSize :: "(int \<Rightarrow> int) \<Rightarrow> USC_Option option \<Rightarrow> int \<Rightarrow> int \<Rightarrow> bool \<Rightarrow> USC_Status + int" where
  "usc_OutStreamSize index options rate nbytesSrc dst =
     (case options of
        None \<Rightarrow> Inl USC_BadDataPointer
      | Some opt \<Rightarrow>
          if \<not> dst then Inl USC_BadDataPointer
          else if nbytesSrc \<le> 0 then Inl USC_NoOperation
          else if index rate < 0 then Inl USC_UnsupportedBitRate
          else CalsOutStreamSize opt (index rate) nbytesSrc)"

definition GetOutStreamSizeI :: "USC_Option option \<Rightarrow> int \<Rightarrow> int \<Rightarrow> bool \<Rightarrow> USC_Status + int" where
  "GetOutStreamSizeI = usc_OutStreamSize RateToIndex_G729I"

definition GetOutStreamSizeA :: "USC_Option option \<Rightarrow> int \<Rightarrow> int \<Rightarrow> bool \<Rightarrow> USC_Status + int" where
  "GetOutStreamSizeA = usc_OutStreamSize RateToIndex_G729A"

definition SetFrameSize :: "USC_Option option \<Rightarrow> int \<Rightarrow> int \<Rightarrow> USC_Status" where
  "SetFrameSize options handle frameSize =
     (if options = None then USC_BadDataPointer
      else if handle = 0 then USC_InvalidHandler
      else if frameSize \<le> 0 then USC_BadArgument
      else USC_NoOperation)"

subsection \<open>The two tables as instances of one contract\<close>

text \<open>A rate check that accepts only rates of the codec, and a codec named for each accepted rate.\<close>

locale usc_table =
  fixes check :: "int \<Rightarrow> int" and ctype :: "int \<Rightarrow> int"
  assumes check_rates: "0 \<le> check r \<Longrightarrow> r \<in> {6400, 8000, 11800}"
    and ctype_codec: "0 \<le> check r \<Longrightarrow> codec_of (ctype (check r)) \<noteq> None"
begin

lemma MemAlloc_ok:
  assumes "0 \<le> check (mode_bitrate (modes opt))" "opt_direction opt \<in> {0, 1}"
  shows "\<exists>b0' b1'. usc_MemAlloc check ctype z (Some opt) (Some (b0, b1)) = (USC_NoError, Some (b0', b1'))
    \<and> bank_nbytes b0' = (if opt_direction opt = 0 then EncoderObjSize z else DecoderObjSize z) + sizeof_header
    \<and> bank_nbytes b1' = G729_ENCODER_SCRATCH_MEMORY_SIZE \<and> pMem b0' = 0 \<and> pMem b1' = 0"
  using assms ctype_codec [OF assms(1)]
  by (auto simp: usc_MemAlloc_def Let_def apiG729Encoder_Alloc_def apiG729Decoder_Alloc_def
      apiG729Codec_ScratchMemoryAlloc_def)

lemma Init_unguarded:
  assumes "init_guard (Some opt) (Some (b0, b1)) slot = None" "0 \<le> check (mode_bitrate (modes opt))"
    "opt_direction opt \<in> {0, 1}" "usc_Init check ctype z hw (Some opt) (Some (b0, b1)) slot m = (sts, h, m')"
  shows "sts = USC_NoError" "h = Some (pMem b0)" "direction (header m') = opt_direction opt"
    "bitrate (header m') = mode_bitrate (modes opt)" "vad (header m') = mode_vad (modes opt)"
  using assms by (auto simp: usc_Init_def Let_def start_encoder_def start_decoder_def)

end

lemma check_rates_I: "0 \<le> CheckRate_G729I r \<Longrightarrow> r \<in> {6400, 8000, 11800}"
  by (simp add: CheckRate_G729I_def split: if_splits)

lemma check_rates_A: "0 \<le> CheckRate_G729A r \<Longrightarrow> r = 8000 \<and> CheckRate_G729A r = 1"
  by (simp add: CheckRate_G729A_def split: if_splits)

interpretation table_I: usc_table CheckRate_G729I "\<lambda>_. 4"
  by unfold_locales (use check_rates_I in \<open>simp_all add: codec_of_def\<close>)

interpretation table_A: usc_table CheckRate_G729A "\<lambda>bitrate_idx. bitrate_idx"
  by unfold_locales (use check_rates_A in \<open>auto simp: codec_of_def\<close>)

subsection \<open>The abstract instance\<close>

text \<open>
  What an application may rely on: an instance has a direction that never changes, a rate and a
  detection mode. A call is refused and changes nothing, or it is served as below. A frame that the
  signal path rejects has already set the rate.
\<close>

record usc_inst =
  i_direction :: int
  i_rate :: int
  i_vad :: int

datatype usc_call =
    C_Reinit "USC_Modes option"
  | C_Control "USC_Modes option"
  | C_Encode "USC_PCMStream option" "USC_Bitstream option"
  | C_Decode "USC_Bitstream option" "USC_PCMStream option"

inductive usc_spec :: "(int \<Rightarrow> bool) \<Rightarrow> usc_inst \<Rightarrow> usc_call \<Rightarrow> USC_Status \<Rightarrow> usc_inst \<Rightarrow> bool" for legal where
  refused: "sts \<noteq> USC_NoError \<Longrightarrow> usc_spec legal s c sts s"
| reinit: "legal (mode_bitrate md) \<Longrightarrow> mode_vad md \<in> {0, 1} \<Longrightarrow>
     usc_spec legal s (C_Reinit (Some md)) USC_NoError (s\<lparr>i_rate := mode_bitrate md, i_vad := mode_vad md\<rparr>)"
| control: "legal (mode_bitrate md) \<Longrightarrow> mode_vad md \<in> {0, 1} \<Longrightarrow>
     usc_spec legal s (C_Control (Some md)) USC_NoError (s\<lparr>i_rate := mode_bitrate md, i_vad := mode_vad md\<rparr>)"
| encode: "i_direction s = 0 \<Longrightarrow> legal (pcm_bitrate i) \<Longrightarrow> \<not> pcm_bad (pcm_type i) \<Longrightarrow> sts \<in> {USC_NoError, USC_NoOperation} \<Longrightarrow>
     usc_spec legal s (C_Encode (Some i) (Some b)) sts (s\<lparr>i_rate := pcm_bitrate i\<rparr>)"
| decode: "i_direction s = 1 \<Longrightarrow> legal (bits_bitrate b) \<Longrightarrow> sts \<in> {USC_NoError, USC_NoOperation} \<Longrightarrow>
     usc_spec legal s (C_Decode (Some b) (Some p)) sts (s\<lparr>i_rate := bits_bitrate b\<rparr>)"
| lost: "i_direction s = 1 \<Longrightarrow> usc_spec legal s (C_Decode None (Some p)) USC_NoError s"

definition inst_of :: "g729_handle \<Rightarrow> usc_inst" where
  "inst_of m = \<lparr>i_direction = direction (header m), i_rate = bitrate (header m), i_vad = vad (header m)\<rparr>"

text \<open>A call on the handle at an address, with the function table of the check, codec and flag.\<close>

definition usc_do ::
  "(int \<Rightarrow> int) \<Rightarrow> (int \<Rightarrow> int) \<Rightarrow> bool \<Rightarrow> g729_paths \<Rightarrow> g729_sizes \<Rightarrow> int list \<Rightarrow> int \<Rightarrow> usc_call \<Rightarrow> g729_handle
     \<Rightarrow> USC_Status \<times> g729_handle" where
  "usc_do check ctype outRate F z hw handle c m =
     (case c of
        C_Reinit md \<Rightarrow> usc_Reinit check ctype z hw md handle m
      | C_Control md \<Rightarrow> usc_Control check md handle m
      | C_Encode i b \<Rightarrow> (case usc_Encode check F handle m i b of (sts, m', _) \<Rightarrow> (sts, m'))
      | C_Decode b p \<Rightarrow> (case usc_Decode check outRate F handle m b p of (sts, m', _) \<Rightarrow> (sts, m')))"

lemma start_header [simp]:
  "header (start_encoder z hw h ct v m) = header m" "header (start_decoder z hw h ct m) = header m"
  by (simp_all add: start_encoder_def start_decoder_def)

lemma vad_bad_iff: "vad_bad v \<longleftrightarrow> v \<notin> {0, 1}"
  by (auto simp: vad_bad_def)

context usc_table
begin

lemma Reinit_spec:
  assumes "direction (header m) \<in> {0, 1}" "usc_Reinit check ctype z hw md handle m = (sts, m')"
  shows "usc_spec (\<lambda>r. 0 \<le> check r) (inst_of m) (C_Reinit md) sts (inst_of m')"
proof (cases "sts = USC_NoError")
  case True
  then obtain d where d: "md = Some d" "0 \<le> check (mode_bitrate d)" "mode_vad d \<in> {0, 1}"
    "inst_of m' = (inst_of m)\<lparr>i_rate := mode_bitrate d, i_vad := mode_vad d\<rparr>"
    using assms by (cases md) (auto simp: usc_Reinit_def Let_def vad_bad_iff inst_of_def split: if_splits)
  then show ?thesis using True by (simp add: usc_spec.reinit)
next
  case False
  then have "inst_of m' = inst_of m"
    using assms by (cases md) (auto simp: usc_Reinit_def Let_def inst_of_def split: if_splits)
  then show ?thesis using False by (simp add: usc_spec.refused)
qed

lemma Control_spec:
  assumes "usc_Control check md handle m = (sts, m')"
  shows "usc_spec (\<lambda>r. 0 \<le> check r) (inst_of m) (C_Control md) sts (inst_of m')"
proof (cases "sts = USC_NoError")
  case True
  then obtain d where d: "md = Some d" "0 \<le> check (mode_bitrate d)" "mode_vad d \<in> {0, 1}"
    "inst_of m' = (inst_of m)\<lparr>i_rate := mode_bitrate d, i_vad := mode_vad d\<rparr>"
    using assms by (cases md) (auto simp: usc_Control_def Let_def vad_bad_iff inst_of_def split: if_splits)
  then show ?thesis using True by (simp add: usc_spec.control)
next
  case False
  then have "inst_of m' = inst_of m"
    using assms by (cases md) (auto simp: usc_Control_def Let_def inst_of_def split: if_splits)
  then show ?thesis using False by (simp add: usc_spec.refused)
qed

lemma Encode_cases:
  assumes "usc_Encode check F handle m inn out = (sts, m', inn', out')"
  obtains (refused) "encode_guard check handle m inn out = Some sts" "m' = m" "inn' = inn" "out' = out"
  | (served) i b dst ft e psts where "inn = Some i" "out = Some b" "encode_guard check handle m inn out = None"
      "apiG729Encode F (pcm_buffer i) (check (pcm_bitrate i)) (EncObj m) = (psts, dst, ft, e)"
      "m' = m\<lparr>header := (header m)\<lparr>bitrate := pcm_bitrate i\<rparr>, EncObj := e\<rparr>"
      "sts = (if psts = APIG729_StsNoErr then USC_NoError else USC_NoOperation)"
      "psts = APIG729_StsNoErr \<Longrightarrow> inn' = Some (i\<lparr>pcm_nbytes := 160\<rparr>) \<and>
         out' = Some (b\<lparr>bits_buffer := mem_write (bits_buffer b) 0 dst, frametype := ft,
           bits_nbytes := getBitstreamSize ft, bits_bitrate := pcm_bitrate i\<rparr>)"
proof (cases "encode_guard check handle m inn out")
  case None
  then obtain i b where ib: "inn = Some i" "out = Some b"
    by (auto simp: encode_guard_def split: option.splits)
  obtain psts dst ft e where r: "apiG729Encode F (pcm_buffer i) (check (pcm_bitrate i)) (EncObj m) = (psts, dst, ft, e)"
    by (metis prod.exhaust)
  show ?thesis
    using assms None
    by (intro served [OF ib None r]) (auto simp: usc_Encode_def ib r Let_def usc_dims split: if_splits)
next
  case (Some s)
  then show ?thesis using assms by (intro refused) (simp_all add: usc_Encode_def)
qed

lemma encode_guard_None:
  assumes "encode_guard check handle m (Some i) (Some b) = None"
  shows "handle \<noteq> 0" "direction (header m) = 0" "0 \<le> check (pcm_bitrate i)" "\<not> pcm_bad (pcm_type i)"
    "160 \<le> u32 (pcm_nbytes i)"
  using assms by (simp_all add: encode_guard_def usc_dims split: if_splits)

lemma encode_guard_error: "encode_guard check handle m inn out = Some sts \<Longrightarrow> sts \<noteq> USC_NoError"
  by (auto simp: encode_guard_def split: option.splits if_splits)

lemma Encode_spec:
  assumes "usc_Encode check F handle m inn out = (sts, m', r)"
  shows "usc_spec (\<lambda>r. 0 \<le> check r) (inst_of m) (C_Encode inn out) sts (inst_of m')"
proof -
  obtain inn' out' where r: "r = (inn', out')" by (cases r)
  from assms [unfolded r] show ?thesis
  proof (cases rule: Encode_cases)
    case refused
    then show ?thesis using encode_guard_error by (simp add: usc_spec.refused)
  next
    case (served i b dst ft e psts)
    note g = encode_guard_None [OF served(3) [unfolded served(1,2)]]
    have "usc_spec (\<lambda>r. 0 \<le> check r) (inst_of m) (C_Encode (Some i) (Some b)) sts ((inst_of m)\<lparr>i_rate := pcm_bitrate i\<rparr>)"
      using g served(6) by (intro usc_spec.encode) (simp_all add: inst_of_def)
    then show ?thesis using served by (simp add: inst_of_def)
  qed
qed

lemma Decode_spec:
  assumes "usc_Decode check outRate F handle m inn out = (sts, m', r)"
  shows "usc_spec (\<lambda>r. 0 \<le> check r) (inst_of m) (C_Decode inn out) sts (inst_of m')"
proof (cases "inst_of m' = inst_of m \<and> sts \<noteq> USC_NoError")
  case True
  then show ?thesis by (simp add: usc_spec.refused)
next
  case False
  then obtain p where p: "out = Some p" "direction (header m) = 1"
    using assms by (cases out) (auto simp: usc_Decode_def split: if_splits)
  show ?thesis
  proof (cases inn)
    case None
    then have "inst_of m' = inst_of m" "sts = USC_NoError"
      using assms p False
      by (auto simp: usc_Decode_def Let_def inst_of_def split: if_splits prod.splits)
    then show ?thesis using None p by (simp add: usc_spec.lost inst_of_def)
  next
    case (Some b)
    then have "0 \<le> check (bits_bitrate b)" "inst_of m' = (inst_of m)\<lparr>i_rate := bits_bitrate b\<rparr>"
      "sts \<in> {USC_NoError, USC_NoOperation}"
      using assms p False
      by (auto simp: usc_Decode_def Let_def inst_of_def split: if_splits prod.splits)
    moreover have "i_direction (inst_of m) = 1" using p by (simp add: inst_of_def)
    ultimately show ?thesis using Some p usc_spec.decode by simp
  qed
qed

lemma do_spec:
  assumes "direction (header m) \<in> {0, 1}" "usc_do check ctype outRate F z hw handle c m = (sts, m')"
  shows "usc_spec (\<lambda>r. 0 \<le> check r) (inst_of m) c sts (inst_of m')"
  using assms
  by (cases c) (auto simp: usc_do_def split: prod.splits intro: Reinit_spec Control_spec Encode_spec Decode_spec)

end

subsection \<open>Properties of the instances\<close>

text \<open>
  C11: Every call on an instance of either table is a step of the abstract instance: a refused call
  changes neither rate, nor detection, nor direction, a served one sets exactly what it was given, and
  only rates of the table are ever accepted.
\<close>

theorem USC_refines_instance:
  assumes "direction (header m) \<in> {0, 1}"
  shows "(case usc_do CheckRate_G729I (\<lambda>_. 4) False F z hw handle c m of (sts, m') \<Rightarrow>
       usc_spec (\<lambda>r. r \<in> {6400, 8000, 11800}) (inst_of m) c sts (inst_of m'))
    \<and> (case usc_do CheckRate_G729A (\<lambda>bitrate_idx. bitrate_idx) True F z hw handle c m of (sts, m') \<Rightarrow>
       usc_spec (\<lambda>r. r = 8000) (inst_of m) c sts (inst_of m'))"
proof -
  have "(\<lambda>r. 0 \<le> CheckRate_G729I r) = (\<lambda>r. r \<in> {6400, 8000, 11800})" "(\<lambda>r. 0 \<le> CheckRate_G729A r) = (\<lambda>r. r = 8000)"
    by (auto simp: CheckRate_G729I_def CheckRate_G729A_def)
  then show ?thesis
    using table_I.do_spec [OF assms] table_A.do_spec [OF assms] by (auto split: prod.splits)
qed

definition sample_paths :: g729_paths where
  "sample_paths = \<lparr>run_enc = (\<lambda>p ct src e. (APIG729_StsNoErr, replicate 10 85, 3, e)),
     run_dec = (\<lambda>p ft src d. (APIG729_StsNoErr, replicate 80 0, d))\<rparr>"

definition sample_handle :: g729_handle where
  "sample_handle = \<lparr>header = \<lparr>direction = 0, bitrate = 8000, vad = 0, reserved = 0\<rparr>,
     EncObj = encoder_start sample_sizes 4112 G729I_CODEC 0, DecObj = decoder_start sample_sizes 4112 G729I_CODEC\<rparr>"

definition sample_pcm :: USC_PCMStream where
  "sample_pcm = \<lparr>pcm_buffer = replicate 80 0, pcm_nbytes = 160,
     pcm_type = \<lparr>sample_frequency = 8000, bitPerSample = 16, nChannels = 1\<rparr>, pcm_bitrate = 8000\<rparr>"

definition sample_bits :: USC_Bitstream where
  "sample_bits = \<lparr>bits_buffer = replicate 15 0, bits_nbytes = 0, frametype = 0, bits_bitrate = 0\<rparr>"

theorem USC_refines_instance_witness:
  "(case usc_do CheckRate_G729I (\<lambda>_. 4) False sample_paths sample_sizes [] 4096
        (C_Encode (Some sample_pcm) (Some sample_bits)) sample_handle of (sts, m') \<Rightarrow>
       usc_spec (\<lambda>r. r \<in> {6400, 8000, 11800}) (inst_of sample_handle)
         (C_Encode (Some sample_pcm) (Some sample_bits)) sts (inst_of m'))
    \<and> (case usc_do CheckRate_G729A (\<lambda>bitrate_idx. bitrate_idx) True sample_paths sample_sizes [] 4096
        (C_Encode (Some sample_pcm) (Some sample_bits)) sample_handle of (sts, m') \<Rightarrow>
       usc_spec (\<lambda>r. r = 8000) (inst_of sample_handle) (C_Encode (Some sample_pcm) (Some sample_bits)) sts (inst_of m'))"
  by (rule USC_refines_instance) (simp add: sample_handle_def)

text \<open>
  C32: \<open>Encode_G729I\<close> accepts a frame exactly when streams and handle are there, the PCM type is 8 kHz, 16 bit,
  mono, the instance is an encoder, the rate is one of the three, and the length in bytes is at least that of a frame
  or negative: the negative length passes because the guard compares unsigned, a flaw of the code that is part of
  this statement. A call that is not accepted returns an error and changes neither the instance nor the
  streams. An accepted frame sets the rate of the instance, and unless the encoder itself fails, which is
  reported as \<open>USC_NoOperation\<close>, it is consumed as one whole frame, and the stream it gives has
  one of the five frame sizes, never more than the size \<open>GetInfo\<close> announces.
\<close>

theorem Encode_G729I_contract:
  assumes "Encode_G729I F handle m inn out = (sts, m', inn', out')"
    and "\<forall>i. inn = Some i \<longrightarrow> in32 (pcm_nbytes i)"
  shows "case (inn, out) of
      (Some i, Some b) \<Rightarrow>
        if handle \<noteq> 0 \<and> \<not> pcm_bad (pcm_type i) \<and> (160 \<le> pcm_nbytes i \<or> pcm_nbytes i < 0) \<and> direction (header m) = 0
           \<and> pcm_bitrate i \<in> {6400, 8000, 11800}
        then (sts = USC_NoError \<and> (\<exists>b'. inn' = Some (i\<lparr>pcm_nbytes := 160\<rparr>) \<and> out' = Some b'
                \<and> bits_bitrate b' = pcm_bitrate i \<and> bits_nbytes b' = getBitstreamSize (frametype b')
                \<and> bits_nbytes b' \<in> {0, 2, 8, 10, 15} \<and> bits_nbytes b' \<le> maxbitsize (codec_info nam rates h))
              \<or> sts = USC_NoOperation) \<and> header m' = (header m)\<lparr>bitrate := pcm_bitrate i\<rparr>
        else sts \<noteq> USC_NoError \<and> m' = m \<and> inn' = inn \<and> out' = out
    | _ \<Rightarrow> sts = USC_BadDataPointer \<and> m' = m \<and> inn' = inn \<and> out' = out"
proof -
  have size: "getBitstreamSize t \<in> {0, 2, 8, 10, 15}" "getBitstreamSize t \<le> maxbitsize (codec_info nam rates h)" for t
    by (simp_all add: getBitstreamSize_def codec_info_def usc_dims split_beta)
  have rate: "0 \<le> CheckRate_G729I r \<longleftrightarrow> r \<in> {6400, 8000, 11800}" for r
    by (simp add: CheckRate_G729I_def)
  have len: "160 \<le> u32 n \<longleftrightarrow> 160 \<le> n \<or> n < 0" if "in32 n" for n
  proof (cases "n < 0")
    case True
    then have "n mod 4294967296 = n + 4294967296"
      using that mod_pos_pos_trivial [of "n + 4294967296" 4294967296] by simp
    then show ?thesis using True that by (simp add: u32_def)
  next
    case False
    then show ?thesis using that by (simp add: u32_def)
  qed
  from assms(1) [unfolded Encode_G729I_def] show ?thesis
  proof (cases rule: table_I.Encode_cases)
    case refused
    show ?thesis
    proof (cases inn; cases out)
      fix i b
      assume io: "inn = Some i" "out = Some b"
      then have "160 \<le> u32 (pcm_nbytes i) \<longleftrightarrow> 160 \<le> pcm_nbytes i \<or> pcm_nbytes i < 0"
        using assms(2) len by blast
      then show ?thesis
        using refused io by (auto simp: encode_guard_def usc_dims CheckRate_G729I_def split: if_splits)
    qed (use refused in \<open>auto simp: encode_guard_def\<close>)
  next
    case (served i b dst ft e psts)
    note g = table_I.encode_guard_None [OF served(3) [unfolded served(1,2)]]
    then show ?thesis
      using served size rate assms(2) len [of "pcm_nbytes i"] by (cases "psts = APIG729_StsNoErr") auto
  qed
qed

theorem Encode_G729I_contract_witness:
  "\<exists>m' b'. Encode_G729I sample_paths 4096 sample_handle (Some sample_pcm) (Some sample_bits)
      = (USC_NoError, m', Some sample_pcm, Some b') \<and> bits_nbytes b' = 10"
proof -
  obtain sts m' inn' out' where r: "Encode_G729I sample_paths 4096 sample_handle (Some sample_pcm) (Some sample_bits) = (sts, m', inn', out')"
    by (metis prod.exhaust)
  have g: "encode_guard CheckRate_G729I 4096 sample_handle (Some sample_pcm) (Some sample_bits) = None"
    by (simp add: encode_guard_def sample_handle_def sample_pcm_def pcm_bad_def usc_dims CheckRate_G729I_def u32_def)
  from r have "sts = USC_NoError" "\<forall>b'. out' = Some b' \<longrightarrow> frametype b' = 3"
    by (auto simp: Encode_G729I_def usc_Encode_def g Let_def apiG729Encode_def enc_dispatch_def sample_paths_def split: if_splits)
  moreover have "sample_pcm\<lparr>pcm_nbytes := 160\<rparr> = sample_pcm" by (simp add: sample_pcm_def)
  ultimately show ?thesis
    using Encode_G729I_contract [OF r _, where nam = "''IPP_G729I''" and rates = "[]" and h = None] r
    by (auto simp: sample_handle_def sample_pcm_def pcm_bad_def u32_def getBitstreamSize_def)
qed

text \<open>The banks an application has got: the sizes asked for, at the alignment asked for.\<close>

definition granted :: "USC_MemBank \<Rightarrow> int \<Rightarrow> USC_MemBank" where
  "granted b addr = b\<lparr>pMem := addr\<rparr>"

text \<open>What the signal library contributes: the contents of the 31 entries of \<open>hwState\<close>, and sizes, which are not negative.\<close>

definition g729_lib_ok :: "g729_sizes \<Rightarrow> int list \<Rightarrow> bool" where
  "g729_lib_ok z hw \<longleftrightarrow> length hw = 31 \<and> 0 \<le> hpf_size z \<and> 0 \<le> sizeof_vad z \<and> 0 \<le> phdisp_size z"

text \<open>What the application has after \<open>MemAlloc\<close>, its own allocation and \<open>Init\<close>.\<close>

definition instance_ready :: "g729_sizes \<Rightarrow> USC_Option \<Rightarrow> int \<Rightarrow> int \<Rightarrow> int \<Rightarrow> g729_handle \<Rightarrow> bool" where
  "instance_ready z opt a0 n0 a1 m \<longleftrightarrow>
     inst_of m = \<lparr>i_direction = opt_direction opt, i_rate = mode_bitrate (modes opt), i_vad = mode_vad (modes opt)\<rparr>
     \<and> (if opt_direction opt = 0
        then encoder_ok (EncObj m) \<and> obj_mode (objPrm (EncObj m)) = mode_vad (modes opt)
          \<and> base (Mem (EncObj m)) = a1 \<and> CurPtr (Mem (EncObj m)) = a1
          \<and> well_placed (a0 + sizeof_header + sizeof_encoder z) (a0 + n0)
              (memories (e_layout (EncObj m)) (hpf_size z) (sizeof_vad z))
        else decoder_ok (DecObj m) \<and> base (d_Mem (DecObj m)) = a1 \<and> CurPtr (d_Mem (DecObj m)) = a1
          \<and> well_placed (a0 + sizeof_header + sizeof_decoder z) (a0 + n0)
              (memories (d_layout (DecObj m)) (hpf_size z) (phdisp_size z)))"

lemma encoder_placed:
  assumes "g729_lib_ok z hw"
  shows "well_placed (obj + sizeof_encoder z) (obj + EncoderObjSize z)
    (memories (place (sizeof_encoder z) (hpf_size z) obj) (hpf_size z) (sizeof_vad z))"
  using assms
  by (intro well_placed_mono [OF place_well_placed])
     (simp_all add: g729_lib_ok_def EncoderObjSize_def VoiceActivityDetectSize_G729_def)

lemma decoder_placed:
  assumes "g729_lib_ok z hw"
  shows "well_placed (obj + sizeof_decoder z) (obj + DecoderObjSize z)
    (memories (place (sizeof_decoder z) (hpf_size z) obj) (hpf_size z) (phdisp_size z))"
  using assms
  by (intro well_placed_mono [OF place_well_placed]) (simp_all add: g729_lib_ok_def DecoderObjSize_def)

lemma codec_of_names:
  assumes "codec_of n = Some c"
  shows "c = G729_CODEC \<longleftrightarrow> n = 0" "c = G729A_CODEC \<longleftrightarrow> n = 1"
  using assms by (auto simp: codec_of_def split: if_splits)

context usc_table
begin

lemma start_encoder_ready:
  assumes "g729_lib_ok z hw" "0 < a0" "0 < a1" "0 \<le> check r"
    "m' = start_encoder z hw a0 (ctype (check r)) v (m\<lparr>EncObj := snd (apiG729Encoder_InitBuff a1 (EncObj m))\<rparr>)"
  defines "scratch \<equiv> (if stops_early z (ctype (check r) \<noteq> 1) then 0 else a1)"
  shows "encoder_ok (EncObj m') \<and> obj_mode (objPrm (EncObj m')) = v
    \<and> base (Mem (EncObj m')) = scratch \<and> CurPtr (Mem (EncObj m')) = scratch
    \<and> well_placed (a0 + sizeof_header + sizeof_encoder z) (a0 + (EncoderObjSize z + sizeof_header))
        (memories (e_layout (EncObj m')) (hpf_size z) (sizeof_vad z))"
proof -
  obtain c where c: "codec_of (ctype (check r)) = Some c" using ctype_codec [OF assms(4)] by auto
  have A: "c \<noteq> G729A_CODEC \<longleftrightarrow> ctype (check r) \<noteq> 1" using codec_of_names [OF c] by simp
  let ?e = "snd (apiG729Encoder_InitBuff a1 (EncObj m))"
  have b: "base (Mem ?e) = a1" using assms by (simp add: apiG729Encoder_InitBuff_def attach_def)
  obtain sts e' where i: "apiG729Encoder_Init z hw (a0 + sizeof_header) (ctype (check r)) v ?e = (sts, e')"
    by (metis prod.exhaust)
  have "a0 + sizeof_header \<noteq> 0" "length hw = 31" using assms by (simp_all add: g729_lib_ok_def sizeof_header_def)
  from encoder_init_ok [OF this c i, unfolded A] b
  have "encoder_ok e' \<and> obj_mode (objPrm e') = v \<and> base (Mem e') = scratch \<and> CurPtr (Mem e') = scratch
    \<and> e_layout e' = place (sizeof_encoder z) (hpf_size z) (a0 + sizeof_header)"
    unfolding scratch_def by (cases "stops_early z (ctype (check r) \<noteq> 1)") (simp_all add: zero_mem_def)
  moreover have "EncObj m' = e'" using assms(5) i by (simp add: start_encoder_def)
  ultimately show ?thesis using encoder_placed [OF assms(1), of "a0 + sizeof_header"] by (simp add: algebra_simps)
qed

lemma start_decoder_ready:
  assumes "g729_lib_ok z hw" "0 < a0" "0 < a1" "0 \<le> check r"
    "m' = start_decoder z hw a0 (ctype (check r)) (m\<lparr>DecObj := snd (apiG729Decoder_InitBuff a1 (DecObj m))\<rparr>)"
  defines "scratch \<equiv> (if stops_early z (ctype (check r) \<notin> {0, 1}) then 0 else a1)"
  shows "decoder_ok (DecObj m') \<and> base (d_Mem (DecObj m')) = scratch \<and> CurPtr (d_Mem (DecObj m')) = scratch
    \<and> well_placed (a0 + sizeof_header + sizeof_decoder z) (a0 + (DecoderObjSize z + sizeof_header))
        (memories (d_layout (DecObj m')) (hpf_size z) (phdisp_size z))"
proof -
  obtain c where c: "codec_of (ctype (check r)) = Some c" using ctype_codec [OF assms(4)] by auto
  have A: "c \<notin> {G729_CODEC, G729A_CODEC} \<longleftrightarrow> ctype (check r) \<notin> {0, 1}" using codec_of_names [OF c] by simp
  let ?d = "snd (apiG729Decoder_InitBuff a1 (DecObj m))"
  have b: "base (d_Mem ?d) = a1" using assms by (simp add: apiG729Decoder_InitBuff_def attach_def)
  obtain sts d' where i: "apiG729Decoder_Init z hw (a0 + sizeof_header) (ctype (check r)) ?d = (sts, d')"
    by (metis prod.exhaust)
  have "length hw = 31" using assms by (simp add: g729_lib_ok_def)
  from decoder_init_ok [OF this c i, unfolded A] b
  have "decoder_ok d' \<and> base (d_Mem d') = scratch \<and> CurPtr (d_Mem d') = scratch
    \<and> d_layout d' = place (sizeof_decoder z) (hpf_size z) (a0 + sizeof_header)"
    unfolding scratch_def by (cases "stops_early z (ctype (check r) \<notin> {0, 1})") (simp_all add: zero_mem_def)
  moreover have "DecObj m' = d'" using assms(5) i by (simp add: start_decoder_def)
  ultimately show ?thesis using decoder_placed [OF assms(1), of "a0 + sizeof_header"] by (simp add: algebra_simps)
qed

lemma create_ready:
  assumes lib: "g729_lib_ok z hw" and a: "0 < a0" "0 < a1"
    and opt: "0 \<le> check (mode_bitrate (modes opt))" "opt_direction opt \<in> {0, 1}" "mode_vad (modes opt) \<in> {0, 1}"
      "\<not> pcm_bad (opt_pcmType opt)"
    and alloc: "usc_MemAlloc check ctype z (Some opt) (Some (b0, b1)) = (sts, Some (b0', b1'))"
    and size: "0 < bank_nbytes b0'"
    and init: "usc_Init check ctype z hw (Some opt) (Some (granted b0' a0, granted b1' a1)) True m = (sts2, h, m')"
  shows "sts = USC_NoError \<and> sts2 = USC_NoError \<and> h = Some a0
    \<and> instance_ready z opt a0 (bank_nbytes b0')
        (if stops_early z (ctype (check (mode_bitrate (modes opt))) \<notin> (if opt_direction opt = 0 then {1} else {0, 1})) then 0 else a1) m'
    \<and> bank_nbytes b1' = G729_ENCODER_SCRATCH_MEMORY_SIZE"
proof -
  have b: "sts = USC_NoError" "bank_nbytes b1' = G729_ENCODER_SCRATCH_MEMORY_SIZE"
    "bank_nbytes b0' = (if opt_direction opt = 0 then EncoderObjSize z else DecoderObjSize z) + sizeof_header"
    using MemAlloc_ok [OF opt(1,2), of z b0 b1] alloc by auto
  have g: "init_guard (Some opt) (Some (granted b0' a0, granted b1' a1)) True = None"
    using a size b(2) opt by (simp add: init_guard_def granted_def vad_bad_iff g729_dims)
  have pm: "pMem (granted b0' a0) = a0" "pMem (granted b1' a1) = a1" by (simp_all add: granted_def)
  note hd = Init_unguarded [OF g opt(1,2) init]
  let ?m = "m\<lparr>header := (header m)\<lparr>vad := mode_vad (modes opt), bitrate := mode_bitrate (modes opt),
              direction := opt_direction opt\<rparr>\<rparr>"
  show ?thesis
  proof (cases "opt_direction opt = 0")
    case True
    then have "m' = start_encoder z hw a0 (ctype (check (mode_bitrate (modes opt)))) (mode_vad (modes opt))
        (?m\<lparr>EncObj := snd (apiG729Encoder_InitBuff a1 (EncObj ?m))\<rparr>)"
      using init g opt(1) pm by (simp add: usc_Init_def Let_def)
    from start_encoder_ready [OF lib a opt(1) this] True hd b pm show ?thesis
      by (simp add: instance_ready_def inst_of_def)
  next
    case False
    then have d: "opt_direction opt = 1" using opt by simp
    then have "m' = start_decoder z hw a0 (ctype (check (mode_bitrate (modes opt))))
        (?m\<lparr>DecObj := snd (apiG729Decoder_InitBuff a1 (DecObj ?m))\<rparr>)"
      using init g opt(1) pm by (simp add: usc_Init_def Let_def)
    from start_decoder_ready [OF lib a opt(1) this] d hd b pm show ?thesis
      by (simp add: instance_ready_def inst_of_def)
  qed
qed

end

text \<open>
  C18: An application that asks \<open>MemAlloc\<close> for the sizes, allocates them anywhere and calls \<open>Init\<close>, whatever the
  memory holds, gets an instance: its codec object satisfies the invariants of all its components, and its filter
  and detector memories lie aligned and disjoint in the first bank, behind header and structure. This holds for both
  function tables. The scratch memory is the second bank, empty, for table A, and for table I if the signal
  library's window state fits into the 124 bytes the object has for it; if it does not fit, \<open>Init_G729I\<close> returns
  \<open>USC_NoError\<close> all the same, for an object without scratch memory.
\<close>

theorem USC_create_safe:
  assumes "g729_lib_ok z hw" "0 < a0" "0 < a1" "opt_direction opt \<in> {0, 1}" "mode_vad (modes opt) \<in> {0, 1}"
    "\<not> pcm_bad (opt_pcmType opt)" "mode_bitrate (modes opt) \<in> (if annexA then {8000} else {6400, 8000, 11800})"
    "(if annexA then MemAlloc_G729A else MemAlloc_G729I) z (Some opt) (Some (b0, b1)) = (sts, Some (b0', b1'))"
    "0 < bank_nbytes b0'"
    "(if annexA then Init_G729A else Init_G729I) z hw (Some opt) (Some (granted b0' a0, granted b1' a1)) True m = (sts2, h, m')"
  shows "sts = USC_NoError \<and> sts2 = USC_NoError \<and> h = Some a0
    \<and> instance_ready z opt a0 (bank_nbytes b0') (if \<not> annexA \<and> 124 < winhybrid_size z then 0 else a1) m'
    \<and> bank_nbytes b1' = G729_ENCODER_SCRATCH_MEMORY_SIZE"
proof (cases annexA)
  case True
  have r: "0 \<le> CheckRate_G729A (mode_bitrate (modes opt))" "CheckRate_G729A (mode_bitrate (modes opt)) = 1"
    using assms(7) True by (simp_all add: CheckRate_G729A_def)
  show ?thesis
    using table_A.create_ready [OF assms(1-3) r(1) assms(4-6) _ assms(9), of b0 b1 sts b1' m sts2 h m'] assms(8,10) True
    by (cases "opt_direction opt = 0") (simp_all add: MemAlloc_G729A_def Init_G729A_def stops_early_def r(2))
next
  case False
  have r: "0 \<le> CheckRate_G729I (mode_bitrate (modes opt))"
    using assms(7) False by (auto simp: CheckRate_G729I_def)
  show ?thesis
    using table_I.create_ready [OF assms(1-3) r assms(4-6) _ assms(9), of b0 b1 sts b1' m sts2 h m'] assms(8,10) False
    by (cases "opt_direction opt = 0") (simp_all add: MemAlloc_G729I_def Init_G729I_def stops_early_def)
qed

definition sample_option :: USC_Option where
  "sample_option = \<lparr>opt_direction = 0, law = 0, framesize = 160,
     opt_pcmType = \<lparr>sample_frequency = 8000, bitPerSample = 16, nChannels = 1\<rparr>, nModes = 6,
     modes = \<lparr>mode_bitrate = 11800, mode_truncate = 0, mode_vad = 1, hpf = 0, pf = 0, outMode = 0\<rparr>\<rparr>"

definition sample_bank :: "int \<Rightarrow> USC_MemBank" where
  "sample_bank n = \<lparr>pMem = 0, bank_nbytes = n, bank_align = 0, memType = 0, memSpaceType = 0\<rparr>"

theorem USC_create_safe_witness:
  "\<exists>sts b0' b1' sts2 m'.
     MemAlloc_G729I sample_sizes (Some sample_option) (Some (sample_bank 0, sample_bank 0)) = (sts, Some (b0', b1'))
   \<and> Init_G729I sample_sizes (replicate 31 0) (Some sample_option) (Some (granted b0' 4096, granted b1' 65536)) True
       sample_handle = (sts2, Some 4096, m')
   \<and> sts = USC_NoError \<and> sts2 = USC_NoError \<and> instance_ready sample_sizes sample_option 4096 (bank_nbytes b0') 65536 m'"
proof -
  obtain b0' b1' where a: "MemAlloc_G729I sample_sizes (Some sample_option) (Some (sample_bank 0, sample_bank 0))
      = (USC_NoError, Some (b0', b1'))" "bank_nbytes b0' = EncoderObjSize sample_sizes + sizeof_header"
    using table_I.MemAlloc_ok [of sample_option sample_sizes "sample_bank 0" "sample_bank 0"]
    by (auto simp: MemAlloc_G729I_def sample_option_def CheckRate_G729I_def)
  obtain sts2 h m' where i: "Init_G729I sample_sizes (replicate 31 0) (Some sample_option)
      (Some (granted b0' 4096, granted b1' 65536)) True sample_handle = (sts2, h, m')" by (metis prod.exhaust)
  have "0 < bank_nbytes b0'"
    by (simp add: a(2) EncoderObjSize_def sample_sizes_def VoiceActivityDetectSize_G729_def usc_dims SynthesisFilterSize_G729_def)
  moreover have f: "g729_lib_ok sample_sizes (replicate 31 0)" "opt_direction sample_option = 0"
    "mode_vad (modes sample_option) = 1" "\<not> pcm_bad (opt_pcmType sample_option)" "mode_bitrate (modes sample_option) = 11800"
    by (simp_all add: g729_lib_ok_def sample_sizes_def sample_option_def pcm_bad_def)
  ultimately have "USC_NoError = USC_NoError \<and> sts2 = USC_NoError \<and> h = Some 4096
      \<and> instance_ready sample_sizes sample_option 4096 (bank_nbytes b0')
          (if \<not> False \<and> 124 < winhybrid_size sample_sizes then 0 else 65536) m'
      \<and> bank_nbytes b1' = G729_ENCODER_SCRATCH_MEMORY_SIZE"
    by (intro USC_create_safe [where annexA = False and hw = "replicate 31 0" and m = sample_handle
          and ?b0.0 = "sample_bank 0" and ?b1.0 = "sample_bank 0"])
       (simp_all add: a(1) i f)
  with a i show ?thesis by (auto simp: sample_sizes_def)
qed

subsection \<open>Stream sizes suffice\<close>

text \<open>The frame types an encoder emits at a rate: nothing, a silence descriptor, or the rate's voice frame.\<close>

definition frames_of_rate :: "int \<Rightarrow> int set" where
  "frames_of_rate r = {0, 1, CodecTypeToRate ! nat (CheckRate_G729I r)}"

lemma frame_sizes_agree:
  assumes "r \<in> {6400, 8000, 11800}"
  shows "getBitstreamSize (CodecTypeToRate ! nat (CheckRate_G729I r)) = pFrameSize_G729I ! nat (RateToIndex_G729I r)"
    "ft \<in> frames_of_rate r \<Longrightarrow> getBitstreamSize ft \<le> pFrameSize_G729I ! nat (RateToIndex_G729I r)"
    "0 \<le> RateToIndex_G729I r" "8 \<le> pFrameSize_G729I ! nat (RateToIndex_G729I r)"
    "pFrameSize_G729I ! nat (RateToIndex_G729I r) \<le> 15"
  using assms
  by (auto simp: frames_of_rate_def getBitstreamSize_def CodecTypeToRate_def CheckRate_G729I_def pFrameSize_G729I_def
      RateToIndex_G729I_def)

lemma sum_sizes:
  "\<forall>ft\<in>set fts. getBitstreamSize ft \<le> c \<Longrightarrow> sum_list (map getBitstreamSize fts) \<le> int (length fts) * c"
  by (induction fts) (simp_all add: algebra_simps)

lemma blocks_count: "(if k mod 80 \<noteq> 0 then k div 80 + 1 else k div 80) = (k + 79) div (80::int)"
proof -
  define r where "r = k mod 80"
  have r: "0 \<le> r" "r < 80" by (simp_all add: r_def)
  have "k + 79 = (r + 79) + (k div 80) * 80" unfolding r_def by (simp add: minus_div_mult_eq_mod [symmetric])
  then have "(k + 79) div 80 = k div 80 + (r + 79) div 80" by simp
  moreover have "(r + 79) div 80 = (if r = 0 then 0 else 1)"
  proof (cases "r = 0")
    case False
    then have "1 \<le> (r + 79) div 80" "(r + 79) div 80 < 2" using r by (simp_all add: int_le_div_iff int_div_less_iff)
    then show ?thesis using False by simp
  qed simp
  ultimately show ?thesis by (simp add: r_def)
qed

lemma encode_size:
  assumes "r \<in> {6400, 8000, 11800}" "160 \<le> n" "n \<le> 16777216" "opt_direction opt = 0" "mode_vad (modes opt) \<le> 1"
  defines "blocks \<equiv> (n div 2 + 79) div 80"
  shows "GetOutStreamSizeI (Some opt) r n True = Inr (blocks * pFrameSize_G729I ! nat (RateToIndex_G729I r))"
    "2 \<le> 2 * blocks" "blocks \<le> 104858" "n div 2 \<le> 80 * blocks"
proof -
  define k where "k = n div 2"
  have k: "80 \<le> k" "k \<le> 8388608" using assms(2,3) by (simp_all add: k_def)
  have b: "(if n div 2 mod 80 \<noteq> 0 then n div 2 div 80 + 1 else n div 2 div 80) = blocks"
    unfolding blocks_def k_def [symmetric] by (rule blocks_count)
  have d: "n div 2 div 80 \<noteq> 0" using k by (simp add: k_def [symmetric])
  show bb: "2 \<le> 2 * blocks" "blocks \<le> 104858" "n div 2 \<le> 80 * blocks"
    unfolding blocks_def k_def [symmetric] using k by (simp_all add: int_le_div_iff)
  have "in32 (blocks * pFrameSize_G729I ! nat (RateToIndex_G729I r))"
  proof -
    have "blocks * pFrameSize_G729I ! nat (RateToIndex_G729I r) \<le> 104858 * 15"
      using bb frame_sizes_agree(4,5) [OF assms(1)] by (intro mult_mono) simp_all
    moreover have "0 \<le> blocks * pFrameSize_G729I ! nat (RateToIndex_G729I r)"
      using bb frame_sizes_agree(4) [OF assms(1)] by simp
    ultimately show ?thesis by simp
  qed
  then show "GetOutStreamSizeI (Some opt) r n True = Inr (blocks * pFrameSize_G729I ! nat (RateToIndex_G729I r))"
    using assms frame_sizes_agree(3) [OF assms(1)] b d
    by (simp add: GetOutStreamSizeI_def usc_OutStreamSize_def CalsOutStreamSize_def usc_dims Let_def s32_id)
qed

lemma decode_size:
  assumes "r \<in> {6400, 8000, 11800}" "1 \<le> blocks" "blocks \<le> 104858" "opt_direction opt = 1" "mode_vad (modes opt) = 0"
  shows "GetOutStreamSizeI (Some opt) r (blocks * pFrameSize_G729I ! nat (RateToIndex_G729I r)) True = Inr (160 * blocks)"
proof -
  have p: "0 < blocks * pFrameSize_G729I ! nat (RateToIndex_G729I r)"
    using assms frame_sizes_agree(4) [OF assms(1)] by simp
  have "s32 (blocks * 80) = blocks * 80" "s32 (blocks * 80 * 2) = 160 * blocks"
    using assms(2,3) by (simp_all add: s32_id)
  then show ?thesis
    using assms p frame_sizes_agree(3,4) [OF assms(1)]
    by (simp add: GetOutStreamSizeI_def usc_OutStreamSize_def CalsOutStreamSize_def usc_dims Let_def not_le)
qed

text \<open>
  The size \<open>GetOutStreamSize\<close> announces for a PCM buffer holds whatever frames the encoder can emit for
  it at that rate, the last one padded, and the size it announces for decoding that many bytes, without voice
  activity detection, covers all the samples that were encoded.
\<close>

theorem GetOutStreamSize_sufficient:
  assumes "r \<in> {6400, 8000, 11800}" "160 \<le> n" "n \<le> 16777216"
    "opt_direction opt = 0" "mode_vad (modes opt) \<le> 1" "opt_direction dopt = 1" "mode_vad (modes dopt) = 0"
    "set fts \<subseteq> frames_of_rate r" "80 * (int (length fts) - 1) < n div 2"
  shows "\<exists>size out. GetOutStreamSizeI (Some opt) r n True = Inr size
    \<and> sum_list (map getBitstreamSize fts) \<le> size
    \<and> GetOutStreamSizeI (Some dopt) r size True = Inr out \<and> 2 * (n div 2) \<le> out"
proof -
  let ?b = "(n div 2 + 79) div 80" and ?c = "pFrameSize_G729I ! nat (RateToIndex_G729I r)"
  note e = encode_size [OF assms(1-5)]
  have "int (length fts) \<le> ?b" using assms(9) by (simp add: int_le_div_iff)
  then have "int (length fts) * ?c \<le> ?b * ?c"
    using frame_sizes_agree(4) [OF assms(1)] by (intro mult_right_mono) simp_all
  moreover have "sum_list (map getBitstreamSize fts) \<le> int (length fts) * ?c"
    using assms(8) frame_sizes_agree(2) [OF assms(1)] by (intro sum_sizes) auto
  ultimately show ?thesis
    using e decode_size [OF assms(1) _ e(3) assms(6,7)] by simp
qed

theorem GetOutStreamSize_sufficient_witness:
  "\<exists>size out. GetOutStreamSizeI (Some sample_option) 6400 330 True = Inr size
    \<and> sum_list (map getBitstreamSize [2, 1, 2]) \<le> size
    \<and> GetOutStreamSizeI (Some (sample_option\<lparr>opt_direction := 1,
         modes := (modes sample_option)\<lparr>mode_vad := 0\<rparr>\<rparr>)) 6400 size True = Inr out \<and> 2 * (330 div 2) \<le> out"
  by (rule GetOutStreamSize_sufficient)
     (simp_all add: sample_option_def frames_of_rate_def CheckRate_G729I_def CodecTypeToRate_def)

end
