(* ===== verification/LJ_Base.thy ===== *)
theory LJ_Base
  imports FJ_Prelude "HOL-Library.Monad_Syntax"
begin

text \<open>
  What the libjingle components share (\<open>libjingle-0.4.0/talk/base\<close>): network byte order
  (\<open>byteorder.h\<close> and the helpers of \<open>pseudotcp.cc\<close>), the millisecond clock that wraps around
  (\<open>time.cc\<close>), and undefined behaviour as a value: an operation that reads or writes outside its
  memory, dereferences the end of a list or divides by zero returns \<open>None\<close>. A \<open>uint32\<close> is an
  \<open>int\<close> below \<open>2 ^ 32\<close>, an octet an \<open>int\<close> below 256, a buffer a list of octets. \<open>_min\<close>, \<open>_max\<close> are
  \<open>min\<close>, \<open>max\<close>.
\<close>

subsection \<open>Network byte order\<close>

definition long_to_bytes :: "int \<Rightarrow> int list" where
  "long_to_bytes v = [u8 (drop_bit 24 v), u8 (drop_bit 16 v), u8 (drop_bit 8 v), u8 v]"

definition short_to_bytes :: "int \<Rightarrow> int list" where
  "short_to_bytes v = [u8 (drop_bit 8 v), u8 v]"

definition bytes_to_long :: "int list \<Rightarrow> int" where
  "bytes_to_long b = b ! 0 * 16777216 + b ! 1 * 65536 + b ! 2 * 256 + b ! 3"

definition bytes_to_short :: "int list \<Rightarrow> int" where
  "bytes_to_short b = b ! 0 * 256 + b ! 1"

definition octets :: "int list \<Rightarrow> bool" where
  "octets b \<longleftrightarrow> (\<forall>x\<in>set b. 0 \<le> x \<and> x < 256)"

lemma octets_simps [simp]:
  "octets []" "octets (x # b) \<longleftrightarrow> 0 \<le> x \<and> x < 256 \<and> octets b" "octets (a @ b) \<longleftrightarrow> octets a \<and> octets b"
  by (auto simp: octets_def)

lemma octets_take_drop [simp]: "octets b \<Longrightarrow> octets (take n b)" "octets b \<Longrightarrow> octets (drop n b)"
  by (auto simp: octets_def dest: in_set_takeD in_set_dropD)

lemma octets_mem_write: "octets a \<Longrightarrow> octets b \<Longrightarrow> octets (mem_write a n b)"
  by (simp add: mem_write_def)

lemma length_to_bytes [simp]: "length (long_to_bytes v) = 4" "length (short_to_bytes v) = 2"
  by (simp_all add: long_to_bytes_def short_to_bytes_def)

lemma octets_to_bytes [simp]: "octets (long_to_bytes v)" "octets (short_to_bytes v)"
  by (simp_all add: long_to_bytes_def short_to_bytes_def)

lemma bytes_to_long_of_long [simp]:
  assumes "0 \<le> v" "v < 4294967296"
  shows "bytes_to_long (long_to_bytes v @ r) = v" "bytes_to_long (long_to_bytes v) = v"
proof -
  define q1 where "q1 = v div 256"
  define q2 where "q2 = q1 div 256"
  define q3 where "q3 = q2 div 256"
  have d: "v div 65536 = q2" "v div 16777216 = q3" by (simp_all add: q1_def q2_def q3_def div_mult2_eq [symmetric])
  have "0 \<le> q3" "q3 < 256" using assms by (simp_all add: d(2) [symmetric] int_div_less_iff)
  then have "q3 mod 256 = q3" by (simp add: mod_pos_pos_trivial)
  then have "q3 mod 256 * 16777216 + q2 mod 256 * 65536 + q1 mod 256 * 256 + v mod 256 = v"
    using div_mult_mod_eq [of v 256] div_mult_mod_eq [of q1 256] div_mult_mod_eq [of q2 256]
    unfolding q1_def [symmetric] q2_def [symmetric] q3_def [symmetric] by linarith
  then show "bytes_to_long (long_to_bytes v @ r) = v" "bytes_to_long (long_to_bytes v) = v"
    by (simp_all add: bytes_to_long_def long_to_bytes_def u8_def drop_bit_eq_div d q1_def [symmetric])
qed

lemma bytes_to_short_of_short [simp]:
  assumes "0 \<le> v" "v < 65536"
  shows "bytes_to_short (short_to_bytes v @ r) = v" "bytes_to_short (short_to_bytes v) = v"
proof -
  have "v div 256 mod 256 = v div 256" using assms by (simp add: mod_pos_pos_trivial int_div_less_iff)
  then show "bytes_to_short (short_to_bytes v @ r) = v" "bytes_to_short (short_to_bytes v) = v"
    using div_mult_mod_eq [of v 256]
    by (simp_all add: bytes_to_short_def short_to_bytes_def u8_def drop_bit_eq_div)
qed

lemma octets_nth: "octets b \<Longrightarrow> i < length b \<Longrightarrow> 0 \<le> b ! i \<and> b ! i < 256"
  by (simp add: octets_def)

lemma bytes_to_long_range:
  assumes "octets b" "4 \<le> length b"
  shows "0 \<le> bytes_to_long b" "bytes_to_long b < 4294967296"
  using octets_nth [OF assms(1), of 0] octets_nth [OF assms(1), of 1] octets_nth [OF assms(1), of 2]
    octets_nth [OF assms(1), of 3] assms(2) unfolding bytes_to_long_def by linarith+

lemma bytes_to_short_range:
  assumes "octets b" "2 \<le> length b"
  shows "0 \<le> bytes_to_short b" "bytes_to_short b < 65536"
  using octets_nth [OF assms(1), of 0] octets_nth [OF assms(1), of 1] assms(2) unfolding bytes_to_short_def by linarith+

subsection \<open>The clock\<close>

definition TimeIsBetween :: "int \<Rightarrow> int \<Rightarrow> int \<Rightarrow> bool" where
  "TimeIsBetween later middle earlier =
     (if earlier \<le> later then earlier \<le> middle \<and> middle \<le> later
      else \<not> (later < middle \<and> middle < earlier))"

definition TimeDiff :: "int \<Rightarrow> int \<Rightarrow> int" where
  "TimeDiff later earlier =
     (let LAST = 0xFFFFFFFF; HALF = 0x80000000
      in if TimeIsBetween (u32 (earlier + HALF)) later earlier
         then (if earlier \<le> later then s32 (u32 (later - earlier))
               else s32 (u32 (later + (LAST - earlier) + 1)))
         else (if later \<le> earlier then s32 (- s32 (u32 (earlier - later)))
               else s32 (- s32 (u32 (earlier + (LAST - later) + 1)))))"

lemma s32_u32 [simp, c_wrap]: "s32 (u32 x) = s32 x"
  by (rule s32_cong) (simp add: u32_def)

lemma u32_s32 [simp, c_wrap]: "u32 (s32 x) = u32 x"
  unfolding u32_def by (rule s32_mod)

lemma u32_u32 [simp, c_wrap]: "u32 (u32 x) = u32 x"
  by (simp add: u32_def)

lemma s32_uminus_s32 [c_wrap]: "s32 (- s32 x) = s32 (- x)"
  using s32_minus_s32 [of 0 x] by simp

lemma s32_add_full: "s32 (x + 4294967296) = s32 x"
  by (rule s32_cong) simp

text \<open>
  The difference of two clock readings is their difference as a signed 32-bit number: the
  comparison of wrapped times that the four cases spell out.
\<close>

lemma TimeDiff_wraps: "TimeDiff later earlier = s32 (later - earlier)"
proof -
  have a: "s32 (u32 (later + (0xFFFFFFFF - earlier) + 1)) = s32 (later - earlier)"
    using s32_add_full [of "later - earlier"] by (simp add: algebra_simps)
  have b: "s32 (- s32 (u32 (earlier + (0xFFFFFFFF - later) + 1))) = s32 (later - earlier)"
    using s32_add_full [of "later - earlier - 4294967296"] by (simp add: s32_uminus_s32 algebra_simps)
  have c: "s32 (- s32 (u32 (earlier - later))) = s32 (later - earlier)"
    by (simp add: s32_uminus_s32)
  show ?thesis
    unfolding TimeDiff_def Let_def a b c by simp
qed

lemma TimeDiff_id: "in32 (later - earlier) \<Longrightarrow> TimeDiff later earlier = later - earlier"
  by (simp add: TimeDiff_wraps s32_id)

subsection \<open>Arithmetic on \<open>uint32\<close>\<close>

lemma u32_add_u32 [c_wrap]: "u32 (u32 x + y) = u32 (x + y)" "u32 (x + u32 y) = u32 (x + y)"
  by (simp_all add: u32_def mod_simps)

lemma u32_diff_u32 [c_wrap]: "u32 (u32 x - y) = u32 (x - y)" "u32 (x - u32 y) = u32 (x - y)"
  by (simp_all add: u32_def mod_simps)

lemma u32_mult_u32 [c_wrap]: "u32 (u32 x * y) = u32 (x * y)" "u32 (x * u32 y) = u32 (x * y)"
  by (simp_all add: u32_def mod_simps)

lemma u32_id: "0 \<le> x \<Longrightarrow> x < 4294967296 \<Longrightarrow> u32 x = x"
  by (simp add: u32_def mod_pos_pos_trivial)

lemma u32_minus: "- 4294967296 \<le> x \<Longrightarrow> x < 0 \<Longrightarrow> u32 x = x + 4294967296"
  using mod_add_self2 [of x 4294967296] mod_pos_pos_trivial [of "x + 4294967296" 4294967296] by (simp add: u32_def)

lemma u32_le: "0 \<le> x \<Longrightarrow> u32 x \<le> x"
  by (simp add: u32_def zmod_le_nonneg_dividend)

text \<open>
  Clock differences survive the wrap-around. For two instants less than \<open>2 ^ 31\<close> milliseconds (24
  days) apart, whatever their sizes, \<open>TimeDiff\<close> of the two 32-bit clock readings is the exact signed
  difference of the instants.
\<close>

theorem TimeDiff_across_wrap:
  assumes "- 2147483648 \<le> t1 - t0" "t1 - t0 < 2147483648"
  shows "TimeDiff (u32 t1) (u32 t0) = t1 - t0"
proof -
  have "s32 (u32 t1 - u32 t0) = s32 (t1 - t0)" by (rule s32_cong) (simp add: u32_def mod_simps)
  then show ?thesis using assms by (simp add: TimeDiff_wraps s32_id)
qed

theorem TimeDiff_across_wrap_witness:
  "TimeDiff (u32 4294967396) (u32 4294967200) = 196 \<and> u32 4294967396 = 100"
  using TimeDiff_across_wrap [of 4294967396 4294967200] by (simp add: u32_def)

subsection \<open>Undefined behaviour\<close>

text \<open>\<open>defined P\<close> lets the operation go on when the access it guards is within bounds.\<close>

definition defined :: "bool \<Rightarrow> unit option" where
  "defined P = (if P then Some () else None)"

lemma defined_simps [simp]: "defined True = Some ()" "defined False = None"
  by (simp_all add: defined_def)

lemma defined_Some [simp]: "defined P = Some u \<longleftrightarrow> P"
  by (simp add: defined_def)

lemma bind_defined: "(defined P \<bind> f = Some x) \<longleftrightarrow> P \<and> f () = Some x"
  by (cases P) simp_all

end
