(* ===== verification/LJ_PseudoTcp.thy ===== *)
theory LJ_PseudoTcp
  imports LJ_Base
begin

text \<open>
  The TCP over datagrams of libjingle (\<open>talk/p2p/base/pseudotcp.cc\<close>, \<open>pseudotcp.h\<close>): the control
  block, the segment lists and buffers, and every operation of the class: \<open>Connect\<close>, \<open>Send\<close>,
  \<open>Recv\<close>, \<open>Close\<close>, \<open>NotifyPacket\<close>, \<open>NotifyClock\<close>, \<open>NotifyMTU\<close>, \<open>GetNextClock\<close> with the internal
  \<open>queue\<close>, \<open>packet\<close>, \<open>parse\<close>, \<open>process\<close>, \<open>transmit\<close>, \<open>attemptSend\<close>, \<open>closedown\<close>, \<open>adjustMTU\<close>.

  The environment is a parameter: the readings of the clock, in their order, and the network's
  answers to the packets it is handed, in their order. The packets it took and the callbacks are
  recorded in the state. \<open>None\<close> is undefined behaviour (an access outside the buffers or a
  list, a packet above 65535 bytes, a division by zero) or a loop that does not end.
\<close>

subsection \<open>Constants\<close>

definition PACKET_MAXIMUMS :: "int list" where
  "PACKET_MAXIMUMS = [65535, 32000, 17914, 8166, 4352, 2002, 1492, 1006, 508, 296, 0]"

abbreviation (input) MAX_PACKET :: int where "MAX_PACKET \<equiv> 65535"
abbreviation (input) MIN_PACKET :: int where "MIN_PACKET \<equiv> 296"
abbreviation (input) HEADER_SIZE :: int where "HEADER_SIZE \<equiv> 24"

text \<open>The header, and those of UDP (8), IP (20) and Jingle (64).\<close>

abbreviation (input) PACKET_OVERHEAD :: int where "PACKET_OVERHEAD \<equiv> 116"
abbreviation (input) MIN_RTO :: int where "MIN_RTO \<equiv> 250"
abbreviation (input) DEF_RTO :: int where "DEF_RTO \<equiv> 3000"
abbreviation (input) MAX_RTO :: int where "MAX_RTO \<equiv> 60000"
abbreviation (input) ACK_DELAY :: int where "ACK_DELAY \<equiv> 100"
abbreviation (input) DEFAULT_TIMEOUT :: int where "DEFAULT_TIMEOUT \<equiv> 4000"
abbreviation (input) CLOSED_TIMEOUT :: int where "CLOSED_TIMEOUT \<equiv> 60000"
abbreviation (input) FLAG_CTL :: int where "FLAG_CTL \<equiv> 2"
abbreviation (input) FLAG_RST :: int where "FLAG_RST \<equiv> 4"
abbreviation (input) CTL_CONNECT :: int where "CTL_CONNECT \<equiv> 0"
abbreviation (input) kRcvBufSize :: int where "kRcvBufSize \<equiv> 61440"
abbreviation (input) kSndBufSize :: int where "kSndBufSize \<equiv> 92160"

subsection \<open>Types\<close>

datatype TcpState = TCP_LISTEN | TCP_SYN_SENT | TCP_SYN_RECEIVED | TCP_ESTABLISHED | TCP_CLOSED
datatype Shutdown = SD_NONE | SD_GRACEFUL | SD_FORCEFUL
datatype SendFlags = sfNone | sfDelayedAck | sfImmediateAck
datatype WriteResult = WR_SUCCESS | WR_TOO_LARGE | WR_FAIL
datatype tcp_errno = NO_ERROR | EINVAL | ENOTCONN | EWOULDBLOCK | ECONNABORTED | ECONNRESET
datatype tcp_event = OnTcpOpen | OnTcpReadable | OnTcpWriteable | OnTcpClosed tcp_errno

text \<open>A segment in the send list, a received range, a parsed packet (its data run on behind \<open>seg_len\<close>).\<close>

record SSegment =
  s_seq :: int
  s_len :: int
  s_xmit :: int
  s_bCtrl :: bool

record RSegment =
  r_seq :: int
  r_len :: int

record Segment =
  seg_conv :: int
  seg_seq :: int
  seg_ack :: int
  seg_flags :: int
  seg_wnd :: int
  seg_data :: "int list"
  seg_len :: int
  seg_tsval :: int
  seg_tsecr :: int

record tcp_env =
  clock :: "nat \<Rightarrow> int"
  write_result :: "nat \<Rightarrow> int list \<Rightarrow> WriteResult"

record PseudoTcp =
  m_shutdown :: Shutdown
  m_error :: tcp_errno
  m_state :: TcpState
  m_conv :: int
  m_bReadEnable :: bool
  m_bWriteEnable :: bool
  m_bOutgoing :: bool
  m_lasttraffic :: int
  m_rlist :: "RSegment list"
  m_rbuf :: "int list"
  m_rcv_nxt :: int
  m_rcv_wnd :: int
  m_rlen :: int
  m_lastrecv :: int
  m_slist :: "SSegment list"
  m_sbuf :: "int list"
  m_snd_nxt :: int
  m_snd_wnd :: int
  m_slen :: int
  m_lastsend :: int
  m_snd_una :: int
  m_mss :: int
  m_msslevel :: nat
  m_largest :: int
  m_mtu_advise :: int
  m_rto_base :: int
  m_ts_recent :: int
  m_ts_lastack :: int
  m_rx_rttvar :: int
  m_rx_srtt :: int
  m_rx_rto :: int
  m_ssthresh :: int
  m_cwnd :: int
  m_dup_acks :: int
  m_recover :: int
  m_t_ack :: int
  ticks :: nat
  attempts :: nat
  written :: "int list list"
  events :: "tcp_event list"

definition Now :: "tcp_env \<Rightarrow> PseudoTcp \<Rightarrow> int \<times> PseudoTcp" where
  "Now E s = (u32 (clock E (ticks s)), s\<lparr>ticks := ticks s + 1\<rparr>)"

definition notify :: "tcp_event \<Rightarrow> PseudoTcp \<Rightarrow> PseudoTcp" where
  "notify ev s = s\<lparr>events := events s @ [ev]\<rparr>"

definition bound :: "int \<Rightarrow> int \<Rightarrow> int \<Rightarrow> int" where
  "bound lower middle upper = min (max lower middle) upper"

text \<open>The constructor leaves the two buffers as they are.\<close>

definition PseudoTcp_new :: "tcp_env \<Rightarrow> int \<Rightarrow> int list \<Rightarrow> int list \<Rightarrow> PseudoTcp" where
  "PseudoTcp_new E conv rbuf sbuf =
     (let now = u32 (clock E 0)
      in \<lparr>m_shutdown = SD_NONE, m_error = NO_ERROR, m_state = TCP_LISTEN, m_conv = conv,
          m_bReadEnable = True, m_bWriteEnable = False, m_bOutgoing = False, m_lasttraffic = now,
          m_rlist = [], m_rbuf = rbuf, m_rcv_nxt = 0, m_rcv_wnd = kRcvBufSize, m_rlen = 0, m_lastrecv = now,
          m_slist = [], m_sbuf = sbuf, m_snd_nxt = 0, m_snd_wnd = 1, m_slen = 0, m_lastsend = now, m_snd_una = 0,
          m_mss = MIN_PACKET - PACKET_OVERHEAD, m_msslevel = 0, m_largest = 0, m_mtu_advise = MAX_PACKET,
          m_rto_base = 0, m_ts_recent = 0, m_ts_lastack = 0, m_rx_rttvar = 0, m_rx_srtt = 0, m_rx_rto = DEF_RTO,
          m_ssthresh = kRcvBufSize, m_cwnd = 2 * (MIN_PACKET - PACKET_OVERHEAD), m_dup_acks = 0, m_recover = 0,
          m_t_ack = 0, ticks = 1, attempts = 0, written = [], events = []\<rparr>)"

subsection \<open>Writing a packet\<close>

definition packet_bytes :: "PseudoTcp \<Rightarrow> int \<Rightarrow> int \<Rightarrow> int \<Rightarrow> int list \<Rightarrow> int list" where
  "packet_bytes s now seq flags data =
     long_to_bytes (m_conv s) @ long_to_bytes seq @ long_to_bytes (m_rcv_nxt s) @ [0, flags]
     @ short_to_bytes (u16 (m_rcv_wnd s)) @ long_to_bytes now @ long_to_bytes (m_ts_recent s) @ data"

text \<open>\<open>data = None\<close> is the null pointer with length 0: an acknowledgement, whose write result is ignored.\<close>

definition packet ::
  "tcp_env \<Rightarrow> int \<Rightarrow> int \<Rightarrow> int list option \<Rightarrow> PseudoTcp \<Rightarrow> (WriteResult \<times> PseudoTcp) option" where
  "packet E seq flags data s =
     (let d = (case data of None \<Rightarrow> [] | Some d \<Rightarrow> d); len = int (length d)
      in do {
        defined (HEADER_SIZE + len \<le> MAX_PACKET);
        let (now, s) = Now E s;
            pkt = packet_bytes s now seq flags d;
            wres = write_result E (attempts s) pkt;
            s = s\<lparr>m_ts_lastack := m_rcv_nxt s, attempts := attempts s + 1,
                  written := (if wres = WR_SUCCESS then written s @ [pkt] else written s)\<rparr>
        in if wres \<noteq> WR_SUCCESS \<and> data \<noteq> None then Some (wres, s)
           else Some (WR_SUCCESS,
                      s\<lparr>m_t_ack := 0, m_lastsend := (if len > 0 then now else m_lastsend s),
                        m_lasttraffic := now, m_bOutgoing := True\<rparr>)
      })"

subsection \<open>Sending\<close>

text \<open>The network refused a packet as too large: the next smaller packet size, until one helps.\<close>

function shrink_mss :: "int \<Rightarrow> PseudoTcp \<Rightarrow> (bool \<times> int \<times> PseudoTcp) option" where
  "shrink_mss nTransmit s =
     (if m_msslevel s + 1 < length PACKET_MAXIMUMS then
        (if PACKET_MAXIMUMS ! (m_msslevel s + 1) = 0 then Some (False, nTransmit, s)
         else
           (let mss = u32 (PACKET_MAXIMUMS ! (m_msslevel s + 1) - PACKET_OVERHEAD);
                s = s\<lparr>m_msslevel := m_msslevel s + 1, m_mss := mss, m_cwnd := u32 (2 * mss)\<rparr>
            in if m_mss s < nTransmit then Some (True, m_mss s, s) else shrink_mss nTransmit s))
      else None)"
  by pat_completeness auto
termination by (relation "measure (\<lambda>(n, s). length PACKET_MAXIMUMS - m_msslevel s)") (auto simp: PACKET_MAXIMUMS_def)

declare shrink_mss.simps [simp del]

partial_function (option) transmit_loop ::
  "tcp_env \<Rightarrow> nat \<Rightarrow> int \<Rightarrow> PseudoTcp \<Rightarrow> (bool \<times> int \<times> PseudoTcp) option" where
  "transmit_loop E i nTransmit s =
     (let seg = m_slist s ! i; off = u32 (s_seq seg - m_snd_una s)
      in do {
        defined (off + nTransmit \<le> kSndBufSize);
        (wres, s) \<leftarrow> packet E (s_seq seg) (if s_bCtrl seg then FLAG_CTL else 0)
                       (Some (take (nat nTransmit) (drop (nat off) (m_sbuf s)))) s;
        if wres = WR_SUCCESS then Some (True, nTransmit, s)
        else if wres = WR_FAIL then Some (False, nTransmit, s)
        else do {
          (ok, nTransmit, s) \<leftarrow> shrink_mss nTransmit s;
          if ok then transmit_loop E i nTransmit s else Some (False, nTransmit, s)
        }
      })"

declare transmit_loop.simps [code]

text \<open>Segment \<open>i\<close> keeps its first \<open>n\<close> bytes, the rest becomes the next segment.\<close>

definition split_segment :: "nat \<Rightarrow> int \<Rightarrow> SSegment list \<Rightarrow> SSegment list" where
  "split_segment i n l =
     (let seg = l ! i;
          subseg = \<lparr>s_seq = u32 (s_seq seg + n), s_len = u32 (s_len seg - n), s_xmit = s_xmit seg, s_bCtrl = s_bCtrl seg\<rparr>
      in take i l @ [seg\<lparr>s_len := n\<rparr>, subseg] @ drop (Suc i) l)"

text \<open>After the packet went out: the unsent rest of the segment, the sequence number, the retransmission timer.\<close>

definition transmitted :: "nat \<Rightarrow> int \<Rightarrow> int \<Rightarrow> PseudoTcp \<Rightarrow> PseudoTcp" where
  "transmitted i now nTransmit s =
     (let s = (if nTransmit < s_len (m_slist s ! i) then s\<lparr>m_slist := split_segment i nTransmit (m_slist s)\<rparr> else s);
          seg = m_slist s ! i;
          s = (if s_xmit seg = 0 then s\<lparr>m_snd_nxt := u32 (m_snd_nxt s + s_len seg)\<rparr> else s);
          s = s\<lparr>m_slist := (m_slist s)[i := seg\<lparr>s_xmit := u8 (s_xmit seg + 1)\<rparr>]\<rparr>
      in if m_rto_base s = 0 then s\<lparr>m_rto_base := now\<rparr> else s)"

definition transmit :: "tcp_env \<Rightarrow> nat \<Rightarrow> int \<Rightarrow> PseudoTcp \<Rightarrow> (bool \<times> PseudoTcp) option" where
  "transmit E i now s = do {
     defined (i < length (m_slist s));
     let seg = m_slist s ! i
     in if s_xmit seg \<ge> (if m_state s = TCP_ESTABLISHED then 15 else 30) then Some (False, s)
        else do {
          (ok, nTransmit, s) \<leftarrow> transmit_loop E i (min (s_len seg) (m_mss s)) s;
          Some (if ok then (True, transmitted i now nTransmit s) else (False, s))
        }
   }"

text \<open>How much of the queue may go out now: the windows, and silly window avoidance.\<close>

definition nInFlight :: "PseudoTcp \<Rightarrow> int" where
  "nInFlight s = u32 (m_snd_nxt s - m_snd_una s)"

definition send_available :: "PseudoTcp \<Rightarrow> int" where
  "send_available s =
     (let cwnd = (if m_dup_acks s = 1 \<or> m_dup_acks s = 2 then u32 (m_cwnd s + m_dup_acks s * m_mss s) else m_cwnd s);
          nWindow = min (m_snd_wnd s) cwnd;
          nUseable = (if nInFlight s < nWindow then nWindow - nInFlight s else 0);
          nAvailable = min (u32 (m_slen s - nInFlight s)) (m_mss s)
      in if nAvailable > nUseable then (if u32 (nUseable * 4) < nWindow then 0 else nUseable) else nAvailable)"

text \<open>Nothing to send: an acknowledgement now (asked for, or the second delayed one) or later.\<close>

definition attemptSend_ack :: "tcp_env \<Rightarrow> SendFlags \<Rightarrow> PseudoTcp \<Rightarrow> PseudoTcp option" where
  "attemptSend_ack E sflags s =
     (if sflags = sfNone then Some s
      else if sflags = sfImmediateAck \<or> m_t_ack s \<noteq> 0 then do {
        (_, s) \<leftarrow> packet E (m_snd_nxt s) 0 None s;
        Some s
      }
      else (let (now, s) = Now E s in Some (s\<lparr>m_t_ack := now\<rparr>)))"

fun next_unsent :: "SSegment list \<Rightarrow> nat option" where
  "next_unsent [] = None"
| "next_unsent (seg # l) = (if s_xmit seg > 0 then map_option Suc (next_unsent l) else Some 0)"

partial_function (option) attemptSend_loop :: "tcp_env \<Rightarrow> int \<Rightarrow> SendFlags \<Rightarrow> PseudoTcp \<Rightarrow> PseudoTcp option" where
  "attemptSend_loop E now sflags s =
     (let nAvailable = send_available s
      in if nAvailable = 0 then attemptSend_ack E sflags s
         else if m_snd_nxt s > m_snd_una s \<and> nAvailable < m_mss s then Some s
         else do {
           i \<leftarrow> next_unsent (m_slist s);
           (ok, s) \<leftarrow> transmit E i now
             (if s_len (m_slist s ! i) > nAvailable
              then s\<lparr>m_slist := split_segment i nAvailable (m_slist s)\<rparr> else s);
           if ok then attemptSend_loop E now sfNone s else Some s
         })"

declare attemptSend_loop.simps [code]

definition attemptSend :: "tcp_env \<Rightarrow> SendFlags \<Rightarrow> PseudoTcp \<Rightarrow> PseudoTcp option" where
  "attemptSend E sflags s =
     (let (now, s) = Now E s;
          s = (if TimeDiff now (m_lastsend s) > s32 (m_rx_rto s) then s\<lparr>m_cwnd := m_mss s\<rparr> else s)
      in attemptSend_loop E now sflags s)"

definition queue :: "int list \<Rightarrow> bool \<Rightarrow> PseudoTcp \<Rightarrow> (int \<times> PseudoTcp) option" where
  "queue data bCtrl s =
     (let room = u32 (kSndBufSize - m_slen s);
          len = (if int (length data) > room then room else int (length data));
          l = m_slist s;
          l = (if l \<noteq> [] \<and> s_bCtrl (last l) = bCtrl \<and> s_xmit (last l) = 0
               then l[length l - 1 := (last l)\<lparr>s_len := u32 (s_len (last l) + len)\<rparr>]
               else l @ [\<lparr>s_seq = u32 (m_snd_una s + m_slen s), s_len = len, s_xmit = 0, s_bCtrl = bCtrl\<rparr>])
      in do {
        defined (m_slen s + len \<le> kSndBufSize);
        Some (len, s\<lparr>m_slist := l, m_sbuf := mem_write (m_sbuf s) (nat (m_slen s)) (take (nat len) data),
                     m_slen := u32 (m_slen s + len)\<rparr>)
      })"

subsection \<open>State changes\<close>

definition closedown :: "tcp_errno \<Rightarrow> PseudoTcp \<Rightarrow> PseudoTcp" where
  "closedown err s = notify (OnTcpClosed err) (s\<lparr>m_slen := 0, m_state := TCP_CLOSED\<rparr>)"

text \<open>The loop of \<open>adjustMTU\<close>: the first packet size that the advised one reaches, at most the last.\<close>

fun mtu_level :: "int \<Rightarrow> int list \<Rightarrow> nat" where
  "mtu_level mtu (p # q # ps) = (if q > 0 then (if u16 p \<le> mtu then 0 else Suc (mtu_level mtu (q # ps))) else 0)"
| "mtu_level mtu _ = 0"

definition adjustMTU :: "PseudoTcp \<Rightarrow> PseudoTcp" where
  "adjustMTU s =
     (let mss = u32 (m_mtu_advise s - PACKET_OVERHEAD)
      in s\<lparr>m_msslevel := mtu_level (m_mtu_advise s) PACKET_MAXIMUMS, m_mss := mss,
           m_ssthresh := max (m_ssthresh s) (u32 (2 * mss)), m_cwnd := max (m_cwnd s) mss\<rparr>)"

definition NotifyMTU :: "int \<Rightarrow> PseudoTcp \<Rightarrow> PseudoTcp" where
  "NotifyMTU mtu s =
     (let s = s\<lparr>m_mtu_advise := mtu\<rparr> in if m_state s = TCP_ESTABLISHED then adjustMTU s else s)"

definition Connect :: "tcp_env \<Rightarrow> PseudoTcp \<Rightarrow> (int \<times> PseudoTcp) option" where
  "Connect E s =
     (if m_state s \<noteq> TCP_LISTEN then Some (- 1, s\<lparr>m_error := EINVAL\<rparr>)
      else do {
        (_, s) \<leftarrow> queue [CTL_CONNECT] True (s\<lparr>m_state := TCP_SYN_SENT\<rparr>);
        s \<leftarrow> attemptSend E sfNone s;
        Some (0, s)
      })"

definition Close :: "bool \<Rightarrow> PseudoTcp \<Rightarrow> PseudoTcp" where
  "Close force s = s\<lparr>m_shutdown := (if force then SD_FORCEFUL else SD_GRACEFUL)\<rparr>"

definition GetError :: "PseudoTcp \<Rightarrow> tcp_errno" where
  "GetError s = m_error s"

definition Send :: "tcp_env \<Rightarrow> int list \<Rightarrow> PseudoTcp \<Rightarrow> (int \<times> PseudoTcp) option" where
  "Send E data s =
     (if m_state s \<noteq> TCP_ESTABLISHED then Some (- 1, s\<lparr>m_error := ENOTCONN\<rparr>)
      else if m_slen s = kSndBufSize then Some (- 1, s\<lparr>m_bWriteEnable := True, m_error := EWOULDBLOCK\<rparr>)
      else do {
        (n, s) \<leftarrow> queue data False s;
        s \<leftarrow> attemptSend E sfNone s;
        Some (n, s)
      })"

text \<open>\<open>len\<close> is the room in the caller's buffer; the bytes read are the second result.\<close>

definition Recv :: "tcp_env \<Rightarrow> nat \<Rightarrow> PseudoTcp \<Rightarrow> (int \<times> int list \<times> PseudoTcp) option" where
  "Recv E len s =
     (if m_state s \<noteq> TCP_ESTABLISHED then Some (- 1, [], s\<lparr>m_error := ENOTCONN\<rparr>)
      else if m_rlen s = 0 then Some (- 1, [], s\<lparr>m_bReadEnable := True, m_error := EWOULDBLOCK\<rparr>)
      else
        (let n = min (u32 (int len)) (m_rlen s);
             out = take (nat n) (m_rbuf s);
             s = s\<lparr>m_rlen := u32 (m_rlen s - n), m_rbuf := mem_write (m_rbuf s) 0 (drop (nat n) (m_rbuf s))\<rparr>
         in do {
           defined (n \<le> kRcvBufSize);
           s \<leftarrow> (if u32 (kRcvBufSize - m_rlen s - m_rcv_wnd s) \<ge> min (kRcvBufSize div 2) (m_mss s)
                 then (let bWasClosed = (m_rcv_wnd s = 0);
                           s = s\<lparr>m_rcv_wnd := u32 (kRcvBufSize - m_rlen s)\<rparr>
                       in if bWasClosed then attemptSend E sfImmediateAck s else Some s)
                 else Some s);
           Some (n, out, s)
         }))"

subsection \<open>The clock\<close>

text \<open>The retransmission timer; \<open>None\<close> in the inner option means that the connection was closed.\<close>

definition clock_retransmit :: "tcp_env \<Rightarrow> int \<Rightarrow> PseudoTcp \<Rightarrow> (bool \<times> PseudoTcp) option" where
  "clock_retransmit E now s =
     (if m_rto_base s \<noteq> 0 \<and> TimeDiff (u32 (m_rto_base s + m_rx_rto s)) now \<le> 0 \<and> m_slist s \<noteq> [] then do {
        (ok, s) \<leftarrow> transmit E 0 now s;
        if \<not> ok then Some (False, closedown ECONNABORTED s)
        else
          (let s = s\<lparr>m_ssthresh := max (nInFlight s div 2) (u32 (2 * m_mss s)), m_cwnd := m_mss s\<rparr>;
               rto_limit = (if m_state s = TCP_LISTEN \<or> m_state s = TCP_SYN_SENT \<or> m_state s = TCP_SYN_RECEIVED
                            then DEF_RTO else MAX_RTO)
           in Some (True, s\<lparr>m_rx_rto := min rto_limit (u32 (m_rx_rto s * 2)), m_rto_base := now\<rparr>))
      }
      else Some (True, s))"

definition clock_probe :: "tcp_env \<Rightarrow> int \<Rightarrow> PseudoTcp \<Rightarrow> (bool \<times> PseudoTcp) option" where
  "clock_probe E now s =
     (if m_snd_wnd s = 0 \<and> TimeDiff (u32 (m_lastsend s + m_rx_rto s)) now \<le> 0 then
        (if TimeDiff now (m_lastrecv s) \<ge> 15000 then Some (False, closedown ECONNABORTED s)
         else do {
           (_, s) \<leftarrow> packet E (u32 (m_snd_nxt s - 1)) 0 None s;
           Some (True, s\<lparr>m_lastsend := now, m_rx_rto := min MAX_RTO (u32 (m_rx_rto s * 2))\<rparr>)
         })
      else Some (True, s))"

definition NotifyClock :: "tcp_env \<Rightarrow> int \<Rightarrow> PseudoTcp \<Rightarrow> PseudoTcp option" where
  "NotifyClock E now s =
     (if m_state s = TCP_CLOSED then Some s
      else do {
        (go, s) \<leftarrow> clock_retransmit E now s;
        if \<not> go then Some s
        else do {
          (go, s) \<leftarrow> clock_probe E now s;
          if \<not> go then Some s
          else if m_t_ack s \<noteq> 0 \<and> TimeDiff (u32 (m_t_ack s + ACK_DELAY)) now \<le> 0 then do {
            (_, s) \<leftarrow> packet E (m_snd_nxt s) 0 None s;
            Some s
          }
          else Some s
        }
      })"

text \<open>\<open>GetNextClock\<close>: no time means that the socket is ready to be destroyed.\<close>

definition clock_check :: "int \<Rightarrow> PseudoTcp \<Rightarrow> int option" where
  "clock_check now s =
     (if m_shutdown s = SD_FORCEFUL then None
      else if m_shutdown s = SD_GRACEFUL
              \<and> (m_state s \<noteq> TCP_ESTABLISHED \<or> (m_slen s = 0 \<and> m_t_ack s = 0)) then None
      else if m_state s = TCP_CLOSED then Some CLOSED_TIMEOUT
      else
        (let t = DEFAULT_TIMEOUT;
             t = (if m_t_ack s \<noteq> 0 then min t (TimeDiff (u32 (m_t_ack s + ACK_DELAY)) now) else t);
             t = (if m_rto_base s \<noteq> 0 then min t (TimeDiff (u32 (m_rto_base s + m_rx_rto s)) now) else t);
             t = (if m_snd_wnd s = 0 then min t (TimeDiff (u32 (m_lastsend s + m_rx_rto s)) now) else t)
         in Some t))"

definition GetNextClock :: "int \<Rightarrow> PseudoTcp \<Rightarrow> int option" where
  "GetNextClock now s = clock_check now s"

subsection \<open>Processing a packet\<close>

text \<open>
  The stages of \<open>process\<close>. A stage that makes \<open>process\<close> return false has the first component False.
  Control data: \<open>bConnect\<close> is the second component.
\<close>

definition process_control :: "Segment \<Rightarrow> PseudoTcp \<Rightarrow> (bool \<times> bool \<times> PseudoTcp) option" where
  "process_control seg s =
     (if seg_flags seg AND FLAG_CTL = 0 then Some (True, False, s)
      else if seg_len seg = 0 then Some (False, False, s)
      else do {
        defined (seg_data seg \<noteq> []);
        if hd (seg_data seg) \<noteq> CTL_CONNECT then Some (False, False, s)
        else if m_state s = TCP_LISTEN then do {
          (_, s) \<leftarrow> queue [CTL_CONNECT] True (s\<lparr>m_state := TCP_SYN_RECEIVED\<rparr>);
          Some (True, True, s)
        }
        else if m_state s = TCP_SYN_SENT
        then Some (True, True, notify OnTcpOpen (adjustMTU (s\<lparr>m_state := TCP_ESTABLISHED\<rparr>)))
        else Some (True, True, s)
      })"

definition update_timestamp :: "Segment \<Rightarrow> PseudoTcp \<Rightarrow> PseudoTcp" where
  "update_timestamp seg s =
     (if seg_seq seg \<le> m_ts_lastack s \<and> m_ts_lastack s < u32 (seg_seq seg + seg_len seg)
      then s\<lparr>m_ts_recent := seg_tsval seg\<rparr> else s)"

definition update_rtt :: "int \<Rightarrow> Segment \<Rightarrow> PseudoTcp \<Rightarrow> PseudoTcp" where
  "update_rtt now seg s =
     (let rtt = TimeDiff now (seg_tsecr seg)
      in if seg_tsecr seg \<noteq> 0 \<and> rtt \<ge> 0 then
           (let rttvar = (if m_rx_srtt s = 0 then rtt div 2
                          else u32 (3 * m_rx_rttvar s + \<bar>s32 (rtt - m_rx_srtt s)\<bar>) div 4);
                srtt = (if m_rx_srtt s = 0 then rtt else u32 (7 * m_rx_srtt s + rtt) div 8)
            in s\<lparr>m_rx_rttvar := rttvar, m_rx_srtt := srtt,
                 m_rx_rto := bound MIN_RTO (u32 (srtt + max 1 (u32 (4 * rttvar)))) MAX_RTO\<rparr>)
         else s)"

text \<open>The segments that an acknowledgement of \<open>nFree\<close> bytes frees; the second argument is \<open>m_largest\<close>.\<close>

fun free_acked :: "int \<Rightarrow> int \<Rightarrow> SSegment list \<Rightarrow> (int \<times> SSegment list) option" where
  "free_acked nFree largest l =
     (if nFree \<le> 0 then Some (largest, l)
      else case l of
        [] \<Rightarrow> None
      | seg # rest \<Rightarrow>
          if nFree < s_len seg then Some (largest, seg\<lparr>s_len := u32 (s_len seg - nFree)\<rparr> # rest)
          else free_acked (nFree - s_len seg) (max (s_len seg) largest) rest)"

definition grow_cwnd :: "PseudoTcp \<Rightarrow> PseudoTcp option" where
  "grow_cwnd s =
     (if m_cwnd s < m_ssthresh s then Some (s\<lparr>m_cwnd := u32 (m_cwnd s + m_mss s)\<rparr>)
      else do {
        defined (m_cwnd s \<noteq> 0);
        Some (s\<lparr>m_cwnd := u32 (m_cwnd s + max 1 (u32 (m_mss s * m_mss s) div m_cwnd s))\<rparr>)
      })"

definition ack_congestion :: "tcp_env \<Rightarrow> int \<Rightarrow> int \<Rightarrow> PseudoTcp \<Rightarrow> (bool \<times> PseudoTcp) option" where
  "ack_congestion E now nAcked s =
     (if m_dup_acks s \<ge> 3 then
        (if m_snd_una s \<ge> m_recover s
         then Some (True, s\<lparr>m_cwnd := min (m_ssthresh s) (u32 (nInFlight s + m_mss s)), m_dup_acks := 0\<rparr>)
         else do {
           (ok, s) \<leftarrow> transmit E 0 now s;
           if ok then Some (True, s\<lparr>m_cwnd := u32 (m_cwnd s + u32 (m_mss s - min nAcked (m_cwnd s)))\<rparr>)
           else Some (False, closedown ECONNABORTED s)
         })
      else do {
        s \<leftarrow> grow_cwnd (s\<lparr>m_dup_acks := 0\<rparr>);
        Some (True, s)
      })"

definition kIdealRefillSize :: int where
  "kIdealRefillSize = (kSndBufSize + kRcvBufSize) div 2"

definition process_ack_new :: "tcp_env \<Rightarrow> int \<Rightarrow> bool \<Rightarrow> Segment \<Rightarrow> PseudoTcp \<Rightarrow> (bool \<times> PseudoTcp) option" where
  "process_ack_new E now bConnect seg s =
     (let s = update_rtt now seg s;
          nAcked = u32 (seg_ack seg - m_snd_una s);
          una = seg_ack seg;
          slen = u32 (m_slen s - nAcked);
          s = s\<lparr>m_snd_wnd := seg_wnd seg, m_snd_una := una, m_rto_base := (if una = m_snd_nxt s then 0 else now), m_slen := slen\<rparr>
      in do {
        defined (nAcked + slen \<le> kSndBufSize);
        (largest, l) \<leftarrow> free_acked nAcked (m_largest s) (m_slist s);
        (ok, s) \<leftarrow> ack_congestion E now nAcked
          (s\<lparr>m_sbuf := mem_write (m_sbuf s) 0 (take (nat slen) (drop (nat nAcked) (m_sbuf s))),
             m_largest := largest, m_slist := l\<rparr>);
        if \<not> ok then Some (False, s)
        else
          (let s = (if m_state s = TCP_SYN_RECEIVED \<and> \<not> bConnect
                    then notify OnTcpOpen (adjustMTU (s\<lparr>m_state := TCP_ESTABLISHED\<rparr>)) else s)
           in Some (True, if m_bWriteEnable s \<and> m_slen s < kIdealRefillSize
                          then notify OnTcpWriteable (s\<lparr>m_bWriteEnable := False\<rparr>) else s))
      })"

text \<open>A duplicate acknowledgement; the third one in a row starts the fast retransmission.\<close>

definition fast_retransmit :: "tcp_env \<Rightarrow> int \<Rightarrow> PseudoTcp \<Rightarrow> (bool \<times> PseudoTcp) option" where
  "fast_retransmit E now s = do {
     (ok, s) \<leftarrow> transmit E 0 now s;
     if \<not> ok then Some (False, closedown ECONNABORTED s)
     else
       (let ssthresh = max (nInFlight s div 2) (u32 (2 * m_mss s))
        in Some (True, s\<lparr>m_recover := m_snd_nxt s, m_ssthresh := ssthresh, m_cwnd := u32 (ssthresh + 3 * m_mss s)\<rparr>))
   }"

definition count_dup_ack :: "tcp_env \<Rightarrow> int \<Rightarrow> PseudoTcp \<Rightarrow> (bool \<times> PseudoTcp) option" where
  "count_dup_ack E now s =
     (let dup = u8 (m_dup_acks s + 1); s = s\<lparr>m_dup_acks := dup\<rparr>
      in if dup = 3 then fast_retransmit E now s
         else Some (True, if dup > 3 then s\<lparr>m_cwnd := u32 (m_cwnd s + m_mss s)\<rparr> else s))"

definition process_ack_dup :: "tcp_env \<Rightarrow> int \<Rightarrow> Segment \<Rightarrow> PseudoTcp \<Rightarrow> (bool \<times> PseudoTcp) option" where
  "process_ack_dup E now seg s =
     (let s = s\<lparr>m_snd_wnd := seg_wnd seg\<rparr>
      in if seg_len seg > 0 then Some (True, s)
         else if m_snd_una s \<noteq> m_snd_nxt s then count_dup_ack E now s
         else Some (True, s\<lparr>m_dup_acks := 0\<rparr>))"

definition process_ack :: "tcp_env \<Rightarrow> int \<Rightarrow> bool \<Rightarrow> Segment \<Rightarrow> PseudoTcp \<Rightarrow> (bool \<times> PseudoTcp) option" where
  "process_ack E now bConnect seg s =
     (if seg_ack seg > m_snd_una s \<and> seg_ack seg \<le> m_snd_nxt s then process_ack_new E now bConnect seg s
      else if seg_ack seg = m_snd_una s then process_ack_dup E now seg s
      else Some (True, s))"

text \<open>The acknowledgement that the segment asks for; and the part of it that fits the receive buffer.\<close>

definition segment_sflags :: "Segment \<Rightarrow> PseudoTcp \<Rightarrow> SendFlags" where
  "segment_sflags seg s =
     (if seg_seq seg \<noteq> m_rcv_nxt s then sfImmediateAck else if seg_len seg \<noteq> 0 then sfDelayedAck else sfNone)"

definition drop_old :: "Segment \<Rightarrow> PseudoTcp \<Rightarrow> Segment" where
  "drop_old seg s =
     (if seg_seq seg < m_rcv_nxt s then
        (let nAdjust = u32 (m_rcv_nxt s - seg_seq seg)
         in if nAdjust < seg_len seg
            then seg\<lparr>seg_seq := u32 (seg_seq seg + nAdjust), seg_data := drop (nat nAdjust) (seg_data seg),
                     seg_len := u32 (seg_len seg - nAdjust)\<rparr>
            else seg\<lparr>seg_len := 0\<rparr>)
      else seg)"

definition adjust_segment :: "Segment \<Rightarrow> PseudoTcp \<Rightarrow> Segment" where
  "adjust_segment seg s =
     (let seg = drop_old seg s;
          room = u32 (kRcvBufSize - m_rlen s);
          endpos = u32 (seg_seq seg + seg_len seg - m_rcv_nxt s)
      in if endpos > room then
           (let nAdjust = u32 (endpos - room)
            in if nAdjust < seg_len seg then seg\<lparr>seg_len := u32 (seg_len seg - nAdjust)\<rparr> else seg\<lparr>seg_len := 0\<rparr>)
         else seg)"

fun rlist_insert :: "RSegment \<Rightarrow> RSegment list \<Rightarrow> RSegment list" where
  "rlist_insert r [] = [r]"
| "rlist_insert r (x # l) = (if r_seq x < r_seq r then x # rlist_insert r l else r # x # l)"

text \<open>Saved ranges that the new data reaches: \<open>m_rlen\<close>, \<open>m_rcv_nxt\<close>, \<open>m_rcv_wnd\<close>, the flags and the rest.\<close>

fun recover_saved :: "RSegment list \<Rightarrow> int \<Rightarrow> int \<Rightarrow> int \<Rightarrow> SendFlags \<Rightarrow> RSegment list \<times> int \<times> int \<times> int \<times> SendFlags" where
  "recover_saved [] rlen nxt wnd fl = ([], rlen, nxt, wnd, fl)"
| "recover_saved (r # l) rlen nxt wnd fl =
     (if r_seq r \<le> nxt then
        (if u32 (r_seq r + r_len r) > nxt then
           (let nAdjust = u32 (u32 (r_seq r + r_len r) - nxt)
            in recover_saved l (u32 (rlen + nAdjust)) (u32 (nxt + nAdjust)) (u32 (wnd - nAdjust)) sfImmediateAck)
         else recover_saved l rlen nxt wnd fl)
      else (r # l, rlen, nxt, wnd, fl))"

text \<open>The data of the adjusted segment: the acknowledgement to send and whether there is new data to read.\<close>

definition process_data :: "SendFlags \<Rightarrow> Segment \<Rightarrow> PseudoTcp \<Rightarrow> (SendFlags \<times> bool \<times> PseudoTcp) option" where
  "process_data sflags seg s =
     (let bIgnoreData = (seg_flags seg AND FLAG_CTL \<noteq> 0 \<or> m_shutdown s \<noteq> SD_NONE)
      in if seg_len seg \<le> 0 then Some (sflags, False, s)
         else if bIgnoreData
         then Some (sflags, False, if seg_seq seg = m_rcv_nxt s then s\<lparr>m_rcv_nxt := u32 (m_rcv_nxt s + seg_len seg)\<rparr> else s)
         else
           (let at = m_rlen s + u32 (seg_seq seg - m_rcv_nxt s)
            in do {
              defined (at + seg_len seg \<le> kRcvBufSize \<and> seg_len seg \<le> int (length (seg_data seg)));
              let s = s\<lparr>m_rbuf := mem_write (m_rbuf s) (nat at) (take (nat (seg_len seg)) (seg_data seg))\<rparr>
              in if seg_seq seg = m_rcv_nxt s then
                   (let (rl, rlen, nxt, wnd, fl) =
                          recover_saved (m_rlist s) (u32 (m_rlen s + seg_len seg)) (u32 (m_rcv_nxt s + seg_len seg))
                            (u32 (m_rcv_wnd s - seg_len seg)) sflags
                    in Some (fl, True, s\<lparr>m_rlist := rl, m_rlen := rlen, m_rcv_nxt := nxt, m_rcv_wnd := wnd\<rparr>))
                 else Some (sflags, False,
                   s\<lparr>m_rlist := rlist_insert \<lparr>r_seq = seg_seq seg, r_len = seg_len seg\<rparr> (m_rlist s)\<rparr>)
            }))"

definition process_input :: "tcp_env \<Rightarrow> Segment \<Rightarrow> PseudoTcp \<Rightarrow> (bool \<times> PseudoTcp) option" where
  "process_input E seg s = do {
     (sflags, bNewData, s) \<leftarrow> process_data (segment_sflags seg s) (adjust_segment seg s) s;
     s \<leftarrow> attemptSend E sflags s;
     Some (True, if bNewData \<and> m_bReadEnable s then notify OnTcpReadable (s\<lparr>m_bReadEnable := False\<rparr>) else s)
   }"

definition process :: "tcp_env \<Rightarrow> Segment \<Rightarrow> PseudoTcp \<Rightarrow> (bool \<times> PseudoTcp) option" where
  "process E seg s =
     (if seg_conv seg \<noteq> m_conv s then Some (False, s)
      else
        (let (now, s) = Now E s;
             s = s\<lparr>m_lasttraffic := now, m_lastrecv := now, m_bOutgoing := False\<rparr>
         in if m_state s = TCP_CLOSED then Some (False, s)
            else if seg_flags seg AND FLAG_RST \<noteq> 0 then Some (False, closedown ECONNRESET s)
            else do {
              (ok, bConnect, s) \<leftarrow> process_control seg s;
              if \<not> ok then Some (False, s)
              else do {
                (ok, s) \<leftarrow> process_ack E now bConnect seg (update_timestamp seg s);
                if ok then process_input E seg s else Some (False, s)
              }
            }))"

text \<open>
  \<open>buffer\<close> is the memory from the packet on, \<open>sz\<close> the length of the packet: a packet of twelve bytes
  or more is taken to have a whole header.
\<close>

definition parse_segment :: "int list \<Rightarrow> int \<Rightarrow> Segment" where
  "parse_segment buffer sz =
     \<lparr>seg_conv = bytes_to_long buffer, seg_seq = bytes_to_long (drop 4 buffer), seg_ack = bytes_to_long (drop 8 buffer),
      seg_flags = buffer ! 13, seg_wnd = bytes_to_short (drop 14 buffer),
      seg_data = drop (nat HEADER_SIZE) buffer, seg_len = u32 (sz - HEADER_SIZE),
      seg_tsval = bytes_to_long (drop 16 buffer), seg_tsecr = bytes_to_long (drop 20 buffer)\<rparr>"

definition parse :: "tcp_env \<Rightarrow> int list \<Rightarrow> int \<Rightarrow> PseudoTcp \<Rightarrow> (bool \<times> PseudoTcp) option" where
  "parse E buffer sz s =
     (if sz < 12 then Some (False, s)
      else do {
        defined (HEADER_SIZE \<le> int (length buffer));
        process E (parse_segment buffer sz) s
      })"

definition NotifyPacket :: "tcp_env \<Rightarrow> int list \<Rightarrow> int \<Rightarrow> PseudoTcp \<Rightarrow> (bool \<times> PseudoTcp) option" where
  "NotifyPacket E buffer len s = (if len > MAX_PACKET then Some (False, s) else parse E buffer (u32 len) s)"

end
