(* ===== verification/LJ_PseudoTcp_Inv.thy ===== *)
theory LJ_PseudoTcp_Inv
  imports LJ_PseudoTcp
begin

text \<open>
  The invariant of one endpoint of \<open>PseudoTcp\<close>. \<open>X\<close> is the stream of all bytes it has queued (the
  first is the control byte), \<open>Y\<close> the peer's; the peer acknowledges positions in the set \<open>P\<close> only, and
  grants bytes up to \<open>M\<close> only. The lemmas show that every internal operation keeps the invariant, so
  that it is defined and ends, and that whatever the endpoint writes agrees with its stream.
\<close>

subsection \<open>The send list\<close>

text \<open>
  The segments cover the stream from \<open>a\<close> to \<open>b\<close> without gaps; those before \<open>nxt\<close> have been sent; only
  the last may be empty; the control byte is a segment of its own, the first of the stream.
\<close>

fun seg_chain :: "int \<Rightarrow> int \<Rightarrow> SSegment list \<Rightarrow> int \<Rightarrow> bool" where
  "seg_chain nxt a [] b \<longleftrightarrow> a = b"
| "seg_chain nxt a (g # l) b \<longleftrightarrow>
     s_seq g = a \<and> 0 \<le> s_len g \<and> (s_len g = 0 \<longrightarrow> l = [] \<and> s_xmit g = 0)
     \<and> 0 \<le> s_xmit g \<and> s_xmit g \<le> 30
     \<and> (s_xmit g > 0 \<longrightarrow> a + s_len g \<le> nxt) \<and> (s_xmit g = 0 \<longrightarrow> nxt \<le> a)
     \<and> (s_bCtrl g \<longleftrightarrow> a = 0) \<and> (s_bCtrl g \<longrightarrow> s_len g = 1)
     \<and> seg_chain nxt (a + s_len g) l b"

text \<open>The boundaries of the segments.\<close>

fun seg_bound :: "int \<Rightarrow> SSegment list \<Rightarrow> int \<Rightarrow> bool" where
  "seg_bound a [] x \<longleftrightarrow> x = a"
| "seg_bound a (g # l) x \<longleftrightarrow> x = a \<or> seg_bound (a + s_len g) l x"

lemma seg_bound_start [simp]: "seg_bound a l a"
  by (cases l) simp_all

lemma chain_le: "seg_chain nxt a l b \<Longrightarrow> a \<le> b"
  by (induction nxt a l b rule: seg_chain.induct) auto

lemma bound_range: "seg_chain nxt a l b \<Longrightarrow> seg_bound a l x \<Longrightarrow> a \<le> x \<and> x \<le> b"
  by (induction nxt a l b rule: seg_chain.induct) (auto dest: chain_le)

lemma chain_end_bound: "seg_chain nxt a l b \<Longrightarrow> seg_bound a l b"
  by (induction nxt a l b rule: seg_chain.induct) auto

lemma free_acked_chain:
  assumes "seg_chain nxt a l b" "seg_bound a l (a + n)" "0 \<le> n"
  shows "\<exists>lg' l'. free_acked n lg l = Some (lg', l') \<and> seg_chain nxt (a + n) l' b
    \<and> (\<forall>x. a + n \<le> x \<longrightarrow> seg_bound a l x \<longrightarrow> seg_bound (a + n) l' x)"
  using assms
proof (induction l arbitrary: a n lg)
  case Nil
  then show ?case by simp
next
  case (Cons g l)
  show ?case
  proof (cases "n = 0")
    case True
    with Cons.prems show ?thesis by auto
  next
    case False
    have c: "seg_chain nxt (a + s_len g) l b" "seg_bound (a + s_len g) l (a + n)" "0 \<le> s_len g"
      using Cons.prems False by auto
    have n: "s_len g \<le> n" using bound_range [OF c(1,2)] by simp
    from Cons.IH [of "a + s_len g" "n - s_len g" "max (s_len g) lg"] c n
    obtain lg' l' where r: "free_acked (n - s_len g) (max (s_len g) lg) l = Some (lg', l')" "seg_chain nxt (a + n) l' b"
      "\<forall>x. a + n \<le> x \<longrightarrow> seg_bound (a + s_len g) l x \<longrightarrow> seg_bound (a + n) l' x" by auto
    have "free_acked n lg (g # l) = Some (lg', l')" using r(1) n False Cons.prems(3) by simp
    moreover have "seg_bound a (g # l) x \<Longrightarrow> a + n \<le> x \<Longrightarrow> seg_bound (a + n) l' x" for x
      using r(3) False Cons.prems(3) by auto
    ultimately show ?thesis using r(2) by blast
  qed
qed

declare free_acked.simps [simp del]

text \<open>Position of a segment; everything about the segment at an index.\<close>

lemma chain_nth:
  assumes "seg_chain nxt a l b" "i < length l"
  shows "a \<le> s_seq (l ! i)" "s_seq (l ! i) + s_len (l ! i) \<le> b" "0 \<le> s_len (l ! i)" "0 \<le> s_xmit (l ! i)" "s_xmit (l ! i) \<le> 30"
    "s_xmit (l ! i) > 0 \<Longrightarrow> s_seq (l ! i) + s_len (l ! i) \<le> nxt" "s_xmit (l ! i) = 0 \<Longrightarrow> nxt \<le> s_seq (l ! i)"
    "s_bCtrl (l ! i) \<longleftrightarrow> s_seq (l ! i) = 0" "s_bCtrl (l ! i) \<Longrightarrow> s_len (l ! i) = 1"
    "seg_bound a l (s_seq (l ! i))" "seg_bound a l (s_seq (l ! i) + s_len (l ! i))"
    "s_xmit (l ! i) > 0 \<Longrightarrow> 0 < s_len (l ! i)" "s_len (l ! i) = 0 \<Longrightarrow> s_seq (l ! i) = b"
proof -
  have "a \<le> s_seq (l ! i) \<and> s_seq (l ! i) + s_len (l ! i) \<le> b \<and> 0 \<le> s_len (l ! i) \<and> 0 \<le> s_xmit (l ! i) \<and> s_xmit (l ! i) \<le> 30
    \<and> (s_xmit (l ! i) > 0 \<longrightarrow> s_seq (l ! i) + s_len (l ! i) \<le> nxt) \<and> (s_xmit (l ! i) = 0 \<longrightarrow> nxt \<le> s_seq (l ! i))
    \<and> (s_bCtrl (l ! i) \<longleftrightarrow> s_seq (l ! i) = 0) \<and> (s_bCtrl (l ! i) \<longrightarrow> s_len (l ! i) = 1)
    \<and> seg_bound a l (s_seq (l ! i)) \<and> seg_bound a l (s_seq (l ! i) + s_len (l ! i))
    \<and> (s_xmit (l ! i) > 0 \<longrightarrow> 0 < s_len (l ! i)) \<and> (s_len (l ! i) = 0 \<longrightarrow> s_seq (l ! i) = b)"
    using assms
  proof (induction nxt a l b arbitrary: i rule: seg_chain.induct)
    case (2 nxt a g l b)
    show ?case
    proof (cases i)
      case 0
      then show ?thesis using 2 chain_le [of nxt "a + s_len g" l b] by auto
    next
      case (Suc j)
      have "0 \<le> s_len g" using 2(2) by simp
      then show ?thesis using 2(1) [of j] 2(2,3) Suc by auto
    qed
  qed simp
  then show "a \<le> s_seq (l ! i)" "s_seq (l ! i) + s_len (l ! i) \<le> b" "0 \<le> s_len (l ! i)" "0 \<le> s_xmit (l ! i)" "s_xmit (l ! i) \<le> 30"
    "s_xmit (l ! i) > 0 \<Longrightarrow> s_seq (l ! i) + s_len (l ! i) \<le> nxt" "s_xmit (l ! i) = 0 \<Longrightarrow> nxt \<le> s_seq (l ! i)"
    "s_bCtrl (l ! i) \<longleftrightarrow> s_seq (l ! i) = 0" "s_bCtrl (l ! i) \<Longrightarrow> s_len (l ! i) = 1"
    "seg_bound a l (s_seq (l ! i))" "seg_bound a l (s_seq (l ! i) + s_len (l ! i))"
    "s_xmit (l ! i) > 0 \<Longrightarrow> 0 < s_len (l ! i)" "s_len (l ! i) = 0 \<Longrightarrow> s_seq (l ! i) = b" by auto
qed

text \<open>Splitting a segment in two.\<close>

lemma split_chain:
  assumes "seg_chain nxt a l b" "i < length l" "0 < n" "n < s_len (l ! i)" "0 \<le> a" "b < 4294967296"
  shows "seg_chain nxt a (split_segment i n l) b" "seg_bound a l x \<Longrightarrow> seg_bound a (split_segment i n l) x"
    "length (split_segment i n l) = Suc (length l)"
proof -
  have "seg_chain nxt a (split_segment i n l) b \<and> (seg_bound a l x \<longrightarrow> seg_bound a (split_segment i n l) x)"
    using assms
  proof (induction l arbitrary: a i)
    case (Cons g l)
    show ?case
    proof (cases i)
      case 0
      have c: "seg_chain nxt (a + s_len g) l b" using Cons.prems(1) by simp
      have u: "u32 (a + n) = a + n" "u32 (s_len g - n) = s_len g - n"
        using Cons.prems 0 chain_le [OF c] by (auto intro!: u32_id)
      show ?thesis using Cons.prems 0 u c by (auto simp: split_segment_def)
    next
      case (Suc j)
      have s: "split_segment i n (g # l) = g # split_segment j n l" by (simp add: split_segment_def Suc Let_def)
      have "0 \<le> s_len g" using Cons.prems(1) by simp
      then have "seg_chain nxt (a + s_len g) (split_segment j n l) b
        \<and> (seg_bound (a + s_len g) l x \<longrightarrow> seg_bound (a + s_len g) (split_segment j n l) x)"
        using Cons.prems Suc by (intro Cons.IH) auto
      moreover have "l \<noteq> []" using Cons.prems(2) Suc by auto
      ultimately show ?thesis using Cons.prems(1) by (auto simp: s)
    qed
  qed simp
  then show "seg_chain nxt a (split_segment i n l) b" "seg_bound a l x \<Longrightarrow> seg_bound a (split_segment i n l) x" by auto
  show "length (split_segment i n l) = Suc (length l)" using assms(2) by (simp add: split_segment_def Let_def)
qed

lemma split_nth:
  assumes "i < length l"
  shows "split_segment i n l ! i = (l ! i)\<lparr>s_len := n\<rparr>" "j < i \<Longrightarrow> split_segment i n l ! j = l ! j"
  using assms by (simp_all add: split_segment_def Let_def nth_append)

text \<open>The first unsent segment starts at \<open>nxt\<close>.\<close>

lemma next_unsent_Some:
  assumes "\<exists>g\<in>set l. s_xmit g \<le> 0"
  shows "\<exists>i. next_unsent l = Some i \<and> i < length l \<and> s_xmit (l ! i) \<le> 0 \<and> (\<forall>j<i. s_xmit (l ! j) > 0)"
  using assms
proof (induction l)
  case (Cons g l)
  show ?case
  proof (cases "s_xmit g > 0")
    case True
    then obtain i where i: "next_unsent l = Some i" "i < length l" "s_xmit (l ! i) \<le> 0" "\<forall>j<i. s_xmit (l ! j) > 0"
      using Cons by auto
    have "\<forall>j<Suc i. s_xmit ((g # l) ! j) > 0" using i(4) True by (auto simp: less_Suc_eq_0_disj)
    then show ?thesis using True i by auto
  qed simp
qed simp

lemma chain_all_sent: "seg_chain nxt a l b \<Longrightarrow> \<forall>g\<in>set l. s_xmit g > 0 \<Longrightarrow> a \<le> nxt \<Longrightarrow> b \<le> nxt"
  by (induction nxt a l b rule: seg_chain.induct) auto

lemma chain_nxt:
  assumes "seg_chain nxt a l b" "i < length l" "\<forall>j<i. s_xmit (l ! j) > 0" "s_xmit (l ! i) = 0" "a \<le> nxt"
  shows "s_seq (l ! i) = nxt"
  using assms
proof (induction nxt a l b arbitrary: i rule: seg_chain.induct)
  case (2 nxt a g l b)
  show ?case
  proof (cases i)
    case 0
    then show ?thesis using 2 by auto
  next
    case (Suc j)
    have g: "s_xmit g > 0" using 2(4) [rule_format, of 0] Suc by simp
    have "\<forall>k<j. s_xmit (l ! k) > 0" using 2(4) Suc by auto
    then show ?thesis using 2(1) [of j] 2(2,3,5) g Suc by auto
  qed
qed simp

lemma chain_nxt_bound:
  assumes "seg_chain nxt a l b" "a \<le> nxt" "nxt \<le> b"
  shows "seg_bound a l nxt"
  using assms
proof (induction nxt a l b rule: seg_chain.induct)
  case (2 nxt a g l b)
  show ?case
  proof (cases "s_xmit g > 0")
    case True
    then show ?thesis using 2 by auto
  next
    case False
    then have "nxt = a" using 2 by auto
    then show ?thesis by simp
  qed
qed simp

text \<open>The first unsent segment becomes sent.\<close>

lemma chain_send:
  assumes "seg_chain nxt a l b" "i < length l" "\<forall>j<i. s_xmit (l ! j) > 0" "s_xmit (l ! i) = 0" "a \<le> nxt" "0 < s_len (l ! i)"
  shows "seg_chain (nxt + s_len (l ! i)) a (l[i := (l ! i)\<lparr>s_xmit := 1\<rparr>]) b"
  using assms
proof (induction nxt a l b arbitrary: i rule: seg_chain.induct)
  case (2 nxt a g l b)
  have up: "seg_chain (nxt + n) a' l' b'" if "seg_chain nxt a' l' b'" "0 \<le> n" "nxt + n \<le> a'" for n a' l' b'
    using that by (induction nxt a' l' b' rule: seg_chain.induct) auto
  show ?case
  proof (cases i)
    case 0
    have "nxt = a" using 2 0 by auto
    then show ?thesis using 2 0 up [of "a + s_len g" l b "s_len g"] by auto
  next
    case (Suc j)
    have g: "s_xmit g > 0" using 2(4) [rule_format, of 0] Suc by simp
    have n: "0 < s_len (l ! j)" using 2(7) Suc by simp
    have "seg_chain (nxt + s_len (l ! j)) (a + s_len g) (l[j := (l ! j)\<lparr>s_xmit := 1\<rparr>]) b"
      using 2(2-7) Suc g by (intro 2(1)) auto
    then show ?thesis using 2(2,3) Suc g n by auto
  qed
qed simp

lemma chain_resend:
  assumes "seg_chain nxt a l b" "i < length l" "s_xmit (l ! i) > 0" "s_xmit (l ! i) < 30"
  shows "seg_chain nxt a (l[i := (l ! i)\<lparr>s_xmit := s_xmit (l ! i) + 1\<rparr>]) b"
  using assms
proof (induction nxt a l b arbitrary: i rule: seg_chain.induct)
  case (2 nxt a g l b)
  show ?case using 2 by (cases i) auto
qed simp

lemma bound_update: "s_len g = s_len (l ! i) \<Longrightarrow> i < length l \<Longrightarrow> seg_bound a (l[i := g]) x = seg_bound a l x"
proof (induction l arbitrary: a i)
  case (Cons h l)
  then show ?case by (cases i) auto
qed simp

subsection \<open>The invariant\<close>

text \<open>Ranges of the numbers.\<close>

definition num_ok :: "PseudoTcp \<Rightarrow> bool" where
  "num_ok s \<longleftrightarrow> 0 \<le> m_conv s \<and> m_conv s < 4294967296 \<and> 0 \<le> m_ts_recent s \<and> m_ts_recent s < 4294967296
     \<and> 1 \<le> m_mss s \<and> m_mss s \<le> 65419 \<and> m_msslevel s \<le> 9 \<and> 1 \<le> m_ssthresh s
     \<and> 0 \<le> m_cwnd s \<and> m_cwnd s < 4294967296 \<and> 0 \<le> m_dup_acks s \<and> m_dup_acks s \<le> 255
     \<and> MIN_RTO \<le> m_rx_rto s \<and> m_rx_rto s \<le> MAX_RTO \<and> 0 \<le> m_snd_wnd s \<and> m_snd_wnd s \<le> 65535
     \<and> PACKET_OVERHEAD < m_mtu_advise s \<and> m_mtu_advise s \<le> 65535"

text \<open>The sender.\<close>

definition snd_ok :: "int list \<Rightarrow> PseudoTcp \<Rightarrow> bool" where
  "snd_ok X s \<longleftrightarrow> length (m_sbuf s) = 92160 \<and> 0 \<le> m_snd_una s \<and> m_snd_una s \<le> m_snd_nxt s \<and> m_snd_nxt s \<le> int (length X)
     \<and> int (length X) < 4294967296 \<and> seg_chain (m_snd_nxt s) (m_snd_una s) (m_slist s) (int (length X))
     \<and> 0 \<le> m_slen s \<and> m_slen s \<le> kSndBufSize
     \<and> (m_state s \<noteq> TCP_CLOSED \<longrightarrow> m_snd_una s + m_slen s = int (length X)
          \<and> take (nat (m_slen s)) (m_sbuf s) = drop (nat (m_snd_una s)) X)
     \<and> m_recover s \<le> m_snd_nxt s \<and> (m_rto_base s \<noteq> 0 \<longrightarrow> m_snd_una s < m_snd_nxt s)
     \<and> octets X \<and> (X \<noteq> [] \<longrightarrow> hd X = CTL_CONNECT) \<and> (m_state s = TCP_LISTEN \<longrightarrow> X = [])
     \<and> (m_state s \<in> {TCP_SYN_SENT, TCP_SYN_RECEIVED, TCP_ESTABLISHED} \<longrightarrow> X \<noteq> [])"

definition bnd :: "PseudoTcp \<Rightarrow> int \<Rightarrow> bool" where
  "bnd s x \<longleftrightarrow> x \<le> m_snd_una s \<or> seg_bound (m_snd_una s) (m_slist s) x"

text \<open>The receiver, \<open>k\<close> bytes of data delivered; what a saved range promises.\<close>

definition saved_ok :: "int list \<Rightarrow> int set \<Rightarrow> PseudoTcp \<Rightarrow> RSegment \<Rightarrow> bool" where
  "saved_ok Y P s r \<longleftrightarrow> 0 \<le> r_seq r \<and> 0 < r_len r \<and> r_seq r + r_len r \<le> int (length Y) \<and> r_seq r + r_len r \<in> P
     \<and> r_seq r + r_len r \<le> m_rcv_nxt s + m_rcv_wnd s
     \<and> (m_shutdown s = SD_NONE \<longrightarrow>
         (\<forall>j. m_rcv_nxt s \<le> j \<longrightarrow> r_seq r \<le> j \<longrightarrow> j < r_seq r + r_len r
            \<longrightarrow> m_rbuf s ! nat (m_rlen s + (j - m_rcv_nxt s)) = Y ! nat j))"

definition rcv_ok :: "int list \<Rightarrow> int set \<Rightarrow> nat \<Rightarrow> PseudoTcp \<Rightarrow> bool" where
  "rcv_ok Y P k s \<longleftrightarrow> length (m_rbuf s) = 61440 \<and> 0 \<le> m_rlen s \<and> 0 \<le> m_rcv_wnd s \<and> m_rlen s + m_rcv_wnd s \<le> kRcvBufSize
     \<and> 0 \<le> m_rcv_nxt s \<and> m_rcv_nxt s \<le> int (length Y) \<and> m_rcv_nxt s \<in> P \<and> int (length Y) < 4294967296
     \<and> (m_rcv_nxt s = 0 \<longrightarrow> m_rlen s = 0 \<and> k = 0 \<and> m_rlist s = [])
     \<and> (m_rcv_nxt s \<ge> 1 \<longrightarrow> 1 + int k + m_rlen s \<le> m_rcv_nxt s \<and> (m_shutdown s = SD_NONE \<longrightarrow> 1 + int k + m_rlen s = m_rcv_nxt s))
     \<and> take (nat (m_rlen s)) (m_rbuf s) = take (nat (m_rlen s)) (drop (1 + k) Y)
     \<and> (\<forall>r\<in>set (m_rlist s). saved_ok Y P s r)"

text \<open>A packet that has been written.\<close>

definition data_ok :: "int list \<Rightarrow> Segment \<Rightarrow> bool" where
  "data_ok X g \<longleftrightarrow> seg_len g = int (length (seg_data g)) \<and> 0 \<le> seg_seq g \<and> seg_seq g < 4294967296 \<and> seg_flags g \<in> {0, FLAG_CTL}
     \<and> (seg_flags g = FLAG_CTL \<longrightarrow> seg_seq g = 0 \<and> seg_len g = 1)
     \<and> (0 < seg_len g \<longrightarrow> seg_seq g + seg_len g \<le> int (length X)
          \<and> seg_data g = take (nat (seg_len g)) (drop (nat (seg_seq g)) X) \<and> (seg_flags g = 0 \<longrightarrow> 1 \<le> seg_seq g))"

definition pkt_ok :: "int list \<Rightarrow> int set \<Rightarrow> PseudoTcp \<Rightarrow> int list \<Rightarrow> bool" where
  "pkt_ok X P s pkt \<longleftrightarrow> 24 \<le> length pkt \<and> length pkt \<le> 65535
     \<and> (let g = parse_segment pkt (int (length pkt))
        in data_ok X g \<and> (0 < seg_len g \<longrightarrow> seg_seq g + seg_len g \<le> m_snd_nxt s \<and> bnd s (seg_seq g + seg_len g))
           \<and> 0 \<le> seg_ack g \<and> seg_ack g \<le> m_rcv_nxt s \<and> seg_ack g \<in> P \<and> 0 \<le> seg_wnd g \<and> seg_wnd g \<le> 65535
           \<and> seg_ack g + seg_wnd g \<le> m_rcv_nxt s + m_rcv_wnd s
           \<and> 0 \<le> seg_tsval g \<and> seg_tsval g < 4294967296)"

definition win_ok :: "int \<Rightarrow> PseudoTcp \<Rightarrow> bool" where
  "win_ok M s \<longleftrightarrow> m_snd_nxt s \<le> M \<and> (m_state s \<noteq> TCP_CLOSED \<longrightarrow> m_snd_una s + m_snd_wnd s \<le> M)"

definition out_ok :: "int list \<Rightarrow> int set \<Rightarrow> PseudoTcp \<Rightarrow> bool" where
  "out_ok X P s \<longleftrightarrow> (\<forall>pkt\<in>set (written s). pkt_ok X P s pkt)"

definition endpoint_ok :: "int list \<Rightarrow> int list \<Rightarrow> int set \<Rightarrow> int \<Rightarrow> nat \<Rightarrow> PseudoTcp \<Rightarrow> bool" where
  "endpoint_ok X Y P M k s \<longleftrightarrow> num_ok s \<and> snd_ok X s \<and> rcv_ok Y P k s \<and> win_ok M s \<and> out_ok X P s"

text \<open>What no step undoes.\<close>

definition grows :: "PseudoTcp \<Rightarrow> PseudoTcp \<Rightarrow> bool" where
  "grows s s' \<longleftrightarrow> m_snd_nxt s \<le> m_snd_nxt s' \<and> m_rcv_nxt s \<le> m_rcv_nxt s'
     \<and> m_rcv_nxt s + m_rcv_wnd s \<le> m_rcv_nxt s' + m_rcv_wnd s' \<and> (\<forall>x \<le> m_snd_nxt s. bnd s x \<longrightarrow> bnd s' x)
     \<and> set (written s) \<subseteq> set (written s')"

lemma grows_refl [simp]: "grows s s"
  by (simp add: grows_def)

lemma grows_trans [trans]: "grows a b \<Longrightarrow> grows b c \<Longrightarrow> grows a c"
  unfolding grows_def by (meson order_trans subset_trans)

lemma pkt_ok_grows:
  assumes "pkt_ok X P s pkt" "grows s s'"
  shows "pkt_ok X P s' pkt"
proof -
  let ?g = "parse_segment pkt (int (length pkt))"
  note p = assms(1) [unfolded pkt_ok_def Let_def]
  note g = assms(2) [unfolded grows_def]
  have "0 < seg_len ?g \<longrightarrow> seg_seq ?g + seg_len ?g \<le> m_snd_nxt s' \<and> bnd s' (seg_seq ?g + seg_len ?g)"
    using p g by (meson order_trans)
  moreover have "seg_ack ?g \<le> m_rcv_nxt s'" "seg_ack ?g + seg_wnd ?g \<le> m_rcv_nxt s' + m_rcv_wnd s'" using p g by linarith+
  ultimately show ?thesis using p unfolding pkt_ok_def Let_def by blast
qed

subsection \<open>Writing packets\<close>

text \<open>The fields that writing a packet and a smaller segment size leave alone.\<close>

definition core :: "PseudoTcp \<Rightarrow> PseudoTcp" where
  "core s = s\<lparr>ticks := 0, attempts := 0, written := [], m_ts_lastack := 0, m_t_ack := 0, m_lastsend := 0,
     m_lasttraffic := 0, m_bOutgoing := False, m_mss := 1, m_msslevel := 0, m_cwnd := 0\<rparr>"

lemma core_sel:
  shows "m_shutdown (core s) = m_shutdown s" "m_state (core s) = m_state s" "m_conv (core s) = m_conv s"
    "m_rlist (core s) = m_rlist s" "m_rbuf (core s) = m_rbuf s" "m_rcv_nxt (core s) = m_rcv_nxt s"
    "m_rcv_wnd (core s) = m_rcv_wnd s" "m_rlen (core s) = m_rlen s" "m_slist (core s) = m_slist s"
    "m_sbuf (core s) = m_sbuf s" "m_snd_nxt (core s) = m_snd_nxt s" "m_snd_wnd (core s) = m_snd_wnd s"
    "m_slen (core s) = m_slen s" "m_snd_una (core s) = m_snd_una s" "m_rto_base (core s) = m_rto_base s"
    "m_ts_recent (core s) = m_ts_recent s" "m_rx_rto (core s) = m_rx_rto s" "m_ssthresh (core s) = m_ssthresh s"
    "m_dup_acks (core s) = m_dup_acks s" "m_recover (core s) = m_recover s"
    "m_mtu_advise (core s) = m_mtu_advise s" "events (core s) = events s"
    "m_bReadEnable (core s) = m_bReadEnable s" "m_bWriteEnable (core s) = m_bWriteEnable s"
    "m_error (core s) = m_error s" "m_largest (core s) = m_largest s" "m_lastrecv (core s) = m_lastrecv s"
    "m_rx_rttvar (core s) = m_rx_rttvar s" "m_rx_srtt (core s) = m_rx_srtt s"
  by (simp_all add: core_def)

lemma coreD:
  assumes "core s' = core s"
  shows "m_shutdown s' = m_shutdown s" "m_state s' = m_state s" "m_conv s' = m_conv s" "m_rlist s' = m_rlist s"
    "m_rbuf s' = m_rbuf s" "m_rcv_nxt s' = m_rcv_nxt s" "m_rcv_wnd s' = m_rcv_wnd s" "m_rlen s' = m_rlen s"
    "m_slist s' = m_slist s" "m_sbuf s' = m_sbuf s" "m_snd_nxt s' = m_snd_nxt s" "m_snd_wnd s' = m_snd_wnd s"
    "m_slen s' = m_slen s" "m_snd_una s' = m_snd_una s" "m_rto_base s' = m_rto_base s"
    "m_ts_recent s' = m_ts_recent s" "m_rx_rto s' = m_rx_rto s" "m_ssthresh s' = m_ssthresh s"
    "m_dup_acks s' = m_dup_acks s" "m_recover s' = m_recover s" "m_mtu_advise s' = m_mtu_advise s"
    "events s' = events s" "m_bReadEnable s' = m_bReadEnable s" "m_bWriteEnable s' = m_bWriteEnable s"
    "m_error s' = m_error s" "m_largest s' = m_largest s" "m_lastrecv s' = m_lastrecv s"
    "m_rx_rttvar s' = m_rx_rttvar s" "m_rx_srtt s' = m_rx_srtt s"
  using arg_cong [OF assms, of m_shutdown] arg_cong [OF assms, of m_state] arg_cong [OF assms, of m_conv]
    arg_cong [OF assms, of m_rlist] arg_cong [OF assms, of m_rbuf] arg_cong [OF assms, of m_rcv_nxt]
    arg_cong [OF assms, of m_rcv_wnd] arg_cong [OF assms, of m_rlen] arg_cong [OF assms, of m_slist]
    arg_cong [OF assms, of m_sbuf] arg_cong [OF assms, of m_snd_nxt] arg_cong [OF assms, of m_snd_wnd]
    arg_cong [OF assms, of m_slen] arg_cong [OF assms, of m_snd_una] arg_cong [OF assms, of m_rto_base]
    arg_cong [OF assms, of m_ts_recent] arg_cong [OF assms, of m_rx_rto] arg_cong [OF assms, of m_ssthresh]
    arg_cong [OF assms, of m_dup_acks] arg_cong [OF assms, of m_recover] arg_cong [OF assms, of m_mtu_advise]
    arg_cong [OF assms, of events] arg_cong [OF assms, of m_bReadEnable] arg_cong [OF assms, of m_bWriteEnable]
    arg_cong [OF assms, of m_error] arg_cong [OF assms, of m_largest] arg_cong [OF assms, of m_lastrecv]
    arg_cong [OF assms, of m_rx_rttvar] arg_cong [OF assms, of m_rx_srtt]
  by (simp_all only: core_sel)

lemma core_ok:
  assumes "core s' = core s"
  shows "snd_ok X s' = snd_ok X s" "rcv_ok Y P k s' = rcv_ok Y P k s" "win_ok M s' = win_ok M s" "bnd s' = bnd s"
    "saved_ok Y P s' = saved_ok Y P s"
  by (simp_all add: snd_ok_def rcv_ok_def saved_ok_def win_ok_def bnd_def fun_eq_iff coreD [OF assms])

lemma core_grows:
  assumes "core s' = core s" "set (written s) \<subseteq> set (written s')"
  shows "grows s s'"
  using assms(2) by (simp add: grows_def core_ok [OF assms(1)] coreD [OF assms(1)])

lemma core_pkt_ok:
  assumes "core s' = core s"
  shows "pkt_ok X P s' pkt = pkt_ok X P s pkt" "packet_bytes s' = packet_bytes s"
  by (simp_all add: pkt_ok_def packet_bytes_def fun_eq_iff Let_def core_ok [OF assms] coreD [OF assms])

lemma parse_packet:
  assumes "0 \<le> m_conv s" "m_conv s < 4294967296" "0 \<le> seq" "seq < 4294967296" "0 \<le> m_rcv_nxt s" "m_rcv_nxt s < 4294967296"
    "0 \<le> now" "now < 4294967296" "0 \<le> m_ts_recent s" "m_ts_recent s < 4294967296" "0 \<le> m_rcv_wnd s" "m_rcv_wnd s < 65536"
    "length d \<le> 65511"
  shows "parse_segment (packet_bytes s now seq flags d) (int (length (packet_bytes s now seq flags d))) =
    \<lparr>seg_conv = m_conv s, seg_seq = seq, seg_ack = m_rcv_nxt s, seg_flags = flags, seg_wnd = m_rcv_wnd s,
     seg_data = d, seg_len = int (length d), seg_tsval = now, seg_tsecr = m_ts_recent s\<rparr>"
    "length (packet_bytes s now seq flags d) = 24 + length d"
proof -
  have n: "(long_to_bytes a @ long_to_bytes b @ long_to_bytes c @ 0 # flags # r) ! 13 = flags" for a b c and r :: "int list"
    by (simp add: long_to_bytes_def)
  have "u32 (int (length d)) = int (length d)" using assms(13) by (intro u32_id) auto
  then show "parse_segment (packet_bytes s now seq flags d) (int (length (packet_bytes s now seq flags d))) =
    \<lparr>seg_conv = m_conv s, seg_seq = seq, seg_ack = m_rcv_nxt s, seg_flags = flags, seg_wnd = m_rcv_wnd s,
     seg_data = d, seg_len = int (length d), seg_tsval = now, seg_tsecr = m_ts_recent s\<rparr>"
    using assms n by (simp add: parse_segment_def packet_bytes_def u16_id)
  show "length (packet_bytes s now seq flags d) = 24 + length d" by (simp add: packet_bytes_def)
qed

lemma packet_core:
  assumes "(case data of None \<Rightarrow> True | Some d \<Rightarrow> length d \<le> 65511)"
  shows "\<exists>w s' now. packet E seq flags data s = Some (w, s') \<and> core s' = core s \<and> 0 \<le> now \<and> now < 4294967296
    \<and> m_mss s' = m_mss s \<and> m_msslevel s' = m_msslevel s \<and> m_cwnd s' = m_cwnd s
    \<and> (written s' = written s \<and> (w = WR_SUCCESS \<longrightarrow> data = None)
       \<or> w = WR_SUCCESS \<and> written s' = written s @ [packet_bytes s now seq flags (case data of None \<Rightarrow> [] | Some d \<Rightarrow> d)])"
proof -
  define d where "d = (case data of None \<Rightarrow> [] | Some d \<Rightarrow> d)"
  have l: "HEADER_SIZE + int (length d) \<le> MAX_PACKET" using assms by (auto simp: d_def split: option.splits)
  define now where "now = u32 (clock E (ticks s))"
  have now: "0 \<le> now" "now < 4294967296" by (simp_all add: now_def)
  have t: "packet_bytes (s\<lparr>ticks := n\<rparr>) now seq flags d = packet_bytes s now seq flags d" for n
    by (simp add: packet_bytes_def)
  show ?thesis
    by (intro exI [of _ "fst (the (packet E seq flags data s))"] exI [of _ "snd (the (packet E seq flags data s))"] exI [of _ now])
       (use l now in \<open>auto simp: packet_def Let_def d_def [symmetric] Now_def now_def [symmetric] t core_def split: option.splits\<close>)
qed

lemma maximums_entry:
  assumes "l \<le> 9"
  shows "PACKET_MAXIMUMS ! (l + 1) = 0 \<and> l = 9 \<or> 296 \<le> PACKET_MAXIMUMS ! (l + 1) \<and> PACKET_MAXIMUMS ! (l + 1) \<le> 32000 \<and> l < 9"
proof -
  have "list_all (\<lambda>i. PACKET_MAXIMUMS ! (i + 1) = 0 \<and> i = 9
      \<or> 296 \<le> PACKET_MAXIMUMS ! (i + 1) \<and> PACKET_MAXIMUMS ! (i + 1) \<le> 32000 \<and> i < 9) [0..<10]"
    by (simp add: PACKET_MAXIMUMS_def upt_rec)
  then show ?thesis using assms by (simp add: list_all_iff)
qed

lemma shrink_mss_ok:
  assumes "num_ok s"
  shows "\<exists>ok n' s'. shrink_mss n s = Some (ok, n', s') \<and> core s' = core s \<and> num_ok s' \<and> written s' = written s
    \<and> m_msslevel s' \<le> 9 \<and> (ok \<longrightarrow> m_msslevel s < m_msslevel s' \<and> 1 \<le> n' \<and> n' < n) \<and> (\<not> ok \<longrightarrow> n' = n)"
  using assms
proof (induction n s rule: shrink_mss.induct)
  case (1 n s)
  have l: "m_msslevel s \<le> 9" using 1(2) by (simp add: num_ok_def)
  note e = maximums_entry [OF l]
  have len: "m_msslevel s + 1 < length PACKET_MAXIMUMS" using l by (simp add: PACKET_MAXIMUMS_def)
  show ?case
  proof (cases "PACKET_MAXIMUMS ! (m_msslevel s + 1) = 0")
    case True
    have "shrink_mss n s = Some (False, n, s)" using len True by (subst shrink_mss.simps) simp
    then show ?thesis using 1(2) l by auto
  next
    case False
    define mss where "mss = PACKET_MAXIMUMS ! Suc (m_msslevel s) - PACKET_OVERHEAD"
    have m: "180 \<le> mss" "mss \<le> 31884" and l2: "m_msslevel s < 9" using e False by (auto simp: mss_def)
    have u: "u32 mss = mss" "u32 (2 * mss) = 2 * mss" using m by (auto intro!: u32_id)
    define s1 where "s1 = s\<lparr>m_msslevel := m_msslevel s + 1, m_mss := mss, m_cwnd := 2 * mss\<rparr>"
    have s1: "num_ok s1" "core s1 = core s" "written s1 = written s" "m_msslevel s1 = m_msslevel s + 1" "m_mss s1 = mss"
      using 1(2) m l2 by (simp_all add: num_ok_def s1_def core_def)
    have eq: "shrink_mss n s = (if mss < n then Some (True, mss, s1) else shrink_mss n s1)"
      using len False by (subst shrink_mss.simps) (simp add: Let_def mss_def [symmetric] u s1_def)
    show ?thesis
    proof (cases "mss < n")
      case True
      then show ?thesis using s1 m l2 by (intro exI [of _ True] exI [of _ mss] exI [of _ s1]) (simp add: eq)
    next
      case F2: False
      have "\<exists>ok n' s'. shrink_mss n s1 = Some (ok, n', s') \<and> core s' = core s1 \<and> num_ok s' \<and> written s' = written s1
        \<and> m_msslevel s' \<le> 9 \<and> (ok \<longrightarrow> m_msslevel s1 < m_msslevel s' \<and> 1 \<le> n' \<and> n' < n) \<and> (\<not> ok \<longrightarrow> n' = n)"
        using s1(1) F2 1(1) [OF len False, of mss s1] by (simp add: mss_def [symmetric] u s1_def)
      then show ?thesis using F2 s1 by (auto simp: eq)
    qed
  qed
qed

lemma transmit_loop_ok:
  assumes "num_ok s" "s_seq (m_slist s ! i) = m_snd_una s + off" "0 \<le> off" "off < 4294967296" "off + n \<le> kSndBufSize" "1 \<le> n"
    "n \<le> 65511"
  shows "\<exists>ok n' s' now. transmit_loop E i n s = Some (ok, n', s') \<and> core s' = core s \<and> num_ok s' \<and> 0 \<le> now \<and> now < 4294967296
    \<and> 1 \<le> n' \<and> n' \<le> n
    \<and> (if ok then written s' = written s @ [packet_bytes s now (s_seq (m_slist s ! i))
              (if s_bCtrl (m_slist s ! i) then FLAG_CTL else 0) (take (nat n') (drop (nat off) (m_sbuf s)))]
       else written s' = written s)"
  using assms
proof (induction "10 - m_msslevel s" arbitrary: s n rule: less_induct)
  case less
  note a = less.prems
  have off: "u32 (s_seq (m_slist s ! i) - m_snd_una s) = off" using a(2-4) by (simp add: u32_id)
  define fl where "fl = (if s_bCtrl (m_slist s ! i) then FLAG_CTL else 0)"
  define d where "d = take (nat n) (drop (nat off) (m_sbuf s))"
  have "length d \<le> 65511" using a(6,7) by (simp add: d_def)
  then obtain w s1 now where p: "packet E (s_seq (m_slist s ! i)) fl (Some d) s = Some (w, s1)" "core s1 = core s"
    "0 \<le> now" "now < 4294967296" "m_mss s1 = m_mss s" "m_msslevel s1 = m_msslevel s" "m_cwnd s1 = m_cwnd s"
    "written s1 = written s \<and> w \<noteq> WR_SUCCESS \<or> w = WR_SUCCESS \<and> written s1 = written s @ [packet_bytes s now (s_seq (m_slist s ! i)) fl d]"
    using packet_core [of "Some d" E "s_seq (m_slist s ! i)" fl s] by auto
  note c = coreD [OF p(2)]
  have n1: "num_ok s1" using a(1) by (simp add: num_ok_def c p)
  have eq: "transmit_loop E i n s =
     (if w = WR_SUCCESS then Some (True, n, s1) else if w = WR_FAIL then Some (False, n, s1)
      else do { (ok, n, s) \<leftarrow> shrink_mss n s1; if ok then transmit_loop E i n s else Some (False, n, s) })"
    using a(5) by (subst transmit_loop.simps) (simp add: Let_def off fl_def [symmetric] d_def [symmetric] p(1))
  consider "w = WR_SUCCESS" | "w = WR_FAIL" | "w = WR_TOO_LARGE" by (cases w) auto
  then show ?case
  proof cases
    case 1
    then show ?thesis using p n1 a(6) by (auto simp: eq fl_def d_def)
  next
    case 2
    then show ?thesis using p n1 a(6) by (auto simp: eq)
  next
    case 3
    obtain ok n2 s2 where sh: "shrink_mss n s1 = Some (ok, n2, s2)" "core s2 = core s1" "num_ok s2" "written s2 = written s1"
      "m_msslevel s2 \<le> 9" "ok \<longrightarrow> m_msslevel s1 < m_msslevel s2 \<and> 1 \<le> n2 \<and> n2 < n" "\<not> ok \<longrightarrow> n2 = n"
      using shrink_mss_ok [OF n1, of n] by blast
    have w: "written s1 = written s" using p(8) 3 by auto
    show ?thesis
    proof (cases ok)
      case False
      show ?thesis using 3 False sh w p a(6) by (auto simp: eq)
    next
      case True
      note c2 = coreD [OF sh(2)]
      have "10 - m_msslevel s2 < 10 - m_msslevel s" using sh(5,6) True p(6) by auto
      from less.hyps [OF this, of n2] sh True a
      obtain ok' n' s' now' where r: "transmit_loop E i n2 s2 = Some (ok', n', s')" "core s' = core s2" "num_ok s'" "0 \<le> now'"
        "now' < 4294967296" "1 \<le> n'" "n' \<le> n2"
        "if ok' then written s' = written s2 @ [packet_bytes s2 now' (s_seq (m_slist s2 ! i))
              (if s_bCtrl (m_slist s2 ! i) then FLAG_CTL else 0) (take (nat n') (drop (nat off) (m_sbuf s2)))]
         else written s' = written s2"
        by (auto simp: c c2)
      have pb: "packet_bytes s2 = packet_bytes s" using core_pkt_ok(2) sh(2) p(2) by metis
      show ?thesis using 3 True sh w p r
        by (intro exI [of _ ok'] exI [of _ n'] exI [of _ s'] exI [of _ now']) (auto simp: eq c c2 pb split: if_splits)
    qed
  qed
qed

text \<open>What sending leaves alone.\<close>

definition send_frame :: "PseudoTcp \<Rightarrow> PseudoTcp \<Rightarrow> bool" where
  "send_frame s s' \<longleftrightarrow> m_state s' = m_state s \<and> m_shutdown s' = m_shutdown s \<and> m_rcv_nxt s' = m_rcv_nxt s
     \<and> m_rcv_wnd s' = m_rcv_wnd s \<and> m_rlen s' = m_rlen s \<and> m_rlist s' = m_rlist s \<and> m_rbuf s' = m_rbuf s
     \<and> m_snd_una s' = m_snd_una s \<and> m_slen s' = m_slen s \<and> m_sbuf s' = m_sbuf s \<and> m_snd_wnd s' = m_snd_wnd s
     \<and> m_dup_acks s' = m_dup_acks s \<and> m_conv s' = m_conv s \<and> m_rx_rto s' = m_rx_rto s"

lemma send_frame_refl [simp]: "send_frame s s"
  by (simp add: send_frame_def)

lemma send_frame_trans: "send_frame a b \<Longrightarrow> send_frame b c \<Longrightarrow> send_frame a c"
  by (simp add: send_frame_def)

lemma send_frame_core:
  assumes "core s' = core s"
  shows "send_frame s s'"
  by (simp add: send_frame_def coreD [OF assms])

lemma sbuf_stream:
  assumes "snd_ok X s" "m_state s \<noteq> TCP_CLOSED" "0 \<le> off" "off + n \<le> m_slen s" "0 \<le> n"
  shows "take (nat n) (drop (nat off) (m_sbuf s)) = take (nat n) (drop (nat (m_snd_una s + off)) X)"
    "length (take (nat n) (drop (nat off) (m_sbuf s))) = nat n"
proof -
  have t: "take (nat (m_slen s)) (m_sbuf s) = drop (nat (m_snd_una s)) X" "0 \<le> m_snd_una s" "length (m_sbuf s) = 92160"
    "m_slen s \<le> 92160" using assms by (simp_all add: snd_ok_def)
  have "nat n + nat off \<le> nat (m_slen s)" using assms by linarith
  then have "take (nat n) (drop (nat off) (m_sbuf s)) = take (nat n) (drop (nat off) (take (nat (m_slen s)) (m_sbuf s)))"
    by (simp add: take_drop min_def add.commute)
  also have "\<dots> = take (nat n) (drop (nat (m_snd_una s + off)) X)"
    using t(1,2) assms(3) by (simp add: nat_add_distrib add.commute)
  finally show "take (nat n) (drop (nat off) (m_sbuf s)) = take (nat n) (drop (nat (m_snd_una s + off)) X)" .
  show "length (take (nat n) (drop (nat off) (m_sbuf s))) = nat n" using t(3,4) assms by simp
qed

text \<open>A packet of segment data, written before the state is brought up to date.\<close>

lemma data_packet_ok:
  assumes "num_ok s" "snd_ok X s" "rcv_ok Y P k s" "m_state s \<noteq> TCP_CLOSED" "i < length (m_slist s)"
    "1 \<le> n" "n \<le> s_len (m_slist s ! i)" "n \<le> 65511" "0 \<le> now" "now < 4294967296"
    "m_rcv_nxt s' = m_rcv_nxt s" "m_rcv_wnd s' = m_rcv_wnd s"
    "s_seq (m_slist s ! i) + n \<le> m_snd_nxt s'" "bnd s' (s_seq (m_slist s ! i) + n)"
  shows "pkt_ok X P s' (packet_bytes s now (s_seq (m_slist s ! i)) (if s_bCtrl (m_slist s ! i) then FLAG_CTL else 0)
    (take (nat n) (drop (nat (s_seq (m_slist s ! i) - m_snd_una s)) (m_sbuf s))))"
proof -
  let ?g = "m_slist s ! i"
  define fl where "fl = (if s_bCtrl ?g then 2 else 0 :: int)"
  define d where "d = take (nat n) (drop (nat (s_seq ?g - m_snd_una s)) (m_sbuf s))"
  have S: "0 \<le> m_snd_una s" "int (length X) < 4294967296" "m_snd_una s + m_slen s = int (length X)"
    "seg_chain (m_snd_nxt s) (m_snd_una s) (m_slist s) (int (length X))" using assms(2,4) by (simp_all add: snd_ok_def)
  note c = chain_nth [OF S(4) assms(5)]
  have R: "0 \<le> m_rcv_nxt s" "m_rcv_nxt s < 4294967296" "0 \<le> m_rcv_wnd s" "m_rcv_wnd s < 65536" "m_rcv_nxt s \<in> P"
    using assms(3) by (auto simp: rcv_ok_def)
  have N: "0 \<le> m_conv s" "m_conv s < 4294967296" "0 \<le> m_ts_recent s" "m_ts_recent s < 4294967296"
    using assms(1) by (simp_all add: num_ok_def)
  have d: "d = take (nat n) (drop (nat (s_seq ?g)) X)" "length d = nat n"
    unfolding d_def using sbuf_stream [OF assms(2,4), of "s_seq ?g - m_snd_una s" n] c(1,2) S assms(6,7) by simp_all
  have sq: "0 \<le> s_seq ?g" "s_seq ?g < 4294967296" using c(1,2,3) S(1,2) assms(6,7) by linarith+
  have l: "length d \<le> 65511" using d(2) assms(8) by simp
  note pp = parse_packet [OF N(1,2) sq R(1,2) assms(9,10) N(3,4) R(3,4) l, of fl]
  have fl: "fl = 2 \<Longrightarrow> s_seq ?g = 0 \<and> n = 1" "fl = 0 \<Longrightarrow> 1 \<le> s_seq ?g" "fl \<in> {0, 2}"
    using c(8,9) sq(1) assms(6,7) by (auto simp: fl_def split: if_splits)
  have X: "s_seq ?g + n \<le> int (length X)" using c(2) assms(7) by linarith
  have dn: "int (length d) = n" "nat n = length d" using d(2) assms(6) by simp_all
  have "data_ok X \<lparr>seg_conv = m_conv s, seg_seq = s_seq ?g, seg_ack = m_rcv_nxt s, seg_flags = fl, seg_wnd = m_rcv_wnd s,
     seg_data = d, seg_len = int (length d), seg_tsval = now, seg_tsecr = m_ts_recent s\<rparr>"
    unfolding data_ok_def using sq d(1) fl X dn by simp
  then have "pkt_ok X P s' (packet_bytes s now (s_seq ?g) fl d)"
    unfolding pkt_ok_def Let_def pp(1) unfolding pp(2)
    using R assms(9-14) dn l by simp
  then show ?thesis by (simp add: fl_def d_def)
qed

lemma endpointD:
  assumes "endpoint_ok X Y P M k s"
  shows "num_ok s" "snd_ok X s" "rcv_ok Y P k s" "win_ok M s" "out_ok X P s"
  using assms by (simp_all add: endpoint_ok_def)

lemma out_ok_grows: "out_ok X P s \<Longrightarrow> grows s s' \<Longrightarrow> written s' = written s \<Longrightarrow> out_ok X P s'"
  unfolding out_ok_def using pkt_ok_grows by metis

lemma transmit_ok:
  assumes ep: "endpoint_ok X Y P M k s" and open_: "m_state s \<noteq> TCP_CLOSED" and i: "i < length (m_slist s)"
    and before: "\<forall>j<i. s_xmit (m_slist s ! j) > 0" and pos: "0 < s_len (m_slist s ! i)"
    and room: "s_xmit (m_slist s ! i) = 0 \<Longrightarrow> m_snd_nxt s + s_len (m_slist s ! i) \<le> M"
  shows "\<exists>ok s'. transmit E i now s = Some (ok, s') \<and> endpoint_ok X Y P M k s' \<and> grows s s' \<and> send_frame s s'
    \<and> (ok \<and> s_xmit (m_slist s ! i) = 0 \<longrightarrow> m_snd_nxt s < m_snd_nxt s')"
proof -
  let ?g = "m_slist s ! i"
  note epD = endpointD [OF ep]
  have S: "0 \<le> m_snd_una s" "int (length X) < 4294967296" "m_snd_una s + m_slen s = int (length X)" "m_slen s \<le> kSndBufSize"
    "seg_chain (m_snd_nxt s) (m_snd_una s) (m_slist s) (int (length X))" "m_snd_una s \<le> m_snd_nxt s" "m_snd_nxt s \<le> int (length X)"
    using epD(2) open_ by (simp_all add: snd_ok_def)
  note c = chain_nth [OF S(5) i]
  show ?thesis
  proof (cases "s_xmit ?g \<ge> (if m_state s = TCP_ESTABLISHED then 15 else 30)")
    case True
    then have "transmit E i now s = Some (False, s)" using i by (simp add: transmit_def)
    then show ?thesis using ep by auto
  next
    case False
    then have x30: "s_xmit ?g < 30" by (auto split: if_splits)
    define n0 where "n0 = min (s_len ?g) (m_mss s)"
    have m: "1 \<le> m_mss s" "m_mss s \<le> 65419" using epD(1) by (simp_all add: num_ok_def)
    have n0: "1 \<le> n0" "n0 \<le> s_len ?g" "n0 \<le> 65419" using pos m by (auto simp: n0_def)
    define off where "off = s_seq ?g - m_snd_una s"
    have off: "s_seq ?g = m_snd_una s + off" "0 \<le> off" "off + n0 \<le> kSndBufSize" "off < 4294967296"
      using c(1,2) S n0 by (auto simp: off_def)
    obtain ok n s1 t where r: "transmit_loop E i n0 s = Some (ok, n, s1)" "core s1 = core s" "num_ok s1" "0 \<le> t" "t < 4294967296"
      "1 \<le> n" "n \<le> n0"
      "if ok then written s1 = written s @ [packet_bytes s t (s_seq ?g) (if s_bCtrl ?g then FLAG_CTL else 0)
              (take (nat n) (drop (nat off) (m_sbuf s)))]
       else written s1 = written s"
      using transmit_loop_ok [OF epD(1) off(1,2,4,3) n0(1)] n0(3) by force
    note k = coreD [OF r(2)]
    note ck = core_ok [OF r(2)]
    show ?thesis
    proof (cases ok)
      case False2: False
      have w: "written s1 = written s" using r(8) False2 by simp
      have g: "grows s s1" using r(2) w by (intro core_grows) auto
      have "endpoint_ok X Y P M k s1"
        using epD r(3) out_ok_grows [OF epD(5) g w] by (simp add: endpoint_ok_def ck)
      then show ?thesis using i False False2 r(1,2) g by (auto simp: transmit_def n0_def send_frame_core)
    next
      case True
      have w: "written s1 = written s @ [packet_bytes s t (s_seq ?g) (if s_bCtrl ?g then FLAG_CTL else 0)
              (take (nat n) (drop (nat off) (m_sbuf s)))]" using r(8) True by simp
      define l where "l = (if n < s_len ?g then split_segment i n (m_slist s) else m_slist s)"
      have l: "seg_chain (m_snd_nxt s) (m_snd_una s) l (int (length X))" "l ! i = ?g\<lparr>s_len := n\<rparr>" "i < length l"
        "\<forall>j<i. s_xmit (l ! j) > 0" "seg_bound (m_snd_una s) (m_slist s) x \<Longrightarrow> seg_bound (m_snd_una s) l x" for x
        using split_chain [OF S(5) i, where n = n] split_nth [OF i, where n = n] S(1,2) S(5) i before r(6,7) n0(2)
        by (auto simp: l_def)
      define nxt where "nxt = (if s_xmit ?g = 0 then m_snd_nxt s + n else m_snd_nxt s)"
      have nx: "m_snd_nxt s + n \<le> int (length X) \<and> s_seq ?g = m_snd_nxt s" if "s_xmit ?g = 0"
        using chain_nxt [OF S(5) i before that S(6)] c(2) r(6,7) n0(2) by linarith
      define l' where "l' = l[i := (l ! i)\<lparr>s_xmit := s_xmit ?g + 1\<rparr>]"
      have l': "seg_chain nxt (m_snd_una s) l' (int (length X))"
      proof (cases "s_xmit ?g = 0")
        case True
        then show ?thesis using chain_send [OF l(1,3,4) _ S(6)] r(6) l(2) by (simp add: nxt_def l'_def)
      next
        case F: False
        then have "0 < s_xmit ?g" using c(4) by linarith
        then show ?thesis using chain_resend [OF l(1,3)] l(2) x30 F by (simp add: nxt_def l'_def)
      qed
      have lb: "seg_bound (m_snd_una s) l' x = seg_bound (m_snd_una s) l x" for x
        unfolding l'_def using l(3) by (intro bound_update) auto
      have nb: "m_snd_una s \<le> nxt" "nxt \<le> int (length X)" "nxt \<le> M" "u32 nxt = nxt" "m_snd_nxt s \<le> nxt" "m_snd_una s < nxt"
        "s_seq ?g + n \<le> nxt"
      proof -
        have M: "m_snd_nxt s \<le> M" using epD(4) by (simp add: win_ok_def)
        show 1: "m_snd_una s \<le> nxt" "m_snd_nxt s \<le> nxt" using S(6) r(6) by (auto simp: nxt_def)
        show 2: "nxt \<le> int (length X)" using S(7) nx by (auto simp: nxt_def)
        show "nxt \<le> M" using M room r(7) n0(2) by (auto simp: nxt_def)
        show "u32 nxt = nxt" using 1 2 S(1,2) by (intro u32_id) auto
        show 3: "s_seq ?g + n \<le> nxt"
        proof (cases "s_xmit ?g = 0")
          case True
          then show ?thesis using nx by (simp add: nxt_def)
        next
          case F: False
          then have "s_seq ?g + s_len ?g \<le> m_snd_nxt s" using c(4,6) by linarith
          then show ?thesis using r(7) n0(2) F by (simp add: nxt_def)
        qed
        show "m_snd_una s < nxt" using 3 c(1) r(6) by linarith
      qed
      define s' where "s' = s1\<lparr>m_snd_nxt := nxt, m_slist := l', m_rto_base := (if m_rto_base s = 0 then now else m_rto_base s)\<rparr>"
      have u8: "u8 (s_xmit ?g + 1) = s_xmit ?g + 1" using x30 c(4) by (intro u8_id) auto
      have sl: "(if n < s_len ?g then s1\<lparr>m_slist := split_segment i n (m_slist s)\<rparr> else s1) = s1\<lparr>m_slist := l\<rparr>"
        using k(9) by (simp add: l_def)
      have ln: "s_len (l ! i) = n" "s_xmit (l ! i) = s_xmit ?g" by (simp_all add: l(2))
      have "transmitted i now n s1 = s'"
        unfolding transmitted_def k(9) sl Let_def
        using nb(4) by (simp add: ln u8 nxt_def s'_def l'_def k split: if_splits)
      then have eq: "transmit E i now s = Some (True, s')"
        using i False r(1) True by (simp add: transmit_def Let_def n0_def [symmetric])
      have g: "grows s s'"
        using nb(5) w lb l(5) by (auto simp: grows_def s'_def bnd_def k)
      have so: "snd_ok X s'"
        using epD(2) nb l' by (auto simp: snd_ok_def s'_def k)
      have ro: "rcv_ok Y P k s'" using epD(3) by (simp add: rcv_ok_def saved_ok_def s'_def k)
      have wo: "win_ok M s'" using epD(4) nb(3) by (simp add: win_ok_def s'_def k)
      have no: "num_ok s'" using r(3) by (simp add: num_ok_def s'_def)
      have "bnd s' (s_seq ?g + n)"
        using chain_nth(11) [OF l(1,3)] l(2) lb by (simp add: bnd_def s'_def k)
      then have "pkt_ok X P s' (packet_bytes s t (s_seq ?g) (if s_bCtrl ?g then FLAG_CTL else 0)
              (take (nat n) (drop (nat off) (m_sbuf s))))"
        unfolding off_def using nb(7) r(4-7) n0 k
        by (intro data_packet_ok [OF epD(1,2,3) open_ i]) (auto simp: s'_def)
      then have "out_ok X P s'"
        using epD(5) pkt_ok_grows [OF _ g] w by (auto simp: out_ok_def s'_def)
      then have "endpoint_ok X Y P M k s'" using so ro wo no by (simp add: endpoint_ok_def)
      moreover have "send_frame s s'" by (simp add: send_frame_def s'_def k)
      moreover have "s_xmit ?g = 0 \<longrightarrow> m_snd_nxt s < m_snd_nxt s'" using r(6) by (simp add: s'_def nxt_def)
      ultimately show ?thesis using eq g by blast
    qed
  qed
qed

subsection \<open>Sending what the windows allow\<close>

lemma ack_packet_ok:
  assumes ep: "endpoint_ok X Y P M k s" and seq: "0 \<le> seq" "seq < 4294967296"
  shows "\<exists>w s'. packet E seq 0 None s = Some (w, s') \<and> endpoint_ok X Y P M k s' \<and> grows s s' \<and> send_frame s s' \<and> core s' = core s"
proof -
  note epD = endpointD [OF ep]
  obtain w s' now where p: "packet E seq 0 None s = Some (w, s')" "core s' = core s" "0 \<le> now" "now < 4294967296"
    "m_mss s' = m_mss s" "m_msslevel s' = m_msslevel s" "m_cwnd s' = m_cwnd s"
    "written s' = written s \<or> written s' = written s @ [packet_bytes s now seq 0 []]"
    using packet_core [of None E seq 0 s] by auto
  note c = coreD [OF p(2)]
  have g: "grows s s'" using p(8) by (intro core_grows [OF p(2)]) auto
  have R: "0 \<le> m_rcv_nxt s" "m_rcv_nxt s < 4294967296" "0 \<le> m_rcv_wnd s" "m_rcv_wnd s < 65536" "m_rcv_nxt s \<in> P"
    using epD(3) by (auto simp: rcv_ok_def)
  have N: "0 \<le> m_conv s" "m_conv s < 4294967296" "0 \<le> m_ts_recent s" "m_ts_recent s < 4294967296"
    using epD(1) by (simp_all add: num_ok_def)
  have e: "length ([]::int list) \<le> 65511" by simp
  note pp = parse_packet [OF N(1,2) seq R(1,2) p(3,4) N(3,4) R(3,4) e, of 0]
  have "pkt_ok X P s' (packet_bytes s now seq 0 [])"
    unfolding pkt_ok_def Let_def pp(1) data_ok_def unfolding pp(2) using R seq p(3,4) by (simp add: c)
  then have "out_ok X P s'" using p(8) epD(5) pkt_ok_grows [OF _ g] by (auto simp: out_ok_def)
  moreover have "num_ok s'" using epD(1) by (simp add: num_ok_def c p(5-7))
  ultimately have "endpoint_ok X Y P M k s'" using epD by (simp add: endpoint_ok_def core_ok [OF p(2)])
  then show ?thesis using p(1,2) g send_frame_core by blast
qed

text \<open>The fields that the invariant looks at.\<close>

lemma endpoint_ok_cong:
  assumes "m_shutdown s' = m_shutdown s" "m_state s' = m_state s" "m_conv s' = m_conv s" "m_rlist s' = m_rlist s"
    "m_rbuf s' = m_rbuf s" "m_rcv_nxt s' = m_rcv_nxt s" "m_rcv_wnd s' = m_rcv_wnd s" "m_rlen s' = m_rlen s"
    "m_slist s' = m_slist s" "m_sbuf s' = m_sbuf s" "m_snd_nxt s' = m_snd_nxt s" "m_snd_wnd s' = m_snd_wnd s"
    "m_slen s' = m_slen s" "m_snd_una s' = m_snd_una s" "m_rto_base s' = m_rto_base s" "m_recover s' = m_recover s"
    "written s' = written s" "num_ok s'"
  shows "endpoint_ok X Y P M k s \<Longrightarrow> endpoint_ok X Y P M k s'"
proof -
  have b: "bnd s' = bnd s" "saved_ok Y P s' = saved_ok Y P s" by (simp_all add: bnd_def saved_ok_def fun_eq_iff assms(1-17))
  have "pkt_ok X P s' = pkt_ok X P s" by (simp add: pkt_ok_def fun_eq_iff b assms(6,7,11))
  then have "snd_ok X s' = snd_ok X s" "rcv_ok Y P k s' = rcv_ok Y P k s" "win_ok M s' = win_ok M s" "out_ok X P s' = out_ok X P s"
    by (simp_all add: snd_ok_def rcv_ok_def win_ok_def out_ok_def b assms(1-17))
  then show "endpoint_ok X Y P M k s \<Longrightarrow> endpoint_ok X Y P M k s'" using assms(18) by (simp add: endpoint_ok_def)
qed

lemma endpoint_ok_touch:
  assumes "endpoint_ok X Y P M k s"
  shows "endpoint_ok X Y P M k (s\<lparr>m_t_ack := a\<rparr>)" "endpoint_ok X Y P M k (s\<lparr>ticks := n\<rparr>)"
    "endpoint_ok X Y P M k (s\<lparr>m_bReadEnable := b\<rparr>)" "endpoint_ok X Y P M k (s\<lparr>m_bWriteEnable := b\<rparr>)"
    "endpoint_ok X Y P M k (s\<lparr>m_error := e\<rparr>)" "endpoint_ok X Y P M k (notify ev s)"
    "endpoint_ok X Y P M k (s\<lparr>m_lasttraffic := x, m_lastrecv := y, m_bOutgoing := b\<rparr>)"
    "endpoint_ok X Y P M k (s\<lparr>m_lastsend := x\<rparr>)" "endpoint_ok X Y P M k (s\<lparr>m_largest := x\<rparr>)"
    "endpoint_ok X Y P M k (s\<lparr>m_rx_srtt := x, m_rx_rttvar := y\<rparr>)"
  using endpointD(1) [OF assms]
  by (auto intro!: endpoint_ok_cong [OF _ _ _ _ _ _ _ _ _ _ _ _ _ _ _ _ _ _ assms] simp: num_ok_def notify_def)

lemma grows_touch:
  assumes "m_snd_nxt s' = m_snd_nxt s" "m_rcv_nxt s' = m_rcv_nxt s" "m_rcv_wnd s' = m_rcv_wnd s" "m_snd_una s' = m_snd_una s"
    "m_slist s' = m_slist s" "written s' = written s"
  shows "grows s s'"
  by (simp add: grows_def bnd_def assms)

lemma send_available_ok:
  assumes "num_ok s" "snd_ok X s" "m_state s \<noteq> TCP_CLOSED"
  shows "0 \<le> send_available s" "send_available s \<le> m_mss s"
    "m_snd_nxt s + send_available s \<le> int (length X)"
    "0 < send_available s \<Longrightarrow> m_snd_nxt s + send_available s \<le> m_snd_una s + m_snd_wnd s"
proof -
  have S: "0 \<le> m_snd_una s" "m_snd_una s \<le> m_snd_nxt s" "m_snd_nxt s \<le> int (length X)" "int (length X) < 4294967296"
    "m_snd_una s + m_slen s = int (length X)" "0 \<le> m_slen s"
    using assms(2,3) by (simp_all add: snd_ok_def)
  have f: "nInFlight s = m_snd_nxt s - m_snd_una s" using S unfolding nInFlight_def by (intro u32_id) auto
  have q: "u32 (m_slen s - nInFlight s) = int (length X) - m_snd_nxt s" using S f by (simp add: u32_id)
  have w: "0 \<le> m_snd_wnd s" "1 \<le> m_mss s" "0 \<le> m_cwnd s" using assms(1) by (simp_all add: num_ok_def)
  define cw where "cw = (if m_dup_acks s = 1 \<or> m_dup_acks s = 2 then u32 (m_cwnd s + m_dup_acks s * m_mss s) else m_cwnd s)"
  have cw: "0 \<le> cw" using w by (simp add: cw_def)
  define W where "W = min (m_snd_wnd s) cw"
  have W: "0 \<le> W" "W \<le> m_snd_wnd s" using cw w by (simp_all add: W_def)
  define U where "U = (if nInFlight s < W then W - nInFlight s else 0)"
  have av: "send_available s = (let A = min (int (length X) - m_snd_nxt s) (m_mss s)
     in if A > U then (if u32 (U * 4) < W then 0 else U) else A)"
    unfolding send_available_def Let_def q cw_def [symmetric] W_def [symmetric] U_def [symmetric] by (rule refl)
  have U: "0 \<le> U" "0 < U \<Longrightarrow> m_snd_nxt s + U \<le> m_snd_una s + m_snd_wnd s" using f W by (auto simp: U_def)
  show "0 \<le> send_available s" "send_available s \<le> m_mss s" "m_snd_nxt s + send_available s \<le> int (length X)"
    "0 < send_available s \<Longrightarrow> m_snd_nxt s + send_available s \<le> m_snd_una s + m_snd_wnd s"
    using U S w unfolding av Let_def by (auto split: if_splits)
qed

lemma split_state_ok:
  assumes "endpoint_ok X Y P M k s" "i < length (m_slist s)" "0 < n" "n < s_len (m_slist s ! i)"
  shows "endpoint_ok X Y P M k (s\<lparr>m_slist := split_segment i n (m_slist s)\<rparr>)"
    "grows s (s\<lparr>m_slist := split_segment i n (m_slist s)\<rparr>)"
proof -
  let ?s = "s\<lparr>m_slist := split_segment i n (m_slist s)\<rparr>"
  note epD = endpointD [OF assms(1)]
  have S: "seg_chain (m_snd_nxt s) (m_snd_una s) (m_slist s) (int (length X))" "0 \<le> m_snd_una s" "int (length X) < 4294967296"
    using epD(2) by (simp_all add: snd_ok_def)
  note c = split_chain [OF S(1) assms(2-4) S(2,3)]
  show g: "grows s ?s" using c(2) by (auto simp: grows_def bnd_def)
  have "snd_ok X ?s" using epD(2) c(1) by (simp add: snd_ok_def)
  moreover have "rcv_ok Y P k ?s" using epD(3) by (simp add: rcv_ok_def saved_ok_def)
  ultimately show "endpoint_ok X Y P M k ?s" using epD out_ok_grows [OF epD(5) g]
    by (simp add: endpoint_ok_def num_ok_def win_ok_def)
qed

lemma attemptSend_loop_ok:
  assumes "endpoint_ok X Y P M k s" "m_state s \<noteq> TCP_CLOSED"
  shows "\<exists>s'. attemptSend_loop E now sflags s = Some s' \<and> endpoint_ok X Y P M k s' \<and> grows s s' \<and> send_frame s s'"
  using assms
proof (induction "nat (int (length X) - m_snd_nxt s)" arbitrary: s sflags rule: less_induct)
  case less
  note ep = less.prems(1)
  note epD = endpointD [OF ep]
  note av = send_available_ok [OF epD(1,2) less.prems(2)]
  let ?n = "send_available s"
  have S: "0 \<le> m_snd_una s" "m_snd_una s \<le> m_snd_nxt s" "m_snd_nxt s \<le> int (length X)" "int (length X) < 4294967296"
    "seg_chain (m_snd_nxt s) (m_snd_una s) (m_slist s) (int (length X))"
    using epD(2) by (simp_all add: snd_ok_def)
  consider "?n = 0" | "?n > 0" "m_snd_nxt s > m_snd_una s \<and> ?n < m_mss s" | "?n > 0" "\<not> (m_snd_nxt s > m_snd_una s \<and> ?n < m_mss s)"
    using av(1) by linarith
  then show ?case
  proof cases
    case 1
    have "\<exists>s'. attemptSend_ack E sflags s = Some s' \<and> endpoint_ok X Y P M k s' \<and> grows s s' \<and> send_frame s s'"
    proof (cases "sflags = sfNone")
      case True
      then show ?thesis using ep by (simp add: attemptSend_ack_def)
    next
      case False
      obtain w s' where p: "packet E (m_snd_nxt s) 0 None s = Some (w, s')" "endpoint_ok X Y P M k s'" "grows s s'" "send_frame s s'"
        using ack_packet_ok [OF ep, of "m_snd_nxt s" E] S by auto
      have t: "endpoint_ok X Y P M k (s\<lparr>ticks := a, m_t_ack := b\<rparr>)" for a b using endpoint_ok_touch(1) [OF endpoint_ok_touch(2) [OF ep]] .
      have "grows s (s\<lparr>ticks := a, m_t_ack := b\<rparr>)" for a b by (rule grows_touch) simp_all
      then show ?thesis using False p t by (auto simp: attemptSend_ack_def Now_def send_frame_def)
    qed
    then show ?thesis using 1 by (subst attemptSend_loop.simps) simp
  next
    case 2
    then show ?thesis using ep by (subst attemptSend_loop.simps) (simp add: Let_def)
  next
    case 3
    have "\<exists>g\<in>set (m_slist s). s_xmit g \<le> 0"
    proof (rule ccontr)
      assume "\<not> ?thesis"
      then have "int (length X) \<le> m_snd_nxt s" using chain_all_sent [OF S(5) _ S(2)] by force
      then show False using 3(1) av(3) by linarith
    qed
    then obtain i where i: "next_unsent (m_slist s) = Some i" "i < length (m_slist s)" "s_xmit (m_slist s ! i) \<le> 0"
      "\<forall>j<i. s_xmit (m_slist s ! j) > 0" using next_unsent_Some by blast
    note c = chain_nth [OF S(5) i(2)]
    have x: "s_xmit (m_slist s ! i) = 0" using i(3) c(4) by linarith
    have q: "s_seq (m_slist s ! i) = m_snd_nxt s" by (rule chain_nxt [OF S(5) i(2,4) x S(2)])
    have len: "0 < s_len (m_slist s ! i)" using c(3,13) q 3(1) av(3) by (cases "s_len (m_slist s ! i) = 0") auto
    define s0 where "s0 = (if s_len (m_slist s ! i) > ?n then s\<lparr>m_slist := split_segment i ?n (m_slist s)\<rparr> else s)"
    have s0: "endpoint_ok X Y P M k s0" "grows s s0" "m_state s0 = m_state s" "send_frame s s0" "i < length (m_slist s0)"
      "s_xmit (m_slist s0 ! i) = 0" "0 < s_len (m_slist s0 ! i)" "s_len (m_slist s0 ! i) \<le> ?n" "\<forall>j<i. s_xmit (m_slist s0 ! j) > 0"
      "m_snd_nxt s0 = m_snd_nxt s"
      using split_state_ok [OF ep i(2) 3(1)] ep 3(1) i(2,4) x len split_chain(3) [OF S(5) i(2) 3(1) _ S(1,4)]
        split_nth [OF i(2), where n = ?n] by (auto simp: s0_def send_frame_def)
    have M: "m_snd_nxt s0 + s_len (m_slist s0 ! i) \<le> M"
      using av(4) 3(1) s0(8,10) epD(4) less.prems(2) by (simp add: win_ok_def)
    obtain ok s1 where t: "transmit E i now s0 = Some (ok, s1)" "endpoint_ok X Y P M k s1" "grows s0 s1" "send_frame s0 s1"
      "ok \<longrightarrow> m_snd_nxt s0 < m_snd_nxt s1"
      using transmit_ok [OF s0(1) _ s0(5,9,7), of E now] s0(3,6) less.prems(2) M by auto
    have g: "grows s s1" "send_frame s s1" using s0(2,4) t(3,4) grows_trans send_frame_trans by blast+
    have nagle: "(m_snd_una s < m_snd_nxt s \<and> ?n < m_mss s) = False" using 3(2) by simp
    have eq: "attemptSend_loop E now sflags s = (if ok then attemptSend_loop E now sfNone s1 else Some s1)"
      using 3(1) i(1) t(1) by (subst attemptSend_loop.simps) (simp add: Let_def s0_def nagle)
    show ?thesis
    proof (cases ok)
      case False
      then show ?thesis using eq t(2) g by simp
    next
      case True
      have "nat (int (length X) - m_snd_nxt s1) < nat (int (length X) - m_snd_nxt s)"
        using t(2,5) True s0(10) by (auto simp: endpoint_ok_def snd_ok_def)
      moreover have "m_state s1 \<noteq> TCP_CLOSED" using g(2) less.prems(2) by (simp add: send_frame_def)
      ultimately obtain s2 where "attemptSend_loop E now sfNone s1 = Some s2" "endpoint_ok X Y P M k s2" "grows s1 s2" "send_frame s1 s2"
        using less.hyps [of s1 sfNone] t(2) by blast
      then show ?thesis using eq True g grows_trans send_frame_trans by auto
    qed
  qed
qed

lemma attemptSend_ok:
  assumes ep: "endpoint_ok X Y P M k s" and open_: "m_state s \<noteq> TCP_CLOSED"
  shows "\<exists>s'. attemptSend E sflags s = Some s' \<and> endpoint_ok X Y P M k s' \<and> grows s s' \<and> send_frame s s'"
proof -
  define now where "now = u32 (clock E (ticks s))"
  define cw where "cw = (if TimeDiff now (m_lastsend s) > s32 (m_rx_rto s) then m_mss s else m_cwnd s)"
  define s1 where "s1 = s\<lparr>ticks := ticks s + 1, m_cwnd := cw\<rparr>"
  have cw: "0 \<le> cw" "cw < 4294967296" using endpointD(1) [OF ep] by (simp_all add: num_ok_def cw_def)
  have s1: "endpoint_ok X Y P M k s1"
    by (rule endpoint_ok_cong [OF _ _ _ _ _ _ _ _ _ _ _ _ _ _ _ _ _ _ ep])
       (use endpointD(1) [OF ep] cw in \<open>simp_all add: s1_def num_ok_def\<close>)
  have g: "grows s s1" by (rule grows_touch) (simp_all add: s1_def)
  have f: "send_frame s s1" by (simp add: s1_def send_frame_def)
  have "m_state s1 \<noteq> TCP_CLOSED" using open_ by (simp add: s1_def)
  from attemptSend_loop_ok [OF s1 this, of E now sflags] obtain s' where
    s': "attemptSend_loop E now sflags s1 = Some s'" "endpoint_ok X Y P M k s'" "grows s1 s'" "send_frame s1 s'" by blast
  have "attemptSend E sflags s = attemptSend_loop E now sflags s1"
    by (simp add: attemptSend_def Now_def now_def [symmetric] cw_def s1_def)
  then show ?thesis using s' g f grows_trans send_frame_trans by metis
qed

end
