(* ===== verification/LJ_PseudoTcp_Proc.thy ===== *)
theory LJ_PseudoTcp_Proc
  imports LJ_PseudoTcp_Inv
begin

text \<open>
  The operations of \<open>PseudoTcp\<close> keep the invariant of an endpoint: queueing, the state changes, and the
  stages of \<open>process\<close> for a segment that an honest peer can have sent (\<open>in_ok\<close>).
\<close>

subsection \<open>Frames\<close>

text \<open>What the stages of \<open>process\<close> leave alone of the receiver.\<close>

definition rcv_frame :: "PseudoTcp \<Rightarrow> PseudoTcp \<Rightarrow> bool" where
  "rcv_frame s s' \<longleftrightarrow> m_shutdown s' = m_shutdown s \<and> m_rcv_nxt s' = m_rcv_nxt s \<and> m_rcv_wnd s' = m_rcv_wnd s
     \<and> m_rlen s' = m_rlen s \<and> m_rlist s' = m_rlist s \<and> m_rbuf s' = m_rbuf s \<and> m_conv s' = m_conv s"

lemma rcv_frame_trans: "rcv_frame a b \<Longrightarrow> rcv_frame b c \<Longrightarrow> rcv_frame a c"
  by (simp add: rcv_frame_def)

lemma send_rcv_frame: "send_frame s s' \<Longrightarrow> rcv_frame s s'"
  by (simp add: send_frame_def rcv_frame_def)

lemma rcv_ok_frame: "rcv_frame s s' \<Longrightarrow> rcv_ok Y P k s \<Longrightarrow> rcv_ok Y P k s'"
  by (simp add: rcv_frame_def rcv_ok_def saved_ok_def)

subsection \<open>Queueing\<close>

lemma chain_extend:
  assumes "seg_chain nxt a l b" "l \<noteq> []" "s_xmit (last l) = 0" "\<not> s_bCtrl (last l)" "0 \<le> n"
  shows "seg_chain nxt a (l[length l - 1 := (last l)\<lparr>s_len := s_len (last l) + n\<rparr>]) (b + n)"
    "x \<le> nxt \<Longrightarrow> seg_bound a l x \<Longrightarrow> seg_bound a (l[length l - 1 := (last l)\<lparr>s_len := s_len (last l) + n\<rparr>]) x"
proof -
  have "seg_chain nxt a (l[length l - 1 := (last l)\<lparr>s_len := s_len (last l) + n\<rparr>]) (b + n)
    \<and> (x \<le> nxt \<longrightarrow> seg_bound a l x \<longrightarrow> seg_bound a (l[length l - 1 := (last l)\<lparr>s_len := s_len (last l) + n\<rparr>]) x)"
    using assms
  proof (induction l arbitrary: a)
    case (Cons g l)
    show ?case
    proof (cases "l = []")
      case True
      then show ?thesis using Cons.prems by auto
    next
      case False
      have e: "(g # l)[length (g # l) - 1 := h] = g # l[length l - 1 := h]" for h
        using False by (cases l) simp_all
      have "seg_chain nxt (a + s_len g) (l[length l - 1 := (last l)\<lparr>s_len := s_len (last l) + n\<rparr>]) (b + n)
        \<and> (x \<le> nxt \<longrightarrow> seg_bound (a + s_len g) l x
            \<longrightarrow> seg_bound (a + s_len g) (l[length l - 1 := (last l)\<lparr>s_len := s_len (last l) + n\<rparr>]) x)"
        using Cons.prems False by (intro Cons.IH) auto
      then show ?thesis using Cons.prems False unfolding e last_ConsR [OF False] by auto
    qed
  qed simp
  then show "seg_chain nxt a (l[length l - 1 := (last l)\<lparr>s_len := s_len (last l) + n\<rparr>]) (b + n)"
    "x \<le> nxt \<Longrightarrow> seg_bound a l x \<Longrightarrow> seg_bound a (l[length l - 1 := (last l)\<lparr>s_len := s_len (last l) + n\<rparr>]) x" by auto
qed

lemma chain_append:
  assumes "seg_chain nxt a l b" "l \<noteq> [] \<Longrightarrow> s_len (last l) \<noteq> 0" "nxt \<le> b"
    and h: "s_seq h = b" "0 \<le> s_len h" "s_xmit h = 0" "s_bCtrl h \<longleftrightarrow> b = 0" "s_bCtrl h \<Longrightarrow> s_len h = 1"
  shows "seg_chain nxt a (l @ [h]) (b + s_len h)" "seg_bound a l x \<Longrightarrow> seg_bound a (l @ [h]) x"
proof -
  have "seg_chain nxt a (l @ [h]) (b + s_len h) \<and> (seg_bound a l x \<longrightarrow> seg_bound a (l @ [h]) x)"
    using assms(1,2)
  proof (induction l arbitrary: a)
    case Nil
    then show ?case using h assms(3) by simp
  next
    case (Cons g l)
    have l: "l \<noteq> [] \<Longrightarrow> s_len (last l) \<noteq> 0" using Cons.prems(2) by auto
    have "s_len g \<noteq> 0"
    proof (cases "l = []")
      case True
      then show ?thesis using Cons.prems(2) by simp
    next
      case False
      then show ?thesis using Cons.prems(1) by simp
    qed
    moreover have "seg_chain nxt (a + s_len g) (l @ [h]) (b + s_len h) \<and> (seg_bound (a + s_len g) l x \<longrightarrow> seg_bound (a + s_len g) (l @ [h]) x)"
      using Cons.prems(1) l by (intro Cons.IH) simp_all
    ultimately show ?case using Cons.prems(1) by simp
  qed
  then show "seg_chain nxt a (l @ [h]) (b + s_len h)" "seg_bound a l x \<Longrightarrow> seg_bound a (l @ [h]) x" by blast+
qed

lemma chain_last_empty:
  assumes "seg_chain nxt a l b" "l \<noteq> []" "s_len (last l) = 0"
  shows "s_xmit (last l) = 0" "\<not> s_bCtrl (last l)"
proof -
  have l: "last l = l ! (length l - 1)" "length l - 1 < length l" using assms(2) by (simp_all add: last_conv_nth)
  note c = chain_nth [OF assms(1) l(2)]
  show "s_xmit (last l) = 0" using c(4,12) assms(3) l(1) by force
  show "\<not> s_bCtrl (last l)" using c(9) assms(3) l(1) by auto
qed

lemma data_ok_append:
  assumes "data_ok X g"
  shows "data_ok (X @ Z) g"
proof -
  have t: "take (nat n) (drop (nat q) (X @ Z)) = take (nat n) (drop (nat q) X)" if "0 < n" "0 \<le> q" "q + n \<le> int (length X)" for n q
  proof -
    have le: "nat q + nat n \<le> length X" using that by linarith
    then have d: "drop (nat q) (X @ Z) = drop (nat q) X @ Z" by simp
    show ?thesis unfolding d using le by simp
  qed
  have "0 < seg_len g \<longrightarrow> seg_seq g + seg_len g \<le> int (length (X @ Z))
    \<and> seg_data g = take (nat (seg_len g)) (drop (nat (seg_seq g)) (X @ Z)) \<and> (seg_flags g = 0 \<longrightarrow> 1 \<le> seg_seq g)"
  proof (intro impI)
    assume p: "0 < seg_len g"
    then have "seg_seq g + seg_len g \<le> int (length X)" "0 \<le> seg_seq g" "seg_flags g = 0 \<longrightarrow> 1 \<le> seg_seq g"
      "seg_data g = take (nat (seg_len g)) (drop (nat (seg_seq g)) X)"
      using assms unfolding data_ok_def by blast+
    then show "seg_seq g + seg_len g \<le> int (length (X @ Z))
      \<and> seg_data g = take (nat (seg_len g)) (drop (nat (seg_seq g)) (X @ Z)) \<and> (seg_flags g = 0 \<longrightarrow> 1 \<le> seg_seq g)"
      using t [OF p, of "seg_seq g"] by simp
  qed
  then show ?thesis using assms unfolding data_ok_def by blast
qed

lemma pkt_ok_append: "pkt_ok X P s pkt \<Longrightarrow> pkt_ok (X @ Z) P s pkt"
  by (simp add: pkt_ok_def Let_def data_ok_append)

lemma queue_data_ok:
  assumes ep: "endpoint_ok X Y P M k s" and st: "m_state s = TCP_ESTABLISHED"
    and d: "octets data" "int (length X) + int (length data) < 4294967296"
  defines "n \<equiv> min (int (length data)) (kSndBufSize - m_slen s)"
  shows "\<exists>s'. queue data False s = Some (n, s') \<and> endpoint_ok (X @ take (nat n) data) Y P M k s' \<and> grows s s'
    \<and> m_state s' = m_state s \<and> m_rcv_nxt s' = m_rcv_nxt s \<and> m_shutdown s' = m_shutdown s"
proof -
  note epD = endpointD [OF ep]
  have S: "length (m_sbuf s) = 92160" "0 \<le> m_snd_una s" "m_snd_una s \<le> m_snd_nxt s" "m_snd_nxt s \<le> int (length X)"
    "int (length X) < 4294967296" "seg_chain (m_snd_nxt s) (m_snd_una s) (m_slist s) (int (length X))" "0 \<le> m_slen s"
    "m_slen s \<le> kSndBufSize" "m_snd_una s + m_slen s = int (length X)" "X \<noteq> []"
    "take (nat (m_slen s)) (m_sbuf s) = drop (nat (m_snd_una s)) X"
    using epD(2) st by (simp_all add: snd_ok_def)
  have X1: "1 \<le> length X" using S(10) by (cases X) simp_all
  have room: "u32 (kSndBufSize - m_slen s) = kSndBufSize - m_slen s" using S(7,8) by (intro u32_id) auto
  have n: "0 \<le> n" "n \<le> int (length data)" "m_slen s + n \<le> kSndBufSize" using S(8) by (auto simp: n_def)
  have nn: "(if int (length data) > kSndBufSize - m_slen s then kSndBufSize - m_slen s else int (length data)) = n"
    by (auto simp: n_def)
  define X' where "X' = X @ take (nat n) data"
  have lX: "int (length X') = int (length X) + n" using n by (simp add: X'_def)
  have u: "u32 (m_snd_una s + m_slen s) = int (length X)" "u32 (m_slen s + n) = m_slen s + n"
    using S n by (simp_all add: u32_id)
  define c where "c \<longleftrightarrow> m_slist s \<noteq> [] \<and> \<not> s_bCtrl (last (m_slist s)) \<and> s_xmit (last (m_slist s)) = 0"
  define l where "l = (if c then (m_slist s)[length (m_slist s) - 1 := (last (m_slist s))\<lparr>s_len := s_len (last (m_slist s)) + n\<rparr>]
     else m_slist s @ [\<lparr>s_seq = int (length X), s_len = n, s_xmit = 0, s_bCtrl = False\<rparr>])"
  have ul: "u32 (s_len (last (m_slist s)) + n) = s_len (last (m_slist s)) + n" if c
  proof -
    have l: "last (m_slist s) = m_slist s ! (length (m_slist s) - 1)" "length (m_slist s) - 1 < length (m_slist s)"
      using that by (simp_all add: c_def last_conv_nth)
    show ?thesis using chain_nth(1,2,3) [OF S(6) l(2)] l(1) S(2) n d(2) by (intro u32_id) auto
  qed
  have l: "seg_chain (m_snd_nxt s) (m_snd_una s) l (int (length X'))"
    "x \<le> m_snd_nxt s \<Longrightarrow> seg_bound (m_snd_una s) (m_slist s) x \<Longrightarrow> seg_bound (m_snd_una s) l x" for x
  proof -
    show "seg_chain (m_snd_nxt s) (m_snd_una s) l (int (length X'))"
    proof (cases c)
      case True
      then show ?thesis using chain_extend(1) [OF S(6) _ _ _ n(1)] by (simp add: l_def c_def lX)
    next
      case False
      let ?h = "\<lparr>s_seq = int (length X), s_len = n, s_xmit = 0, s_bCtrl = False\<rparr>"
      have "m_slist s \<noteq> [] \<Longrightarrow> s_len (last (m_slist s)) \<noteq> 0" using False chain_last_empty [OF S(6)] by (auto simp: c_def)
      from chain_append(1) [OF S(6) this S(4), of ?h] show ?thesis using False n(1) S(10) by (simp add: l_def lX)
    qed
    show "x \<le> m_snd_nxt s \<Longrightarrow> seg_bound (m_snd_una s) (m_slist s) x \<Longrightarrow> seg_bound (m_snd_una s) l x"
    proof (cases c)
      case True
      then show "x \<le> m_snd_nxt s \<Longrightarrow> seg_bound (m_snd_una s) (m_slist s) x \<Longrightarrow> seg_bound (m_snd_una s) l x"
        using chain_extend(2) [OF S(6) _ _ _ n(1)] by (simp add: l_def c_def)
    next
      case False
      let ?h = "\<lparr>s_seq = int (length X), s_len = n, s_xmit = 0, s_bCtrl = False\<rparr>"
      have "m_slist s \<noteq> [] \<Longrightarrow> s_len (last (m_slist s)) \<noteq> 0" using False chain_last_empty [OF S(6)] by (auto simp: c_def)
      from chain_append(2) [OF S(6) this S(4), of ?h]
      show "x \<le> m_snd_nxt s \<Longrightarrow> seg_bound (m_snd_una s) (m_slist s) x \<Longrightarrow> seg_bound (m_snd_una s) l x"
        using False n(1) S(10) by (simp add: l_def)
    qed
  qed
  define s' where "s' = s\<lparr>m_slist := l, m_sbuf := mem_write (m_sbuf s) (nat (m_slen s)) (take (nat n) data), m_slen := m_slen s + n\<rparr>"
  have eq: "queue data False s = Some (n, s')"
    unfolding queue_def Let_def room nn u
    using n(3) ul by (simp add: l_def c_def s'_def)
  have g: "grows s s'" using l(2) by (auto simp: grows_def bnd_def s'_def)
  have sb: "length (m_sbuf s') = 92160" "take (nat (m_slen s')) (m_sbuf s') = drop (nat (m_snd_una s')) X'"
  proof -
    have i: "nat (m_slen s) + length (take (nat n) data) = nat (m_slen s + n)" using n S(7) by (simp add: nat_add_distrib)
    show "length (m_sbuf s') = 92160" using i n(3) S(1) by (simp add: s'_def)
    have "take (nat (m_slen s + n)) (mem_write (m_sbuf s) (nat (m_slen s)) (take (nat n) data))
      = take (nat (m_slen s)) (m_sbuf s) @ take (nat n) data"
      using take_mem_write [of "nat (m_slen s)" "m_sbuf s" "take (nat n) data"] i S(1,8) by simp
    moreover have "nat (m_snd_una s) \<le> length X" using S by linarith
    ultimately show "take (nat (m_slen s')) (m_sbuf s') = drop (nat (m_snd_una s')) X'"
      using S(11) by (simp add: s'_def X'_def)
  qed
  have "snd_ok X' s'"
    using epD(2) sb l(1) lX n d st X1 S(9,10) unfolding snd_ok_def by (auto simp: s'_def X'_def)
  moreover have "rcv_ok Y P k s'" using epD(3) by (simp add: rcv_ok_def saved_ok_def s'_def)
  moreover have "out_ok X' P s'"
    using out_ok_grows [OF epD(5) g] pkt_ok_append by (auto simp: out_ok_def s'_def X'_def)
  moreover have "num_ok s'" "win_ok M s'" using epD(1,4) by (simp_all add: num_ok_def win_ok_def s'_def)
  ultimately show ?thesis using eq g by (auto simp: endpoint_ok_def X'_def s'_def)
qed

text \<open>The control byte is queued first.\<close>

lemma listen_empty:
  assumes "snd_ok X s" "m_state s = TCP_LISTEN"
  shows "X = []" "m_slist s = []" "m_snd_una s = 0" "m_snd_nxt s = 0" "m_slen s = 0"
proof -
  show X: "X = []" using assms by (simp add: snd_ok_def)
  show u: "m_snd_una s = 0" "m_snd_nxt s = 0" "m_slen s = 0" using assms X by (auto simp: snd_ok_def)
  have "seg_chain 0 0 (m_slist s) 0" using assms X u by (simp add: snd_ok_def)
  then show "m_slist s = []"
  proof (cases "m_slist s")
    case (Cons g l)
    then have "s_len g = 1" "seg_chain 0 (s_len g) l 0" using \<open>seg_chain 0 0 (m_slist s) 0\<close> by auto
    then show ?thesis using chain_le [of 0 1 l 0] by simp
  qed
qed

lemma queue_connect_ok:
  assumes ep: "endpoint_ok X Y P M k s" and st: "m_state s = TCP_LISTEN" and t: "t \<in> {TCP_SYN_SENT, TCP_SYN_RECEIVED}"
  shows "\<exists>n s'. queue [CTL_CONNECT] True (s\<lparr>m_state := t\<rparr>) = Some (n, s') \<and> endpoint_ok [CTL_CONNECT] Y P M k s' \<and> grows s s'
    \<and> m_state s' = t \<and> rcv_frame s s' \<and> m_snd_una s' = m_snd_una s \<and> m_snd_nxt s' = m_snd_nxt s \<and> written s' = written s"
proof -
  note epD = endpointD [OF ep]
  note e = listen_empty [OF epD(2) st]
  define s' where "s' = s\<lparr>m_state := t, m_slist := [\<lparr>s_seq = 0, s_len = 1, s_xmit = 0, s_bCtrl = True\<rparr>],
    m_sbuf := mem_write (m_sbuf s) 0 [CTL_CONNECT], m_slen := 1\<rparr>"
  have eq: "queue [CTL_CONNECT] True (s\<lparr>m_state := t\<rparr>) = Some (1, s')"
    by (simp add: queue_def e s'_def u32_id)
  have lb: "length (m_sbuf s) = 92160" using epD(2) by (simp add: snd_ok_def)
  have g: "grows s s'" using e by (auto simp: grows_def bnd_def s'_def)
  have "snd_ok [CTL_CONNECT] s'"
    using epD(2) e lb t by (auto simp: snd_ok_def s'_def mem_write_def)
  moreover have "rcv_ok Y P k s'" using epD(3) by (simp add: rcv_ok_def saved_ok_def s'_def)
  moreover have "out_ok [CTL_CONNECT] P s'"
    using out_ok_grows [OF epD(5) g] pkt_ok_append [of X P _ _ "[CTL_CONNECT]"] e(1) by (auto simp: out_ok_def s'_def)
  moreover have "num_ok s'" using epD(1) by (simp add: num_ok_def s'_def)
  moreover have "win_ok M s'" using epD(4) st by (simp add: win_ok_def s'_def)
  ultimately have "endpoint_ok [CTL_CONNECT] Y P M k s'" by (simp add: endpoint_ok_def)
  then show ?thesis using eq g by (auto simp: s'_def rcv_frame_def)
qed

subsection \<open>State changes\<close>

lemma closedown_ok:
  assumes "endpoint_ok X Y P M k s"
  shows "endpoint_ok X Y P M k (closedown e s)" "grows s (closedown e s)" "rcv_frame s (closedown e s)"
    "m_state (closedown e s) = TCP_CLOSED" "m_snd_una (closedown e s) = m_snd_una s"
proof -
  note epD = endpointD [OF assms]
  show g: "grows s (closedown e s)" by (rule grows_touch) (simp_all add: closedown_def notify_def)
  show f: "rcv_frame s (closedown e s)" by (simp add: rcv_frame_def closedown_def notify_def)
  have "snd_ok X (closedown e s)" using epD(2) by (simp add: snd_ok_def closedown_def notify_def)
  moreover have "num_ok (closedown e s)" "win_ok M (closedown e s)"
    using epD(1,4) by (simp_all add: num_ok_def win_ok_def closedown_def notify_def)
  ultimately show "endpoint_ok X Y P M k (closedown e s)"
    using rcv_ok_frame [OF f epD(3)] out_ok_grows [OF epD(5) g] by (simp add: endpoint_ok_def closedown_def notify_def)
  show "m_state (closedown e s) = TCP_CLOSED" "m_snd_una (closedown e s) = m_snd_una s" by (simp_all add: closedown_def notify_def)
qed

lemma mtu_level_le: "mtu_level mtu PACKET_MAXIMUMS \<le> 9"
  by (simp add: PACKET_MAXIMUMS_def)

lemma adjustMTU_num:
  assumes "num_ok s"
  shows "num_ok (adjustMTU s)"
proof -
  have m: "PACKET_OVERHEAD < m_mtu_advise s" "m_mtu_advise s \<le> 65535" using assms by (simp_all add: num_ok_def)
  have u: "u32 (m_mtu_advise s - PACKET_OVERHEAD) = m_mtu_advise s - PACKET_OVERHEAD"
    "u32 (2 * (m_mtu_advise s - PACKET_OVERHEAD)) = 2 * (m_mtu_advise s - PACKET_OVERHEAD)"
    using m by (auto intro!: u32_id)
  show ?thesis unfolding adjustMTU_def Let_def u using assms mtu_level_le by (simp add: num_ok_def le_max_iff_disj)
qed

lemma established_ok:
  assumes ep: "endpoint_ok X Y P M k s" and X: "m_state s \<in> {TCP_SYN_SENT, TCP_SYN_RECEIVED}"
  defines "s' \<equiv> notify OnTcpOpen (adjustMTU (s\<lparr>m_state := TCP_ESTABLISHED\<rparr>))"
  shows "endpoint_ok X Y P M k s'" "grows s s'" "rcv_frame s s'" "m_state s' = TCP_ESTABLISHED"
    "m_snd_una s' = m_snd_una s" "m_snd_nxt s' = m_snd_nxt s" "written s' = written s"
proof -
  note epD = endpointD [OF ep]
  have s': "m_state s' = TCP_ESTABLISHED" "m_snd_una s' = m_snd_una s" "m_snd_nxt s' = m_snd_nxt s" "written s' = written s"
    "m_slist s' = m_slist s" "m_sbuf s' = m_sbuf s" "m_slen s' = m_slen s" "m_snd_wnd s' = m_snd_wnd s" "m_rto_base s' = m_rto_base s"
    "m_recover s' = m_recover s" "m_rcv_nxt s' = m_rcv_nxt s" "m_rcv_wnd s' = m_rcv_wnd s"
    by (simp_all add: s'_def adjustMTU_def notify_def Let_def)
  show "m_state s' = TCP_ESTABLISHED" "m_snd_una s' = m_snd_una s" "m_snd_nxt s' = m_snd_nxt s" "written s' = written s"
    by (rule s')+
  show g: "grows s s'" by (rule grows_touch) (simp_all add: s')
  show f: "rcv_frame s s'" by (simp add: rcv_frame_def s'_def adjustMTU_def notify_def Let_def)
  have "num_ok (s\<lparr>m_state := TCP_ESTABLISHED\<rparr>)" using epD(1) by (simp add: num_ok_def)
  then have "num_ok s'" using adjustMTU_num by (simp add: s'_def notify_def num_ok_def)
  moreover have "snd_ok X s'" using epD(2) X by (auto simp: snd_ok_def s')
  moreover have "win_ok M s'" using epD(4) X by (auto simp: win_ok_def s')
  ultimately show "endpoint_ok X Y P M k s'"
    using rcv_ok_frame [OF f epD(3)] out_ok_grows [OF epD(5) g s'(4)] by (simp add: endpoint_ok_def)
qed

subsection \<open>Acknowledgements\<close>

text \<open>A segment that an honest peer with the stream \<open>Y\<close> can have sent.\<close>

definition in_ok :: "int list \<Rightarrow> int set \<Rightarrow> int \<Rightarrow> PseudoTcp \<Rightarrow> Segment \<Rightarrow> bool" where
  "in_ok Y P M s g \<longleftrightarrow> data_ok Y g
     \<and> (0 < seg_len g \<longrightarrow> seg_seq g + seg_len g \<in> P \<and> seg_seq g + seg_len g \<le> m_rcv_nxt s + m_rcv_wnd s
          \<and> (1 \<le> seg_seq g \<longrightarrow> 1 \<le> m_rcv_nxt s))
     \<and> bnd s (seg_ack g) \<and> seg_ack g \<le> m_snd_nxt s \<and> 0 \<le> seg_wnd g \<and> seg_wnd g \<le> 65535 \<and> seg_ack g + seg_wnd g \<le> M
     \<and> 0 \<le> seg_tsval g \<and> seg_tsval g < 4294967296"

lemma update_rtt_ok:
  assumes "endpoint_ok X Y P M k s"
  shows "endpoint_ok X Y P M k (update_rtt now seg s)" "grows s (update_rtt now seg s)" "send_frame s ((update_rtt now seg s)\<lparr>m_rx_rto := m_rx_rto s\<rparr>)"
    "m_snd_nxt (update_rtt now seg s) = m_snd_nxt s" "m_slist (update_rtt now seg s) = m_slist s"
    "m_recover (update_rtt now seg s) = m_recover s" "m_largest (update_rtt now seg s) = m_largest s"
    "written (update_rtt now seg s) = written s"
proof -
  have b: "MIN_RTO \<le> bound MIN_RTO x MAX_RTO" "bound MIN_RTO x MAX_RTO \<le> MAX_RTO" for x by (simp_all add: bound_def)
  obtain v t oo where e: "update_rtt now seg s = s\<lparr>m_rx_rttvar := v, m_rx_srtt := t, m_rx_rto := oo\<rparr>"
    "MIN_RTO \<le> oo" "oo \<le> MAX_RTO"
  proof (cases "seg_tsecr seg \<noteq> 0 \<and> TimeDiff now (seg_tsecr seg) \<ge> 0")
    case True
    show thesis by (rule that [OF _ b]) (use True in \<open>simp add: update_rtt_def Let_def\<close>)
  next
    case False
    then have "update_rtt now seg s = s\<lparr>m_rx_rttvar := m_rx_rttvar s, m_rx_srtt := m_rx_srtt s, m_rx_rto := m_rx_rto s\<rparr>"
      unfolding update_rtt_def Let_def by (simp only: if_False) simp
    then show thesis by (rule that) (use endpointD(1) [OF assms] in \<open>simp_all add: num_ok_def\<close>)
  qed
  show "endpoint_ok X Y P M k (update_rtt now seg s)"
    by (rule endpoint_ok_cong [OF _ _ _ _ _ _ _ _ _ _ _ _ _ _ _ _ _ _ assms])
       (use e endpointD(1) [OF assms] in \<open>simp_all add: num_ok_def\<close>)
  show "grows s (update_rtt now seg s)" by (rule grows_touch) (simp_all add: e)
  show "send_frame s ((update_rtt now seg s)\<lparr>m_rx_rto := m_rx_rto s\<rparr>)" "m_snd_nxt (update_rtt now seg s) = m_snd_nxt s"
    "m_slist (update_rtt now seg s) = m_slist s" "m_recover (update_rtt now seg s) = m_recover s"
    "m_largest (update_rtt now seg s) = m_largest s" "written (update_rtt now seg s) = written s" by (simp_all add: send_frame_def e)
qed

text \<open>When bytes are in flight, the first segment has been sent, and can be sent again.\<close>

lemma front_sent:
  assumes "snd_ok X s" "m_snd_una s < m_snd_nxt s"
  shows "0 < length (m_slist s)" "0 < s_xmit (m_slist s ! 0)" "0 < s_len (m_slist s ! 0)"
proof -
  have S: "seg_chain (m_snd_nxt s) (m_snd_una s) (m_slist s) (int (length X))" "m_snd_nxt s \<le> int (length X)"
    using assms(1) by (simp_all add: snd_ok_def)
  then obtain g l where l: "m_slist s = g # l" using assms(2) by (cases "m_slist s") auto
  then show "0 < length (m_slist s)" by simp
  have "seg_chain (m_snd_nxt s) (m_snd_una s) (g # l) (int (length X))" using S(1) l by simp
  then have x: "0 < s_xmit g" "0 < s_len g" using assms(2) by (cases "s_xmit g = 0", auto)+
  then show "0 < s_xmit (m_slist s ! 0)" "0 < s_len (m_slist s ! 0)" by (simp_all add: l)
qed

lemma retransmit_ok:
  assumes ep: "endpoint_ok X Y P M k s" and "m_state s \<noteq> TCP_CLOSED" "m_snd_una s < m_snd_nxt s"
  shows "\<exists>ok s'. transmit E 0 now s = Some (ok, s') \<and> endpoint_ok X Y P M k s' \<and> grows s s' \<and> send_frame s s'"
  using transmit_ok [OF ep assms(2) front_sent(1) [OF endpointD(2) [OF ep] assms(3)] _ front_sent(3) [OF endpointD(2) [OF ep] assms(3)]]
    front_sent(2) [OF endpointD(2) [OF ep] assms(3)] by (metis less_irrefl less_nat_zero_code)

text \<open>Updates of the congestion window and its companions.\<close>

lemma cwnd_ok:
  assumes "endpoint_ok X Y P M k s" "0 \<le> c" "c < 4294967296" "1 \<le> t" "0 \<le> d" "d \<le> 255" "r \<le> m_snd_nxt s"
  defines "s' \<equiv> s\<lparr>m_cwnd := c, m_ssthresh := t, m_dup_acks := d, m_recover := r\<rparr>"
  shows "endpoint_ok X Y P M k s'" "grows s s'" "rcv_frame s s'"
proof -
  note epD = endpointD [OF assms(1)]
  show g: "grows s s'" by (rule grows_touch) (simp_all add: s'_def)
  show f: "rcv_frame s s'" by (simp add: rcv_frame_def s'_def)
  have "num_ok s'" using epD(1) assms(2-6) by (simp add: num_ok_def s'_def)
  moreover have "snd_ok X s'" using epD(2) assms(7) by (simp add: snd_ok_def s'_def)
  moreover have "win_ok M s'" using epD(4) by (simp add: win_ok_def s'_def)
  ultimately show "endpoint_ok X Y P M k s'"
    using rcv_ok_frame [OF f epD(3)] out_ok_grows [OF epD(5) g] by (simp add: endpoint_ok_def s'_def)
qed

lemma ack_congestion_ok:
  assumes ep: "endpoint_ok X Y P M k s" and open_: "m_state s \<noteq> TCP_CLOSED"
  shows "\<exists>ok s'. ack_congestion E now nAcked s = Some (ok, s') \<and> endpoint_ok X Y P M k s' \<and> grows s s' \<and> rcv_frame s s'
    \<and> m_state s' = (if ok then m_state s else TCP_CLOSED) \<and> m_snd_una s' = m_snd_una s"
proof -
  have N: "1 \<le> m_ssthresh s" "0 \<le> m_cwnd s" "m_cwnd s < 4294967296" "0 \<le> m_dup_acks s" "m_dup_acks s \<le> 255"
    and R: "m_recover s \<le> m_snd_nxt s" using endpointD(1,2) [OF ep] by (simp_all add: num_ok_def snd_ok_def)
  consider "m_dup_acks s \<ge> 3" "m_snd_una s \<ge> m_recover s" | "m_dup_acks s \<ge> 3" "\<not> m_snd_una s \<ge> m_recover s" | "\<not> m_dup_acks s \<ge> 3"
    by blast
  then show ?thesis
  proof cases
    case 1
    define c where "c = min (m_ssthresh s) (u32 (nInFlight s + m_mss s))"
    have c: "0 \<le> c" "c < 4294967296" using N by (auto simp: c_def min_less_iff_disj)
    define s' where "s' = s\<lparr>m_cwnd := c, m_dup_acks := 0\<rparr>"
    have e: "s' = s\<lparr>m_cwnd := c, m_ssthresh := m_ssthresh s, m_dup_acks := 0, m_recover := m_recover s\<rparr>" by (simp add: s'_def)
    have "ack_congestion E now nAcked s = Some (True, s')" using 1 by (simp add: ack_congestion_def c_def s'_def)
    moreover have "endpoint_ok X Y P M k s'" "grows s s'" "rcv_frame s s'"
      unfolding e by (rule cwnd_ok [OF ep c N(1) _ _ R]; simp)+
    ultimately show ?thesis by (intro exI [of _ True] exI [of _ s']) (simp add: s'_def)
  next
    case 2
    have "m_snd_una s < m_snd_nxt s" using 2 R by linarith
    then obtain ok s1 where t: "transmit E 0 now s = Some (ok, s1)" "endpoint_ok X Y P M k s1" "grows s s1" "send_frame s s1"
      using retransmit_ok [OF ep open_] by blast
    have sf: "m_state s1 = m_state s" "m_snd_una s1 = m_snd_una s" using t(4) by (simp_all add: send_frame_def)
    show ?thesis
    proof (cases ok)
      case True
      define c where "c = u32 (m_cwnd s1 + u32 (m_mss s1 - min nAcked (m_cwnd s1)))"
      define s' where "s' = s1\<lparr>m_cwnd := c\<rparr>"
      have e: "s' = s1\<lparr>m_cwnd := c, m_ssthresh := m_ssthresh s1, m_dup_acks := m_dup_acks s1, m_recover := m_recover s1\<rparr>" by (simp add: s'_def)
      have N1: "1 \<le> m_ssthresh s1" "0 \<le> m_dup_acks s1" "m_dup_acks s1 \<le> 255" "m_recover s1 \<le> m_snd_nxt s1"
        using endpointD(1,2) [OF t(2)] by (simp_all add: num_ok_def snd_ok_def)
      have s': "endpoint_ok X Y P M k s'" "grows s1 s'" "rcv_frame s1 s'"
        unfolding e by (rule cwnd_ok [OF t(2) _ _ N1]; simp add: c_def)+
      have "ack_congestion E now nAcked s = Some (True, s')" using 2 t(1) True by (simp add: ack_congestion_def c_def s'_def)
      then show ?thesis
        using s' t(3) grows_trans rcv_frame_trans send_rcv_frame [OF t(4)] sf
        by (intro exI [of _ True] exI [of _ s']) (auto simp: s'_def)
    next
      case False
      have "ack_congestion E now nAcked s = Some (False, closedown ECONNABORTED s1)" using 2 t(1) False by (simp add: ack_congestion_def)
      then show ?thesis
        using closedown_ok [OF t(2), of ECONNABORTED] t(3) grows_trans rcv_frame_trans send_rcv_frame [OF t(4)] sf
        by (intro exI [of _ False] exI [of _ "closedown ECONNABORTED s1"]) auto
    qed
  next
    case 3
    define c where "c = (if m_cwnd s < m_ssthresh s then u32 (m_cwnd s + m_mss s)
      else u32 (m_cwnd s + max 1 (u32 (m_mss s * m_mss s) div m_cwnd s)))"
    define s' where "s' = s\<lparr>m_cwnd := c, m_dup_acks := 0\<rparr>"
    have e: "s' = s\<lparr>m_cwnd := c, m_ssthresh := m_ssthresh s, m_dup_acks := 0, m_recover := m_recover s\<rparr>" by (simp add: s'_def)
    have c: "0 \<le> c" "c < 4294967296" by (simp_all add: c_def)
    have "ack_congestion E now nAcked s = Some (True, s')"
      using 3 N(1) by (simp add: ack_congestion_def grow_cwnd_def c_def s'_def)
    moreover have "endpoint_ok X Y P M k s'" "grows s s'" "rcv_frame s s'"
      unfolding e by (rule cwnd_ok [OF ep c N(1) _ _ R]; simp)+
    ultimately show ?thesis by (intro exI [of _ True] exI [of _ s']) (simp add: s'_def)
  qed
qed

text \<open>The bytes that an acknowledgement frees.\<close>

lemma acked_state_ok:
  assumes ep: "endpoint_ok X Y P M k s" and open_: "m_state s \<noteq> TCP_CLOSED"
    and a: "m_snd_una s < a" "a \<le> m_snd_nxt s" "bnd s a" and w: "0 \<le> w" "w \<le> 65535" "a + w \<le> M"
  defines "n \<equiv> a - m_snd_una s"
  shows "\<exists>lg l. free_acked n (m_largest s) (m_slist s) = Some (lg, l)
    \<and> (let s' = s\<lparr>m_snd_wnd := w, m_snd_una := a, m_rto_base := (if a = m_snd_nxt s then 0 else b), m_slen := m_slen s - n,
                  m_sbuf := mem_write (m_sbuf s) 0 (take (nat (m_slen s - n)) (drop (nat n) (m_sbuf s))),
                  m_largest := lg, m_slist := l\<rparr>
       in endpoint_ok X Y P M k s' \<and> grows s s' \<and> rcv_frame s s')"
proof -
  note epD = endpointD [OF ep]
  have S: "length (m_sbuf s) = 92160" "0 \<le> m_snd_una s" "m_snd_nxt s \<le> int (length X)"
    "seg_chain (m_snd_nxt s) (m_snd_una s) (m_slist s) (int (length X))" "m_slen s \<le> kSndBufSize"
    "m_snd_una s + m_slen s = int (length X)" "take (nat (m_slen s)) (m_sbuf s) = drop (nat (m_snd_una s)) X"
    using epD(2) open_ by (simp_all add: snd_ok_def)
  have n: "0 \<le> n" "m_snd_una s + n = a" "n \<le> m_slen s" using a S by (auto simp: n_def)
  have sb: "seg_bound (m_snd_una s) (m_slist s) (m_snd_una s + n)" using a(1,3) n by (simp add: bnd_def)
  obtain lg l where f: "free_acked n (m_largest s) (m_slist s) = Some (lg, l)" "seg_chain (m_snd_nxt s) a l (int (length X))"
    "\<forall>x. a \<le> x \<longrightarrow> seg_bound (m_snd_una s) (m_slist s) x \<longrightarrow> seg_bound a l x"
    using free_acked_chain [OF S(4) sb n(1), of "m_largest s"] n(2) by auto
  define d where "d = take (nat (m_slen s - n)) (drop (nat n) (m_sbuf s))"
  define s' where "s' = s\<lparr>m_snd_wnd := w, m_snd_una := a, m_rto_base := (if a = m_snd_nxt s then 0 else b), m_slen := m_slen s - n,
     m_sbuf := mem_write (m_sbuf s) 0 d, m_largest := lg, m_slist := l\<rparr>"
  have d: "length d = nat (m_slen s - n)" "d = drop (nat a) X"
  proof -
    show "length d = nat (m_slen s - n)" using n S(1,5) by (simp add: d_def)
    have "d = drop (nat n) (take (nat (m_slen s)) (m_sbuf s))"
      using n by (simp add: d_def drop_take nat_diff_distrib)
    then show "d = drop (nat a) X" using S(2,7) n by (simp add: nat_add_distrib [symmetric] add.commute)
  qed
  have g: "grows s s'"
    unfolding grows_def
  proof (intro conjI allI impI)
    fix x assume "bnd s x"
    then show "bnd s' x" using f(3) a(1) by (cases "x < a") (auto simp: bnd_def s'_def)
  qed (simp_all add: s'_def)
  have fr: "rcv_frame s s'" by (simp add: rcv_frame_def s'_def)
  have "snd_ok X s'"
    using epD(2) a n d f(2) S(1,5,6) open_ by (auto simp: snd_ok_def s'_def mem_write_def)
  moreover have "num_ok s'" using epD(1) w by (simp add: num_ok_def s'_def)
  moreover have "win_ok M s'" using epD(4) w by (simp add: win_ok_def s'_def)
  ultimately have "endpoint_ok X Y P M k s'"
    using rcv_ok_frame [OF fr epD(3)] out_ok_grows [OF epD(5) g] by (simp add: endpoint_ok_def s'_def)
  then show ?thesis using f(1) g fr unfolding s'_def d_def Let_def by blast
qed

text \<open>What becomes of the state of the connection when an acknowledgement is processed.\<close>

definition ack_result :: "Segment \<Rightarrow> PseudoTcp \<Rightarrow> bool \<Rightarrow> PseudoTcp \<Rightarrow> bool" where
  "ack_result seg s ok s' \<longleftrightarrow> (m_state s' = TCP_CLOSED \<longleftrightarrow> \<not> ok) \<and> (m_state s' = TCP_LISTEN \<longrightarrow> m_state s = TCP_LISTEN)
     \<and> (ok \<longrightarrow> m_state s' = m_state s
         \<or> m_state s' = TCP_ESTABLISHED \<and> m_state s = TCP_SYN_RECEIVED \<and> m_snd_una s < seg_ack seg)"

lemma process_ack_new_ok:
  assumes ep: "endpoint_ok X Y P M k s" and open_: "m_state s \<noteq> TCP_CLOSED"
    and a: "m_snd_una s < seg_ack seg" "seg_ack seg \<le> m_snd_nxt s" and i: "in_ok Y P M s seg"
  shows "\<exists>ok s'. process_ack_new E now bConnect seg s = Some (ok, s') \<and> endpoint_ok X Y P M k s' \<and> grows s s' \<and> rcv_frame s s'
    \<and> ack_result seg s ok s'"
proof -
  define s1 where "s1 = update_rtt now seg s"
  note r = update_rtt_ok [OF ep, of now seg, folded s1_def]
  have f1: "m_state s1 = m_state s" "m_snd_una s1 = m_snd_una s" "m_slen s1 = m_slen s" "rcv_frame s s1"
    using r(3) by (simp_all add: send_frame_def rcv_frame_def)
  have b1: "bnd s1 (seg_ack seg)" using i f1(2) r(5) by (simp add: bnd_def in_ok_def)
  have S: "0 \<le> m_snd_una s" "m_snd_nxt s \<le> int (length X)" "int (length X) < 4294967296" "m_slen s \<le> kSndBufSize"
    "m_snd_una s + m_slen s = int (length X)" using endpointD(2) [OF ep] open_ by (simp_all add: snd_ok_def)
  define n where "n = seg_ack seg - m_snd_una s"
  have u: "u32 (seg_ack seg - m_snd_una s1) = n" "u32 (m_slen s1 - n) = m_slen s - n"
    using a S f1 by (auto simp: n_def intro!: u32_id)
  have w: "0 \<le> seg_wnd seg" "seg_wnd seg \<le> 65535" "seg_ack seg + seg_wnd seg \<le> M" using i by (simp_all add: in_ok_def)
  obtain lg l where q: "free_acked n (m_largest s1) (m_slist s1) = Some (lg, l)"
    and q2: "let s' = s1\<lparr>m_snd_wnd := seg_wnd seg, m_snd_una := seg_ack seg, m_rto_base := (if seg_ack seg = m_snd_nxt s1 then 0 else now),
                  m_slen := m_slen s1 - n, m_sbuf := mem_write (m_sbuf s1) 0 (take (nat (m_slen s1 - n)) (drop (nat n) (m_sbuf s1))),
                  m_largest := lg, m_slist := l\<rparr>
       in endpoint_ok X Y P M k s' \<and> grows s1 s' \<and> rcv_frame s1 s'"
    using acked_state_ok [OF r(1) _ _ _ b1 w, of now] a open_ f1 r(4) unfolding n_def f1(2) [symmetric] by auto
  define s2 where "s2 = s1\<lparr>m_snd_wnd := seg_wnd seg, m_snd_una := seg_ack seg, m_rto_base := (if seg_ack seg = m_snd_nxt s1 then 0 else now),
                  m_slen := m_slen s1 - n, m_sbuf := mem_write (m_sbuf s1) 0 (take (nat (m_slen s1 - n)) (drop (nat n) (m_sbuf s1))),
                  m_largest := lg, m_slist := l\<rparr>"
  have s2: "endpoint_ok X Y P M k s2" "grows s1 s2" "rcv_frame s1 s2" using q2 unfolding Let_def s2_def [symmetric] by blast+
  have st2: "m_state s2 = m_state s" by (simp add: s2_def f1)
  obtain ok s3 where c: "ack_congestion E now n s2 = Some (ok, s3)" "endpoint_ok X Y P M k s3" "grows s2 s3" "rcv_frame s2 s3"
    "m_state s3 = (if ok then m_state s2 else TCP_CLOSED)"
    using ack_congestion_ok [OF s2(1), of E now n] st2 open_ by auto
  have g3: "grows s s3" "rcv_frame s s3"
    using r(2) s2(2,3) c(3,4) f1(4) grows_trans rcv_frame_trans by blast+
  have dl: "n + (m_slen s - n) \<le> kSndBufSize" using S(4) by simp
  have fin: "process_ack_new E now bConnect seg s = (if \<not> ok then Some (False, s3)
    else (let s = (if m_state s3 = TCP_SYN_RECEIVED \<and> \<not> bConnect then notify OnTcpOpen (adjustMTU (s3\<lparr>m_state := TCP_ESTABLISHED\<rparr>)) else s3)
          in Some (True, if m_bWriteEnable s \<and> m_slen s < kIdealRefillSize then notify OnTcpWriteable (s\<lparr>m_bWriteEnable := False\<rparr>) else s)))"
    using c(1) dl q
    unfolding process_ack_new_def s1_def [symmetric] Let_def u
    by (simp add: s2_def f1(3))
  show ?thesis
  proof (cases ok)
    case False
    then show ?thesis using fin c g3
      by (intro exI [of _ False] exI [of _ s3]) (simp add: ack_result_def)
  next
    case True
    define s4 where "s4 = (if m_state s3 = TCP_SYN_RECEIVED \<and> \<not> bConnect
      then notify OnTcpOpen (adjustMTU (s3\<lparr>m_state := TCP_ESTABLISHED\<rparr>)) else s3)"
    have s4: "endpoint_ok X Y P M k s4" "grows s3 s4" "rcv_frame s3 s4"
      "m_state s4 = m_state s3 \<or> m_state s4 = TCP_ESTABLISHED \<and> m_state s3 = TCP_SYN_RECEIVED"
      using established_ok [OF c(2)] c(2) by (auto simp: s4_def rcv_frame_def)
    define s5 where "s5 = (if m_bWriteEnable s4 \<and> m_slen s4 < kIdealRefillSize then notify OnTcpWriteable (s4\<lparr>m_bWriteEnable := False\<rparr>) else s4)"
    have s5: "endpoint_ok X Y P M k s5" "rcv_frame s4 s5" "m_state s5 = m_state s4"
      using endpoint_ok_touch(6) [OF endpoint_ok_touch(4) [OF s4(1)]] s4(1) by (auto simp: s5_def rcv_frame_def notify_def)
    have "grows s4 s5" by (rule grows_touch) (auto simp: s5_def notify_def)
    then have "grows s s5" "rcv_frame s s5" using g3 s4(2,3) s5(2) grows_trans rcv_frame_trans by blast+
    moreover have "process_ack_new E now bConnect seg s = Some (True, s5)" using True fin by (simp add: s4_def s5_def Let_def)
    moreover have "m_state s3 = m_state s" using c(5) True st2 by simp
    then have "ack_result seg s True s5" using s5(3) s4(4) open_ a(1) unfolding ack_result_def by auto
    ultimately show ?thesis using s5(1) by blast
  qed
qed

lemma fast_retransmit_ok:
  assumes ep: "endpoint_ok X Y P M k s" and open_: "m_state s \<noteq> TCP_CLOSED" and fl: "m_snd_una s < m_snd_nxt s"
  shows "\<exists>ok s'. fast_retransmit E now s = Some (ok, s') \<and> endpoint_ok X Y P M k s' \<and> grows s s' \<and> rcv_frame s s'
    \<and> m_state s' = (if ok then m_state s else TCP_CLOSED)"
proof -
  obtain ok s3 where t: "transmit E 0 now s = Some (ok, s3)" "endpoint_ok X Y P M k s3" "grows s s3" "send_frame s s3"
    using retransmit_ok [OF ep open_ fl] by blast
  have f3: "m_state s3 = m_state s" "rcv_frame s s3" using t(4) send_rcv_frame [OF t(4)] by (simp_all add: send_frame_def)
  show ?thesis
  proof (cases ok)
    case False
    have "fast_retransmit E now s = Some (False, closedown ECONNABORTED s3)" using t(1) False by (simp add: fast_retransmit_def)
    then show ?thesis using closedown_ok [OF t(2), of ECONNABORTED] t(3) f3(2) grows_trans rcv_frame_trans
      by (intro exI [of _ False] exI [of _ "closedown ECONNABORTED s3"]) auto
  next
    case True
    define th where "th = max (nInFlight s3 div 2) (u32 (2 * m_mss s3))"
    define c where "c = u32 (th + 3 * m_mss s3)"
    define s4 where "s4 = s3\<lparr>m_recover := m_snd_nxt s3, m_ssthresh := th, m_cwnd := c\<rparr>"
    have m: "1 \<le> m_mss s3" "m_mss s3 \<le> 65419" "0 \<le> m_dup_acks s3" "m_dup_acks s3 \<le> 255"
      using endpointD(1) [OF t(2)] by (simp_all add: num_ok_def)
    have th: "1 \<le> th" using m by (simp add: th_def u32_id le_max_iff_disj)
    have e: "s4 = s3\<lparr>m_cwnd := c, m_ssthresh := th, m_dup_acks := m_dup_acks s3, m_recover := m_snd_nxt s3\<rparr>" by (simp add: s4_def)
    have s4: "endpoint_ok X Y P M k s4" "grows s3 s4" "rcv_frame s3 s4"
      unfolding e by (rule cwnd_ok [OF t(2) _ _ th m(3,4)]; simp add: c_def)+
    have "fast_retransmit E now s = Some (True, s4)"
      using t(1) True by (simp add: fast_retransmit_def s4_def th_def c_def Let_def)
    then show ?thesis using s4 t(3) f3 grows_trans rcv_frame_trans
      by (intro exI [of _ True] exI [of _ s4]) (auto simp: s4_def)
  qed
qed

text \<open>The counter of duplicate acknowledgements.\<close>

lemma dup_acks_ok:
  assumes ep: "endpoint_ok X Y P M k s" and d: "0 \<le> d" "d \<le> 255"
  shows "endpoint_ok X Y P M k (s\<lparr>m_dup_acks := d\<rparr>)" "grows s (s\<lparr>m_dup_acks := d\<rparr>)" "rcv_frame s (s\<lparr>m_dup_acks := d\<rparr>)"
proof -
  have N: "1 \<le> m_ssthresh s" "0 \<le> m_cwnd s" "m_cwnd s < 4294967296" "m_recover s \<le> m_snd_nxt s"
    using endpointD(1,2) [OF ep] by (simp_all add: num_ok_def snd_ok_def)
  define s' where "s' = s\<lparr>m_dup_acks := d\<rparr>"
  have e: "s' = s\<lparr>m_cwnd := m_cwnd s, m_ssthresh := m_ssthresh s, m_dup_acks := d, m_recover := m_recover s\<rparr>" by (simp add: s'_def)
  have "endpoint_ok X Y P M k s'" "grows s s'" "rcv_frame s s'"
    unfolding e by (rule cwnd_ok [OF ep N(2,3,1) d N(4)])+
  then show "endpoint_ok X Y P M k (s\<lparr>m_dup_acks := d\<rparr>)" "grows s (s\<lparr>m_dup_acks := d\<rparr>)" "rcv_frame s (s\<lparr>m_dup_acks := d\<rparr>)"
    by (simp_all add: s'_def)
qed

lemma count_dup_ack_ok:
  assumes ep: "endpoint_ok X Y P M k s" and open_: "m_state s \<noteq> TCP_CLOSED" and fl: "m_snd_una s < m_snd_nxt s"
  shows "\<exists>ok s'. count_dup_ack E now s = Some (ok, s') \<and> endpoint_ok X Y P M k s' \<and> grows s s' \<and> rcv_frame s s'
    \<and> m_state s' = (if ok then m_state s else TCP_CLOSED)"
proof -
  define d where "d = u8 (m_dup_acks s + 1)"
  have d: "0 \<le> d" "d \<le> 255" by (simp_all add: d_def)
  define s2 where "s2 = s\<lparr>m_dup_acks := d\<rparr>"
  have s2: "endpoint_ok X Y P M k s2" "grows s s2" "rcv_frame s s2" "m_state s2 = m_state s" "m_snd_una s2 = m_snd_una s"
    "m_snd_nxt s2 = m_snd_nxt s" using dup_acks_ok [OF ep d] by (simp_all add: s2_def)
  have eq: "count_dup_ack E now s = (if d = 3 then fast_retransmit E now s2
      else Some (True, if d > 3 then s2\<lparr>m_cwnd := u32 (m_cwnd s2 + m_mss s2)\<rparr> else s2))"
    unfolding count_dup_ack_def Let_def d_def s2_def by (rule refl)
  consider "d = 3" | "d \<noteq> 3" "d > 3" | "d \<noteq> 3" "\<not> d > 3" by blast
  then show ?thesis
  proof cases
    case 1
    obtain ok s' where f: "fast_retransmit E now s2 = Some (ok, s')" "endpoint_ok X Y P M k s'" "grows s2 s'" "rcv_frame s2 s'"
      "m_state s' = (if ok then m_state s2 else TCP_CLOSED)"
      using fast_retransmit_ok [OF s2(1), of E now] s2(4-6) open_ fl by auto
    have "grows s s'" "rcv_frame s s'" using s2(2,3) f(3,4) grows_trans rcv_frame_trans by blast+
    then show ?thesis using 1 eq f s2(4) by auto
  next
    case 2
    define c where "c = u32 (m_cwnd s2 + m_mss s2)"
    define s3 where "s3 = s2\<lparr>m_cwnd := c\<rparr>"
    have e: "s3 = s2\<lparr>m_cwnd := c, m_ssthresh := m_ssthresh s2, m_dup_acks := m_dup_acks s2, m_recover := m_recover s2\<rparr>"
      by (simp add: s3_def)
    have "1 \<le> m_ssthresh s2" "0 \<le> m_dup_acks s2" "m_dup_acks s2 \<le> 255" "m_recover s2 \<le> m_snd_nxt s2"
      using endpointD(1,2) [OF s2(1)] by (simp_all add: num_ok_def snd_ok_def)
    then have s3: "endpoint_ok X Y P M k s3" "grows s2 s3" "rcv_frame s2 s3"
      unfolding e by (intro cwnd_ok [OF s2(1)]; simp add: c_def)+
    have "grows s s3" "rcv_frame s s3"
      using s2(2,3) s3(2,3) grows_trans rcv_frame_trans by blast+
    moreover have "count_dup_ack E now s = Some (True, s3)" using 2 eq by (simp add: c_def s3_def)
    moreover have "m_state s3 = m_state s" using s2(4) by (simp add: s3_def)
    ultimately show ?thesis using s3(1) by (intro exI [of _ True] exI [of _ s3]) simp
  next
    case 3
    then show ?thesis using eq s2 by (intro exI [of _ True] exI [of _ s2]) simp
  qed
qed

lemma process_ack_dup_ok:
  assumes ep: "endpoint_ok X Y P M k s" and open_: "m_state s \<noteq> TCP_CLOSED"
    and a: "seg_ack seg = m_snd_una s" and i: "in_ok Y P M s seg"
  shows "\<exists>ok s'. process_ack_dup E now seg s = Some (ok, s') \<and> endpoint_ok X Y P M k s' \<and> grows s s' \<and> rcv_frame s s'
    \<and> ack_result seg s ok s'"
proof -
  note epD = endpointD [OF ep]
  define s1 where "s1 = s\<lparr>m_snd_wnd := seg_wnd seg\<rparr>"
  have s1: "endpoint_ok X Y P M k s1" "grows s s1" "rcv_frame s s1" "m_state s1 = m_state s" "m_snd_una s1 = m_snd_una s"
    "m_snd_nxt s1 = m_snd_nxt s"
  proof -
    show g: "grows s s1" by (rule grows_touch) (simp_all add: s1_def)
    show f: "rcv_frame s s1" by (simp add: rcv_frame_def s1_def)
    have "snd_ok X s1" using epD(2) by (simp add: snd_ok_def s1_def)
    moreover have "num_ok s1" "win_ok M s1" using epD(1,4) i a by (simp_all add: num_ok_def win_ok_def in_ok_def s1_def)
    ultimately show "endpoint_ok X Y P M k s1"
      using rcv_ok_frame [OF f epD(3)] out_ok_grows [OF epD(5) g] by (simp add: endpoint_ok_def s1_def)
  qed (simp_all add: s1_def)
  have eq: "process_ack_dup E now seg s = (if seg_len seg > 0 then Some (True, s1)
    else if m_snd_una s1 \<noteq> m_snd_nxt s1 then count_dup_ack E now s1 else Some (True, s1\<lparr>m_dup_acks := 0\<rparr>))"
    unfolding process_ack_dup_def s1_def Let_def by (rule refl)
  have "\<exists>ok s'. process_ack_dup E now seg s = Some (ok, s') \<and> endpoint_ok X Y P M k s' \<and> grows s1 s' \<and> rcv_frame s1 s'
    \<and> m_state s' = (if ok then m_state s1 else TCP_CLOSED)"
  proof (cases "seg_len seg > 0")
    case True
    then show ?thesis using s1(1) by (intro exI [of _ True] exI [of _ s1]) (simp add: eq rcv_frame_def)
  next
    case False
    show ?thesis
    proof (cases "m_snd_una s1 = m_snd_nxt s1")
      case True
      then show ?thesis using False dup_acks_ok [OF s1(1), of 0]
        by (intro exI [of _ True] exI [of _ "s1\<lparr>m_dup_acks := 0\<rparr>"]) (simp add: eq)
    next
      case F: False
      have "m_snd_una s1 < m_snd_nxt s1" using F endpointD(2) [OF s1(1)] by (simp add: snd_ok_def)
      from count_dup_ack_ok [OF s1(1) _ this] show ?thesis using False F s1(4) open_ by (simp add: eq)
    qed
  qed
  then obtain ok s' where "process_ack_dup E now seg s = Some (ok, s')" "endpoint_ok X Y P M k s'" "grows s1 s'" "rcv_frame s1 s'"
    "m_state s' = (if ok then m_state s1 else TCP_CLOSED)" by blast
  then show ?thesis using s1(2-4) open_ grows_trans rcv_frame_trans
    by (intro exI [of _ ok] exI [of _ s']) (auto simp: ack_result_def)
qed

lemma process_ack_ok:
  assumes ep: "endpoint_ok X Y P M k s" and open_: "m_state s \<noteq> TCP_CLOSED" and i: "in_ok Y P M s seg"
  shows "\<exists>ok s'. process_ack E now bConnect seg s = Some (ok, s') \<and> endpoint_ok X Y P M k s' \<and> grows s s' \<and> rcv_frame s s'
    \<and> ack_result seg s ok s'"
proof -
  consider "m_snd_una s < seg_ack seg \<and> seg_ack seg \<le> m_snd_nxt s" | "seg_ack seg = m_snd_una s"
    | "\<not> (m_snd_una s < seg_ack seg \<and> seg_ack seg \<le> m_snd_nxt s)" "seg_ack seg \<noteq> m_snd_una s" by blast
  then show ?thesis
  proof cases
    case 1
    then show ?thesis using process_ack_new_ok [OF ep open_ _ _ i] by (simp add: process_ack_def)
  next
    case 2
    then show ?thesis using process_ack_dup_ok [OF ep open_ 2 i] by (simp add: process_ack_def)
  next
    case 3
    then have "process_ack E now bConnect seg s = Some (True, s)" by (auto simp: process_ack_def)
    then show ?thesis using ep open_ by (auto simp: ack_result_def rcv_frame_def)
  qed
qed

subsection \<open>Control data and timestamps\<close>

lemma in_ok_grows:
  assumes "in_ok Y P M s g" "grows s s'" "rcv_frame s s'"
  shows "in_ok Y P M s' g"
proof -
  have "bnd s' (seg_ack g)" "seg_ack g \<le> m_snd_nxt s'" using assms by (auto simp: in_ok_def grows_def)
  then show ?thesis using assms(1,3) by (simp add: in_ok_def rcv_frame_def)
qed

lemma data_ok_control:
  assumes "data_ok Y g" "seg_flags g AND FLAG_CTL \<noteq> 0" "Y \<noteq> [] \<Longrightarrow> hd Y = CTL_CONNECT"
  shows "seg_flags g = FLAG_CTL" "seg_seq g = 0" "seg_len g = 1" "seg_data g \<noteq> []" "hd (seg_data g) = CTL_CONNECT"
proof -
  have f: "seg_flags g \<in> {0, 2}" using assms(1) unfolding data_ok_def by blast
  then show fl: "seg_flags g = FLAG_CTL" using assms(2) by auto
  have "seg_seq g = 0 \<and> seg_len g = 1" using assms(1) fl unfolding data_ok_def by blast
  then show q: "seg_seq g = 0" "seg_len g = 1" by auto
  have d: "seg_data g = take 1 Y" "1 \<le> int (length Y)" using assms(1) q unfolding data_ok_def by simp_all
  show "seg_data g \<noteq> []" "hd (seg_data g) = CTL_CONNECT" using d assms(3) by (cases Y; simp)+
qed

lemma process_control_ok:
  assumes ep: "endpoint_ok X Y P M k s" and open_: "m_state s \<noteq> TCP_CLOSED" and d: "data_ok Y seg"
    and Y: "Y \<noteq> [] \<Longrightarrow> hd Y = CTL_CONNECT"
  shows "\<exists>bConnect X' s'. process_control seg s = Some (True, bConnect, s') \<and> endpoint_ok X' Y P M k s' \<and> grows s s' \<and> rcv_frame s s'
    \<and> m_snd_una s' = m_snd_una s \<and> m_snd_nxt s' = m_snd_nxt s \<and> written s' = written s
    \<and> (if seg_flags seg = FLAG_CTL \<and> m_state s = TCP_LISTEN then X' = [CTL_CONNECT] \<and> m_state s' = TCP_SYN_RECEIVED
       else X' = X \<and> m_state s' = (if seg_flags seg = FLAG_CTL \<and> m_state s = TCP_SYN_SENT then TCP_ESTABLISHED else m_state s))"
proof (cases "seg_flags seg AND FLAG_CTL = 0")
  case True
  then have f: "seg_flags seg \<noteq> FLAG_CTL" by auto
  have "process_control seg s = Some (True, False, s)" using True by (simp add: process_control_def)
  then show ?thesis using ep f by (auto simp: rcv_frame_def)
next
  case False
  note c = data_ok_control [OF d False Y]
  have fl: "seg_flags seg AND FLAG_CTL \<noteq> 0" by (rule False)
  consider "m_state s = TCP_LISTEN" | "m_state s = TCP_SYN_SENT" | "m_state s \<noteq> TCP_LISTEN" "m_state s \<noteq> TCP_SYN_SENT" by blast
  then show ?thesis
  proof cases
    case 1
    obtain n s' where q: "queue [CTL_CONNECT] True (s\<lparr>m_state := TCP_SYN_RECEIVED\<rparr>) = Some (n, s')"
      "endpoint_ok [CTL_CONNECT] Y P M k s'" "grows s s'" "m_state s' = TCP_SYN_RECEIVED" "rcv_frame s s'"
      "m_snd_una s' = m_snd_una s" "m_snd_nxt s' = m_snd_nxt s" "written s' = written s"
      using queue_connect_ok [OF ep 1, of TCP_SYN_RECEIVED] by auto
    have "process_control seg s = Some (True, True, s')" using fl c 1 q(1) by (simp add: process_control_def)
    then show ?thesis using q(2-8) c(1) 1 by auto
  next
    case 2
    have "process_control seg s = Some (True, True, notify OnTcpOpen (adjustMTU (s\<lparr>m_state := TCP_ESTABLISHED\<rparr>)))"
      using fl c 2 by (simp add: process_control_def)
    then show ?thesis using established_ok [OF ep] 2 c(1) by auto
  next
    case 3
    then have "process_control seg s = Some (True, True, s)" using fl c by (simp add: process_control_def)
    then show ?thesis using ep 3 by (auto simp: rcv_frame_def)
  qed
qed

lemma update_timestamp_ok:
  assumes ep: "endpoint_ok X Y P M k s" and t: "0 \<le> seg_tsval seg" "seg_tsval seg < 4294967296"
  defines "s' \<equiv> update_timestamp seg s"
  shows "endpoint_ok X Y P M k s'" "grows s s'" "rcv_frame s s'" "m_state s' = m_state s" "m_snd_una s' = m_snd_una s"
    "m_snd_nxt s' = m_snd_nxt s" "written s' = written s"
proof -
  show "endpoint_ok X Y P M k s'"
    by (rule endpoint_ok_cong [OF _ _ _ _ _ _ _ _ _ _ _ _ _ _ _ _ _ _ ep])
       (use endpointD(1) [OF ep] t in \<open>simp_all add: s'_def update_timestamp_def num_ok_def\<close>)
  show "grows s s'" by (rule grows_touch) (simp_all add: s'_def update_timestamp_def)
qed (simp_all add: s'_def update_timestamp_def rcv_frame_def)

subsection \<open>Received data\<close>

lemma u32_of_neg: "- 4294967296 < x \<Longrightarrow> x < 0 \<Longrightarrow> 0 < u32 x"
  using u32_minus [of x] by simp

text \<open>The part of a segment that is new.\<close>

lemma adjust_segment_ok:
  assumes r: "rcv_ok Y P k s" and d: "data_ok Y g"
    and e: "0 < seg_len g \<Longrightarrow> seg_seq g + seg_len g \<le> m_rcv_nxt s + m_rcv_wnd s"
  defines "g' \<equiv> adjust_segment g s"
  shows "seg_flags g' = seg_flags g"
    "seg_len g' \<le> 0 \<or> m_rcv_nxt s \<le> seg_seq g' \<and> seg_seq g' = max (seg_seq g) (m_rcv_nxt s) \<and> 0 < seg_len g
       \<and> seg_seq g' + seg_len g' = seg_seq g + seg_len g \<and> seg_data g' = take (nat (seg_len g')) (drop (nat (seg_seq g')) Y)
       \<and> seg_len g' = int (length (seg_data g'))"
    "seg_len g' \<le> 0 \<Longrightarrow> 0 < seg_len g \<Longrightarrow> seg_seq g + seg_len g \<le> m_rcv_nxt s"
proof -
  have R: "0 \<le> m_rlen s" "m_rlen s + m_rcv_wnd s \<le> 61440" "0 \<le> m_rcv_nxt s" "m_rcv_nxt s \<le> int (length Y)"
    "int (length Y) < 4294967296" "0 \<le> m_rcv_wnd s" using r by (simp_all add: rcv_ok_def)
  define room where "room = 61440 - m_rlen s"
  have room: "u32 (61440 - m_rlen s) = room" using R by (auto simp: room_def intro!: u32_id)
  have G: "0 \<le> seg_seq g" "seg_seq g < 4294967296" "seg_len g = int (length (seg_data g))"
    using d unfolding data_ok_def by blast+
  define g1 where "g1 = drop_old g s"
  have g': "g' = (let endpos = u32 (seg_seq g1 + seg_len g1 - m_rcv_nxt s)
      in if endpos > room then (let n = u32 (endpos - room) in if n < seg_len g1 then g1\<lparr>seg_len := u32 (seg_len g1 - n)\<rparr> else g1\<lparr>seg_len := 0\<rparr>)
         else g1)"
    unfolding g'_def adjust_segment_def g1_def [symmetric] room Let_def by (rule refl)
  have fl: "seg_flags g1 = seg_flags g" by (simp add: g1_def drop_old_def Let_def)
  then show "seg_flags g' = seg_flags g" by (simp add: g' Let_def)
  have nn: "\<not> u32 x < 0" for x by (simp add: not_less)
  have zero: "seg_len g1 = 0 \<Longrightarrow> seg_len g' = 0" by (simp add: g' Let_def nn)
  show "seg_len g' \<le> 0 \<or> m_rcv_nxt s \<le> seg_seq g' \<and> seg_seq g' = max (seg_seq g) (m_rcv_nxt s) \<and> 0 < seg_len g
       \<and> seg_seq g' + seg_len g' = seg_seq g + seg_len g \<and> seg_data g' = take (nat (seg_len g')) (drop (nat (seg_seq g')) Y)
       \<and> seg_len g' = int (length (seg_data g'))"
    and "seg_len g' \<le> 0 \<Longrightarrow> 0 < seg_len g \<Longrightarrow> seg_seq g + seg_len g \<le> m_rcv_nxt s"
  proof -
    have "(seg_len g1 = 0 \<and> (0 < seg_len g \<longrightarrow> seg_seq g + seg_len g \<le> m_rcv_nxt s))
      \<or> 0 < seg_len g1 \<and> m_rcv_nxt s \<le> seg_seq g1 \<and> seg_seq g1 = max (seg_seq g) (m_rcv_nxt s) \<and> 0 < seg_len g
         \<and> seg_seq g1 + seg_len g1 = seg_seq g + seg_len g \<and> seg_data g1 = take (nat (seg_len g1)) (drop (nat (seg_seq g1)) Y)
         \<and> seg_len g1 = int (length (seg_data g1))"
    proof (cases "0 < seg_len g")
      case False
      then have "seg_len g = 0" using G(3) by simp
      then show ?thesis by (auto simp: g1_def drop_old_def Let_def nn)
    next
      case len: True
      then have Yd: "seg_seq g + seg_len g \<le> int (length Y)" "seg_data g = take (nat (seg_len g)) (drop (nat (seg_seq g)) Y)"
        using d unfolding data_ok_def by blast+
      show ?thesis
      proof (cases "seg_seq g < m_rcv_nxt s")
        case False
        then have e: "g1 = g" by (simp add: g1_def drop_old_def)
        have "m_rcv_nxt s \<le> seg_seq g" "seg_seq g = max (seg_seq g) (m_rcv_nxt s)" using False by simp_all
        then show ?thesis using len Yd(2) G(3) unfolding e by blast
      next
        case True
        define n where "n = m_rcv_nxt s - seg_seq g"
        have n: "u32 (m_rcv_nxt s - seg_seq g) = n" "0 < n" using True R G by (auto simp: n_def intro!: u32_id)
        show ?thesis
        proof (cases "n < seg_len g")
          case False
          then have "seg_len g1 = 0" using True n by (simp add: g1_def drop_old_def Let_def)
          then show ?thesis using False by (simp add: n_def)
        next
          case T2: True
          have u: "u32 (seg_seq g + n) = m_rcv_nxt s" "u32 (seg_len g - n) = seg_len g - n"
            using T2 n(2) R G Yd(1) by (auto simp: n_def intro!: u32_id)
          have g1: "seg_seq g1 = m_rcv_nxt s" "seg_len g1 = seg_len g - n" "seg_data g1 = drop (nat n) (seg_data g)"
            using True T2 by (simp_all add: g1_def drop_old_def n(1) Let_def u)
          have "drop (nat n) (seg_data g) = take (nat (seg_len g - n)) (drop (nat n) (drop (nat (seg_seq g)) Y))"
            unfolding Yd(2) drop_take using T2 n(2) by (simp add: nat_diff_distrib)
          also have "\<dots> = take (nat (seg_len g - n)) (drop (nat (m_rcv_nxt s)) Y)"
            using n(2) G(1) by (simp add: n_def nat_add_distrib [symmetric])
          finally have dd: "seg_data g1 = take (nat (seg_len g1)) (drop (nat (seg_seq g1)) Y)" by (simp only: g1)
          have "seg_len g1 = int (length (seg_data g1))" using G(3) n(2) T2 by (simp add: g1)
          moreover have "0 < seg_len g1" "m_rcv_nxt s \<le> seg_seq g1" "seg_seq g1 = max (seg_seq g) (m_rcv_nxt s)"
            "seg_seq g1 + seg_len g1 = seg_seq g + seg_len g" using T2 True unfolding g1 by (simp_all add: n_def)
          ultimately show ?thesis using dd len by blast
        qed
      qed
    qed
    moreover have "g' = g1" if "0 < seg_len g1" "m_rcv_nxt s \<le> seg_seq g1" "0 < seg_len g" "seg_seq g1 + seg_len g1 = seg_seq g + seg_len g"
    proof -
      have "seg_seq g1 + seg_len g1 - m_rcv_nxt s \<le> room" using e that R by (simp add: room_def)
      moreover have "u32 (seg_seq g1 + seg_len g1 - m_rcv_nxt s) = seg_seq g1 + seg_len g1 - m_rcv_nxt s"
        using that R calculation by (intro u32_id) (auto simp: room_def)
      ultimately show ?thesis by (simp add: g')
    qed
    ultimately show "seg_len g' \<le> 0 \<or> m_rcv_nxt s \<le> seg_seq g' \<and> seg_seq g' = max (seg_seq g) (m_rcv_nxt s) \<and> 0 < seg_len g
       \<and> seg_seq g' + seg_len g' = seg_seq g + seg_len g \<and> seg_data g' = take (nat (seg_len g')) (drop (nat (seg_seq g')) Y)
       \<and> seg_len g' = int (length (seg_data g'))"
      "seg_len g' \<le> 0 \<Longrightarrow> 0 < seg_len g \<Longrightarrow> seg_seq g + seg_len g \<le> m_rcv_nxt s"
      using zero by (metis order_refl, metis linorder_not_le)
  qed
qed

text \<open>
  The buffer as a part of the stream: the byte at position \<open>j\<close> of the stream is kept at \<open>j - c\<close>.
\<close>

definition holds_stream :: "int list \<Rightarrow> int \<Rightarrow> int list \<Rightarrow> int \<Rightarrow> bool" where
  "holds_stream Y c B j \<longleftrightarrow> B ! nat (j - c) = Y ! nat j"

lemma take_holds_stream:
  assumes "0 \<le> n" "n \<le> int (length B)" "int c + n \<le> int (length Y)"
  shows "take (nat n) B = take (nat n) (drop c Y) \<longleftrightarrow> (\<forall>j. int c \<le> j \<longrightarrow> j < int c + n \<longrightarrow> holds_stream Y (int c) B j)"
proof -
  have "take (nat n) B = take (nat n) (drop c Y) \<longleftrightarrow> (\<forall>i<nat n. B ! i = Y ! (c + i))"
    using assms by (auto simp: list_eq_iff_nth_eq)
  also have "\<dots> \<longleftrightarrow> (\<forall>j. int c \<le> j \<longrightarrow> j < int c + n \<longrightarrow> holds_stream Y (int c) B j)"
  proof
    assume a: "\<forall>i<nat n. B ! i = Y ! (c + i)"
    show "\<forall>j. int c \<le> j \<longrightarrow> j < int c + n \<longrightarrow> holds_stream Y (int c) B j"
    proof (intro allI impI)
      fix j assume "int c \<le> j" "j < int c + n"
      then have "nat (j - int c) < nat n" "c + nat (j - int c) = nat j" by auto
      then show "holds_stream Y (int c) B j" using a by (auto simp: holds_stream_def)
    qed
  next
    assume a: "\<forall>j. int c \<le> j \<longrightarrow> j < int c + n \<longrightarrow> holds_stream Y (int c) B j"
    show "\<forall>i<nat n. B ! i = Y ! (c + i)"
    proof (intro allI impI)
      fix i assume "i < nat n"
      then have "holds_stream Y (int c) B (int (c + i))" using a by simp
      then show "B ! i = Y ! (c + i)" by (simp add: holds_stream_def nat_int_add)
    qed
  qed
  finally show ?thesis .
qed

lemma mem_write_stream:
  assumes "c \<le> q" "0 \<le> c" "q - c + n \<le> int (length B)" "d = take (nat n) (drop (nat q) Y)" "q + n \<le> int (length Y)" "0 \<le> n"
  shows "q \<le> j \<Longrightarrow> j < q + n \<Longrightarrow> holds_stream Y c (mem_write B (nat (q - c)) d) j"
    "c \<le> j \<Longrightarrow> j - c < int (length B) \<Longrightarrow> holds_stream Y c B j \<Longrightarrow> holds_stream Y c (mem_write B (nat (q - c)) d) j"
proof -
  have ld: "length d = nat n" using assms by simp
  have lt: "length (take (nat (q - c)) B) = nat (q - c)" using assms by simp
  have in_: "holds_stream Y c (mem_write B (nat (q - c)) d) j" if "q \<le> j" "j < q + n" for j
  proof -
    have "nat (j - c) = nat (q - c) + nat (j - q)" "nat (j - q) < length d" using that assms(1) ld by auto
    then have "mem_write B (nat (q - c)) d ! nat (j - c) = d ! nat (j - q)"
      using lt by (simp add: mem_write_def nth_append)
    also have "\<dots> = Y ! (nat q + nat (j - q))" using assms that ld by simp
    also have "nat q + nat (j - q) = nat j" using that assms(1,2) by auto
    finally show ?thesis by (simp add: holds_stream_def)
  qed
  show "q \<le> j \<Longrightarrow> j < q + n \<Longrightarrow> holds_stream Y c (mem_write B (nat (q - c)) d) j" by (rule in_)
  assume j: "c \<le> j" "j - c < int (length B)" "holds_stream Y c B j"
  consider "j < q" | "q \<le> j" "j < q + n" | "q + n \<le> j" by linarith
  then show "holds_stream Y c (mem_write B (nat (q - c)) d) j"
  proof cases
    case 1
    then have "nat (j - c) < nat (q - c)" using j(1) by auto
    then have "mem_write B (nat (q - c)) d ! nat (j - c) = B ! nat (j - c)" using lt by (simp add: mem_write_def nth_append)
    then show ?thesis using j(3) by (simp add: holds_stream_def)
  next
    case 2
    then show ?thesis by (rule in_)
  next
    case 3
    have a: "nat (q - c) + length d + (nat (j - c) - (nat (q - c) + length d)) = nat (j - c)"
      using 3 assms(1,6) ld by auto
    have l: "length (take (nat (q - c)) B @ d) = nat (q - c) + length d" using lt by simp
    have "\<not> nat (j - c) < nat (q - c) + length d" using 3 assms(1,6) ld by auto
    then have "mem_write B (nat (q - c)) d ! nat (j - c)
      = drop (nat (q - c) + length d) B ! (nat (j - c) - (nat (q - c) + length d))"
      unfolding mem_write_def append_assoc [symmetric] using l by (subst nth_append) simp
    also have "\<dots> = B ! (nat (q - c) + length d + (nat (j - c) - (nat (q - c) + length d)))"
      using ld j(2) assms by (intro nth_drop) simp
    also have "\<dots> = B ! nat (j - c)" by (simp only: a)
    finally show ?thesis using j(3) by (simp add: holds_stream_def)
  qed
qed

lemma recover_saved_ok:
  assumes "\<forall>r\<in>set l. 0 \<le> r_seq r \<and> 0 < r_len r \<and> r_seq r + r_len r \<le> L \<and> r_seq r + r_len r \<in> P
      \<and> r_seq r + r_len r \<le> nxt + wnd \<and> (\<forall>j. nxt \<le> j \<longrightarrow> r_seq r \<le> j \<longrightarrow> j < r_seq r + r_len r \<longrightarrow> Q j)"
    "nxt \<in> P" "0 \<le> nxt" "nxt \<le> L" "L < 4294967296" "0 \<le> rlen" "0 \<le> wnd" "rlen + wnd \<le> 61440"
  shows "\<exists>l' d fl'. recover_saved l rlen nxt wnd fl = (l', rlen + d, nxt + d, wnd - d, fl') \<and> 0 \<le> d \<and> d \<le> wnd
    \<and> set l' \<subseteq> set l \<and> nxt + d \<in> P \<and> nxt + d \<le> L \<and> (\<forall>j. nxt \<le> j \<longrightarrow> j < nxt + d \<longrightarrow> Q j)"
  using assms
proof (induction l arbitrary: rlen nxt wnd fl)
  case Nil
  then show ?case by (intro exI [of _ "[]"] exI [of _ 0] exI [of _ fl]) simp
next
  case (Cons r l)
  note p = Cons.prems
  have r: "0 \<le> r_seq r" "0 < r_len r" "r_seq r + r_len r \<le> L" "r_seq r + r_len r \<in> P" "r_seq r + r_len r \<le> nxt + wnd"
    "\<forall>j. nxt \<le> j \<longrightarrow> r_seq r \<le> j \<longrightarrow> j < r_seq r + r_len r \<longrightarrow> Q j" using p(1) by auto
  have e: "u32 (r_seq r + r_len r) = r_seq r + r_len r" using r p(5) by (intro u32_id) auto
  consider "\<not> r_seq r \<le> nxt" | "r_seq r \<le> nxt" "\<not> r_seq r + r_len r > nxt" | "r_seq r \<le> nxt" "r_seq r + r_len r > nxt" by blast
  then show ?case
  proof cases
    case 1
    then show ?thesis using p by (intro exI [of _ "r # l"] exI [of _ 0] exI [of _ fl]) simp
  next
    case 2
    have "\<exists>l' d fl'. recover_saved l rlen nxt wnd fl = (l', rlen + d, nxt + d, wnd - d, fl') \<and> 0 \<le> d \<and> d \<le> wnd
      \<and> set l' \<subseteq> set l \<and> nxt + d \<in> P \<and> nxt + d \<le> L \<and> (\<forall>j. nxt \<le> j \<longrightarrow> j < nxt + d \<longrightarrow> Q j)"
      using p by (intro Cons.IH) auto
    then show ?thesis using 2 e by auto
  next
    case 3
    define n where "n = r_seq r + r_len r - nxt"
    have n: "0 < n" "nxt + n = r_seq r + r_len r" "n \<le> wnd" using 3 r by (simp_all add: n_def)
    have u: "u32 (r_seq r + r_len r - nxt) = n" "u32 (rlen + n) = rlen + n" "u32 (nxt + n) = nxt + n" "u32 (wnd - n) = wnd - n"
      using n p r by (auto simp: n_def intro!: u32_id)
    have "\<exists>l' d fl'. recover_saved l (rlen + n) (nxt + n) (wnd - n) sfImmediateAck
        = (l', (rlen + n) + d, (nxt + n) + d, (wnd - n) - d, fl') \<and> 0 \<le> d \<and> d \<le> wnd - n
      \<and> set l' \<subseteq> set l \<and> (nxt + n) + d \<in> P \<and> (nxt + n) + d \<le> L \<and> (\<forall>j. nxt + n \<le> j \<longrightarrow> j < (nxt + n) + d \<longrightarrow> Q j)"
    proof (rule Cons.IH)
      show "\<forall>r\<in>set l. 0 \<le> r_seq r \<and> 0 < r_len r \<and> r_seq r + r_len r \<le> L \<and> r_seq r + r_len r \<in> P
        \<and> r_seq r + r_len r \<le> nxt + n + (wnd - n) \<and> (\<forall>j. nxt + n \<le> j \<longrightarrow> r_seq r \<le> j \<longrightarrow> j < r_seq r + r_len r \<longrightarrow> Q j)"
        using p(1) n(1) by auto
      show "nxt + n \<in> P" "nxt + n \<le> L" using r(3,4) n(2) by simp_all
    qed (use p n in auto)
    then obtain l' d fl' where i: "recover_saved l (rlen + n) (nxt + n) (wnd - n) sfImmediateAck
        = (l', (rlen + n) + d, (nxt + n) + d, (wnd - n) - d, fl')" "0 \<le> d" "d \<le> wnd - n"
      "set l' \<subseteq> set l" "(nxt + n) + d \<in> P" "(nxt + n) + d \<le> L" "\<forall>j. nxt + n \<le> j \<longrightarrow> j < (nxt + n) + d \<longrightarrow> Q j" by blast
    have q: "Q j" if "nxt \<le> j" "j < nxt + (n + d)" for j
      using r(6) i(7) n(2) that 3(1) by (cases "j < nxt + n") auto
    have eq: "recover_saved (r # l) rlen nxt wnd fl = (l', rlen + (n + d), nxt + (n + d), wnd - (n + d), fl')"
      unfolding recover_saved.simps e Let_def u i(1) using 3 by simp
    have "nxt + (n + d) \<in> P" "nxt + (n + d) \<le> L" "0 \<le> n + d" "n + d \<le> wnd" "set l' \<subseteq> set (r # l)"
      using i(2-6) n(1) by (auto simp: add.assoc)
    then show ?thesis using eq q by blast
  qed
qed

text \<open>Updates of the receiver.\<close>

lemma rcv_update_ok:
  assumes "endpoint_ok X Y P M k s" "rcv_ok Y P k s'" "m_rcv_nxt s \<le> m_rcv_nxt s'"
    "m_rcv_nxt s + m_rcv_wnd s \<le> m_rcv_nxt s' + m_rcv_wnd s'"
    "s' = s\<lparr>m_rlist := a, m_rbuf := b, m_rcv_nxt := c, m_rcv_wnd := d, m_rlen := e\<rparr>"
  shows "endpoint_ok X Y P M k s'" "grows s s'"
proof -
  note epD = endpointD [OF assms(1)]
  have f: "m_snd_nxt s' = m_snd_nxt s" "written s' = written s" "bnd s' = bnd s" "num_ok s' = num_ok s" "snd_ok X s' = snd_ok X s"
    "win_ok M s' = win_ok M s"
    by (simp_all add: assms(5) bnd_def fun_eq_iff num_ok_def snd_ok_def win_ok_def)
  show g: "grows s s'" using assms(3,4) by (simp add: grows_def f)
  show "endpoint_ok X Y P M k s'" using epD assms(2) out_ok_grows [OF epD(5) g f(2)] by (simp add: endpoint_ok_def f)
qed

lemma saved_ok_iff:
  assumes "m_shutdown s = SD_NONE \<Longrightarrow> m_rcv_nxt s = c + m_rlen s"
  shows "saved_ok Y P s r \<longleftrightarrow> 0 \<le> r_seq r \<and> 0 < r_len r \<and> r_seq r + r_len r \<le> int (length Y) \<and> r_seq r + r_len r \<in> P
     \<and> r_seq r + r_len r \<le> m_rcv_nxt s + m_rcv_wnd s
     \<and> (m_shutdown s = SD_NONE \<longrightarrow> (\<forall>j. m_rcv_nxt s \<le> j \<longrightarrow> r_seq r \<le> j \<longrightarrow> j < r_seq r + r_len r \<longrightarrow> holds_stream Y c (m_rbuf s) j))"
proof -
  have "nat (m_rlen s + (j - m_rcv_nxt s)) = nat (j - c)" if "m_shutdown s = SD_NONE" for j
    by (rule arg_cong [of _ _ nat]) (use assms [OF that] in simp)
  then show ?thesis unfolding saved_ok_def holds_stream_def by (cases "m_shutdown s = SD_NONE") simp_all
qed

lemma rlist_insert_set: "set (rlist_insert r l) = insert r (set l)"
  by (induction l) auto

lemma process_data_ok:
  assumes ep: "endpoint_ok X Y P M k s" and i: "in_ok Y P M s g"
  shows "\<exists>fl nd s'. process_data sflags (adjust_segment g s) s = Some (fl, nd, s') \<and> endpoint_ok X Y P M k s' \<and> grows s s'
    \<and> m_state s' = m_state s \<and> m_shutdown s' = m_shutdown s \<and> (seg_flags g = FLAG_CTL \<longrightarrow> 1 \<le> m_rcv_nxt s')"
proof -
  note epD = endpointD [OF ep]
  define g' where "g' = adjust_segment g s"
  have D: "data_ok Y g" and e: "0 < seg_len g \<Longrightarrow> seg_seq g + seg_len g \<le> m_rcv_nxt s + m_rcv_wnd s"
    "0 < seg_len g \<Longrightarrow> seg_seq g + seg_len g \<in> P" "0 < seg_len g \<Longrightarrow> 1 \<le> seg_seq g \<Longrightarrow> 1 \<le> m_rcv_nxt s"
    using i by (simp_all add: in_ok_def)
  have a: "seg_flags g' = seg_flags g"
    "seg_len g' \<le> 0 \<or> m_rcv_nxt s \<le> seg_seq g' \<and> seg_seq g' = max (seg_seq g) (m_rcv_nxt s) \<and> 0 < seg_len g
       \<and> seg_seq g' + seg_len g' = seg_seq g + seg_len g \<and> seg_data g' = take (nat (seg_len g')) (drop (nat (seg_seq g')) Y)
       \<and> seg_len g' = int (length (seg_data g'))"
    "seg_len g' \<le> 0 \<Longrightarrow> 0 < seg_len g \<Longrightarrow> seg_seq g + seg_len g \<le> m_rcv_nxt s"
    unfolding g'_def by (rule adjust_segment_ok [OF epD(3) D]; simp add: e(1))+
  have R: "length (m_rbuf s) = 61440" "0 \<le> m_rlen s" "0 \<le> m_rcv_wnd s" "m_rlen s + m_rcv_wnd s \<le> 61440"
     "0 \<le> m_rcv_nxt s" "m_rcv_nxt s \<le> int (length Y)" "m_rcv_nxt s \<in> P" "int (length Y) < 4294967296"
     "m_rcv_nxt s = 0 \<Longrightarrow> m_rlen s = 0 \<and> k = 0 \<and> m_rlist s = []"
     "m_rcv_nxt s \<ge> 1 \<Longrightarrow> 1 + int k + m_rlen s \<le> m_rcv_nxt s"
     "m_rcv_nxt s \<ge> 1 \<Longrightarrow> m_shutdown s = SD_NONE \<Longrightarrow> 1 + int k + m_rlen s = m_rcv_nxt s"
     "take (nat (m_rlen s)) (m_rbuf s) = take (nat (m_rlen s)) (drop (1 + k) Y)"
     "\<forall>r\<in>set (m_rlist s). saved_ok Y P s r"
    using epD(3) by (simp_all add: rcv_ok_def)
  have fl: "seg_flags g = 2 \<longleftrightarrow> seg_flags g' AND FLAG_CTL \<noteq> 0"
  proof -
    have "seg_flags g \<in> {0, 2}" using D unfolding data_ok_def by blast
    then show ?thesis using a(1) by auto
  qed
  have ctl: "seg_flags g = 2 \<Longrightarrow> seg_seq g = 0 \<and> seg_len g = 1" using D unfolding data_ok_def by blast
  show ?thesis
    unfolding g'_def [symmetric]
  proof (cases "seg_len g' \<le> 0")
    case True
    then have "process_data sflags g' s = Some (sflags, False, s)" by (simp add: process_data_def)
    moreover have "seg_flags g = 2 \<Longrightarrow> 1 \<le> m_rcv_nxt s" using ctl a(3) [OF True] by simp
    ultimately show "\<exists>fl nd s'. process_data sflags g' s = Some (fl, nd, s') \<and> endpoint_ok X Y P M k s' \<and> grows s s'
      \<and> m_state s' = m_state s \<and> m_shutdown s' = m_shutdown s \<and> (seg_flags g = FLAG_CTL \<longrightarrow> 1 \<le> m_rcv_nxt s')" using ep by auto
  next
    case len: False
    then have A: "m_rcv_nxt s \<le> seg_seq g'" "seg_seq g' = max (seg_seq g) (m_rcv_nxt s)" "0 < seg_len g"
      "seg_seq g' + seg_len g' = seg_seq g + seg_len g" "seg_data g' = take (nat (seg_len g')) (drop (nat (seg_seq g')) Y)"
      "seg_len g' = int (length (seg_data g'))" using a(2) by blast+
    have Yl: "seg_seq g' + seg_len g' \<le> int (length Y)" "seg_flags g = 0 \<Longrightarrow> 1 \<le> seg_seq g"
      using D A(3) unfolding A(4) data_ok_def by blast+
    have eP: "seg_seq g' + seg_len g' \<in> P" "seg_seq g' + seg_len g' \<le> m_rcv_nxt s + m_rcv_wnd s" using e A(3,4) by simp_all
    show "\<exists>fl nd s'. process_data sflags g' s = Some (fl, nd, s') \<and> endpoint_ok X Y P M k s' \<and> grows s s'
      \<and> m_state s' = m_state s \<and> m_shutdown s' = m_shutdown s \<and> (seg_flags g = FLAG_CTL \<longrightarrow> 1 \<le> m_rcv_nxt s')"
    proof (cases "seg_flags g' AND FLAG_CTL \<noteq> 0 \<or> m_shutdown s \<noteq> SD_NONE")
      case ign: True
      define n where "n = (if seg_seq g' = m_rcv_nxt s then m_rcv_nxt s + seg_len g' else m_rcv_nxt s)"
      define s' where "s' = s\<lparr>m_rcv_nxt := n\<rparr>"
      have n: "m_rcv_nxt s \<le> n" "n \<le> int (length Y)" "n \<in> P" using len Yl(1) R(6,7) eP(1) by (auto simp: n_def)
      have u: "u32 (m_rcv_nxt s + seg_len g') = m_rcv_nxt s + seg_len g'" if "seg_seq g' = m_rcv_nxt s"
        using that Yl(1) R(5,8) len by (intro u32_id) auto
      have eq: "process_data sflags g' s = Some (sflags, False, s')"
        using len ign u by (simp add: process_data_def s'_def n_def)
      have one: "n = 0 \<Longrightarrow> m_rcv_nxt s = 0" using n(1) R(5) by linarith
      have c1: "1 \<le> m_rcv_nxt s \<Longrightarrow> n = m_rcv_nxt s \<or> m_shutdown s \<noteq> SD_NONE"
        and c2: "m_rcv_nxt s = 0 \<Longrightarrow> 1 \<le> n \<Longrightarrow> m_shutdown s = SD_NONE \<Longrightarrow> n = 1"
        using ign fl ctl A(1,2,4) len by (auto simp: n_def)
      have "saved_ok Y P s' r" if r: "r \<in> set (m_rlist s)" for r
      proof -
        have "saved_ok Y P s r" "m_rcv_nxt s \<noteq> 0" using R(9,13) r by auto
        then show ?thesis using n(1) c1 R(5) by (auto simp: saved_ok_def s'_def)
      qed
      then have "rcv_ok Y P k s'"
        using R n one c1 c2 unfolding rcv_ok_def s'_def by (cases "m_rcv_nxt s = 0") auto
      note up = rcv_update_ok [OF ep this, where a = "m_rlist s" and b = "m_rbuf s" and c = n and d = "m_rcv_wnd s" and e = "m_rlen s"]
      have "seg_flags g = 2 \<longrightarrow> 1 \<le> n" using ctl A(1,2,4) len R(5) by (auto simp: n_def)
      then show ?thesis using eq up n(1) by (intro exI [of _ sflags] exI [of _ False] exI [of _ s']) (simp add: s'_def)
    next
      case False
      then have nz: "m_shutdown s = SD_NONE" "seg_flags g = 0" "seg_flags g \<noteq> 2"
        using fl D unfolding data_ok_def by blast+
      have n1: "1 \<le> m_rcv_nxt s" by (rule e(3) [OF A(3) Yl(2) [OF nz(2)]])
      define c where "c = 1 + int k"
      have c: "m_rcv_nxt s = c + m_rlen s" "0 \<le> c" using R(11) [OF n1 nz(1)] by (simp_all add: c_def)
      define at where "at = seg_seq g' - c"
      have at: "m_rlen s + u32 (seg_seq g' - m_rcv_nxt s) = at" "at + seg_len g' \<le> 61440" "c \<le> seg_seq g'"
        using A(1) eP(2) Yl(1) R len c by (auto simp: at_def u32_id)
      define B where "B = mem_write (m_rbuf s) (nat at) (seg_data g')"
      have tk: "take (nat (seg_len g')) (seg_data g') = seg_data g'" using A(6) by simp
      have lB: "length B = 61440" using at A(6) R(1) by (simp add: B_def at_def)
      have mw: "seg_seq g' \<le> j \<Longrightarrow> j < seg_seq g' + seg_len g' \<Longrightarrow> holds_stream Y c B j"
        "c \<le> j \<Longrightarrow> j - c < 61440 \<Longrightarrow> holds_stream Y c (m_rbuf s) j \<Longrightarrow> holds_stream Y c B j" for j
        using mem_write_stream [OF at(3) c(2) _ A(5) Yl(1), of "m_rbuf s" j] at(2) len R(1) by (simp_all add: B_def at_def)
      note sv = saved_ok_iff [of s c Y P, OF c(1)]
      have sv': "\<forall>r\<in>set (m_rlist s). 0 \<le> r_seq r \<and> 0 < r_len r \<and> r_seq r + r_len r \<le> int (length Y) \<and> r_seq r + r_len r \<in> P
         \<and> r_seq r + r_len r \<le> m_rcv_nxt s + m_rcv_wnd s
         \<and> (\<forall>j. m_rcv_nxt s \<le> j \<longrightarrow> r_seq r \<le> j \<longrightarrow> j < r_seq r + r_len r \<longrightarrow> holds_stream Y c B j)"
        using R(13) nz(1) mw(2) c R(2,4) unfolding sv by force
      have old: "\<forall>j. c \<le> j \<longrightarrow> j < m_rcv_nxt s \<longrightarrow> holds_stream Y c B j"
      proof -
        have "\<forall>j. c \<le> j \<longrightarrow> j < c + m_rlen s \<longrightarrow> holds_stream Y c (m_rbuf s) j"
          using take_holds_stream [of "m_rlen s" "m_rbuf s" "1 + k" Y] R(1,2,3,4,6,12) c by (simp add: c_def)
        then show ?thesis using mw(2) c R(3,4) by auto
      qed
      have def: "process_data sflags g' s = (let s = s\<lparr>m_rbuf := B\<rparr>
              in if seg_seq g' = m_rcv_nxt s then
                   (let (rl, rlen, nxt, wnd, fl) =
                          recover_saved (m_rlist s) (u32 (m_rlen s + seg_len g')) (u32 (m_rcv_nxt s + seg_len g'))
                            (u32 (m_rcv_wnd s - seg_len g')) sflags
                    in Some (fl, True, s\<lparr>m_rlist := rl, m_rlen := rlen, m_rcv_nxt := nxt, m_rcv_wnd := wnd\<rparr>))
                 else Some (sflags, False,
                   s\<lparr>m_rlist := rlist_insert \<lparr>r_seq = seg_seq g', r_len = seg_len g'\<rparr> (m_rlist s)\<rparr>))"
        using len False at(1,2) A(6) tk by (simp add: process_data_def B_def)
      show ?thesis
      proof (cases "seg_seq g' = m_rcv_nxt s")
        case True
        have u: "u32 (m_rlen s + seg_len g') = m_rlen s + seg_len g'" "u32 (m_rcv_nxt s + seg_len g') = m_rcv_nxt s + seg_len g'"
          "u32 (m_rcv_wnd s - seg_len g') = m_rcv_wnd s - seg_len g'"
          using R eP(2) Yl(1) True len by (auto intro!: u32_id)
        have pre: "\<forall>r\<in>set (m_rlist s). 0 \<le> r_seq r \<and> 0 < r_len r \<and> r_seq r + r_len r \<le> int (length Y) \<and> r_seq r + r_len r \<in> P
         \<and> r_seq r + r_len r \<le> m_rcv_nxt s + seg_len g' + (m_rcv_wnd s - seg_len g')
         \<and> (\<forall>j. m_rcv_nxt s + seg_len g' \<le> j \<longrightarrow> r_seq r \<le> j \<longrightarrow> j < r_seq r + r_len r \<longrightarrow> holds_stream Y c B j)"
          using sv' len by auto
        obtain rl d fl' where rs: "recover_saved (m_rlist s) (m_rlen s + seg_len g') (m_rcv_nxt s + seg_len g') (m_rcv_wnd s - seg_len g') sflags
            = (rl, m_rlen s + seg_len g' + d, m_rcv_nxt s + seg_len g' + d, m_rcv_wnd s - seg_len g' - d, fl')"
          "0 \<le> d" "d \<le> m_rcv_wnd s - seg_len g'" "set rl \<subseteq> set (m_rlist s)" "m_rcv_nxt s + seg_len g' + d \<in> P"
          "m_rcv_nxt s + seg_len g' + d \<le> int (length Y)"
          "\<forall>j. m_rcv_nxt s + seg_len g' \<le> j \<longrightarrow> j < m_rcv_nxt s + seg_len g' + d \<longrightarrow> holds_stream Y c B j"
          using recover_saved_ok [OF pre, of "m_rlen s + seg_len g'" sflags] R eP Yl(1) True len by auto
        define s' where "s' = s\<lparr>m_rlist := rl, m_rbuf := B, m_rcv_nxt := m_rcv_nxt s + seg_len g' + d,
          m_rcv_wnd := m_rcv_wnd s - seg_len g' - d, m_rlen := m_rlen s + seg_len g' + d\<rparr>"
        have eq: "process_data sflags g' s = Some (fl', True, s')"
          unfolding def Let_def using True by (simp add: u rs(1) s'_def)
        have all: "\<forall>j. c \<le> j \<longrightarrow> j < c + m_rlen s' \<longrightarrow> holds_stream Y c B j"
        proof (intro allI impI)
          fix j assume j: "c \<le> j" "j < c + m_rlen s'"
          consider "j < m_rcv_nxt s" | "m_rcv_nxt s \<le> j" "j < m_rcv_nxt s + seg_len g'" | "m_rcv_nxt s + seg_len g' \<le> j" by linarith
          then show "holds_stream Y c B j" using old mw(1) [of j] rs(7) j True c(1) by cases (auto simp: s'_def)
        qed
        have sd: "m_shutdown s' = SD_NONE" "m_rcv_nxt s' = c + m_rlen s'" using c(1) nz(1) by (simp_all add: s'_def)
        have tkB: "take (nat (m_rlen s')) (m_rbuf s') = take (nat (m_rlen s')) (drop (1 + k) Y)"
          using take_holds_stream [of "m_rlen s'" B "1 + k" Y] all lB rs(2,3,6) R(2,4) c len by (simp add: c_def s'_def)
        have "\<forall>r\<in>set rl. saved_ok Y P s' r"
          unfolding saved_ok_iff [of s' c Y P, OF sd(2)] using pre rs(2,4) by (auto simp: s'_def)
        then have "rcv_ok Y P k s'"
          using R(1-8) rs(2,3,5,6) lB tkB sd len n1 unfolding rcv_ok_def by (simp add: s'_def c_def)
        note up = rcv_update_ok [OF ep this _ _ s'_def]
        have "endpoint_ok X Y P M k s'" "grows s s'" using up rs(2) len by (simp_all add: s'_def)
        then show ?thesis using eq nz(3) by (intro exI [of _ fl'] exI [of _ True] exI [of _ s']) (simp add: s'_def)
      next
        case ne: False
        define s' where "s' = s\<lparr>m_rlist := rlist_insert \<lparr>r_seq = seg_seq g', r_len = seg_len g'\<rparr> (m_rlist s), m_rbuf := B,
          m_rcv_nxt := m_rcv_nxt s, m_rcv_wnd := m_rcv_wnd s, m_rlen := m_rlen s\<rparr>"
        have eq: "process_data sflags g' s = Some (sflags, False, s')"
          unfolding def Let_def using ne by (simp add: s'_def)
        have sd: "m_shutdown s' = SD_NONE" "m_rcv_nxt s' = c + m_rlen s'" using c(1) nz(1) by (simp_all add: s'_def)
        have tkB: "take (nat (m_rlen s')) (m_rbuf s') = take (nat (m_rlen s')) (drop (1 + k) Y)"
          using take_holds_stream [of "m_rlen s'" B "1 + k" Y] old lB R(2,3,4,6) c by (simp add: c_def s'_def)
        have "saved_ok Y P s' \<lparr>r_seq = seg_seq g', r_len = seg_len g'\<rparr>"
          unfolding saved_ok_iff [of s' c Y P, OF sd(2)] using A(1) R(5) len Yl(1) eP mw(1) by (auto simp: s'_def)
        moreover have "\<forall>r\<in>set (m_rlist s). saved_ok Y P s' r"
          unfolding saved_ok_iff [of s' c Y P, OF sd(2)] using sv' by (auto simp: s'_def)
        ultimately have "\<forall>r\<in>set (m_rlist s'). saved_ok Y P s' r" by (simp add: s'_def rlist_insert_set)
        then have "rcv_ok Y P k s'"
          using R(1-8) R(10,11) nz(1) lB tkB n1 unfolding rcv_ok_def by (simp add: s'_def)
        note up = rcv_update_ok [OF ep this _ _ s'_def]
        have "endpoint_ok X Y P M k s'" "grows s s'" using up by (simp_all add: s'_def)
        then show ?thesis using eq nz(3) by (intro exI [of _ sflags] exI [of _ False] exI [of _ s']) (simp add: s'_def)
      qed
    qed
  qed
qed

lemma process_input_ok:
  assumes ep: "endpoint_ok X Y P M k s" and open_: "m_state s \<noteq> TCP_CLOSED" and i: "in_ok Y P M s g"
  shows "\<exists>s'. process_input E g s = Some (True, s') \<and> endpoint_ok X Y P M k s' \<and> grows s s'
    \<and> m_state s' = m_state s \<and> m_shutdown s' = m_shutdown s \<and> (seg_flags g = FLAG_CTL \<longrightarrow> 1 \<le> m_rcv_nxt s')"
proof -
  obtain fl nd s1 where d: "process_data (segment_sflags g s) (adjust_segment g s) s = Some (fl, nd, s1)" "endpoint_ok X Y P M k s1"
    "grows s s1" "m_state s1 = m_state s" "m_shutdown s1 = m_shutdown s" "seg_flags g = FLAG_CTL \<longrightarrow> 1 \<le> m_rcv_nxt s1"
    using process_data_ok [OF ep i] by metis
  obtain s2 where a: "attemptSend E fl s1 = Some s2" "endpoint_ok X Y P M k s2" "grows s1 s2" "send_frame s1 s2"
    using attemptSend_ok [OF d(2), of E fl] d(4) open_ by auto
  define s3 where "s3 = (if nd \<and> m_bReadEnable s2 then notify OnTcpReadable (s2\<lparr>m_bReadEnable := False\<rparr>) else s2)"
  have s3: "endpoint_ok X Y P M k s3"
    using endpoint_ok_touch(6) [OF endpoint_ok_touch(3) [OF a(2)]] a(2) by (simp add: s3_def)
  have f: "m_state s3 = m_state s2" "m_shutdown s3 = m_shutdown s2" "m_rcv_nxt s3 = m_rcv_nxt s2" by (simp_all add: s3_def notify_def)
  have "grows s2 s3" by (rule grows_touch) (simp_all add: s3_def notify_def)
  then have "grows s s3" using d(3) a(3) grows_trans by blast
  moreover have "process_input E g s = Some (True, s3)" by (simp add: process_input_def d(1) a(1) s3_def)
  ultimately show ?thesis using s3 d(4-6) a(4) f by (auto simp: send_frame_def)
qed

text \<open>With nothing in flight an acknowledgement never ends the connection.\<close>

lemma process_ack_idle:
  assumes "m_snd_una s = m_snd_nxt s" "process_ack E now c seg s = Some (ok, s')"
  shows "ok"
  using assms by (auto simp: process_ack_def process_ack_dup_def Let_def split: if_splits)

text \<open>What processing a segment does to the state of the connection and to the stream.\<close>

definition moved :: "Segment \<Rightarrow> int list \<Rightarrow> int list \<Rightarrow> PseudoTcp \<Rightarrow> PseudoTcp \<Rightarrow> bool" where
  "moved g X X' s s' \<longleftrightarrow>
     m_state s = TCP_LISTEN \<and> seg_flags g = FLAG_CTL \<and> X' = [CTL_CONNECT] \<and> m_state s' = TCP_SYN_RECEIVED \<and> 1 \<le> m_rcv_nxt s'
     \<or> X' = X \<and> (m_state s' = TCP_CLOSED \<or> m_state s' = m_state s
          \<or> m_state s' = TCP_ESTABLISHED \<and> (m_state s = TCP_SYN_SENT \<and> seg_flags g = FLAG_CTL
               \<or> m_state s = TCP_SYN_RECEIVED \<and> m_snd_una s < seg_ack g))"

lemma process_ok:
  assumes ep: "endpoint_ok X Y P M k s" and i: "in_ok Y P M s g" and Y: "Y \<noteq> [] \<Longrightarrow> hd Y = CTL_CONNECT"
  shows "\<exists>ok X' s'. process E g s = Some (ok, s') \<and> endpoint_ok X' Y P M k s' \<and> grows s s' \<and> m_shutdown s' = m_shutdown s
    \<and> moved g X X' s s'"
proof -
  have D: "data_ok Y g" and t: "0 \<le> seg_tsval g" "seg_tsval g < 4294967296" using i by (simp_all add: in_ok_def)
  have "seg_flags g \<in> {0, 2}" using D unfolding data_ok_def by blast
  then have rst: "seg_flags g AND FLAG_RST = 0" by auto
  define now where "now = u32 (clock E (ticks s))"
  define s1 where "s1 = s\<lparr>ticks := ticks s + 1, m_lasttraffic := now, m_lastrecv := now, m_bOutgoing := False\<rparr>"
  have s1: "endpoint_ok X Y P M k s1"
    by (rule endpoint_ok_cong [OF _ _ _ _ _ _ _ _ _ _ _ _ _ _ _ _ _ _ ep])
       (use endpointD(1) [OF ep] in \<open>simp_all add: s1_def num_ok_def\<close>)
  have g1: "grows s s1" by (rule grows_touch) (simp_all add: s1_def)
  have f1: "rcv_frame s s1" "m_state s1 = m_state s" "m_snd_una s1 = m_snd_una s" "m_snd_nxt s1 = m_snd_nxt s" "m_shutdown s1 = m_shutdown s"
    by (simp_all add: rcv_frame_def s1_def)
  have conv: "m_conv s1 = m_conv s" by (simp add: s1_def)
  show ?thesis
  proof (cases "seg_conv g = m_conv s \<and> m_state s \<noteq> TCP_CLOSED")
    case False
    have "process E g s = Some (False, if seg_conv g \<noteq> m_conv s then s else s1)"
      using False by (auto simp: process_def Now_def s1_def now_def)
    then show ?thesis using ep s1 g1 f1
      by (intro exI [of _ False] exI [of _ X] exI [of _ "if seg_conv g \<noteq> m_conv s then s else s1"]) (simp add: moved_def)
  next
    case True
    have o1: "m_state s1 \<noteq> TCP_CLOSED" using True f1 by simp
    obtain bC X' s2 where c: "process_control g s1 = Some (True, bC, s2)" "endpoint_ok X' Y P M k s2" "grows s1 s2" "rcv_frame s1 s2"
      "m_snd_una s2 = m_snd_una s1" "m_snd_nxt s2 = m_snd_nxt s1"
      "if seg_flags g = FLAG_CTL \<and> m_state s1 = TCP_LISTEN then X' = [CTL_CONNECT] \<and> m_state s2 = TCP_SYN_RECEIVED
       else X' = X \<and> m_state s2 = (if seg_flags g = FLAG_CTL \<and> m_state s1 = TCP_SYN_SENT then TCP_ESTABLISHED else m_state s1)"
      using process_control_ok [OF s1 o1 D Y] by blast
    define s3 where "s3 = update_timestamp g s2"
    note u = update_timestamp_ok [OF c(2) t, folded s3_def]
    have g3: "grows s s3" "rcv_frame s s3" using g1 c(3,4) u(2,3) f1(1) grows_trans rcv_frame_trans by blast+
    have i3: "in_ok Y P M s3 g" by (rule in_ok_grows [OF i g3])
    have o3: "m_state s3 \<noteq> TCP_CLOSED" using c(7) u(4) o1 by (simp split: if_splits)
    obtain ok s4 where a: "process_ack E now bC g s3 = Some (ok, s4)" "endpoint_ok X' Y P M k s4" "grows s3 s4" "rcv_frame s3 s4"
      "ack_result g s3 ok s4" using process_ack_ok [OF u(1) o3 i3] by blast
    have g4: "grows s s4" "rcv_frame s s4" using g3 a(3,4) grows_trans rcv_frame_trans by blast+
    have eq: "process E g s = (if ok then process_input E g s4 else Some (False, s4))"
    proof -
      have "process E g s = (do { (ok, bConnect, s) \<leftarrow> process_control g s1; if \<not> ok then Some (False, s)
          else do { (ok, s) \<leftarrow> process_ack E now bConnect g (update_timestamp g s); if ok then process_input E g s else Some (False, s) } })"
        using True rst by (simp add: process_def Now_def s1_def now_def [symmetric])
      then show ?thesis by (simp add: c(1) s3_def [symmetric] a(1))
    qed
    have lst: "m_snd_una s = 0 \<and> m_snd_nxt s = 0" if "m_state s = TCP_LISTEN"
      using listen_empty [OF endpointD(2) [OF ep] that] by simp
    have seg_le: "seg_ack g \<le> m_snd_nxt s" using i by (simp add: in_ok_def)
    show ?thesis
    proof (cases ok)
      case False
      then have cl: "m_state s4 = TCP_CLOSED" using a(5) by (simp add: ack_result_def)
      have "\<not> (seg_flags g = FLAG_CTL \<and> m_state s = TCP_LISTEN)"
      proof
        assume "seg_flags g = FLAG_CTL \<and> m_state s = TCP_LISTEN"
        then have "m_snd_una s3 = m_snd_nxt s3" using lst u(5,6) c(5,6) f1 by simp
        then show False using process_ack_idle a(1) False by blast
      qed
      then have "moved g X X' s s4" using c(7) cl f1 by (auto simp: moved_def)
      then show ?thesis using eq False a(2) g4 by (intro exI [of _ False] exI [of _ X'] exI [of _ s4]) (simp add: rcv_frame_def)
    next
      case T: True
      then have o4: "m_state s4 \<noteq> TCP_CLOSED" using a(5) by (simp add: ack_result_def)
      obtain s5 where p: "process_input E g s4 = Some (True, s5)" "endpoint_ok X' Y P M k s5" "grows s4 s5"
        "m_state s5 = m_state s4" "m_shutdown s5 = m_shutdown s4" "seg_flags g = FLAG_CTL \<longrightarrow> 1 \<le> m_rcv_nxt s5"
        using process_input_ok [OF a(2) o4 in_ok_grows [OF i g4], of E] by blast
      have st: "m_state s4 = m_state s3 \<or> m_state s4 = TCP_ESTABLISHED \<and> m_state s3 = TCP_SYN_RECEIVED \<and> m_snd_una s < seg_ack g"
        using a(5) T u(5) c(5) f1 by (auto simp: ack_result_def)
      have "moved g X X' s s5"
      proof (cases "seg_flags g = FLAG_CTL \<and> m_state s = TCP_LISTEN")
        case True
        then have "\<not> m_snd_una s < seg_ack g" using lst seg_le by simp
        then show ?thesis using True st c(7) f1 p(4,6) u(4) by (auto simp: moved_def)
      next
        case False
        then show ?thesis using st c(7) f1 p(4) u(4) by (auto simp: moved_def split: if_splits)
      qed
      then show ?thesis using eq T p g4 grows_trans
        by (intro exI [of _ True] exI [of _ X'] exI [of _ s5]) (auto simp: rcv_frame_def)
    qed
  qed
qed

end
