(* ===== verification/LJ_PseudoTcp_Ops.thy ===== *)
theory LJ_PseudoTcp_Ops
  imports LJ_PseudoTcp_Proc
begin

text \<open>
  The operations of the interface of \<open>PseudoTcp\<close> keep the invariant of an endpoint: \<open>Connect\<close>,
  \<open>Send\<close>, \<open>Recv\<close>, \<open>Close\<close>, \<open>NotifyMTU\<close>, \<open>NotifyClock\<close>, \<open>NotifyPacket\<close>. What \<open>Send\<close> accepts is
  appended to the stream, what \<open>Recv\<close> returns is the next part of the peer's stream.
\<close>

subsection \<open>A new endpoint\<close>

lemma PseudoTcp_new_ok:
  assumes "0 \<le> conv" "conv < 4294967296" "length rbuf = 61440" "length sbuf = 92160" "0 \<in> P" "1 \<le> M"
  shows "endpoint_ok [] [] P M 0 (PseudoTcp_new E conv rbuf sbuf)"
  using assms
  by (simp add: PseudoTcp_new_def Let_def endpoint_ok_def num_ok_def snd_ok_def rcv_ok_def win_ok_def out_ok_def)

lemma new_sel:
  "m_state (PseudoTcp_new E conv rbuf sbuf) = TCP_LISTEN" "written (PseudoTcp_new E conv rbuf sbuf) = []"
  "m_rcv_nxt (PseudoTcp_new E conv rbuf sbuf) = 0" "m_rcv_wnd (PseudoTcp_new E conv rbuf sbuf) = 61440"
  "m_snd_nxt (PseudoTcp_new E conv rbuf sbuf) = 0" "bnd (PseudoTcp_new E conv rbuf sbuf) 0"
  by (simp_all add: PseudoTcp_new_def Let_def bnd_def)

subsection \<open>The stream of the peer grows\<close>

lemma rcv_ok_mono:
  assumes "rcv_ok Y P k s" "P \<subseteq> P'" "int (length (Y @ Z)) < 4294967296"
  shows "rcv_ok (Y @ Z) P' k s"
proof -
  have R: "m_rcv_nxt s \<le> int (length Y)" "0 \<le> m_rlen s" "m_rcv_nxt s = 0 \<Longrightarrow> m_rlen s = 0" "0 \<le> m_rcv_nxt s"
    "m_rcv_nxt s \<ge> 1 \<Longrightarrow> 1 + int k + m_rlen s \<le> m_rcv_nxt s"
    "take (nat (m_rlen s)) (m_rbuf s) = take (nat (m_rlen s)) (drop (1 + k) Y)" "\<forall>r\<in>set (m_rlist s). saved_ok Y P s r"
    using assms(1) by (simp_all add: rcv_ok_def)
  have "take (nat (m_rlen s)) (drop (1 + k) (Y @ Z)) = take (nat (m_rlen s)) (drop (1 + k) Y)"
  proof (cases "m_rcv_nxt s = 0")
    case True
    then show ?thesis using R(3) by simp
  next
    case False
    then have "1 + k + nat (m_rlen s) \<le> length Y" using R(1,2,4,5) by linarith
    then show ?thesis by simp
  qed
  moreover have "saved_ok (Y @ Z) P' s r" if "saved_ok Y P s r" for r
  proof -
    have "(Y @ Z) ! nat j = Y ! nat j" if "0 \<le> j" "j < int (length Y)" for j
      using that by (simp add: nth_append nat_less_iff)
    then show ?thesis using that assms(2) R(4) unfolding saved_ok_def by (auto simp: subset_iff)
  qed
  ultimately show ?thesis using assms R(6,7) unfolding rcv_ok_def by auto
qed

lemma pkt_ok_mono: "pkt_ok X P s pkt \<Longrightarrow> P \<subseteq> P' \<Longrightarrow> pkt_ok X P' s pkt"
  unfolding pkt_ok_def Let_def by blast

lemma endpoint_ok_mono:
  assumes "endpoint_ok X Y P M k s" "P \<subseteq> P'" "M \<le> M'" "int (length (Y @ Z)) < 4294967296"
  shows "endpoint_ok X (Y @ Z) P' M' k s"
  using endpointD [OF assms(1)] rcv_ok_mono [OF _ assms(2,4)] pkt_ok_mono [OF _ assms(2)] assms(3)
  by (auto simp: endpoint_ok_def win_ok_def out_ok_def)

subsection \<open>Connect, Send, Close and NotifyMTU\<close>

lemma Connect_ok:
  assumes ep: "endpoint_ok X Y P M k s"
  shows "\<exists>r X' s'. Connect E s = Some (r, s') \<and> endpoint_ok X' Y P M k s' \<and> grows s s'
    \<and> (if m_state s = TCP_LISTEN then X' = [CTL_CONNECT] \<and> m_state s' = TCP_SYN_SENT else X' = X \<and> m_state s' = m_state s)"
proof (cases "m_state s = TCP_LISTEN")
  case True
  obtain n s1 where q: "queue [CTL_CONNECT] True (s\<lparr>m_state := TCP_SYN_SENT\<rparr>) = Some (n, s1)"
    "endpoint_ok [CTL_CONNECT] Y P M k s1" "grows s s1" "m_state s1 = TCP_SYN_SENT"
    using queue_connect_ok [OF ep True, of TCP_SYN_SENT] by auto
  obtain s2 where a: "attemptSend E sfNone s1 = Some s2" "endpoint_ok [CTL_CONNECT] Y P M k s2" "grows s1 s2" "send_frame s1 s2"
    using attemptSend_ok [OF q(2), of E sfNone] q(4) by auto
  have "Connect E s = Some (0, s2)" using True q(1) a(1) by (simp add: Connect_def)
  then show ?thesis using True q(3,4) a grows_trans
    by (intro exI [of _ 0] exI [of _ "[CTL_CONNECT]"] exI [of _ s2]) (auto simp: send_frame_def)
next
  case False
  have "Connect E s = Some (- 1, s\<lparr>m_error := EINVAL\<rparr>)" using False by (simp add: Connect_def)
  moreover have "grows s (s\<lparr>m_error := EINVAL\<rparr>)" by (rule grows_touch) simp_all
  ultimately show ?thesis using False endpoint_ok_touch(5) [OF ep] by auto
qed

lemma Send_ok:
  assumes ep: "endpoint_ok X Y P M k s" and d: "octets data" "int (length X) + int (length data) < 4294967296"
  shows "\<exists>n s'. Send E data s = Some (n, s') \<and> endpoint_ok (X @ take (nat n) data) Y P M k s' \<and> grows s s'
    \<and> m_state s' = m_state s \<and> (0 < n \<longrightarrow> m_state s = TCP_ESTABLISHED) \<and> n \<le> int (length data) \<and> - 1 \<le> n"
proof -
  have tc: "endpoint_ok X Y P M k (s\<lparr>m_error := e\<rparr>)" "endpoint_ok X Y P M k (s\<lparr>m_bWriteEnable := b, m_error := e\<rparr>)" for b e
    using endpoint_ok_touch(5) [OF endpoint_ok_touch(4) [OF ep]] endpoint_ok_touch(5) [OF ep] by simp_all
  have g: "grows s (s\<lparr>m_error := e\<rparr>)" "grows s (s\<lparr>m_bWriteEnable := b, m_error := e\<rparr>)" for b e by (rule grows_touch; simp)+
  consider "m_state s \<noteq> TCP_ESTABLISHED" | "m_state s = TCP_ESTABLISHED" "m_slen s = kSndBufSize"
    | "m_state s = TCP_ESTABLISHED" "m_slen s \<noteq> kSndBufSize" by blast
  then show ?thesis
  proof cases
    case 1
    then have "Send E data s = Some (- 1, s\<lparr>m_error := ENOTCONN\<rparr>)" by (simp add: Send_def)
    then show ?thesis using tc(1) g(1) by simp
  next
    case 2
    then have "Send E data s = Some (- 1, s\<lparr>m_bWriteEnable := True, m_error := EWOULDBLOCK\<rparr>)" by (simp add: Send_def)
    then show ?thesis using tc(2) g(2) by simp
  next
    case 3
    define n where "n = min (int (length data)) (kSndBufSize - m_slen s)"
    have sl: "m_slen s \<le> kSndBufSize" using endpointD(2) [OF ep] by (simp add: snd_ok_def)
    obtain s1 where q: "queue data False s = Some (n, s1)" "endpoint_ok (X @ take (nat n) data) Y P M k s1" "grows s s1"
      "m_state s1 = m_state s" using queue_data_ok [OF ep 3(1) d] unfolding n_def by blast
    obtain s2 where a: "attemptSend E sfNone s1 = Some s2" "endpoint_ok (X @ take (nat n) data) Y P M k s2" "grows s1 s2" "send_frame s1 s2"
      using attemptSend_ok [OF q(2), of E sfNone] q(4) 3(1) by auto
    have "Send E data s = Some (n, s2)" using 3 q(1) a(1) by (simp add: Send_def)
    moreover have "m_state s2 = m_state s" using a(4) q(4) by (simp add: send_frame_def)
    ultimately show ?thesis using 3(1) a(2,3) q(3) grows_trans sl by (intro exI [of _ n] exI [of _ s2]) (auto simp: n_def)
  qed
qed

lemma Close_ok:
  assumes ep: "endpoint_ok X Y P M k s"
  shows "endpoint_ok X Y P M k (Close f s)" "grows s (Close f s)" "m_state (Close f s) = m_state s"
proof -
  note epD = endpointD [OF ep]
  show g: "grows s (Close f s)" by (rule grows_touch) (simp_all add: Close_def)
  show "m_state (Close f s) = m_state s" by (simp add: Close_def)
  have "saved_ok Y P s r \<Longrightarrow> saved_ok Y P (Close f s) r" for r by (simp add: saved_ok_def Close_def)
  then have "rcv_ok Y P k (Close f s)" using epD(3) by (simp add: rcv_ok_def Close_def)
  moreover have "num_ok (Close f s)" "snd_ok X (Close f s)" "win_ok M (Close f s)"
    using epD(1,2,4) by (simp_all add: num_ok_def snd_ok_def win_ok_def Close_def)
  ultimately show "endpoint_ok X Y P M k (Close f s)"
    using out_ok_grows [OF epD(5) g] by (simp add: endpoint_ok_def Close_def)
qed

lemma NotifyMTU_ok:
  assumes ep: "endpoint_ok X Y P M k s" and mtu: "PACKET_OVERHEAD < mtu" "mtu \<le> 65535"
  shows "endpoint_ok X Y P M k (NotifyMTU mtu s)" "grows s (NotifyMTU mtu s)" "m_state (NotifyMTU mtu s) = m_state s"
proof -
  have n: "num_ok (s\<lparr>m_mtu_advise := mtu\<rparr>)" using endpointD(1) [OF ep] mtu by (simp add: num_ok_def)
  then have n2: "num_ok (NotifyMTU mtu s)" using adjustMTU_num by (simp add: NotifyMTU_def Let_def)
  show "endpoint_ok X Y P M k (NotifyMTU mtu s)"
    by (rule endpoint_ok_cong [OF _ _ _ _ _ _ _ _ _ _ _ _ _ _ _ _ _ _ ep])
       (simp_all add: n2, simp_all add: NotifyMTU_def adjustMTU_def Let_def)
  show "grows s (NotifyMTU mtu s)" by (rule grows_touch) (simp_all add: NotifyMTU_def adjustMTU_def Let_def)
  show "m_state (NotifyMTU mtu s) = m_state s" by (simp add: NotifyMTU_def adjustMTU_def Let_def)
qed

subsection \<open>Recv\<close>

text \<open>The bytes handed out leave the buffer; the window opens when enough room has become free.\<close>

lemma rcv_ok_read:
  assumes r: "rcv_ok Y P k s" and n: "0 \<le> n" "n \<le> m_rlen s" "0 < m_rlen s"
  defines "s' \<equiv> s\<lparr>m_rlen := m_rlen s - n, m_rbuf := mem_write (m_rbuf s) 0 (drop (nat n) (m_rbuf s))\<rparr>"
  shows "rcv_ok Y P (k + nat n) s'" "take (nat n) (m_rbuf s) = take (nat n) (drop (1 + k) Y)"
    "1 + k + nat n \<le> length Y"
proof -
  have R: "length (m_rbuf s) = 61440" "0 \<le> m_rcv_wnd s" "m_rlen s + m_rcv_wnd s \<le> 61440" "0 \<le> m_rcv_nxt s"
    "m_rcv_nxt s \<le> int (length Y)" "m_rcv_nxt s \<noteq> 0" "m_rcv_nxt s \<ge> 1 \<Longrightarrow> 1 + int k + m_rlen s \<le> m_rcv_nxt s"
    "take (nat (m_rlen s)) (m_rbuf s) = take (nat (m_rlen s)) (drop (1 + k) Y)" "\<forall>r\<in>set (m_rlist s). saved_ok Y P s r"
    using r n(3) by (auto simp: rcv_ok_def)
  have nl: "nat n \<le> nat (m_rlen s)" using n(2) by simp
  have "take (nat n) (take (nat (m_rlen s)) (m_rbuf s)) = take (nat n) (take (nat (m_rlen s)) (drop (1 + k) Y))" using R(8) by simp
  then show t: "take (nat n) (m_rbuf s) = take (nat n) (drop (1 + k) Y)" using nl by (simp add: min_def)
  show "1 + k + nat n \<le> length Y" using R(4-7) n by linarith
  have rb: "mem_write (m_rbuf s) 0 (drop (nat n) (m_rbuf s)) = drop (nat n) (m_rbuf s) @ drop (61440 - nat n) (m_rbuf s)"
    using R(1) by (simp add: mem_write_def)
  have le: "length (drop (nat n) (m_rbuf s)) = 61440 - nat n" using R(1) by simp
  have n61: "nat n \<le> 61440" "nat (m_rlen s - n) \<le> 61440 - nat n" using n R(2,3) by linarith+
  have len: "length (m_rbuf s') = 61440" using R(1) n61(1) by (simp add: s'_def rb)
  have i: "mem_write (m_rbuf s) 0 (drop (nat n) (m_rbuf s)) ! j = m_rbuf s ! (nat n + j)" if "j < 61440 - nat n" for j
    using that R(1) unfolding rb by (simp add: nth_append)
  have "take (nat (m_rlen s - n)) (m_rbuf s') = take (nat (m_rlen s - n)) (drop (nat n) (m_rbuf s))"
    using n61(2) le by (simp add: s'_def rb)
  also have "\<dots> = drop (nat n) (take (nat (m_rlen s)) (m_rbuf s))" using n by (simp add: drop_take nat_diff_distrib)
  also have "\<dots> = take (nat (m_rlen s - n)) (drop (1 + (k + nat n)) Y)"
    unfolding R(8) using n by (simp add: drop_take nat_diff_distrib add.commute)
  finally have tk: "take (nat (m_rlen s')) (m_rbuf s') = take (nat (m_rlen s')) (drop (1 + (k + nat n)) Y)"
    by (simp add: s'_def)
  have "saved_ok Y P s' x" if "x \<in> set (m_rlist s)" for x
  proof -
    have x: "saved_ok Y P s x" using R(9) that by blast
    have "m_rbuf s' ! nat (m_rlen s' + (j - m_rcv_nxt s)) = Y ! nat j"
      if "m_shutdown s = SD_NONE" and j: "m_rcv_nxt s \<le> j" "r_seq x \<le> j" "j < r_seq x + r_len x" for j
    proof -
      have "j < m_rcv_nxt s + m_rcv_wnd s" using x j(3) by (simp add: saved_ok_def)
      then have "nat (m_rlen s - n + (j - m_rcv_nxt s)) < 61440 - nat n" using n R(3) j(1) by linarith
      then have "m_rbuf s' ! nat (m_rlen s' + (j - m_rcv_nxt s)) = m_rbuf s ! (nat n + nat (m_rlen s - n + (j - m_rcv_nxt s)))"
        using i by (simp add: s'_def)
      also have "nat n + nat (m_rlen s - n + (j - m_rcv_nxt s)) = nat (m_rlen s + (j - m_rcv_nxt s))"
        using n j(1) by (simp add: nat_add_distrib [symmetric])
      finally show ?thesis using x that by (simp add: saved_ok_def)
    qed
    then show ?thesis using x by (simp add: saved_ok_def s'_def)
  qed
  then show "rcv_ok Y P (k + nat n) s'"
    using r n len tk R(6) unfolding rcv_ok_def by (auto simp: s'_def)
qed

lemma rcv_ok_window:
  assumes "rcv_ok Y P k s" "m_rcv_wnd s \<le> w" "m_rlen s + w \<le> 61440"
  shows "rcv_ok Y P k (s\<lparr>m_rcv_wnd := w\<rparr>)"
proof -
  have "saved_ok Y P s r \<Longrightarrow> saved_ok Y P (s\<lparr>m_rcv_wnd := w\<rparr>) r" for r using assms(2) by (simp add: saved_ok_def)
  then show ?thesis using assms by (auto simp: rcv_ok_def)
qed

lemma Recv_ok:
  assumes ep: "endpoint_ok X Y P M k s" and len: "int len < 4294967296"
  shows "\<exists>n out s'. Recv E len s = Some (n, out, s') \<and> endpoint_ok X Y P M (k + length out) s' \<and> grows s s'
    \<and> m_state s' = m_state s \<and> out = take (length out) (drop (1 + k) Y) \<and> length out \<le> len \<and> (0 \<le> n \<longrightarrow> n = int (length out))"
proof -
  have tc: "endpoint_ok X Y P M k (s\<lparr>m_error := e\<rparr>)" "endpoint_ok X Y P M k (s\<lparr>m_bReadEnable := b, m_error := e\<rparr>)" for b e
    using endpoint_ok_touch(5) [OF endpoint_ok_touch(3) [OF ep]] endpoint_ok_touch(5) [OF ep] by simp_all
  have g: "grows s (s\<lparr>m_error := e\<rparr>)" "grows s (s\<lparr>m_bReadEnable := b, m_error := e\<rparr>)" for b e by (rule grows_touch; simp)+
  consider "m_state s \<noteq> TCP_ESTABLISHED" | "m_state s = TCP_ESTABLISHED" "m_rlen s = 0" | "m_state s = TCP_ESTABLISHED" "m_rlen s \<noteq> 0" by blast
  then show ?thesis
  proof cases
    case 1
    then have "Recv E len s = Some (- 1, [], s\<lparr>m_error := ENOTCONN\<rparr>)" by (simp add: Recv_def)
    then show ?thesis using tc(1) g(1) by simp
  next
    case 2
    then have "Recv E len s = Some (- 1, [], s\<lparr>m_bReadEnable := True, m_error := EWOULDBLOCK\<rparr>)" by (simp add: Recv_def)
    then show ?thesis using tc(2) g(2) by simp
  next
    case 3
    note epD = endpointD [OF ep]
    have R: "length (m_rbuf s) = 61440" "0 < m_rlen s" "0 \<le> m_rcv_wnd s" "m_rlen s + m_rcv_wnd s \<le> 61440"
      using epD(3) 3(2) by (auto simp: rcv_ok_def)
    define n where "n = min (int len) (m_rlen s)"
    have u: "min (u32 (int len)) (m_rlen s) = n" using len by (simp add: n_def u32_id)
    have n: "0 \<le> n" "n \<le> m_rlen s" "n \<le> int len" "n \<le> 61440" using R by (auto simp: n_def)
    have u2: "u32 (m_rlen s - n) = m_rlen s - n" using n R by (intro u32_id) auto
    define out where "out = take (nat n) (m_rbuf s)"
    define s1 where "s1 = s\<lparr>m_rlen := m_rlen s - n, m_rbuf := mem_write (m_rbuf s) 0 (drop (nat n) (m_rbuf s))\<rparr>"
    note rd = rcv_ok_read [OF epD(3) n(1,2) R(2), folded s1_def out_def]
    have lo: "length out = nat n" using n(4) R(1) by (simp add: out_def)
    have s1: "m_rlen s1 = m_rlen s - n" "m_rcv_wnd s1 = m_rcv_wnd s" "m_mss s1 = m_mss s" "m_state s1 = m_state s"
      by (simp_all add: s1_def)
    define w where "w = 61440 - m_rlen s1"
    have w: "u32 (61440 - m_rlen s1) = w" "m_rcv_wnd s \<le> w" using n R by (auto simp: w_def s1 intro!: u32_id)
    have part: "endpoint_ok X Y P M (k + nat n) (s1\<lparr>m_rcv_wnd := x\<rparr>)" "grows s (s1\<lparr>m_rcv_wnd := x\<rparr>)"
      if "m_rcv_wnd s \<le> x" "x \<le> w" for x
    proof -
      let ?s = "s1\<lparr>m_rcv_wnd := x\<rparr>"
      have "rcv_ok Y P (k + nat n) ?s" using rcv_ok_window [OF rd(1)] that by (simp add: s1 w_def)
      moreover show g: "grows s ?s" using that(1) by (simp add: grows_def s1_def bnd_def)
      moreover have "num_ok ?s" "snd_ok X ?s" "win_ok M ?s" using epD(1,2,4) by (simp_all add: num_ok_def snd_ok_def win_ok_def s1_def)
      ultimately show "endpoint_ok X Y P M (k + nat n) ?s" using out_ok_grows [OF epD(5) g] by (simp add: endpoint_ok_def s1_def)
    qed
    define opens where "opens \<longleftrightarrow> u32 (61440 - m_rlen s1 - m_rcv_wnd s1) \<ge> min (61440 div 2) (m_mss s1)"
    have eq: "Recv E len s = do {
        s \<leftarrow> (if opens then (if m_rcv_wnd s1 = 0 then attemptSend E sfImmediateAck (s1\<lparr>m_rcv_wnd := w\<rparr>) else Some (s1\<lparr>m_rcv_wnd := w\<rparr>))
             else Some s1);
        Some (n, out, s)}"
      unfolding Recv_def Let_def u u2 s1_def [symmetric] out_def [symmetric] w(1) opens_def using 3 n(4) by simp
    have "\<exists>s'. (if opens then (if m_rcv_wnd s1 = 0 then attemptSend E sfImmediateAck (s1\<lparr>m_rcv_wnd := w\<rparr>) else Some (s1\<lparr>m_rcv_wnd := w\<rparr>))
             else Some s1) = Some s' \<and> endpoint_ok X Y P M (k + nat n) s' \<and> grows s s' \<and> m_state s' = m_state s"
    proof (cases "opens \<and> m_rcv_wnd s1 = 0")
      case True
      have o: "m_state (s1\<lparr>m_rcv_wnd := w\<rparr>) \<noteq> TCP_CLOSED" using 3(1) s1 by simp
      obtain s2 where a: "attemptSend E sfImmediateAck (s1\<lparr>m_rcv_wnd := w\<rparr>) = Some s2" "endpoint_ok X Y P M (k + nat n) s2"
        "grows (s1\<lparr>m_rcv_wnd := w\<rparr>) s2" "send_frame (s1\<lparr>m_rcv_wnd := w\<rparr>) s2"
        using attemptSend_ok [OF part(1) [OF w(2) order_refl] o, of E sfImmediateAck] by blast
      have "grows s s2" by (rule grows_trans [OF part(2) [OF w(2) order_refl] a(3)])
      then show ?thesis using True a by (auto simp: send_frame_def s1)
    next
      case False
      have e: "s1\<lparr>m_rcv_wnd := m_rcv_wnd s\<rparr> = s1" by (simp add: s1_def)
      show ?thesis using False part [OF w(2) order_refl] part [OF order_refl w(2)] unfolding e by (auto simp: s1)
    qed
    then obtain s' where s': "(if opens then (if m_rcv_wnd s1 = 0 then attemptSend E sfImmediateAck (s1\<lparr>m_rcv_wnd := w\<rparr>) else Some (s1\<lparr>m_rcv_wnd := w\<rparr>))
             else Some s1) = Some s'" "endpoint_ok X Y P M (k + nat n) s'" "grows s s'" "m_state s' = m_state s" by blast
    have "Recv E len s = Some (n, out, s')" by (simp only: eq s'(1) Option.bind.bind_lunit)
    moreover have "out = take (length out) (drop (1 + k) Y)" unfolding lo by (rule rd(2))
    ultimately show ?thesis using s'(2-4) lo n by (intro exI [of _ n] exI [of _ out] exI [of _ s']) simp
  qed
qed

subsection \<open>The clock\<close>

lemma timer_ok:
  assumes ep: "endpoint_ok X Y P M k s" and "1 \<le> t" "0 \<le> c" "c < 4294967296" "MIN_RTO \<le> r" "r \<le> MAX_RTO"
    "b \<noteq> 0 \<Longrightarrow> m_snd_una s < m_snd_nxt s"
  defines "s' \<equiv> s\<lparr>m_ssthresh := t, m_cwnd := c, m_rx_rto := r, m_rto_base := b\<rparr>"
  shows "endpoint_ok X Y P M k s'" "grows s s'"
proof -
  note epD = endpointD [OF ep]
  show g: "grows s s'" by (rule grows_touch) (simp_all add: s'_def)
  have f: "rcv_frame s s'" by (simp add: rcv_frame_def s'_def)
  have "num_ok s'" using epD(1) assms(2-6) by (simp add: num_ok_def s'_def)
  moreover have "snd_ok X s'" using epD(2) assms(7) by (simp add: snd_ok_def s'_def)
  moreover have "win_ok M s'" using epD(4) by (simp add: win_ok_def s'_def)
  ultimately show "endpoint_ok X Y P M k s'"
    using rcv_ok_frame [OF f epD(3)] out_ok_grows [OF epD(5) g] by (simp add: endpoint_ok_def s'_def)
qed

lemma double_rto:
  assumes "MIN_RTO \<le> r" "r \<le> MAX_RTO" "l = DEF_RTO \<or> l = MAX_RTO"
  shows "MIN_RTO \<le> min l (u32 (r * 2))" "min l (u32 (r * 2)) \<le> MAX_RTO"
proof -
  have "u32 (r * 2) = r * 2" using assms by (intro u32_id) auto
  then show "MIN_RTO \<le> min l (u32 (r * 2))" "min l (u32 (r * 2)) \<le> MAX_RTO" using assms by auto
qed

text \<open>Both stages close the connection when they give up, and leave its state alone otherwise.\<close>

lemma clock_retransmit_ok:
  assumes ep: "endpoint_ok X Y P M k s" and open_: "m_state s \<noteq> TCP_CLOSED"
  shows "\<exists>go s'. clock_retransmit E now s = Some (go, s') \<and> endpoint_ok X Y P M k s' \<and> grows s s'
    \<and> m_state s' = (if go then m_state s else TCP_CLOSED)"
proof (cases "m_rto_base s \<noteq> 0 \<and> TimeDiff (u32 (m_rto_base s + m_rx_rto s)) now \<le> 0 \<and> m_slist s \<noteq> []")
  case False
  then have "clock_retransmit E now s = Some (True, s)" by (simp only: clock_retransmit_def if_False)
  then show ?thesis using ep by (intro exI [of _ True] exI [of _ s]) simp
next
  case True
  then have fl: "m_snd_una s < m_snd_nxt s" using endpointD(2) [OF ep] by (simp add: snd_ok_def)
  obtain ok s1 where t: "transmit E 0 now s = Some (ok, s1)" "endpoint_ok X Y P M k s1" "grows s s1" "send_frame s s1"
    using retransmit_ok [OF ep open_ fl] by blast
  have f: "m_state s1 = m_state s" "m_snd_una s1 = m_snd_una s" using t(4) by (simp_all add: send_frame_def)
  show ?thesis
  proof (cases ok)
    case False
    then have "clock_retransmit E now s = Some (False, closedown ECONNABORTED s1)" using True t(1) by (simp add: clock_retransmit_def)
    then show ?thesis using closedown_ok [OF t(2), of ECONNABORTED] False
      grows_trans [OF t(3) closedown_ok(2) [OF t(2), of ECONNABORTED]]
      by (intro exI [of _ False] exI [of _ "closedown ECONNABORTED s1"]) simp
  next
    case T: True
    define l where "l = (if m_state s1 = TCP_LISTEN \<or> m_state s1 = TCP_SYN_SENT \<or> m_state s1 = TCP_SYN_RECEIVED then DEF_RTO else MAX_RTO)"
    define s' where "s' = s1\<lparr>m_ssthresh := max (nInFlight s1 div 2) (u32 (2 * m_mss s1)), m_cwnd := m_mss s1,
      m_rx_rto := min l (u32 (m_rx_rto s1 * 2)), m_rto_base := now\<rparr>"
    have N: "1 \<le> m_mss s1" "m_mss s1 \<le> 65419" "MIN_RTO \<le> m_rx_rto s1" "m_rx_rto s1 \<le> MAX_RTO"
      using endpointD(1) [OF t(2)] by (simp_all add: num_ok_def)
    have l: "l = DEF_RTO \<or> l = MAX_RTO" by (simp add: l_def)
    have th: "1 \<le> max (nInFlight s1 div 2) (u32 (2 * m_mss s1))" using N by (simp add: u32_id le_max_iff_disj)
    have lt: "m_snd_una s1 < m_snd_nxt s1" using fl f(2) t(3) by (simp add: grows_def)
    have s': "endpoint_ok X Y P M k s'" "grows s1 s'"
      unfolding s'_def by (rule timer_ok [OF t(2) th _ _ double_rto [OF N(3,4) l] lt]; use N in simp)+
    have "clock_retransmit E now s = Some (True, s')"
      unfolding clock_retransmit_def if_P [OF True] t(1) Let_def l_def s'_def using T by simp
    moreover have "m_state s' = m_state s" using f(1) by (simp add: s'_def)
    ultimately show ?thesis using s'(1) grows_trans [OF t(3) s'(2)] by (intro exI [of _ True] exI [of _ s']) simp
  qed
qed

lemma clock_probe_ok:
  assumes ep: "endpoint_ok X Y P M k s" and open_: "m_state s \<noteq> TCP_CLOSED"
  shows "\<exists>go s'. clock_probe E now s = Some (go, s') \<and> endpoint_ok X Y P M k s' \<and> grows s s'
    \<and> m_state s' = (if go then m_state s else TCP_CLOSED)"
proof -
  consider "\<not> (m_snd_wnd s = 0 \<and> TimeDiff (u32 (m_lastsend s + m_rx_rto s)) now \<le> 0)"
    | "m_snd_wnd s = 0 \<and> TimeDiff (u32 (m_lastsend s + m_rx_rto s)) now \<le> 0" "TimeDiff now (m_lastrecv s) \<ge> 15000"
    | "m_snd_wnd s = 0 \<and> TimeDiff (u32 (m_lastsend s + m_rx_rto s)) now \<le> 0" "\<not> TimeDiff now (m_lastrecv s) \<ge> 15000" by blast
  then show ?thesis
  proof cases
    case 1
    then have "clock_probe E now s = Some (True, s)" by (simp only: clock_probe_def if_False)
    then show ?thesis using ep by (intro exI [of _ True] exI [of _ s]) simp
  next
    case 2
    then have "clock_probe E now s = Some (False, closedown ECONNABORTED s)" by (simp add: clock_probe_def)
    then show ?thesis using closedown_ok [OF ep, of ECONNABORTED]
      by (intro exI [of _ False] exI [of _ "closedown ECONNABORTED s"]) simp
  next
    case 3
    obtain w s1 where p: "packet E (u32 (m_snd_nxt s - 1)) 0 None s = Some (w, s1)" "endpoint_ok X Y P M k s1" "grows s s1"
      "send_frame s s1" "core s1 = core s" using ack_packet_ok [OF ep, of "u32 (m_snd_nxt s - 1)" E] by auto
    define s2 where "s2 = s1\<lparr>m_lastsend := now\<rparr>"
    have s2: "endpoint_ok X Y P M k s2" unfolding s2_def by (rule endpoint_ok_touch(8) [OF p(2)])
    have g2: "grows s1 s2" by (rule grows_touch) (simp_all add: s2_def)
    define s' where "s' = s2\<lparr>m_ssthresh := m_ssthresh s2, m_cwnd := m_cwnd s2, m_rx_rto := min MAX_RTO (u32 (m_rx_rto s2 * 2)),
      m_rto_base := m_rto_base s2\<rparr>"
    have N: "1 \<le> m_ssthresh s2" "0 \<le> m_cwnd s2" "m_cwnd s2 < 4294967296" "MIN_RTO \<le> m_rx_rto s2" "m_rx_rto s2 \<le> MAX_RTO"
      "m_rto_base s2 \<noteq> 0 \<Longrightarrow> m_snd_una s2 < m_snd_nxt s2"
      using endpointD(1,2) [OF s2] by (simp_all add: num_ok_def snd_ok_def)
    have s': "endpoint_ok X Y P M k s'" "grows s2 s'"
      unfolding s'_def by (rule timer_ok [OF s2 N(1-3) double_rto [OF N(4,5)] N(6)]; simp)+
    have "clock_probe E now s = Some (True, s')" using 3 p(1) by (simp add: clock_probe_def s'_def s2_def)
    moreover have "m_state s' = m_state s" using p(4) by (simp add: s'_def s2_def send_frame_def)
    moreover have "grows s s'" using p(3) g2 s'(2) grows_trans by blast
    ultimately show ?thesis using s' by (intro exI [of _ True] exI [of _ s']) simp
  qed
qed

lemma NotifyClock_ok:
  assumes ep: "endpoint_ok X Y P M k s"
  shows "\<exists>s'. NotifyClock E now s = Some s' \<and> endpoint_ok X Y P M k s' \<and> grows s s'
    \<and> (m_state s' = m_state s \<or> m_state s' = TCP_CLOSED)"
proof (cases "m_state s = TCP_CLOSED")
  case True
  then show ?thesis using ep by (simp add: NotifyClock_def)
next
  case False
  obtain g1 s1 where r: "clock_retransmit E now s = Some (g1, s1)" "endpoint_ok X Y P M k s1" "grows s s1"
    "m_state s1 = (if g1 then m_state s else TCP_CLOSED)" using clock_retransmit_ok [OF ep False] by blast
  show ?thesis
  proof (cases g1)
    case F: False
    then show ?thesis using False r by (simp add: NotifyClock_def)
  next
    case T1: True
    then have o1: "m_state s1 \<noteq> TCP_CLOSED" using r(4) False by simp
    obtain g2 s2 where p: "clock_probe E now s1 = Some (g2, s2)" "endpoint_ok X Y P M k s2" "grows s1 s2"
      "m_state s2 = (if g2 then m_state s1 else TCP_CLOSED)" using clock_probe_ok [OF r(2) o1] by blast
    have g: "grows s s2" by (rule grows_trans [OF r(3) p(3)])
    show ?thesis
    proof (cases g2)
      case F: False
      then show ?thesis using False T1 r p g by (simp add: NotifyClock_def)
    next
      case T2: True
      have nx: "0 \<le> m_snd_nxt s2" "m_snd_nxt s2 < 4294967296" using endpointD(2) [OF p(2)] by (simp_all add: snd_ok_def)
      obtain w s3 where a: "packet E (m_snd_nxt s2) 0 None s2 = Some (w, s3)" "endpoint_ok X Y P M k s3" "grows s2 s3" "send_frame s2 s3"
        using ack_packet_ok [OF p(2) nx] by blast
      have "grows s s3" by (rule grows_trans [OF g a(3)])
      then show ?thesis using False T1 T2 r p g a by (auto simp: NotifyClock_def send_frame_def)
    qed
  qed
qed

subsection \<open>NotifyPacket\<close>

text \<open>A packet that the peer wrote.\<close>

lemma NotifyPacket_ok:
  assumes ep: "endpoint_ok X Y P M k s" and len: "24 \<le> length pkt" "length pkt \<le> 65535"
    and i: "in_ok Y P M s (parse_segment pkt (int (length pkt)))" and Y: "Y \<noteq> [] \<Longrightarrow> hd Y = CTL_CONNECT"
  shows "\<exists>ok X' s'. NotifyPacket E pkt (int (length pkt)) s = Some (ok, s') \<and> endpoint_ok X' Y P M k s' \<and> grows s s'
    \<and> moved (parse_segment pkt (int (length pkt))) X X' s s'"
proof -
  have u: "u32 (int (length pkt)) = int (length pkt)" using len(2) by (intro u32_id) auto
  have "NotifyPacket E pkt (int (length pkt)) s = process E (parse_segment pkt (int (length pkt))) s"
    using len by (simp add: NotifyPacket_def parse_def u)
  then show ?thesis using process_ok [OF ep i Y, of E] by auto
qed

end
