(* ===== verification/LJ_PseudoTcp_System.thy ===== *)
theory LJ_PseudoTcp_System
  imports LJ_PseudoTcp_Ops
begin

text \<open>
  Two endpoints of \<open>PseudoTcp\<close> over a datagram network: the initiator calls \<open>Connect\<close>, both send,
  receive, close and follow the clock in any order, and the network may lose, delay, duplicate and
  reorder the packets: whatever an endpoint has written can be delivered to the other, any number of
  times, at any later time.
\<close>

subsection \<open>A side of the connection\<close>

text \<open>An endpoint with the bytes that its \<open>Send\<close> has accepted and those that its \<open>Recv\<close> has returned.\<close>

record side =
  tcp :: PseudoTcp
  accepted :: "int list"
  delivered :: "int list"

text \<open>\<open>Deliver i\<close>: the network hands over the \<open>i\<close>th of the packets \<open>net\<close> that the other side has written.\<close>

datatype tcp_op = Deliver nat | SendBytes "int list" | RecvBytes nat | Tick int | AdviseMTU int | Shut bool

fun perform :: "tcp_env \<Rightarrow> int list list \<Rightarrow> tcp_op \<Rightarrow> side \<Rightarrow> side option" where
  "perform E net (Deliver i) a =
     (if i < length net then do {
        (_, s) \<leftarrow> NotifyPacket E (net ! i) (int (length (net ! i))) (tcp a);
        Some (a\<lparr>tcp := s\<rparr>)
      } else Some a)"
| "perform E net (SendBytes d) a = do {
     (n, s) \<leftarrow> Send E d (tcp a);
     Some (a\<lparr>tcp := s, accepted := accepted a @ take (nat n) d\<rparr>)
   }"
| "perform E net (RecvBytes len) a = do {
     (_, out, s) \<leftarrow> Recv E len (tcp a);
     Some (a\<lparr>tcp := s, delivered := delivered a @ out\<rparr>)
   }"
| "perform E net (Tick now) a = do {
     s \<leftarrow> NotifyClock E now (tcp a);
     Some (a\<lparr>tcp := s\<rparr>)
   }"
| "perform E net (AdviseMTU mtu) a = Some (a\<lparr>tcp := NotifyMTU mtu (tcp a)\<rparr>)"
| "perform E net (Shut force) a = Some (a\<lparr>tcp := Close force (tcp a)\<rparr>)"

text \<open>
  The callers' side of the contract: octets, fewer than \<open>2 ^ 32 - 1\<close> of them over the lifetime of the
  connection (the sequence numbers are compared as they are), a packet size above the overhead.
\<close>

fun admissible :: "tcp_op \<Rightarrow> side \<Rightarrow> bool" where
  "admissible (SendBytes d) a \<longleftrightarrow> octets d \<and> int (length (accepted a)) + int (length d) < 4294967295"
| "admissible (RecvBytes len) a \<longleftrightarrow> int len < 4294967296"
| "admissible (AdviseMTU mtu) a \<longleftrightarrow> PACKET_OVERHEAD < mtu \<and> mtu \<le> 65535"
| "admissible _ a \<longleftrightarrow> True"

definition open_side :: "tcp_env \<Rightarrow> int \<Rightarrow> int list \<Rightarrow> int list \<Rightarrow> side" where
  "open_side E conv rbuf sbuf = \<lparr>tcp = PseudoTcp_new E conv rbuf sbuf, accepted = [], delivered = []\<rparr>"

inductive connection :: "tcp_env \<Rightarrow> tcp_env \<Rightarrow> side \<Rightarrow> side \<Rightarrow> bool" for EA EB where
  start: "0 \<le> conv \<Longrightarrow> conv < 4294967296 \<Longrightarrow> length ra = 61440 \<Longrightarrow> length sa = 92160 \<Longrightarrow> length rb = 61440
    \<Longrightarrow> length sb = 92160 \<Longrightarrow> connection EA EB (open_side EA conv ra sa) (open_side EB conv rb sb)"
| connect: "connection EA EB a b \<Longrightarrow> Connect EA (tcp a) = Some (r, s) \<Longrightarrow> connection EA EB (a\<lparr>tcp := s\<rparr>) b"
| initiator: "connection EA EB a b \<Longrightarrow> admissible p a \<Longrightarrow> perform EA (written (tcp b)) p a = Some a'
    \<Longrightarrow> connection EA EB a' b"
| responder: "connection EA EB a b \<Longrightarrow> admissible p b \<Longrightarrow> perform EB (written (tcp a)) p b = Some b'
    \<Longrightarrow> connection EA EB a b'"

subsection \<open>The invariant of the connection\<close>

text \<open>The positions that a side may be acknowledged at, and the edge of the window that it grants.\<close>

definition positions :: "PseudoTcp \<Rightarrow> int set" where
  "positions s = {x. x \<le> m_snd_nxt s \<and> bnd s x}"

definition edge :: "PseudoTcp \<Rightarrow> int" where
  "edge s = m_rcv_nxt s + m_rcv_wnd s"

definition stream :: "int list \<Rightarrow> side \<Rightarrow> bool" where
  "stream X a \<longleftrightarrow> X = [] \<and> accepted a = [] \<or> X = CTL_CONNECT # accepted a"

definition link :: "int list \<Rightarrow> int list \<Rightarrow> side \<Rightarrow> side \<Rightarrow> bool" where
  "link X Y a b \<longleftrightarrow> endpoint_ok X Y (positions (tcp b)) (edge (tcp b)) (length (delivered a)) (tcp a)
     \<and> stream X a \<and> delivered a = take (length (delivered a)) (accepted b)"

lemma grows_peer:
  assumes "grows s s'"
  shows "positions s \<subseteq> positions s'" "edge s \<le> edge s'"
  using assms by (auto simp: grows_def positions_def edge_def intro: order_trans)

text \<open>The other side's view when a side grows.\<close>

lemma link_peer:
  assumes l: "link Y X b a" and g: "grows (tcp a) (tcp a')" and X: "int (length (X @ Z)) < 4294967296"
    and s: "accepted a' = accepted a @ d"
  shows "link Y (X @ Z) b a'"
proof -
  have "delivered b = take (length (delivered b)) (accepted a)" using l by (simp add: link_def)
  then have "length (delivered b) \<le> length (accepted a)" by (metis length_take min.absorb_iff1 min.commute)
  then have "delivered b = take (length (delivered b)) (accepted a')" using l s by (simp add: link_def)
  then show ?thesis
    using l endpoint_ok_mono [OF _ grows_peer [OF g] X] by (simp add: link_def)
qed

text \<open>A packet of the other side is acceptable.\<close>

lemma deliver_in_ok:
  assumes a: "link X Y a b" and b: "link Y X b a" and pkt: "pkt \<in> set (written (tcp b))"
    and h: "accepted b \<noteq> [] \<Longrightarrow> 1 \<le> m_rcv_nxt (tcp a)"
  defines "g \<equiv> parse_segment pkt (int (length pkt))"
  shows "in_ok Y (positions (tcp b)) (edge (tcp b)) (tcp a) g" "24 \<le> length pkt" "length pkt \<le> 65535"
    "seg_flags g = FLAG_CTL \<Longrightarrow> Y \<noteq> []" "seg_ack g \<le> m_rcv_nxt (tcp b)"
proof -
  have p: "pkt_ok Y (positions (tcp a)) (tcp b) pkt"
    using b pkt by (auto simp: link_def endpoint_ok_def out_ok_def)
  then show "24 \<le> length pkt" "length pkt \<le> 65535" "seg_ack g \<le> m_rcv_nxt (tcp b)" by (simp_all add: pkt_ok_def Let_def g_def)
  have D: "data_ok Y g" using p by (simp add: pkt_ok_def Let_def g_def)
  have W: "m_snd_nxt (tcp b) \<le> m_rcv_nxt (tcp a) + m_rcv_wnd (tcp a)"
    using b by (simp add: link_def endpoint_ok_def win_ok_def edge_def)
  have Y: "0 < seg_len g \<Longrightarrow> seg_seq g + seg_len g \<le> int (length Y)" "0 \<le> seg_seq g"
    and ctl: "seg_flags g = FLAG_CTL \<Longrightarrow> seg_seq g = 0 \<and> seg_len g = 1"
    using D unfolding data_ok_def by blast+
  show "seg_flags g = FLAG_CTL \<Longrightarrow> Y \<noteq> []" using Y(1) ctl by auto
  have "1 \<le> m_rcv_nxt (tcp a)" if "0 < seg_len g" "1 \<le> seg_seq g"
  proof (rule h)
    have "2 \<le> length Y" using Y(1) that by simp
    then show "accepted b \<noteq> []" using b by (auto simp: link_def stream_def)
  qed
  moreover have "0 < seg_len g \<Longrightarrow> seg_seq g + seg_len g \<in> positions (tcp b)
      \<and> seg_seq g + seg_len g \<le> m_rcv_nxt (tcp a) + m_rcv_wnd (tcp a)"
    using p W by (auto simp: pkt_ok_def Let_def g_def positions_def)
  moreover have "bnd (tcp a) (seg_ack g)" "seg_ack g \<le> m_snd_nxt (tcp a)" "0 \<le> seg_wnd g" "seg_wnd g \<le> 65535"
    "seg_ack g + seg_wnd g \<le> edge (tcp b)" "0 \<le> seg_tsval g" "seg_tsval g < 4294967296"
    using p by (simp_all add: pkt_ok_def Let_def g_def positions_def edge_def)
  ultimately show "in_ok Y (positions (tcp b)) (edge (tcp b)) (tcp a) g" using D by (simp add: in_ok_def)
qed

text \<open>What an operation does to the state of the connection and to the stream of its side.\<close>

definition progress :: "int list \<Rightarrow> int list \<Rightarrow> int list \<Rightarrow> side \<Rightarrow> side \<Rightarrow> side \<Rightarrow> bool" where
  "progress X X' Y a a' b \<longleftrightarrow>
     (X' = X \<or> m_state (tcp a) = TCP_ESTABLISHED
        \<or> m_state (tcp a) = TCP_LISTEN \<and> Y \<noteq> [] \<and> X' = [CTL_CONNECT] \<and> m_state (tcp a') = TCP_SYN_RECEIVED
          \<and> 1 \<le> m_rcv_nxt (tcp a'))
     \<and> (m_state (tcp a') = m_state (tcp a) \<or> m_state (tcp a') = TCP_CLOSED
        \<or> m_state (tcp a) = TCP_LISTEN \<and> Y \<noteq> [] \<and> m_state (tcp a') = TCP_SYN_RECEIVED
        \<or> m_state (tcp a') = TCP_ESTABLISHED \<and> m_state (tcp a) = TCP_SYN_SENT \<and> Y \<noteq> []
        \<or> m_state (tcp a') = TCP_ESTABLISHED \<and> m_state (tcp a) = TCP_SYN_RECEIVED \<and> 1 \<le> m_rcv_nxt (tcp b))"

lemma link_step:
  assumes a: "link X Y a b" and b: "link Y X b a"
    and ep: "endpoint_ok (X @ Z) Y (positions (tcp b)) (edge (tcp b)) (length (delivered a')) (tcp a')"
    and g: "grows (tcp a) (tcp a')" and s: "stream (X @ Z) a'" "accepted a' = accepted a @ d"
    and dl: "delivered a' = take (length (delivered a')) (accepted b)"
  shows "link (X @ Z) Y a' b \<and> link Y (X @ Z) b a'"
proof -
  have "int (length (X @ Z)) < 4294967296" using endpointD(2) [OF ep] by (simp add: snd_ok_def)
  then show ?thesis using link_peer [OF b g _ s(2)] ep s(1) dl by (simp add: link_def)
qed

text \<open>Steps that change nothing but the endpoint.\<close>

lemma link_same:
  assumes "link X Y a b" "link Y X b a"
    and "endpoint_ok X Y (positions (tcp b)) (edge (tcp b)) (length (delivered a)) s'" "grows (tcp a) s'"
  shows "link X Y (a\<lparr>tcp := s'\<rparr>) b \<and> link Y X b (a\<lparr>tcp := s'\<rparr>)"
  using link_step [OF assms(1,2), of "[]" "a\<lparr>tcp := s'\<rparr>" "[]"] assms by (simp add: link_def stream_def)

lemma link_connect:
  assumes a: "link X Y a b" and b: "link Y X b a" and X: "X = []"
    and ep: "endpoint_ok [CTL_CONNECT] Y (positions (tcp b)) (edge (tcp b)) (length (delivered a)) s'" and g: "grows (tcp a) s'"
  shows "link (X @ [CTL_CONNECT]) Y (a\<lparr>tcp := s'\<rparr>) b \<and> link Y (X @ [CTL_CONNECT]) b (a\<lparr>tcp := s'\<rparr>)"
proof (rule link_step [OF a b, where d = "[]"])
  have "accepted a = []" using a X by (simp add: link_def stream_def)
  then show "stream (X @ [CTL_CONNECT]) (a\<lparr>tcp := s'\<rparr>)" by (simp add: stream_def X)
  show "delivered (a\<lparr>tcp := s'\<rparr>) = take (length (delivered (a\<lparr>tcp := s'\<rparr>))) (accepted b)" using a by (simp add: link_def)
qed (use ep g in \<open>simp_all add: X\<close>)

definition step_ok :: "int list \<Rightarrow> int list \<Rightarrow> side \<Rightarrow> side \<Rightarrow> side \<Rightarrow> bool" where
  "step_ok X Y a a' b \<longleftrightarrow> (\<exists>Z. link (X @ Z) Y a' b \<and> link Y (X @ Z) b a' \<and> grows (tcp a) (tcp a')
     \<and> progress X (X @ Z) Y a a' b \<and> (accepted a' \<noteq> accepted a \<longrightarrow> m_state (tcp a) = TCP_ESTABLISHED))"

lemma step_same:
  assumes "link X Y a b" "link Y X b a"
    and "endpoint_ok X Y (positions (tcp b)) (edge (tcp b)) (length (delivered a)) s'" "grows (tcp a) s'"
    and "m_state s' = m_state (tcp a) \<or> m_state s' = TCP_CLOSED"
  shows "step_ok X Y a (a\<lparr>tcp := s'\<rparr>) b"
  unfolding step_ok_def using link_same [OF assms(1-4)] assms(4,5) by (intro exI [of _ "[]"]) (auto simp: progress_def)

lemma perform_Deliver_ok:
  assumes a: "link X Y a b" and b: "link Y X b a" and h: "accepted b \<noteq> [] \<Longrightarrow> 1 \<le> m_rcv_nxt (tcp a)"
  shows "\<exists>a'. perform E (written (tcp b)) (Deliver i) a = Some a' \<and> step_ok X Y a a' b"
proof (cases "i < length (written (tcp b))")
  case False
  then show ?thesis using step_same [OF a b, of "tcp a"] a by (simp add: link_def)
next
  case True
  define pkt where "pkt = written (tcp b) ! i"
  define g where "g = parse_segment pkt (int (length pkt))"
  have pkt: "pkt \<in> set (written (tcp b))" using True by (simp add: pkt_def)
  note d = deliver_in_ok [OF a b pkt h, folded g_def]
  have ep: "endpoint_ok X Y (positions (tcp b)) (edge (tcp b)) (length (delivered a)) (tcp a)" using a by (simp add: link_def)
  have Y: "Y \<noteq> [] \<Longrightarrow> hd Y = CTL_CONNECT" using b by (auto simp: link_def stream_def)
  obtain ok X' s' where n: "NotifyPacket E pkt (int (length pkt)) (tcp a) = Some (ok, s')"
    "endpoint_ok X' Y (positions (tcp b)) (edge (tcp b)) (length (delivered a)) s'" "grows (tcp a) s'" "moved g X X' (tcp a) s'"
    using NotifyPacket_ok [OF ep d(2,3) d(1) [unfolded g_def] Y, of E] unfolding g_def by blast
  have eq: "perform E (written (tcp b)) (Deliver i) a = Some (a\<lparr>tcp := s'\<rparr>)" using True n(1) by (simp add: pkt_def)
  have "step_ok X Y a (a\<lparr>tcp := s'\<rparr>) b"
  proof (cases "m_state (tcp a) = TCP_LISTEN \<and> seg_flags g = FLAG_CTL \<and> X' = [CTL_CONNECT] \<and> m_state s' = TCP_SYN_RECEIVED \<and> 1 \<le> m_rcv_nxt s'")
    case l: True
    have X: "X = []" using listen_empty(1) [OF endpointD(2) [OF ep]] l by blast
    then have "accepted a = []" using a by (simp add: link_def stream_def)
    then have "link (X @ [0]) Y (a\<lparr>tcp := s'\<rparr>) b \<and> link Y (X @ [0]) b (a\<lparr>tcp := s'\<rparr>)"
      using link_connect [OF a b X] n(2,3) l by simp
    then show ?thesis unfolding step_ok_def using l X n(3) d(4) by (intro exI [of _ "[0]"]) (simp add: progress_def)
  next
    case False
    then have m: "X' = X" "m_state s' = TCP_CLOSED \<or> m_state s' = m_state (tcp a)
          \<or> m_state s' = TCP_ESTABLISHED \<and> (m_state (tcp a) = TCP_SYN_SENT \<and> seg_flags g = FLAG_CTL
               \<or> m_state (tcp a) = TCP_SYN_RECEIVED \<and> m_snd_una (tcp a) < seg_ack g)" using n(4) unfolding moved_def by blast+
    have una: "0 \<le> m_snd_una (tcp a)" using endpointD(2) [OF ep] by (simp add: snd_ok_def)
    have "progress X X Y a (a\<lparr>tcp := s'\<rparr>) b" using m(2) d(4,5) una by (auto simp: progress_def)
    then show ?thesis unfolding step_ok_def using link_same [OF a b] n(2,3) m(1) by (intro exI [of _ "[]"]) simp
  qed
  then show ?thesis using eq by blast
qed

lemma perform_Send_ok:
  assumes a: "link X Y a b" and b: "link Y X b a" and d: "admissible (SendBytes d) a"
  shows "\<exists>a'. perform E (written (tcp b)) (SendBytes d) a = Some a' \<and> step_ok X Y a a' b"
proof -
  have ep: "endpoint_ok X Y (positions (tcp b)) (edge (tcp b)) (length (delivered a)) (tcp a)" and st: "stream X a" using a by (simp_all add: link_def)
  have len: "int (length X) + int (length d) < 4294967296" using d st by (auto simp: stream_def)
  obtain n s' where r: "Send E d (tcp a) = Some (n, s')" "endpoint_ok (X @ take (nat n) d) Y (positions (tcp b)) (edge (tcp b)) (length (delivered a)) s'"
    "grows (tcp a) s'" "m_state s' = m_state (tcp a)" "0 < n \<longrightarrow> m_state (tcp a) = TCP_ESTABLISHED"
    using Send_ok [OF ep _ len, of E] d by auto
  define a' where "a' = a\<lparr>tcp := s', accepted := accepted a @ take (nat n) d\<rparr>"
  have eq: "perform E (written (tcp b)) (SendBytes d) a = Some a'" using r(1) by (simp add: a'_def)
  have X: "m_state (tcp a) = TCP_ESTABLISHED \<Longrightarrow> X \<noteq> []" using endpointD(2) [OF ep] by (auto simp: snd_ok_def)
  have "stream (X @ take (nat n) d) a'"
    using st X r(5) by (cases "0 < n") (auto simp: stream_def a'_def)
  then have "link (X @ take (nat n) d) Y a' b \<and> link Y (X @ take (nat n) d) b a'"
    using link_step [OF a b, of "take (nat n) d" a' "take (nat n) d"] r(2,3) a by (simp add: a'_def link_def)
  moreover have "m_state (tcp a) = TCP_ESTABLISHED \<or> take (nat n) d = []" using r(5) by (cases "0 < n") auto
  ultimately have "step_ok X Y a a' b" unfolding step_ok_def using r(3,4)
    by (intro exI [of _ "take (nat n) d"]) (auto simp: progress_def a'_def)
  then show ?thesis using eq by blast
qed

lemma perform_Recv_ok:
  assumes a: "link X Y a b" and b: "link Y X b a" and l: "admissible (RecvBytes len) a"
  shows "\<exists>a'. perform E (written (tcp b)) (RecvBytes len) a = Some a' \<and> step_ok X Y a a' b"
proof -
  define k where "k = length (delivered a)"
  have ep: "endpoint_ok X Y (positions (tcp b)) (edge (tcp b)) k (tcp a)" and st: "stream X a" "stream Y b"
    and dl: "delivered a = take k (accepted b)" using a b by (simp_all add: link_def k_def)
  obtain n out s' where r: "Recv E len (tcp a) = Some (n, out, s')" "endpoint_ok X Y (positions (tcp b)) (edge (tcp b)) (k + length out) s'"
    "grows (tcp a) s'" "m_state s' = m_state (tcp a)" "out = take (length out) (drop (1 + k) Y)"
    using Recv_ok [OF ep, of len E] l by auto
  define a' where "a' = a\<lparr>tcp := s', delivered := delivered a @ out\<rparr>"
  have eq: "perform E (written (tcp b)) (RecvBytes len) a = Some a'" using r(1) by (simp add: a'_def)
  have out: "out = take (length out) (drop k (accepted b))"
  proof (cases "Y = []")
    case True
    then show ?thesis using r(5) by simp
  next
    case False
    then have "Y = CTL_CONNECT # accepted b" using st(2) by (auto simp: stream_def)
    then show ?thesis using r(5) by simp
  qed
  have ln: "length (delivered a') = k + length out" by (simp add: a'_def k_def)
  have "delivered a' = take (length (delivered a')) (accepted b)"
    unfolding ln take_add out [symmetric] by (simp add: a'_def dl [symmetric])
  then have "link (X @ []) Y a' b \<and> link Y (X @ []) b a'"
    by (rule link_step [OF a b, where d = "[]", rotated 4]) (use r(2,3) st ln in \<open>simp_all add: a'_def stream_def\<close>)
  then have "step_ok X Y a a' b" unfolding step_ok_def using r(3,4) by (intro exI [of _ "[]"]) (simp add: progress_def a'_def)
  then show ?thesis using eq by blast
qed

lemma perform_ok:
  assumes a: "link X Y a b" and b: "link Y X b a" and h: "accepted b \<noteq> [] \<Longrightarrow> 1 \<le> m_rcv_nxt (tcp a)" and p: "admissible p a"
  shows "\<exists>a'. perform E (written (tcp b)) p a = Some a' \<and> step_ok X Y a a' b"
proof -
  have ep: "endpoint_ok X Y (positions (tcp b)) (edge (tcp b)) (length (delivered a)) (tcp a)" using a by (simp add: link_def)
  show ?thesis
  proof (cases p)
    case (Deliver i)
    then show ?thesis using perform_Deliver_ok [OF a b h] by blast
  next
    case (SendBytes d)
    then show ?thesis using perform_Send_ok [OF a b] p by blast
  next
    case (RecvBytes len)
    then show ?thesis using perform_Recv_ok [OF a b] p by blast
  next
    case (Tick now)
    obtain s' where "NotifyClock E now (tcp a) = Some s'"
      "endpoint_ok X Y (positions (tcp b)) (edge (tcp b)) (length (delivered a)) s'" "grows (tcp a) s'"
      "m_state s' = m_state (tcp a) \<or> m_state s' = TCP_CLOSED" using NotifyClock_ok [OF ep, of E now] by blast
    then show ?thesis using step_same [OF a b] Tick by auto
  next
    case (AdviseMTU mtu)
    then have "116 < mtu" "mtu \<le> 65535" using p by simp_all
    note n = NotifyMTU_ok [OF ep this]
    show ?thesis using step_same [OF a b n(1,2)] n(3) AdviseMTU by auto
  next
    case (Shut f)
    note c = Close_ok [OF ep, of f]
    show ?thesis using step_same [OF a b c(1,2)] c(3) Shut by auto
  qed
qed

text \<open>The states of the two sides during the handshake.\<close>

definition handshake :: "int list \<Rightarrow> int list \<Rightarrow> side \<Rightarrow> side \<Rightarrow> bool" where
  "handshake XA XB a b \<longleftrightarrow> (XA = [] \<longrightarrow> XB = []) \<and> (XB \<noteq> [] \<longrightarrow> 1 \<le> m_rcv_nxt (tcp b))
     \<and> (m_state (tcp a) = TCP_ESTABLISHED \<or> accepted a \<noteq> [] \<longrightarrow> XB \<noteq> [])
     \<and> (m_state (tcp b) = TCP_ESTABLISHED \<or> accepted b \<noteq> [] \<longrightarrow> 1 \<le> m_rcv_nxt (tcp a))
     \<and> m_state (tcp a) \<noteq> TCP_SYN_RECEIVED \<and> m_state (tcp b) \<noteq> TCP_SYN_SENT"

definition connection_ok :: "side \<Rightarrow> side \<Rightarrow> bool" where
  "connection_ok a b \<longleftrightarrow> (\<exists>XA XB. link XA XB a b \<and> link XB XA b a \<and> handshake XA XB a b)"

lemma initiator_ok:
  assumes i: "connection_ok a b" and p: "admissible p a"
  shows "\<exists>a'. perform E (written (tcp b)) p a = Some a' \<and> connection_ok a' b"
proof -
  obtain XA XB where l: "link XA XB a b" "link XB XA b a" and h: "handshake XA XB a b" using i by (auto simp: connection_ok_def)
  have h1: "accepted b \<noteq> [] \<Longrightarrow> 1 \<le> m_rcv_nxt (tcp a)" using h by (simp add: handshake_def)
  obtain a' where s: "perform E (written (tcp b)) p a = Some a'" "step_ok XA XB a a' b" using perform_ok [OF l h1 p] by blast
  then obtain Z where z: "link (XA @ Z) XB a' b" "link XB (XA @ Z) b a'" "grows (tcp a) (tcp a')" "progress XA (XA @ Z) XB a a' b"
    "accepted a' \<noteq> accepted a \<longrightarrow> m_state (tcp a) = TCP_ESTABLISHED" unfolding step_ok_def by blast
  have lis: "m_state (tcp a) = TCP_LISTEN \<Longrightarrow> XA = []"
    using l(1) listen_empty(1) by (auto simp: link_def endpoint_ok_def)
  have n: "m_rcv_nxt (tcp a) \<le> m_rcv_nxt (tcp a')" using z(3) by (simp add: grows_def)
  note h = h [unfolded handshake_def]
  note pr = z(4) [unfolded progress_def]
  have "XA @ Z = [] \<longrightarrow> XB = []" "XB \<noteq> [] \<longrightarrow> 1 \<le> m_rcv_nxt (tcp b)" using h by simp_all
  moreover have "m_state (tcp a') = TCP_ESTABLISHED \<or> accepted a' \<noteq> [] \<longrightarrow> XB \<noteq> []" using h z(5) pr by auto
  moreover have "m_state (tcp b) = TCP_ESTABLISHED \<or> accepted b \<noteq> [] \<longrightarrow> 1 \<le> m_rcv_nxt (tcp a')" using h n by linarith
  moreover have "m_state (tcp a') \<noteq> TCP_SYN_RECEIVED" "m_state (tcp b) \<noteq> TCP_SYN_SENT" using h lis pr by auto
  ultimately have "handshake (XA @ Z) XB a' b" unfolding handshake_def by blast
  then show ?thesis using s(1) z(1,2) unfolding connection_ok_def by blast
qed

lemma responder_ok:
  assumes i: "connection_ok a b" and p: "admissible p b"
  shows "\<exists>b'. perform E (written (tcp a)) p b = Some b' \<and> connection_ok a b'"
proof -
  obtain XA XB where l: "link XA XB a b" "link XB XA b a" and h: "handshake XA XB a b" using i by (auto simp: connection_ok_def)
  have h1: "accepted a \<noteq> [] \<Longrightarrow> 1 \<le> m_rcv_nxt (tcp b)" using h by (simp add: handshake_def)
  obtain b' where s: "perform E (written (tcp a)) p b = Some b'" "step_ok XB XA b b' a" using perform_ok [OF l(2,1) h1 p] by blast
  then obtain Z where z: "link (XB @ Z) XA b' a" "link XA (XB @ Z) a b'" "grows (tcp b) (tcp b')" "progress XB (XB @ Z) XA b b' a"
    "accepted b' \<noteq> accepted b \<longrightarrow> m_state (tcp b) = TCP_ESTABLISHED" unfolding step_ok_def by blast
  have est: "m_state (tcp b) = TCP_ESTABLISHED \<Longrightarrow> XB \<noteq> []"
    using l(2) by (auto simp: link_def endpoint_ok_def snd_ok_def)
  have n: "m_rcv_nxt (tcp b) \<le> m_rcv_nxt (tcp b')" using z(3) by (simp add: grows_def)
  note h = h [unfolded handshake_def]
  note pr = z(4) [unfolded progress_def]
  have "XA = [] \<longrightarrow> XB @ Z = []" "XB @ Z \<noteq> [] \<longrightarrow> 1 \<le> m_rcv_nxt (tcp b')" using h pr n est by auto
  moreover have "m_state (tcp a) = TCP_ESTABLISHED \<or> accepted a \<noteq> [] \<longrightarrow> XB @ Z \<noteq> []" using h by auto
  moreover have "m_state (tcp b') = TCP_ESTABLISHED \<or> accepted b' \<noteq> [] \<longrightarrow> 1 \<le> m_rcv_nxt (tcp a)" using h z(5) pr by auto
  moreover have "m_state (tcp a) \<noteq> TCP_SYN_RECEIVED" "m_state (tcp b') \<noteq> TCP_SYN_SENT" using h pr by auto
  ultimately have "handshake XA (XB @ Z) a b'" unfolding handshake_def by blast
  then show ?thesis using s(1) z(1,2) unfolding connection_ok_def by blast
qed

lemma connect_ok:
  assumes i: "connection_ok a b"
  shows "\<exists>r s. Connect E (tcp a) = Some (r, s) \<and> connection_ok (a\<lparr>tcp := s\<rparr>) b"
proof -
  obtain XA XB where l: "link XA XB a b" "link XB XA b a" and h: "handshake XA XB a b" using i by (auto simp: connection_ok_def)
  have ep: "endpoint_ok XA XB (positions (tcp b)) (edge (tcp b)) (length (delivered a)) (tcp a)" and st: "stream XA a"
    using l(1) by (simp_all add: link_def)
  obtain r X' s where c: "Connect E (tcp a) = Some (r, s)" "endpoint_ok X' XB (positions (tcp b)) (edge (tcp b)) (length (delivered a)) s"
    "grows (tcp a) s" "if m_state (tcp a) = TCP_LISTEN then X' = [CTL_CONNECT] \<and> m_state s = TCP_SYN_SENT else X' = XA \<and> m_state s = m_state (tcp a)"
    using Connect_ok [OF ep] by blast
  have n: "m_rcv_nxt (tcp a) \<le> m_rcv_nxt s" using c(3) by (simp add: grows_def)
  show ?thesis
  proof (cases "m_state (tcp a) = TCP_LISTEN")
    case False
    then have "link XA XB (a\<lparr>tcp := s\<rparr>) b \<and> link XB XA b (a\<lparr>tcp := s\<rparr>)" using link_same [OF l] c(2-4) by simp
    moreover have "handshake XA XB (a\<lparr>tcp := s\<rparr>) b" using h False c(4) n by (auto simp: handshake_def)
    ultimately show ?thesis using c(1) unfolding connection_ok_def by blast
  next
    case True
    have X: "XA = []" using listen_empty(1) [OF endpointD(2) [OF ep] True] .
    then have acc: "accepted a = []" using st by (simp add: stream_def)
    have "link (XA @ [0]) XB (a\<lparr>tcp := s\<rparr>) b \<and> link XB (XA @ [0]) b (a\<lparr>tcp := s\<rparr>)"
      using link_connect [OF l X] c(2-4) True by simp
    moreover have "handshake [0] XB (a\<lparr>tcp := s\<rparr>) b" using h True c(4) n X acc by (auto simp: handshake_def)
    ultimately show ?thesis using c(1) unfolding connection_ok_def X append_Nil by blast
  qed
qed

lemma open_sides_ok:
  assumes "0 \<le> conv" "conv < 4294967296" "length ra = 61440" "length sa = 92160" "length rb = 61440" "length sb = 92160"
  shows "connection_ok (open_side EA conv ra sa) (open_side EB conv rb sb)"
proof -
  have "link [] [] (open_side E conv r s) (open_side E' conv r' s')"
    if "length r = 61440" "length s = 92160" for E E' r s r' s'
    using PseudoTcp_new_ok [OF assms(1,2) that, of "positions (PseudoTcp_new E' conv r' s')" "edge (PseudoTcp_new E' conv r' s')" E]
    by (simp add: link_def open_side_def stream_def positions_def edge_def new_sel)
  then show ?thesis using assms unfolding connection_ok_def
    by (intro exI [of _ "[]"]) (simp add: handshake_def open_side_def new_sel)
qed

lemma connection_invariant: "connection EA EB a b \<Longrightarrow> connection_ok a b"
proof (induction rule: connection.induct)
  case (start conv ra sa rb sb)
  then show ?case by (rule open_sides_ok)
next
  case (connect a b r s)
  then show ?case using connect_ok [of a b EA] by auto
next
  case (initiator a b p a')
  then show ?case using initiator_ok [of a b p EA] by auto
next
  case (responder a b p b')
  then show ?case using responder_ok [of a b p EB] by auto
qed

subsection \<open>Schedules\<close>

text \<open>A schedule of calls and deliveries, run from two new endpoints; the relation \<open>connection\<close> contains it.\<close>

datatype act = Connect_initiator | At_initiator tcp_op | At_responder tcp_op

fun schedule :: "tcp_env \<Rightarrow> tcp_env \<Rightarrow> act list \<Rightarrow> side \<Rightarrow> side \<Rightarrow> (side \<times> side) option" where
  "schedule EA EB [] a b = Some (a, b)"
| "schedule EA EB (Connect_initiator # l) a b = do {
     (_, s) \<leftarrow> Connect EA (tcp a);
     schedule EA EB l (a\<lparr>tcp := s\<rparr>) b
   }"
| "schedule EA EB (At_initiator p # l) a b =
     (if admissible p a then do { a \<leftarrow> perform EA (written (tcp b)) p a; schedule EA EB l a b } else None)"
| "schedule EA EB (At_responder p # l) a b =
     (if admissible p b then do { b \<leftarrow> perform EB (written (tcp a)) p b; schedule EA EB l a b } else None)"

lemma schedule_connection:
  "schedule EA EB l a b = Some (a', b') \<Longrightarrow> connection EA EB a b \<Longrightarrow> connection EA EB a' b'"
proof (induction l arbitrary: a b)
  case (Cons x l)
  show ?case
  proof (cases x)
    case Connect_initiator
    then obtain r s where "Connect EA (tcp a) = Some (r, s)" "schedule EA EB l (a\<lparr>tcp := s\<rparr>) b = Some (a', b')"
      using Cons.prems(1) by (auto simp: bind_eq_Some_conv)
    then show ?thesis using Cons.IH Cons.prems(2) connection.connect by blast
  next
    case (At_initiator p)
    then obtain a1 where "admissible p a" "perform EA (written (tcp b)) p a = Some a1" "schedule EA EB l a1 b = Some (a', b')"
      using Cons.prems(1) by (auto simp: bind_eq_Some_conv split: if_splits)
    then show ?thesis using Cons.IH Cons.prems(2) connection.initiator by blast
  next
    case (At_responder p)
    then obtain b1 where "admissible p b" "perform EB (written (tcp a)) p b = Some b1" "schedule EA EB l a b1 = Some (a', b')"
      using Cons.prems(1) by (auto simp: bind_eq_Some_conv split: if_splits)
    then show ?thesis using Cons.IH Cons.prems(2) connection.responder by blast
  qed
qed simp

text \<open>A clock that advances a millisecond per reading, and a network that takes every packet.\<close>

definition good_network :: tcp_env where
  "good_network = \<lparr>clock = (\<lambda>i. 1000 + int i), write_result = (\<lambda>_ _. WR_SUCCESS)\<rparr>"

text \<open>The beginning of the buffers; the rest of them stays a variable.\<close>

definition front :: "int list" where
  "front = [0, 0, 0, 0, 0, 0, 0, 0]"

lemma example_run:
  "map_option (\<lambda>(a, b). (m_state (tcp a), m_state (tcp b), accepted a, delivered b))
     (schedule good_network good_network
        [Connect_initiator, At_responder (Deliver 0), At_initiator (Deliver 0), At_initiator (SendBytes [1, 2, 3]),
         At_responder (Deliver 1), At_responder (RecvBytes 10)]
        (open_side good_network 7 (front @ ra) (front @ sa)) (open_side good_network 7 (front @ rb) (front @ sb)))
   = Some (TCP_ESTABLISHED, TCP_ESTABLISHED, [1, 2, 3], [1, 2, 3])"
  by code_simp

lemma example_connection:
  "\<exists>a b. connection good_network good_network a b \<and> m_state (tcp a) = TCP_ESTABLISHED \<and> m_state (tcp b) = TCP_ESTABLISHED
     \<and> accepted a = [1, 2, 3] \<and> delivered b = [1, 2, 3]"
proof -
  define r where "r = replicate 61432 (0::int)"
  define s where "s = replicate 92152 (0::int)"
  have "connection good_network good_network (open_side good_network 7 (front @ r) (front @ s)) (open_side good_network 7 (front @ r) (front @ s))"
    by (rule connection.start) (simp_all add: front_def r_def s_def)
  then show ?thesis using example_run [of r s r s] schedule_connection by (fastforce simp: map_option_eq_Some)
qed

subsection \<open>The properties of a connection\<close>

text \<open>
  C1: Reliable delivery over an unreliable network. In every state that two endpoints can reach,
  whatever the network lost, delayed, duplicated or reordered, whatever the clocks read, and whichever
  packets the network refused or found too large, the bytes that \<open>Recv\<close> has returned on one side are
  exactly the first bytes that \<open>Send\<close> has accepted on the other, in order, none missing and none twice.
\<close>

theorem delivered_is_prefix:
  assumes "connection EA EB a b"
  shows "delivered b = take (length (delivered b)) (accepted a) \<and> delivered a = take (length (delivered a)) (accepted b)"
  using connection_invariant [OF assms] by (auto simp: connection_ok_def link_def)

theorem delivered_is_prefix_witness:
  "\<exists>a b. connection good_network good_network a b \<and> delivered b = [1, 2, 3]
     \<and> delivered b = take (length (delivered b)) (accepted a)"
  using example_connection delivered_is_prefix by metis

text \<open>
  C2: Every operation is defined and returns. In every state that two endpoints can reach, each
  admissible operation of either side, the processing of any packet of the other side included, stays
  within the buffers and the segment lists, writes no packet above 65535 bytes, divides by no zero
  and ends its loops; so does \<open>Connect\<close>.
\<close>

theorem operations_defined:
  assumes "connection EA EB a b"
  shows "(admissible p a \<longrightarrow> (\<exists>a'. perform EA (written (tcp b)) p a = Some a'))
    \<and> (admissible q b \<longrightarrow> (\<exists>b'. perform EB (written (tcp a)) q b = Some b'))
    \<and> (\<exists>r s. Connect EA (tcp a) = Some (r, s))"
  using connection_invariant [OF assms] initiator_ok [of a b p EA] responder_ok [of a b q EB] connect_ok [of a b EA] by blast

theorem operations_defined_witness:
  "\<exists>a b a' b'. connection good_network good_network a b
     \<and> perform good_network (written (tcp b)) (SendBytes [4, 5]) a = Some a'
     \<and> perform good_network (written (tcp a)) (Deliver 0) b = Some b'"
proof -
  obtain a b where c: "connection good_network good_network a b" "accepted a = [1, 2, 3]" using example_connection by blast
  have "admissible (SendBytes [4, 5]) a" "admissible (Deliver 0) b" using c(2) by simp_all
  then show ?thesis using operations_defined [OF c(1), of "SendBytes [4, 5]" "Deliver 0"] c(1) by blast
qed

text \<open>What one side owes the other.\<close>

lemma link_window:
  assumes "link X Y a b" "link Y X b a"
  shows "m_snd_nxt (tcp a) \<le> m_rcv_nxt (tcp b) + m_rcv_wnd (tcp b)"
    and "m_rlen (tcp b) + m_rcv_wnd (tcp b) \<le> kRcvBufSize" "m_slen (tcp a) \<le> kSndBufSize" "m_rcv_nxt (tcp b) \<le> m_snd_nxt (tcp a)"
proof -
  show "m_snd_nxt (tcp a) \<le> m_rcv_nxt (tcp b) + m_rcv_wnd (tcp b)"
    using assms(1) by (simp add: link_def endpoint_ok_def win_ok_def edge_def)
  show "m_rlen (tcp b) + m_rcv_wnd (tcp b) \<le> kRcvBufSize" "m_rcv_nxt (tcp b) \<le> m_snd_nxt (tcp a)"
    using assms(2) by (simp_all add: link_def endpoint_ok_def rcv_ok_def positions_def)
  show "m_slen (tcp a) \<le> kSndBufSize" using assms(1) by (simp add: link_def endpoint_ok_def snd_ok_def)
qed

text \<open>
  C8: Flow control. In every state that two endpoints can reach neither side (\<open>x\<close>, with the peer \<open>y\<close>) has sent beyond
  the window that its peer grants; the peer's receive buffer has room for what is queued there and that whole window; at
  most the whole send buffer is queued; and what the peer expects next is at most what has been sent.
\<close>

theorem window_respected:
  assumes "connection EA EB a b" "x = a \<and> y = b \<or> x = b \<and> y = a"
  shows "m_snd_nxt (tcp x) \<le> m_rcv_nxt (tcp y) + m_rcv_wnd (tcp y)
    \<and> m_rlen (tcp y) + m_rcv_wnd (tcp y) \<le> kRcvBufSize \<and> m_slen (tcp x) \<le> kSndBufSize
    \<and> m_rcv_nxt (tcp y) \<le> m_snd_nxt (tcp x)"
proof -
  obtain X Y where l: "link X Y a b" "link Y X b a" using connection_invariant [OF assms(1)] by (auto simp: connection_ok_def)
  show ?thesis using assms(2) link_window [OF l] link_window [OF l(2,1)] by auto
qed

theorem window_respected_witness:
  "\<exists>a b. connection good_network good_network a b \<and> accepted a = [1, 2, 3]
     \<and> m_snd_nxt (tcp a) \<le> m_rcv_nxt (tcp b) + m_rcv_wnd (tcp b) \<and> m_snd_nxt (tcp b) \<le> m_rcv_nxt (tcp a) + m_rcv_wnd (tcp a)"
proof -
  obtain a b where c: "connection good_network good_network a b" "accepted a = [1, 2, 3]" using example_connection by blast
  show ?thesis using c window_respected [OF c(1), of a b] window_respected [OF c(1), of b a] by blast
qed

end
