(* ===== verification/LJ_PseudoTcp_Timeout.thy ===== *)
theory LJ_PseudoTcp_Timeout
  imports LJ_PseudoTcp_System
begin

text \<open>
  A connection whose peer has gone silent is given up: every expiry of the retransmission timer
  either closes the connection or sends the first segment once more, and \<open>transmit\<close> refuses a
  segment that has been sent 15 times (30 times before the connection is established).
\<close>

subsection \<open>Sending a segment counts\<close>

definition xmit_limit :: "PseudoTcp \<Rightarrow> int" where
  "xmit_limit s = (if m_state s = TCP_ESTABLISHED then 15 else 30)"

lemma transmit_counts:
  assumes ep: "endpoint_ok X Y P M k s" and open_: "m_state s \<noteq> TCP_CLOSED" and fl: "m_snd_una s < m_snd_nxt s"
    and t: "transmit E 0 now s = Some (True, s')"
  shows "s_xmit (m_slist s' ! 0) = s_xmit (m_slist s ! 0) + 1" "s_xmit (m_slist s ! 0) < xmit_limit s"
proof -
  note epD = endpointD [OF ep]
  note fr = front_sent [OF epD(2) fl]
  let ?g = "m_slist s ! 0"
  have S: "0 \<le> m_snd_una s" "int (length X) < 4294967296" "m_snd_una s + m_slen s = int (length X)" "m_slen s \<le> kSndBufSize"
    "seg_chain (m_snd_nxt s) (m_snd_una s) (m_slist s) (int (length X))"
    using epD(2) open_ by (simp_all add: snd_ok_def)
  note c = chain_nth [OF S(5) fr(1)]
  have lim: "s_xmit ?g < xmit_limit s"
    using t fr(1) by (auto simp: transmit_def xmit_limit_def Let_def split: if_splits)
  then show "s_xmit ?g < xmit_limit s" .
  then have x30: "s_xmit ?g < 30" by (simp add: xmit_limit_def split: if_splits)
  define n0 where "n0 = min (s_len ?g) (m_mss s)"
  have m: "1 \<le> m_mss s" "m_mss s \<le> 65419" using epD(1) by (simp_all add: num_ok_def)
  have n0: "1 \<le> n0" "n0 \<le> s_len ?g" "n0 \<le> 65511" using fr(3) m by (auto simp: n0_def)
  define off where "off = s_seq ?g - m_snd_una s"
  have off: "s_seq ?g = m_snd_una s + off" "0 \<le> off" "off + n0 \<le> kSndBufSize" "off < 4294967296"
    using c(1,2) S n0 by (auto simp: off_def)
  obtain ok n s1 where r: "transmit_loop E 0 n0 s = Some (ok, n, s1)" "core s1 = core s" "1 \<le> n" "n \<le> n0"
    using transmit_loop_ok [OF epD(1) off(1,2,4,3) n0(1,3)] by blast
  have t2: "ok" "s' = transmitted 0 now n s1"
    using t fr(1) r(1) by (auto simp: transmit_def Let_def n0_def [symmetric] split: if_splits)
  have sl: "m_slist s1 = m_slist s" using coreD(9) [OF r(2)] .
  define l where "l = (if n < s_len ?g then split_segment 0 n (m_slist s) else m_slist s)"
  have l: "s_xmit (l ! 0) = s_xmit ?g" "0 < length l"
    using split_nth [OF fr(1), where n = n] split_chain(3) [OF S(5) fr(1), where n = n] r(3) fr(1) S(1,2) by (auto simp: l_def)
  have u8: "u8 (s_xmit ?g + 1) = s_xmit ?g + 1" using x30 fr(2) by (intro u8_id) auto
  have "m_slist s' = l[0 := (l ! 0)\<lparr>s_xmit := u8 (s_xmit (l ! 0) + 1)\<rparr>]"
    unfolding t2(2) transmitted_def Let_def using sl by (simp add: l_def)
  then show "s_xmit (m_slist s' ! 0) = s_xmit (m_slist s ! 0) + 1" using l u8 by simp
qed

subsection \<open>The timer expires\<close>

definition rto_expired :: "int \<Rightarrow> PseudoTcp \<Rightarrow> bool" where
  "rto_expired now s \<longleftrightarrow> m_rto_base s \<noteq> 0 \<and> TimeDiff (u32 (m_rto_base s + m_rx_rto s)) now \<le> 0"

text \<open>The calls of \<open>NotifyClock\<close> at the given times, nothing else happening; each time the timer has expired.\<close>

fun silence :: "tcp_env \<Rightarrow> int list \<Rightarrow> PseudoTcp \<Rightarrow> PseudoTcp option" where
  "silence E [] s = Some s"
| "silence E (now # l) s = do { s \<leftarrow> NotifyClock E now s; silence E l s }"

fun all_expired :: "tcp_env \<Rightarrow> int list \<Rightarrow> PseudoTcp \<Rightarrow> bool" where
  "all_expired E [] s \<longleftrightarrow> True"
| "all_expired E (now # l) s \<longleftrightarrow> now \<noteq> 0 \<and> (m_state s = TCP_CLOSED \<or> rto_expired now s)
     \<and> (case NotifyClock E now s of None \<Rightarrow> True | Some s \<Rightarrow> all_expired E l s)"

text \<open>What the later stages of \<open>NotifyClock\<close> leave alone.\<close>

definition timer_frame :: "PseudoTcp \<Rightarrow> PseudoTcp \<Rightarrow> bool" where
  "timer_frame s s' \<longleftrightarrow> m_slist s' = m_slist s \<and> m_snd_una s' = m_snd_una s \<and> m_snd_nxt s' = m_snd_nxt s
     \<and> m_rto_base s' = m_rto_base s"

lemma ack_frame:
  assumes "endpoint_ok X Y P M k s" "0 \<le> seq" "seq < 4294967296" "packet E seq 0 None s = Some (w, s')"
  shows "timer_frame s s'"
proof -
  obtain w' s'' where p: "packet E seq 0 None s = Some (w', s'')" "core s'' = core s"
    using ack_packet_ok [OF assms(1-3), of E] by blast
  have "s'' = s'" using assms(4) p(1) by simp
  then show ?thesis using coreD [OF p(2)] by (simp add: timer_frame_def)
qed

lemma probe_frame:
  assumes "endpoint_ok X Y P M k s" "clock_probe E now s = Some (go, s')"
  shows "timer_frame s s'"
proof -
  have q: "0 \<le> u32 (m_snd_nxt s - 1)" "u32 (m_snd_nxt s - 1) < 4294967296" by simp_all
  from assms(2) consider "s' = s" | "s' = closedown ECONNABORTED s"
    | w s1 where "packet E (u32 (m_snd_nxt s - 1)) 0 None s = Some (w, s1)"
        "s' = s1\<lparr>m_lastsend := now, m_rx_rto := min MAX_RTO (u32 (m_rx_rto s1 * 2))\<rparr>"
    by (auto simp: clock_probe_def bind_eq_Some_conv split: if_splits)
  then show ?thesis
  proof cases
    case 3
    then show ?thesis using ack_frame [OF assms(1) q] by (simp add: timer_frame_def)
  qed (simp_all add: timer_frame_def closedown_def notify_def)
qed

text \<open>One expiry: closed, or the first segment sent once more and the timer set again.\<close>

lemma expiry:
  assumes ep: "endpoint_ok X Y P M k s" and open_: "m_state s \<noteq> TCP_CLOSED" and fl: "m_snd_una s < m_snd_nxt s"
    and e: "rto_expired now s" and now: "now \<noteq> 0"
  shows "\<exists>s'. NotifyClock E now s = Some s' \<and> endpoint_ok X Y P M k s'
    \<and> (m_state s' = TCP_CLOSED \<and> OnTcpClosed ECONNABORTED \<in> set (events s')
       \<or> m_state s' = m_state s \<and> m_snd_una s' < m_snd_nxt s' \<and> m_rto_base s' \<noteq> 0
         \<and> s_xmit (m_slist s' ! 0) = s_xmit (m_slist s ! 0) + 1 \<and> s_xmit (m_slist s ! 0) < xmit_limit s)"
proof -
  have sl: "m_slist s \<noteq> []" using front_sent(1) [OF endpointD(2) [OF ep] fl] by auto
  have ex: "m_rto_base s \<noteq> 0 \<and> TimeDiff (u32 (m_rto_base s + m_rx_rto s)) now \<le> 0 \<and> m_slist s \<noteq> []"
    using e sl by (simp add: rto_expired_def)
  obtain g1 s1 where r: "clock_retransmit E now s = Some (g1, s1)" "endpoint_ok X Y P M k s1"
    "m_state s1 = (if g1 then m_state s else TCP_CLOSED)" using clock_retransmit_ok [OF ep open_] by blast
  obtain ok s0 where t: "transmit E 0 now s = Some (ok, s0)" "send_frame s s0" "grows s s0"
    using retransmit_ok [OF ep open_ fl] by blast
  show ?thesis
  proof (cases ok)
    case False
    then have e1: "clock_retransmit E now s = Some (False, closedown ECONNABORTED s0)"
      unfolding clock_retransmit_def if_P [OF ex] t(1) by simp
    then have "NotifyClock E now s = Some s1" "m_state s1 = TCP_CLOSED" "OnTcpClosed ECONNABORTED \<in> set (events s1)"
      using open_ r(1) by (auto simp: NotifyClock_def closedown_def notify_def)
    then show ?thesis using r(2) by blast
  next
    case True
    have e1: "g1" "m_slist s1 = m_slist s0" "m_snd_una s1 = m_snd_una s0" "m_snd_nxt s1 = m_snd_nxt s0" "m_rto_base s1 = now"
      using r(1) True unfolding clock_retransmit_def if_P [OF ex] t(1) by (auto simp: Let_def)
    have o1: "m_state s1 \<noteq> TCP_CLOSED" using r(3) open_ e1(1) by simp
    have c: "s_xmit (m_slist s1 ! 0) = s_xmit (m_slist s ! 0) + 1" "s_xmit (m_slist s ! 0) < xmit_limit s"
      using transmit_counts [OF ep open_ fl, of E now s0] t(1) True e1(2) by simp_all
    have f1: "m_snd_una s1 < m_snd_nxt s1" using t(2,3) e1(3,4) fl by (simp add: send_frame_def grows_def)
    obtain g2 s2 where p: "clock_probe E now s1 = Some (g2, s2)" "endpoint_ok X Y P M k s2"
      "m_state s2 = (if g2 then m_state s1 else TCP_CLOSED)" using clock_probe_ok [OF r(2) o1] by blast
    note pf = probe_frame [OF r(2) p(1)]
    show ?thesis
    proof (cases g2)
      case False
      then have "OnTcpClosed ECONNABORTED \<in> set (events s2)"
        using p(1) by (auto simp: clock_probe_def closedown_def notify_def bind_eq_Some_conv split: if_splits)
      moreover have "NotifyClock E now s = Some s2" using open_ r(1) e1(1) p(1) False by (simp add: NotifyClock_def)
      ultimately show ?thesis using p(2,3) False by auto
    next
      case T2: True
      have nx: "0 \<le> m_snd_nxt s2" "m_snd_nxt s2 < 4294967296" using endpointD(2) [OF p(2)] by (simp_all add: snd_ok_def)
      obtain w s3 where a: "packet E (m_snd_nxt s2) 0 None s2 = Some (w, s3)" "endpoint_ok X Y P M k s3" "send_frame s2 s3"
        using ack_packet_ok [OF p(2) nx] by blast
      note af = ack_frame [OF p(2) nx a(1)]
      define s' where "s' = (if m_t_ack s2 \<noteq> 0 \<and> TimeDiff (u32 (m_t_ack s2 + ACK_DELAY)) now \<le> 0 then s3 else s2)"
      have eq: "NotifyClock E now s = Some s'" using open_ r(1) e1(1) p(1) T2 a(1) by (simp add: NotifyClock_def s'_def)
      have f: "timer_frame s1 s'" "m_state s' = m_state s1" "endpoint_ok X Y P M k s'"
        using pf af p(2,3) T2 a(2,3) by (auto simp: s'_def timer_frame_def send_frame_def)
      moreover have "m_state s1 = m_state s" using r(3) e1(1) by simp
      ultimately show ?thesis using eq c f1 e1(5) now by (intro exI [of _ s']) (simp add: timer_frame_def)
    qed
  qed
qed

lemma closed_silence: "m_state s = TCP_CLOSED \<Longrightarrow> silence E l s = Some s"
  by (induction l) (simp_all add: NotifyClock_def)

lemma silence_closes:
  assumes "endpoint_ok X Y P M k s" "m_state s \<noteq> TCP_CLOSED" "m_snd_una s < m_snd_nxt s"
    "l \<noteq> []" "xmit_limit s - s_xmit (m_slist s ! 0) < int (length l)" "all_expired E l s"
  shows "\<exists>s'. silence E l s = Some s' \<and> m_state s' = TCP_CLOSED \<and> OnTcpClosed ECONNABORTED \<in> set (events s')"
  using assms
proof (induction l arbitrary: s)
  case Nil
  then show ?case by simp
next
  case (Cons now l)
  obtain s1 where n: "NotifyClock E now s = Some s1" "endpoint_ok X Y P M k s1"
    "m_state s1 = TCP_CLOSED \<and> OnTcpClosed ECONNABORTED \<in> set (events s1)
       \<or> m_state s1 = m_state s \<and> m_snd_una s1 < m_snd_nxt s1 \<and> m_rto_base s1 \<noteq> 0
         \<and> s_xmit (m_slist s1 ! 0) = s_xmit (m_slist s ! 0) + 1 \<and> s_xmit (m_slist s ! 0) < xmit_limit s"
    using expiry [OF Cons.prems(1-3), of now E] Cons.prems(2,6) by auto
  show ?case
  proof (cases "m_state s1 = TCP_CLOSED")
    case True
    then show ?thesis using n(1,3) Cons.prems(2) closed_silence [OF True] by auto
  next
    case False
    then have m: "m_state s1 = m_state s" "m_snd_una s1 < m_snd_nxt s1" "s_xmit (m_slist s1 ! 0) = s_xmit (m_slist s ! 0) + 1"
      "s_xmit (m_slist s ! 0) < xmit_limit s" using n(3) by auto
    have lim: "xmit_limit s1 = xmit_limit s" using m(1) by (simp add: xmit_limit_def)
    have "\<exists>s'. silence E l s1 = Some s' \<and> m_state s' = TCP_CLOSED \<and> OnTcpClosed ECONNABORTED \<in> set (events s')"
      using Cons.prems(5,6) n(1) m lim by (intro Cons.IH [OF n(2) False m(2)]) auto
    then show ?thesis using n(1) by simp
  qed
qed

text \<open>
  C5: A connection whose peer has gone silent is closed. Take either side, the initiator or the responder, with
  unacknowledged bytes in a connection that it has not closed, and let only \<open>NotifyClock\<close> be called from then on, at
  times (not 0) at which the retransmission timer has expired. After 15 such calls when the connection is
  established, after 30 in any other state (so while the handshake lasts, on both sides), it is closed and the
  application has been told \<open>ECONNABORTED\<close>; no call fails.
\<close>

theorem silent_peer_closes:
  assumes "connection EA EB a b" "s0 = tcp a \<or> s0 = tcp b" "m_state s0 \<noteq> TCP_CLOSED" "m_snd_una s0 < m_snd_nxt s0"
    and "(if m_state s0 = TCP_ESTABLISHED then 15 else 30) \<le> length l" "all_expired E l s0"
  shows "\<exists>s. silence E l s0 = Some s \<and> m_state s = TCP_CLOSED \<and> OnTcpClosed ECONNABORTED \<in> set (events s)"
proof -
  obtain X Y where l: "link X Y a b" "link Y X b a" using connection_invariant [OF assms(1)] unfolding connection_ok_def by blast
  obtain X' Y' P M k where ep: "endpoint_ok X' Y' P M k s0"
    using assms(2) l by (auto simp: link_def)
  have "0 < s_xmit (m_slist s0 ! 0)" using front_sent(2) [OF endpointD(2) [OF ep] assms(4)] .
  then show ?thesis using assms(5) by (intro silence_closes [OF ep assms(3,4) _ _ assms(6)]) (auto simp: xmit_limit_def split: if_splits)
qed

text \<open>Thirty readings of the clock, 70 seconds apart: an initiator that nobody answers.\<close>

definition silent_times :: "int list" where
  "silent_times = map (\<lambda>i. 70000 * int i) [1..<31]"

lemma silent_run:
  "(case schedule good_network good_network [Connect_initiator]
        (open_side good_network 7 (front @ ra) (front @ sa)) (open_side good_network 7 (front @ rb) (front @ sb)) of
      None \<Rightarrow> False
    | Some (a, b) \<Rightarrow> m_state (tcp a) = TCP_SYN_SENT \<and> m_snd_una (tcp a) < m_snd_nxt (tcp a)
        \<and> all_expired good_network silent_times (tcp a))"
  by code_simp

theorem silent_peer_closes_witness:
  "\<exists>a b s. connection good_network good_network a b \<and> m_state (tcp a) = TCP_SYN_SENT
     \<and> silence good_network silent_times (tcp a) = Some s \<and> m_state s = TCP_CLOSED \<and> OnTcpClosed ECONNABORTED \<in> set (events s)"
proof -
  define r where "r = replicate 61432 (0::int)"
  define q where "q = replicate 92152 (0::int)"
  have c: "connection good_network good_network (open_side good_network 7 (front @ r) (front @ q)) (open_side good_network 7 (front @ r) (front @ q))"
    by (rule connection.start) (simp_all add: front_def r_def q_def)
  obtain a b where ab: "schedule good_network good_network [Connect_initiator]
        (open_side good_network 7 (front @ r) (front @ q)) (open_side good_network 7 (front @ r) (front @ q)) = Some (a, b)"
      "m_state (tcp a) = TCP_SYN_SENT" "m_snd_una (tcp a) < m_snd_nxt (tcp a)" "all_expired good_network silent_times (tcp a)"
    using silent_run [of r q r q] by (auto split: option.splits prod.splits)
  have co: "connection good_network good_network a b" by (rule schedule_connection [OF ab(1) c])
  obtain s where "silence good_network silent_times (tcp a) = Some s" "m_state s = TCP_CLOSED" "OnTcpClosed ECONNABORTED \<in> set (events s)"
    using silent_peer_closes [OF co disjI1 [OF refl] _ ab(3) _ ab(4)] ab(2) by (auto simp: silent_times_def)
  then show ?thesis using co ab(2) by blast
qed

end
