(* ===== verification/LJ_PseudoTcp_Limits.thy ===== *)
theory LJ_PseudoTcp_Limits
  imports LJ_PseudoTcp_System
begin

text \<open>
  What \<open>PseudoTcp\<close> does with packets that its own peer never sends: the header is read without a
  check of the length, sequence numbers that wrap around pass the check against the receive buffer,
  and an acknowledgement inside a segment leaves that segment behind the send buffer.
\<close>

subsection \<open>Packets and their bytes\<close>

text \<open>
  C31: The packet format is read as it is written. Parsing the bytes that \<open>packet\<close> builds returns every
  field that went in: the conversation, sequence and acknowledgement numbers, flags, window,
  the two time stamps and the data, for all values that fit their fields.
\<close>

theorem packet_roundtrip:
  assumes "0 \<le> m_conv s" "m_conv s < 4294967296" "0 \<le> seq" "seq < 4294967296" "0 \<le> m_rcv_nxt s" "m_rcv_nxt s < 4294967296"
    "0 \<le> now" "now < 4294967296" "0 \<le> m_ts_recent s" "m_ts_recent s < 4294967296" "0 \<le> m_rcv_wnd s" "m_rcv_wnd s < 65536"
    "length d \<le> 65511"
  shows "parse_segment (packet_bytes s now seq flags d) (int (length (packet_bytes s now seq flags d))) =
    \<lparr>seg_conv = m_conv s, seg_seq = seq, seg_ack = m_rcv_nxt s, seg_flags = flags, seg_wnd = m_rcv_wnd s,
     seg_data = d, seg_len = int (length d), seg_tsval = now, seg_tsecr = m_ts_recent s\<rparr>"
  using parse_packet(1) [OF assms] .

theorem packet_roundtrip_witness:
  "parse_segment (packet_bytes (PseudoTcp_new good_network 7 [] []) 305419896 4294967295 2 [10, 20])
     (int (length (packet_bytes (PseudoTcp_new good_network 7 [] []) 305419896 4294967295 2 [10, 20]))) =
   \<lparr>seg_conv = 7, seg_seq = 4294967295, seg_ack = 0, seg_flags = 2, seg_wnd = 61440, seg_data = [10, 20], seg_len = 2,
    seg_tsval = 305419896, seg_tsecr = 0\<rparr>"
  using packet_roundtrip [of "PseudoTcp_new good_network 7 [] []" 4294967295 305419896 "[10, 20]" 2]
  by (simp add: PseudoTcp_new_def Let_def)

text \<open>
  A packet of 12 to 23 bytes is read beyond its end: \<open>parse\<close> only asks for 12 bytes, and the
  header has 24. Shorter packets are refused.
\<close>

theorem short_packet_overread:
  assumes "length pkt < 24"
  shows "NotifyPacket E pkt (int (length pkt)) s = (if length pkt < 12 then Some (False, s) else None)"
proof -
  have "u32 (int (length pkt)) = int (length pkt)" using assms by (intro u32_id) auto
  then show ?thesis using assms by (simp add: NotifyPacket_def parse_def)
qed

theorem short_packet_overread_witness:
  "NotifyPacket good_network (replicate 12 0) 12 (PseudoTcp_new good_network 7 [] []) = None"
  using short_packet_overread [of "replicate 12 0" good_network "PseudoTcp_new good_network 7 [] []"] by simp

subsection \<open>Sequence numbers that wrap around\<close>

text \<open>
  C29: A forged data packet makes the receiver write outside its buffer. On an established connection,
  take a segment whose acknowledgement number is beyond what has been sent (so that it is ignored),
  and whose last byte lies past \<open>2 ^ 32\<close> and past the next expected byte: the check of its end against
  the buffer wraps around and passes, and the copy goes to an offset near \<open>2 ^ 32\<close>.
\<close>

theorem sequence_wrap_overrun:
  assumes "m_state s = TCP_ESTABLISHED" "m_shutdown s = SD_NONE" "0 \<le> m_rlen s" "m_rlen s \<le> kRcvBufSize" "0 \<le> m_rcv_nxt s"
    and "seg_conv g = m_conv s" "seg_flags g = 0" "m_snd_una s \<le> m_snd_nxt s" "m_snd_nxt s < seg_ack g"
    and "seg_seq g < 4294967296" "m_rcv_nxt s < seg_seq g - 65536"
    and "4294967296 + m_rcv_nxt s \<le> seg_seq g + seg_len g"
    and "seg_seq g + seg_len g \<le> 4294967296 + m_rcv_nxt s + kRcvBufSize - m_rlen s"
  shows "process E g s = None"
proof -
  define now where "now = u32 (clock E (ticks s))"
  define s1 where "s1 = s\<lparr>ticks := ticks s + 1, m_lasttraffic := now, m_lastrecv := now, m_bOutgoing := False\<rparr>"
  define s2 where "s2 = update_timestamp g s1"
  have f: "m_snd_una s2 = m_snd_una s" "m_snd_nxt s2 = m_snd_nxt s" "m_rlen s2 = m_rlen s" "m_rcv_nxt s2 = m_rcv_nxt s"
    "m_shutdown s2 = SD_NONE" using assms(2) by (simp_all add: s2_def update_timestamp_def s1_def)
  have c: "process_control g s1 = Some (True, False, s1)" using assms(7) by (simp add: process_control_def)
  have a: "process_ack E now False g s2 = Some (True, s2)" using assms(8,9) f by (simp add: process_ack_def)
  have len: "0 < seg_len g" using assms(5,10,12) by linarith
  have "u32 (seg_seq g + seg_len g - m_rcv_nxt s) = u32 (seg_seq g + seg_len g - m_rcv_nxt s - 4294967296)" by (simp add: u32_def)
  also have "\<dots> = seg_seq g + seg_len g - m_rcv_nxt s - 4294967296" using assms(3,12,13) by (intro u32_id) auto
  finally have e: "u32 (seg_seq g + seg_len g - m_rcv_nxt s) \<le> u32 (61440 - m_rlen s)"
    using assms(3,4,13) by (simp add: u32_id)
  have "drop_old g s2 = g" using f(4) assms(11) by (simp add: drop_old_def)
  then have adj: "adjust_segment g s2 = g" using e f(3,4) by (simp add: adjust_segment_def Let_def)
  have "u32 (seg_seq g - m_rcv_nxt s) = seg_seq g - m_rcv_nxt s" using assms(5,10,11) by (intro u32_id) auto
  then have big: "\<not> m_rlen s + u32 (seg_seq g - m_rcv_nxt s) + seg_len g \<le> 61440" using assms(3,11) len by linarith
  have "process_data fl g s2 = None" for fl using len assms(7) f big by (simp add: process_data_def)
  then have "process_input E g s2 = None" by (simp add: process_input_def adj)
  moreover have "process E g s = do {
      (ok, bConnect, s) \<leftarrow> process_control g s1;
      if \<not> ok then Some (False, s)
      else do {
        (ok, s) \<leftarrow> process_ack E now bConnect g (update_timestamp g s);
        if ok then process_input E g s else Some (False, s)
      }}"
    using assms(1,6,7) by (simp add: process_def Now_def s1_def now_def [symmetric])
  ultimately show ?thesis by (simp add: c s2_def [symmetric] a)
qed

text \<open>An established endpoint that has received nothing but the control byte.\<close>

definition fresh_endpoint :: PseudoTcp where
  "fresh_endpoint = (PseudoTcp_new good_network 7 [] [])\<lparr>m_state := TCP_ESTABLISHED, m_rcv_nxt := 1, m_snd_una := 1, m_snd_nxt := 1\<rparr>"

theorem sequence_wrap_overrun_witness:
  "process good_network \<lparr>seg_conv = 7, seg_seq = 4294967295, seg_ack = 2, seg_flags = 0, seg_wnd = 1000,
     seg_data = [1, 2, 3], seg_len = 3, seg_tsval = 0, seg_tsecr = 0\<rparr> fresh_endpoint = None"
  by (rule sequence_wrap_overrun) (simp_all add: fresh_endpoint_def PseudoTcp_new_def Let_def)

subsection \<open>Acknowledgements inside a segment\<close>

text \<open>
  C30: An acknowledgement of a part of the first segment breaks the sender. The bytes leave the send
  buffer and the length of the segment shrinks, but its sequence number stays: it now lies before the
  first unacknowledged byte, and the next transmission of the segment reads before the buffer.
\<close>

theorem partial_ack_underrun:
  assumes "m_slist s = g # l" "s_seq g = m_snd_una s" "m_snd_una s < seg_ack seg" "seg_ack seg < m_snd_una s + s_len g"
    and "0 \<le> m_snd_una s" "seg_ack seg \<le> m_snd_nxt s" "m_snd_nxt s < 4294967296" "m_slen s \<le> kSndBufSize" "s_len g \<le> m_slen s"
    and "m_dup_acks s = 0" "0 < m_cwnd s" "s_xmit g < 15" "0 < m_mss s" "m_state s = TCP_ESTABLISHED" "s_len g < 4294967296"
  shows "\<exists>s'. process_ack E now c seg s = Some (True, s') \<and> transmit E 0 now s' = None"
proof -
  define n where "n = seg_ack seg - m_snd_una s"
  have n: "0 < n" "n < s_len g" "u32 n = n" "u32 (m_slen s - n) = m_slen s - n" "u32 (s_len g - n) = s_len g - n"
    using assms by (auto simp: n_def intro!: u32_id)
  define s1 where "s1 = update_rtt now seg s"
  have f: "m_slist s1 = g # l" "m_snd_una s1 = m_snd_una s" "m_snd_nxt s1 = m_snd_nxt s" "m_slen s1 = m_slen s" "m_dup_acks s1 = 0"
    "m_cwnd s1 = m_cwnd s" "m_mss s1 = m_mss s" "m_state s1 = TCP_ESTABLISHED"
    using assms by (simp_all add: s1_def update_rtt_def Let_def)
  have fr: "free_acked n lg (g # l) = Some (lg, g\<lparr>s_len := s_len g - n\<rparr> # l)" for lg
    using n by (subst free_acked.simps) simp
  define s2 where "s2 = s1\<lparr>m_snd_wnd := seg_wnd seg, m_snd_una := seg_ack seg, m_rto_base := (if seg_ack seg = m_snd_nxt s1 then 0 else now),
     m_slen := m_slen s - n, m_sbuf := mem_write (m_sbuf s1) 0 (take (nat (m_slen s - n)) (drop (nat n) (m_sbuf s1))),
     m_largest := m_largest s1, m_slist := g\<lparr>s_len := s_len g - n\<rparr> # l\<rparr>"
  have cs: "\<exists>s3. ack_congestion E now n s2 = Some (True, s3) \<and> m_slist s3 = m_slist s2 \<and> m_snd_una s3 = m_snd_una s2
      \<and> m_mss s3 = m_mss s2 \<and> m_state s3 = m_state s2"
    using f assms(11) by (simp add: ack_congestion_def grow_cwnd_def s2_def)
  then obtain s3 where s3: "ack_congestion E now n s2 = Some (True, s3)" "m_slist s3 = g\<lparr>s_len := s_len g - n\<rparr> # l"
    "m_snd_una s3 = seg_ack seg" "m_mss s3 = m_mss s" "m_state s3 = TCP_ESTABLISHED" using f by (auto simp: s2_def)
  define s4 where "s4 = (if m_bWriteEnable s3 \<and> m_slen s3 < kIdealRefillSize then notify OnTcpWriteable (s3\<lparr>m_bWriteEnable := False\<rparr>) else s3)"
  have "process_ack_new E now c seg s = Some (True, s4)"
    unfolding process_ack_new_def s1_def [symmetric] Let_def
    using assms(8) n s3(1,5) f fr by (simp add: n_def [symmetric] s2_def s4_def cong: if_cong split del: if_split)
  then have p: "process_ack E now c seg s = Some (True, s4)" using assms(3,6) by (simp add: process_ack_def)
  have s4: "m_slist s4 = g\<lparr>s_len := s_len g - n\<rparr> # l" "m_snd_una s4 = seg_ack seg" "m_mss s4 = m_mss s" "m_state s4 = TCP_ESTABLISHED"
    using s3 by (simp_all add: s4_def notify_def)
  have "u32 (s_seq g - seg_ack seg) = 4294967296 - n" using u32_minus [of "- n"] n assms by (simp add: n_def)
  then have "\<not> u32 (s_seq g - seg_ack seg) + min (s_len g - n) (m_mss s) \<le> 92160"
    using n(2) assms(4,5,6,7,8,9,13) by (simp add: n_def)
  then have "transmit_loop E 0 (min (s_len g - n) (m_mss s)) s4 = None"
    by (subst transmit_loop.simps) (simp add: s4 Let_def)
  then have "transmit E 0 now s4 = None" using assms(12) by (simp add: transmit_def s4 Let_def)
  then show ?thesis using p by blast
qed

theorem partial_ack_underrun_witness:
  "\<exists>s'. process_ack good_network 1000 False \<lparr>seg_conv = 7, seg_seq = 1, seg_ack = 2, seg_flags = 0, seg_wnd = 1000,
       seg_data = [], seg_len = 0, seg_tsval = 0, seg_tsecr = 0\<rparr>
     (fresh_endpoint\<lparr>m_slist := [\<lparr>s_seq = 1, s_len = 3, s_xmit = 1, s_bCtrl = False\<rparr>], m_snd_nxt := 4, m_slen := 3\<rparr>) = Some (True, s')
   \<and> transmit good_network 0 1000 s' = None"
  by (rule partial_ack_underrun [where g = "\<lparr>s_seq = 1, s_len = 3, s_xmit = 1, s_bCtrl = False\<rparr>" and l = "[]"]) (simp_all add: fresh_endpoint_def PseudoTcp_new_def Let_def)

end
