(* ===== verification/LJ_ByteBuffer.thy ===== *)
theory LJ_ByteBuffer
  imports LJ_Base
begin

text \<open>
  The byte buffer of libjingle (\<open>talk/base/bytebuffer.cc\<close>, \<open>bytebuffer.h\<close>): memory \<open>bytes_\<close> of \<open>size_\<close> bytes
  (\<open>buf_bytes\<close>, \<open>buf_size\<close>) of which those from \<open>start_\<close> up to \<open>end_\<close> are the contents. Reading takes from the front, writing
  appends at the end and moves to larger memory when it must. \<open>byte_queue\<close> is the interface that the
  message formats rely on; \<open>ByteBuffer\<close> provides it. Memory from \<open>new char[n]\<close> is uninitialised: its
  bytes are those of the parameter \<open>h\<close>. Sizes are natural numbers (a \<open>size_t\<close> does not wrap around
  below the size of the memory).
\<close>

subsection \<open>The class\<close>

record ByteBuffer =
  buf_bytes :: "int list"
  buf_size :: nat
  buf_start :: nat
  buf_end :: nat

definition new_char :: "(nat \<Rightarrow> int) \<Rightarrow> nat \<Rightarrow> int list" where
  "new_char h n = map h [0..<n]"

definition ByteBuffer_new :: "(nat \<Rightarrow> int) \<Rightarrow> ByteBuffer" where
  "ByteBuffer_new h = \<lparr>buf_bytes = new_char h 4096, buf_size = 4096, buf_start = 0, buf_end = 0\<rparr>"

definition ByteBuffer_of :: "int list \<Rightarrow> ByteBuffer" where
  "ByteBuffer_of b = \<lparr>buf_bytes = b, buf_size = length b, buf_start = 0, buf_end = length b\<rparr>"

text \<open>The constructor from a C string takes what precedes the terminating zero.\<close>

definition ByteBuffer_of_string :: "int list \<Rightarrow> ByteBuffer" where
  "ByteBuffer_of_string s = ByteBuffer_of (takeWhile (\<lambda>c. c \<noteq> 0) s)"

definition Data :: "ByteBuffer \<Rightarrow> int list" where
  "Data b = drop (buf_start b) (buf_bytes b)"

definition Length :: "ByteBuffer \<Rightarrow> nat" where
  "Length b = buf_end b - buf_start b"

definition Capacity :: "ByteBuffer \<Rightarrow> nat" where
  "Capacity b = buf_size b - buf_start b"

text \<open>The reading operations return the value, or \<open>None\<close> when they return false.\<close>

definition ReadBytes :: "nat \<Rightarrow> ByteBuffer \<Rightarrow> int list option \<times> ByteBuffer" where
  "ReadBytes len b =
     (if len > Length b then (None, b)
      else (Some (take len (drop (buf_start b) (buf_bytes b))), b\<lparr>buf_start := buf_start b + len\<rparr>))"

definition ReadUInt8 :: "ByteBuffer \<Rightarrow> int option \<times> ByteBuffer" where
  "ReadUInt8 b = (case ReadBytes 1 b of (v, b) \<Rightarrow> (map_option hd v, b))"

definition ReadUInt16 :: "ByteBuffer \<Rightarrow> int option \<times> ByteBuffer" where
  "ReadUInt16 b = (case ReadBytes 2 b of (None, b) \<Rightarrow> (None, b) | (Some v, b) \<Rightarrow> (Some (bytes_to_short v), b))"

definition ReadUInt32 :: "ByteBuffer \<Rightarrow> int option \<times> ByteBuffer" where
  "ReadUInt32 b = (case ReadBytes 4 b of (None, b) \<Rightarrow> (None, b) | (Some v, b) \<Rightarrow> (Some (bytes_to_long v), b))"

text \<open>\<open>ReadString\<close> appends to its argument.\<close>

definition ReadString :: "int list \<Rightarrow> nat \<Rightarrow> ByteBuffer \<Rightarrow> int list option \<times> ByteBuffer" where
  "ReadString val len b =
     (if len > Length b then (None, b)
      else (Some (val @ take len (drop (buf_start b) (buf_bytes b))), b\<lparr>buf_start := buf_start b + len\<rparr>))"

definition Resize :: "(nat \<Rightarrow> int) \<Rightarrow> nat \<Rightarrow> ByteBuffer \<Rightarrow> ByteBuffer" where
  "Resize h sz b =
     (let sz = (if sz > buf_size b then max sz (3 * buf_size b div 2) else sz);
          len = min (buf_end b - buf_start b) sz
      in \<lparr>buf_bytes = mem_write (new_char h sz) 0 (take len (drop (buf_start b) (buf_bytes b))),
          buf_size = sz, buf_start = 0, buf_end = len\<rparr>)"

definition WriteBytes :: "(nat \<Rightarrow> int) \<Rightarrow> int list \<Rightarrow> ByteBuffer \<Rightarrow> ByteBuffer" where
  "WriteBytes h val b =
     (let len = length val;
          b = (if Length b + len > Capacity b then Resize h (Length b + len) b else b)
      in b\<lparr>buf_bytes := mem_write (buf_bytes b) (buf_end b) val, buf_end := buf_end b + len\<rparr>)"

definition WriteUInt8 :: "(nat \<Rightarrow> int) \<Rightarrow> int \<Rightarrow> ByteBuffer \<Rightarrow> ByteBuffer" where
  "WriteUInt8 h val b = WriteBytes h [val] b"

definition WriteUInt16 :: "(nat \<Rightarrow> int) \<Rightarrow> int \<Rightarrow> ByteBuffer \<Rightarrow> ByteBuffer" where
  "WriteUInt16 h val b = WriteBytes h (short_to_bytes val) b"

definition WriteUInt32 :: "(nat \<Rightarrow> int) \<Rightarrow> int \<Rightarrow> ByteBuffer \<Rightarrow> ByteBuffer" where
  "WriteUInt32 h val b = WriteBytes h (long_to_bytes val) b"

definition WriteString :: "(nat \<Rightarrow> int) \<Rightarrow> int list \<Rightarrow> ByteBuffer \<Rightarrow> ByteBuffer" where
  "WriteString h val b = WriteBytes h val b"

definition Shift :: "nat \<Rightarrow> ByteBuffer \<Rightarrow> ByteBuffer" where
  "Shift sz b =
     (if sz > Length b then b
      else (let e = Length b - sz
            in b\<lparr>buf_end := e, buf_bytes := mem_write (buf_bytes b) 0 (take e (drop (buf_start b + sz) (buf_bytes b))), buf_start := 0\<rparr>))"

subsection \<open>The interface\<close>

text \<open>A queue of bytes: what is put at the end is got from the front, and too long a request changes nothing.\<close>

locale byte_queue =
  fixes content :: "'b \<Rightarrow> int list" and valid :: "'b \<Rightarrow> bool"
    and put :: "int list \<Rightarrow> 'b \<Rightarrow> 'b" and get :: "nat \<Rightarrow> 'b \<Rightarrow> int list option \<times> 'b"
  assumes put_law: "valid b \<Longrightarrow> valid (put d b) \<and> content (put d b) = content b @ d"
    and get_law: "valid b \<Longrightarrow> n \<le> length (content b)
      \<Longrightarrow> fst (get n b) = Some (take n (content b)) \<and> valid (snd (get n b)) \<and> content (snd (get n b)) = drop n (content b)"
    and get_short: "valid b \<Longrightarrow> length (content b) < n \<Longrightarrow> get n b = (None, b)"
begin

text \<open>Getting the part that is in front.\<close>

lemma get_front:
  assumes "valid b" "content b = d @ r"
  shows "\<exists>b'. get (length d) b = (Some d, b') \<and> valid b' \<and> content b' = r"
  using get_law [OF assms(1), of "length d"] assms(2) by (intro exI [of _ "snd (get (length d) b)"]) (auto simp: prod_eq_iff)

lemma get_cases:
  assumes "valid b"
  shows "(get n b = (None, b) \<and> length (content b) < n)
    \<or> (\<exists>d b'. get n b = (Some d, b') \<and> valid b' \<and> length d = n \<and> content b = d @ content b')"
proof (cases "length (content b) < n")
  case False
  then have "fst (get n b) = Some (take n (content b)) \<and> valid (snd (get n b)) \<and> content (snd (get n b)) = drop n (content b)"
    using get_law [OF assms] by simp
  then show ?thesis using False by (intro disjI2 exI [of _ "take n (content b)"] exI [of _ "snd (get n b)"]) (auto simp: prod_eq_iff)
qed (simp add: get_short [OF assms])

text \<open>A sequence of puts is got back piece by piece.\<close>

lemma puts_content: "valid b \<Longrightarrow> valid (fold put ds b) \<and> content (fold put ds b) = content b @ concat ds"
  by (induction ds arbitrary: b) (simp_all add: put_law)

end

subsection \<open>The buffer is a queue of bytes\<close>

definition bb_content :: "ByteBuffer \<Rightarrow> int list" where
  "bb_content b = take (buf_end b - buf_start b) (drop (buf_start b) (buf_bytes b))"

text \<open>Every access stays inside the memory: a write beyond it would change the length of \<open>buf_bytes\<close>.\<close>

definition bb_valid :: "ByteBuffer \<Rightarrow> bool" where
  "bb_valid b \<longleftrightarrow> buf_start b \<le> buf_end b \<and> buf_end b \<le> buf_size b \<and> length (buf_bytes b) = buf_size b"

lemma length_new_char [simp]: "length (new_char h n) = n"
  by (simp add: new_char_def)

lemma bb_length [simp]: "bb_valid b \<Longrightarrow> length (bb_content b) = Length b"
  by (auto simp: bb_valid_def bb_content_def Length_def min_def)

lemma new_valid [simp]:
  "bb_valid (ByteBuffer_new h)" "bb_content (ByteBuffer_new h) = []"
  "bb_valid (ByteBuffer_of d)" "bb_content (ByteBuffer_of d) = d"
  by (simp_all add: bb_valid_def bb_content_def ByteBuffer_new_def ByteBuffer_of_def)

lemma Resize_ok:
  assumes "bb_valid b"
  shows "bb_valid (Resize h n b)" "bb_content (Resize h n b) = take n (bb_content b)" "n \<le> buf_size (Resize h n b)"
    "buf_start (Resize h n b) = 0"
proof -
  define sz where "sz = (if n > buf_size b then max n (3 * buf_size b div 2) else n)"
  define len where "len = min (buf_end b - buf_start b) sz"
  have r: "Resize h n b = \<lparr>buf_bytes = mem_write (new_char h sz) 0 (take len (drop (buf_start b) (buf_bytes b))), buf_size = sz, buf_start = 0, buf_end = len\<rparr>"
    unfolding Resize_def Let_def sz_def len_def by (rule refl)
  have l: "length (take len (drop (buf_start b) (buf_bytes b))) = len" using assms by (auto simp: bb_valid_def len_def)
  have sz: "n \<le> sz" "len \<le> sz" by (simp_all add: sz_def len_def)
  have len: "take len (drop (buf_start b) (buf_bytes b)) = take n (bb_content b)"
  proof (cases "n > buf_size b")
    case True
    then have "buf_end b - buf_start b \<le> n" "len = buf_end b - buf_start b" using assms sz(1) by (auto simp: bb_valid_def len_def)
    then show ?thesis using assms by (simp add: bb_content_def)
  next
    case False
    then show ?thesis by (simp add: bb_content_def len_def sz_def min.commute)
  qed
  show "bb_valid (Resize h n b)" using l sz by (simp add: r bb_valid_def)
  have "bb_content (Resize h n b) = take len (drop (buf_start b) (buf_bytes b))" using l by (simp add: r bb_content_def mem_write_def)
  then show "bb_content (Resize h n b) = take n (bb_content b)" by (simp only: len)
  show "n \<le> buf_size (Resize h n b)" "buf_start (Resize h n b) = 0" using sz by (simp_all add: r)
qed

lemma WriteBytes_ok:
  assumes "bb_valid b"
  shows "bb_valid (WriteBytes h d b) \<and> bb_content (WriteBytes h d b) = bb_content b @ d"
proof -
  define b1 where "b1 = (if Length b + length d > Capacity b then Resize h (Length b + length d) b else b)"
  have w: "WriteBytes h d b = b1\<lparr>buf_bytes := mem_write (buf_bytes b1) (buf_end b1) d, buf_end := buf_end b1 + length d\<rparr>"
    unfolding WriteBytes_def Let_def b1_def by (rule refl)
  have b1: "bb_valid b1" "bb_content b1 = bb_content b" "buf_end b1 + length d \<le> buf_size b1"
  proof -
    show v: "bb_valid b1" using assms Resize_ok(1) by (simp add: b1_def)
    show c: "bb_content b1 = bb_content b" using assms Resize_ok(2) [OF assms] by (simp add: b1_def)
    show "buf_end b1 + length d \<le> buf_size b1"
    proof (cases "Length b + length d > Capacity b")
      case True
      have "Length b1 = Length b" using bb_length [OF v] bb_length [OF assms] c by simp
      moreover have "buf_start b1 = 0" "Length b + length d \<le> buf_size b1" using True Resize_ok(3,4) [OF assms] by (simp_all add: b1_def)
      ultimately show ?thesis by (simp add: Length_def)
    next
      case False
      then show ?thesis using assms by (auto simp: b1_def Length_def Capacity_def bb_valid_def)
    qed
  qed
  have l: "length (buf_bytes b1) = buf_size b1" "buf_start b1 \<le> buf_end b1" using b1(1) by (simp_all add: bb_valid_def)
  have "bb_content (WriteBytes h d b) = drop (buf_start b1) (take (buf_end b1 + length d) (mem_write (buf_bytes b1) (buf_end b1) d))"
    using l by (simp add: w bb_content_def drop_take)
  also have "\<dots> = drop (buf_start b1) (take (buf_end b1) (buf_bytes b1) @ d)" using l b1(3) by (simp add: take_mem_write)
  also have "\<dots> = bb_content b1 @ d" using l b1(3) by (simp add: bb_content_def drop_take)
  finally have "bb_content (WriteBytes h d b) = bb_content b @ d" using b1(2) by simp
  moreover have "bb_valid (WriteBytes h d b)" using b1 l by (simp add: w bb_valid_def)
  ultimately show ?thesis by simp
qed

interpretation bb: byte_queue bb_content bb_valid "WriteBytes h" ReadBytes for h
proof
  show "bb_valid b \<Longrightarrow> bb_valid (WriteBytes h d b) \<and> bb_content (WriteBytes h d b) = bb_content b @ d" for d b
    by (rule WriteBytes_ok)
  show "fst (ReadBytes n b) = Some (take n (bb_content b)) \<and> bb_valid (snd (ReadBytes n b)) \<and> bb_content (snd (ReadBytes n b)) = drop n (bb_content b)"
    if "bb_valid b" "n \<le> length (bb_content b)" for b n
    using that by (auto simp: ReadBytes_def Length_def bb_valid_def bb_content_def drop_take add.commute)
  show "bb_valid b \<Longrightarrow> length (bb_content b) < n \<Longrightarrow> ReadBytes n b = (None, b)" for b n
    by (simp add: ReadBytes_def)
qed

lemma Shift_ok:
  assumes "bb_valid b"
  shows "bb_valid (Shift n b)" "bb_content (Shift n b) = (if n \<le> Length b then drop n (bb_content b) else bb_content b)"
proof -
  have l: "length (take (Length b - n) (drop (buf_start b + n) (buf_bytes b))) = Length b - n" if "n \<le> Length b"
    using assms that by (auto simp: bb_valid_def Length_def)
  show "bb_valid (Shift n b)" using assms l by (auto simp: Shift_def bb_valid_def Length_def Let_def)
  show "bb_content (Shift n b) = (if n \<le> Length b then drop n (bb_content b) else bb_content b)"
    using l by (auto simp: Shift_def bb_content_def Let_def Length_def mem_write_def drop_take add.commute)
qed

text \<open>
  C24: The byte buffer is a queue of bytes. From the constructors on, and through any reallocation:
  \<open>WriteBytes\<close> appends its bytes to the contents; \<open>ReadBytes\<close> takes exactly the first bytes, or
  returns false and changes nothing when there are fewer; \<open>Resize\<close> keeps as much of the contents as
  fits; \<open>Shift\<close> drops bytes from the front. No operation leaves the allocated memory.
\<close>

theorem ByteBuffer_is_queue:
  shows "bb_valid (ByteBuffer_new h) \<and> bb_content (ByteBuffer_new h) = []
    \<and> bb_valid (ByteBuffer_of d) \<and> bb_content (ByteBuffer_of d) = d
    \<and> (bb_valid b \<longrightarrow>
        bb_valid (WriteBytes h d b) \<and> bb_content (WriteBytes h d b) = bb_content b @ d
        \<and> (if n \<le> length (bb_content b)
           then fst (ReadBytes n b) = Some (take n (bb_content b)) \<and> bb_valid (snd (ReadBytes n b))
                \<and> bb_content (snd (ReadBytes n b)) = drop n (bb_content b)
           else ReadBytes n b = (None, b))
        \<and> bb_valid (Resize h n b) \<and> bb_content (Resize h n b) = take n (bb_content b)
        \<and> bb_valid (Shift n b) \<and> bb_content (Shift n b) = (if n \<le> length (bb_content b) then drop n (bb_content b) else bb_content b))"
  using bb.put_law [where b = b and d = d and h = h] bb.get_law [where b = b and n = n] bb.get_short [where b = b and n = n] Resize_ok [where b = b and n = n and h = h] Shift_ok [where b = b and n = n] by simp

theorem ByteBuffer_is_queue_witness:
  "bb_content (Shift 1 (WriteBytes (\<lambda>i. 77) [4, 5] (Resize (\<lambda>i. 0) 2 (ByteBuffer_of [1, 2, 3])))) = [2, 4, 5]"
proof -
  have a: "bb_valid (Resize (\<lambda>i. 0) 2 (ByteBuffer_of [1, 2, 3]))" "bb_content (Resize (\<lambda>i. 0) 2 (ByteBuffer_of [1, 2, 3])) = [1, 2]"
    using ByteBuffer_is_queue [where b = "ByteBuffer_of [1, 2, 3]" and n = 2 and h = "\<lambda>i. 0"] by simp_all
  have "bb_valid (WriteBytes (\<lambda>i. 77) [4, 5] (Resize (\<lambda>i. 0) 2 (ByteBuffer_of [1, 2, 3])))"
    "bb_content (WriteBytes (\<lambda>i. 77) [4, 5] (Resize (\<lambda>i. 0) 2 (ByteBuffer_of [1, 2, 3]))) = [1, 2, 4, 5]"
    using ByteBuffer_is_queue [where b = "Resize (\<lambda>i. 0) 2 (ByteBuffer_of [1, 2, 3])" and d = "[4, 5]" and h = "\<lambda>i. 77"] a by simp_all
  then show ?thesis
    using ByteBuffer_is_queue [where b = "WriteBytes (\<lambda>i. 77) [4, 5] (Resize (\<lambda>i. 0) 2 (ByteBuffer_of [1, 2, 3]))" and n = 1] by simp
qed

subsection \<open>Reading values that are in front\<close>

lemma read_front:
  assumes "bb_valid b"
  shows "bb_content b = v # r \<Longrightarrow> \<exists>b'. ReadUInt8 b = (Some v, b') \<and> bb_valid b' \<and> bb_content b' = r"
    "bb_content b = short_to_bytes w @ r \<Longrightarrow> 0 \<le> w \<Longrightarrow> w < 65536
      \<Longrightarrow> \<exists>b'. ReadUInt16 b = (Some w, b') \<and> bb_valid b' \<and> bb_content b' = r"
    "bb_content b = long_to_bytes x @ r \<Longrightarrow> 0 \<le> x \<Longrightarrow> x < 4294967296
      \<Longrightarrow> \<exists>b'. ReadUInt32 b = (Some x, b') \<and> bb_valid b' \<and> bb_content b' = r"
    "bb_content b = d @ r \<Longrightarrow> \<exists>b'. ReadString s (length d) b = (Some (s @ d), b') \<and> bb_valid b' \<and> bb_content b' = r"
    "bb_content b = d @ r \<Longrightarrow> \<exists>b'. ReadBytes (length d) b = (Some d, b') \<and> bb_valid b' \<and> bb_content b' = r"
proof -
  show "bb_content b = v # r \<Longrightarrow> \<exists>b'. ReadUInt8 b = (Some v, b') \<and> bb_valid b' \<and> bb_content b' = r"
    using bb.get_front [OF assms, of "[v]" r] by (auto simp: ReadUInt8_def)
  show "bb_content b = short_to_bytes w @ r \<Longrightarrow> 0 \<le> w \<Longrightarrow> w < 65536
      \<Longrightarrow> \<exists>b'. ReadUInt16 b = (Some w, b') \<and> bb_valid b' \<and> bb_content b' = r"
    using bb.get_front [OF assms, of "short_to_bytes w" r] by (auto simp: ReadUInt16_def numeral_2_eq_2)
  show "bb_content b = long_to_bytes x @ r \<Longrightarrow> 0 \<le> x \<Longrightarrow> x < 4294967296
      \<Longrightarrow> \<exists>b'. ReadUInt32 b = (Some x, b') \<and> bb_valid b' \<and> bb_content b' = r"
    using bb.get_front [OF assms, of "long_to_bytes x" r] by (auto simp: ReadUInt32_def)
  show get: "bb_content b = d @ r \<Longrightarrow> \<exists>b'. ReadBytes (length d) b = (Some d, b') \<and> bb_valid b' \<and> bb_content b' = r"
    by (rule bb.get_front [OF assms])
  have "ReadString s n b = (case ReadBytes n b of (v, b) \<Rightarrow> (map_option (\<lambda>d. s @ d) v, b))" for n
    by (simp add: ReadString_def ReadBytes_def)
  then show "bb_content b = d @ r \<Longrightarrow> \<exists>b'. ReadString s (length d) b = (Some (s @ d), b') \<and> bb_valid b' \<and> bb_content b' = r"
    using get by auto
qed

end
