(* ===== verification/LJ_Stun.thy ===== *)
theory LJ_Stun
  imports LJ_ByteBuffer
begin

text \<open>
  The messages of STUN and TURN (\<open>talk/p2p/base/stun.cc\<close>, \<open>stun.h\<close>): a type, a length, a transaction
  id of 16 bytes, and attributes of six kinds, each with its type, its length and its body. Writing
  goes to a \<open>ByteBuffer\<close>, reading from one. The virtual \<open>Read\<close> and \<open>Write\<close> of the attribute classes are
  a case distinction on the body; a reading operation that returns false has the first component
  False. The asserts are those of a release build (no effect).
\<close>

subsection \<open>Types\<close>

abbreviation (input) STUN_ATTR_ERROR_CODE :: int where "STUN_ATTR_ERROR_CODE \<equiv> 9"
abbreviation (input) STUN_ATTR_UNKNOWN_ATTRIBUTES :: int where "STUN_ATTR_UNKNOWN_ATTRIBUTES \<equiv> 10"
abbreviation (input) STUN_ATTR_TRANSPORT_PREFERENCES :: int where "STUN_ATTR_TRANSPORT_PREFERENCES \<equiv> 12"
abbreviation (input) STUN_ATTR_MESSAGE_INTEGRITY :: int where "STUN_ATTR_MESSAGE_INTEGRITY \<equiv> 8"
abbreviation (input) STUN_ATTR_DATA :: int where "STUN_ATTR_DATA \<equiv> 19"
abbreviation (input) STUN_ATTR_MAGIC_COOKIE :: int where "STUN_ATTR_MAGIC_COOKIE \<equiv> 15"

text \<open>The cases of the \<open>switch\<close> statements: mapped, response, source, changed, reflected, alternate, destination, source 2.\<close>

definition stun_address_types :: "int list" where
  "stun_address_types = [1, 2, 4, 5, 11, 14, 17, 18]"

text \<open>Change request, lifetime, bandwidth, options; user name, password, magic cookie.\<close>

definition stun_uint32_types :: "int list" where
  "stun_uint32_types = [3, 13, 16, 0x8001]"

definition stun_padded_types :: "int list" where
  "stun_padded_types = [6, 7, 15]"

record StunAddress =
  family :: int
  port :: int
  ip :: int

datatype StunBody = Address StunAddress | UInt32 int | ByteString "int list" | ErrorCode int int "int list"
  | UInt16List "int list" | TransportPrefs bool int "StunAddress option"

record StunAttribute =
  attr_type :: int
  attr_length :: int
  body :: StunBody

record StunMessage =
  msg_type :: int
  msg_length :: int
  transaction_id :: "int list"
  attrs :: "StunAttribute list"

definition StunMessage_new :: StunMessage where
  "StunMessage_new = \<lparr>msg_type = 0, msg_length = 0, transaction_id = replicate 16 48, attrs = []\<rparr>"

definition no_address :: StunAddress where
  "no_address = \<lparr>family = 0, port = 0, ip = 0\<rparr>"

definition StunAttribute_Create :: "int \<Rightarrow> int \<Rightarrow> StunAttribute option" where
  "StunAttribute_Create ty len =
     (if ty \<in> set stun_address_types then
        (if len \<noteq> 8 then None else Some \<lparr>attr_type = ty, attr_length = 8, body = Address no_address\<rparr>)
      else if ty \<in> set stun_uint32_types then
        (if len \<noteq> 4 then None else Some \<lparr>attr_type = ty, attr_length = 4, body = UInt32 0\<rparr>)
      else if ty \<in> set stun_padded_types then
        (if len mod 4 = 0 then Some \<lparr>attr_type = ty, attr_length = len, body = ByteString []\<rparr> else None)
      else if ty = STUN_ATTR_MESSAGE_INTEGRITY then
        (if len = 20 then Some \<lparr>attr_type = ty, attr_length = len, body = ByteString []\<rparr> else None)
      else if ty = STUN_ATTR_DATA then Some \<lparr>attr_type = ty, attr_length = len, body = ByteString []\<rparr>
      else if ty = STUN_ATTR_ERROR_CODE then
        (if len < 4 then None else Some \<lparr>attr_type = ty, attr_length = len, body = ErrorCode 0 0 []\<rparr>)
      else if ty = STUN_ATTR_UNKNOWN_ATTRIBUTES then
        (if len mod 2 = 0 then Some \<lparr>attr_type = ty, attr_length = len, body = UInt16List []\<rparr> else None)
      else if ty = STUN_ATTR_TRANSPORT_PREFERENCES then
        (if len \<noteq> 4 \<and> len \<noteq> 12 then None
         else Some \<lparr>attr_type = ty, attr_length = len, body = TransportPrefs False 0 None\<rparr>)
      else None)"

subsection \<open>Building attributes\<close>

definition error_code :: "int \<Rightarrow> int \<Rightarrow> int" where
  "error_code class number = push_bit 8 class OR number"

text \<open>\<open>SetErrorCode\<close>: the class and the number of a code.\<close>

definition SetErrorCode :: "int \<Rightarrow> int \<times> int" where
  "SetErrorCode code = (drop_bit 8 code AND 7, code AND 255)"

definition CreateAddress :: "int \<Rightarrow> StunAttribute option" where
  "CreateAddress ty = (if ty \<in> set stun_address_types then Some \<lparr>attr_type = ty, attr_length = 8, body = Address no_address\<rparr> else None)"

definition CreateUInt32 :: "int \<Rightarrow> StunAttribute option" where
  "CreateUInt32 ty = (if ty \<in> set stun_uint32_types then Some \<lparr>attr_type = ty, attr_length = 4, body = UInt32 0\<rparr> else None)"

definition CreateByteString :: "int \<Rightarrow> StunAttribute option" where
  "CreateByteString ty =
     (if ty \<in> set stun_padded_types \<or> ty = STUN_ATTR_MESSAGE_INTEGRITY \<or> ty = STUN_ATTR_DATA
      then Some \<lparr>attr_type = ty, attr_length = 0, body = ByteString []\<rparr> else None)"

definition CreateErrorCode :: StunAttribute where
  "CreateErrorCode = \<lparr>attr_type = STUN_ATTR_ERROR_CODE, attr_length = 4, body = ErrorCode 0 0 []\<rparr>"

definition CreateUnknownAttributes :: StunAttribute where
  "CreateUnknownAttributes = \<lparr>attr_type = STUN_ATTR_UNKNOWN_ATTRIBUTES, attr_length = 0, body = UInt16List []\<rparr>"

definition CreateTransportPrefs :: StunAttribute where
  "CreateTransportPrefs = \<lparr>attr_type = STUN_ATTR_TRANSPORT_PREFERENCES, attr_length = 4, body = TransportPrefs False 0 None\<rparr>"

text \<open>The setters; each is defined on the objects of its class. \<open>SetBytes\<close> is given a buffer of at least \<open>len\<close> bytes.\<close>

fun SetBytes :: "int list \<Rightarrow> int \<Rightarrow> StunAttribute \<Rightarrow> StunAttribute" where
  "SetBytes bytes len a = (case body a of ByteString _ \<Rightarrow> a\<lparr>body := ByteString bytes, attr_length := len\<rparr> | _ \<Rightarrow> a)"

definition CopyBytes :: "int list \<Rightarrow> int \<Rightarrow> StunAttribute \<Rightarrow> StunAttribute" where
  "CopyBytes bytes len a = SetBytes (take (nat len) bytes) len a"

text \<open>The remaining setters of the classes, and access by index; an index out of range is undefined.\<close>

definition StunMessage_SetType :: "int \<Rightarrow> StunMessage \<Rightarrow> StunMessage" where
  "StunMessage_SetType ty m = m\<lparr>msg_type := ty\<rparr>"

definition SetFamily :: "int \<Rightarrow> StunAddress \<Rightarrow> StunAddress" where
  "SetFamily f a = a\<lparr>family := f\<rparr>"

definition SetIP :: "int \<Rightarrow> StunAddress \<Rightarrow> StunAddress" where
  "SetIP i a = a\<lparr>ip := i\<rparr>"

definition SetPort :: "int \<Rightarrow> StunAddress \<Rightarrow> StunAddress" where
  "SetPort p a = a\<lparr>port := p\<rparr>"

definition SetValue :: "int \<Rightarrow> StunBody \<Rightarrow> StunBody" where
  "SetValue v x = (case x of UInt32 _ \<Rightarrow> UInt32 v | _ \<Rightarrow> x)"

definition GetByte :: "nat \<Rightarrow> StunBody \<Rightarrow> int option" where
  "GetByte i x = (case x of ByteString l \<Rightarrow> if i < length l then Some (l ! i) else None | _ \<Rightarrow> None)"

definition SetByte :: "nat \<Rightarrow> int \<Rightarrow> StunBody \<Rightarrow> StunBody option" where
  "SetByte i v x = (case x of ByteString l \<Rightarrow> if i < length l then Some (ByteString (l[i := v])) else None | _ \<Rightarrow> None)"

definition SetErrorClass :: "int \<Rightarrow> StunBody \<Rightarrow> StunBody" where
  "SetErrorClass c x = (case x of ErrorCode _ n r \<Rightarrow> ErrorCode c n r | _ \<Rightarrow> x)"

definition SetNumber :: "int \<Rightarrow> StunBody \<Rightarrow> StunBody" where
  "SetNumber n x = (case x of ErrorCode c _ r \<Rightarrow> ErrorCode c n r | _ \<Rightarrow> x)"

definition GetType :: "nat \<Rightarrow> StunBody \<Rightarrow> int option" where
  "GetType i x = (case x of UInt16List l \<Rightarrow> if i < length l then Some (l ! i) else None | _ \<Rightarrow> None)"

definition SetType :: "nat \<Rightarrow> int \<Rightarrow> StunBody \<Rightarrow> StunBody option" where
  "SetType i v x = (case x of UInt16List l \<Rightarrow> if i < length l then Some (UInt16List (l[i := v])) else None | _ \<Rightarrow> None)"

definition SetPreferenceType :: "int \<Rightarrow> StunBody \<Rightarrow> StunBody" where
  "SetPreferenceType t x = (case x of TransportPrefs p _ a \<Rightarrow> TransportPrefs p t a | _ \<Rightarrow> x)"

text \<open>\<open>CopyBytes\<close> of a C string takes what precedes the terminating zero.\<close>

definition CopyString :: "int list \<Rightarrow> StunAttribute \<Rightarrow> StunAttribute" where
  "CopyString s a = (let s = takeWhile (\<lambda>c. c \<noteq> 0) s in CopyBytes s (u16 (int (length s))) a)"

fun SetReason :: "int list \<Rightarrow> StunAttribute \<Rightarrow> StunAttribute" where
  "SetReason reason a =
     (case body a of ErrorCode c n _ \<Rightarrow> a\<lparr>attr_length := u16 (4 + u16 (int (length reason))), body := ErrorCode c n reason\<rparr> | _ \<Rightarrow> a)"

fun AddType :: "int \<Rightarrow> StunAttribute \<Rightarrow> StunAttribute" where
  "AddType ty a =
     (case body a of
        UInt16List l \<Rightarrow> a\<lparr>body := UInt16List (l @ [ty]), attr_length := u16 (u16 (int (length (l @ [ty]))) * 2)\<rparr>
      | _ \<Rightarrow> a)"

fun SetPreallocateAddress :: "StunAddress option \<Rightarrow> StunAttribute \<Rightarrow> StunAttribute" where
  "SetPreallocateAddress addr a =
     (case body a of
        TransportPrefs _ p _ \<Rightarrow> a\<lparr>body := TransportPrefs (addr \<noteq> None) p addr, attr_length := (if addr = None then 4 else 12)\<rparr>
      | _ \<Rightarrow> a)"

definition GetBit :: "int \<Rightarrow> int \<Rightarrow> bool" where
  "GetBit bits index = (drop_bit (nat index) bits AND 1 \<noteq> 0)"

definition SetBit :: "int \<Rightarrow> bool \<Rightarrow> int \<Rightarrow> int" where
  "SetBit index val bits =
     (let bits = u32 (bits AND NOT (push_bit (nat index) 1)) in u32 (bits OR (if val then push_bit (nat index) 1 else 0)))"

definition SetTransactionID :: "int list \<Rightarrow> StunMessage \<Rightarrow> StunMessage" where
  "SetTransactionID str m = m\<lparr>transaction_id := str\<rparr>"

definition AddAttribute :: "StunAttribute \<Rightarrow> StunMessage \<Rightarrow> StunMessage" where
  "AddAttribute a m = m\<lparr>attrs := attrs m @ [a], msg_length := u16 (msg_length m + attr_length a + 4)\<rparr>"

definition GetAttribute :: "int \<Rightarrow> StunMessage \<Rightarrow> StunAttribute option" where
  "GetAttribute ty m = List.find (\<lambda>a. attr_type a = ty) (attrs m)"

definition GetAddress :: "int \<Rightarrow> StunMessage \<Rightarrow> StunAttribute option" where
  "GetAddress ty m = (if ty \<in> set stun_address_types then GetAttribute ty m else None)"

definition GetUInt32 :: "int \<Rightarrow> StunMessage \<Rightarrow> StunAttribute option" where
  "GetUInt32 ty m = (if ty \<in> set stun_uint32_types then GetAttribute ty m else None)"

definition GetByteString :: "int \<Rightarrow> StunMessage \<Rightarrow> StunAttribute option" where
  "GetByteString ty m =
     (if ty \<in> set stun_padded_types \<or> ty = STUN_ATTR_MESSAGE_INTEGRITY \<or> ty = STUN_ATTR_DATA then GetAttribute ty m else None)"

definition GetErrorCode :: "StunMessage \<Rightarrow> StunAttribute option" where
  "GetErrorCode m = GetAttribute STUN_ATTR_ERROR_CODE m"

definition GetUnknownAttributes :: "StunMessage \<Rightarrow> StunAttribute option" where
  "GetUnknownAttributes m = GetAttribute STUN_ATTR_UNKNOWN_ATTRIBUTES m"

definition GetTransportPrefs :: "StunMessage \<Rightarrow> StunAttribute option" where
  "GetTransportPrefs m = GetAttribute STUN_ATTR_TRANSPORT_PREFERENCES m"

text \<open>Response types: shared secret, allocate and send requests have their own, all else is taken for binding.\<close>

definition GetStunResponseType :: "int \<Rightarrow> int" where
  "GetStunResponseType ty = (if ty = 2 then 0x0102 else if ty = 3 then 0x0103 else if ty = 4 then 0x0104 else 0x0101)"

definition GetStunErrorResponseType :: "int \<Rightarrow> int" where
  "GetStunErrorResponseType ty = (if ty = 2 then 0x0112 else if ty = 3 then 0x0113 else if ty = 4 then 0x0114 else 0x0111)"

subsection \<open>Writing\<close>

definition Address_Write :: "(nat \<Rightarrow> int) \<Rightarrow> StunAddress \<Rightarrow> ByteBuffer \<Rightarrow> ByteBuffer" where
  "Address_Write h a b = WriteUInt32 h (ip a) (WriteUInt16 h (port a) (WriteUInt8 h (family a) (WriteUInt8 h 0 b)))"

definition UInt32_Write :: "(nat \<Rightarrow> int) \<Rightarrow> int \<Rightarrow> ByteBuffer \<Rightarrow> ByteBuffer" where
  "UInt32_Write h x b = WriteUInt32 h x b"

text \<open>\<open>None\<close> is undefined behaviour: fewer bytes than the length says, or no address to preallocate.\<close>

definition ByteString_Write :: "(nat \<Rightarrow> int) \<Rightarrow> int list \<Rightarrow> int \<Rightarrow> ByteBuffer \<Rightarrow> ByteBuffer option" where
  "ByteString_Write h l len b = do { defined (len \<le> int (length l)); Some (WriteBytes h (take (nat len) l) b) }"

definition ErrorCode_Write :: "(nat \<Rightarrow> int) \<Rightarrow> int \<Rightarrow> int \<Rightarrow> int list \<Rightarrow> ByteBuffer \<Rightarrow> ByteBuffer" where
  "ErrorCode_Write h c n r b = WriteString h r (WriteUInt32 h (error_code c n) b)"

definition UInt16List_Write :: "(nat \<Rightarrow> int) \<Rightarrow> int list \<Rightarrow> ByteBuffer \<Rightarrow> ByteBuffer" where
  "UInt16List_Write h l b = fold (WriteUInt16 h) l b"

definition TransportPrefs_Write :: "(nat \<Rightarrow> int) \<Rightarrow> bool \<Rightarrow> int \<Rightarrow> StunAddress option \<Rightarrow> ByteBuffer \<Rightarrow> ByteBuffer option" where
  "TransportPrefs_Write h p t x b =
     (let b = WriteUInt32 h ((if p then 4 else 0) OR t) b
      in if p then map_option (\<lambda>x. Address_Write h x b) x else Some b)"

text \<open>The virtual function.\<close>

fun attr_Write :: "(nat \<Rightarrow> int) \<Rightarrow> StunAttribute \<Rightarrow> ByteBuffer \<Rightarrow> ByteBuffer option" where
  "attr_Write h a b =
     (case body a of
        Address x \<Rightarrow> Some (Address_Write h x b)
      | UInt32 x \<Rightarrow> Some (UInt32_Write h x b)
      | ByteString l \<Rightarrow> ByteString_Write h l (attr_length a) b
      | ErrorCode c n r \<Rightarrow> Some (ErrorCode_Write h c n r b)
      | UInt16List l \<Rightarrow> Some (UInt16List_Write h l b)
      | TransportPrefs p t x \<Rightarrow> TransportPrefs_Write h p t x b)"

lemmas body_Write_defs = UInt32_Write_def ByteString_Write_def ErrorCode_Write_def UInt16List_Write_def TransportPrefs_Write_def

fun attrs_Write :: "(nat \<Rightarrow> int) \<Rightarrow> StunAttribute list \<Rightarrow> ByteBuffer \<Rightarrow> ByteBuffer option" where
  "attrs_Write h [] b = Some b"
| "attrs_Write h (a # l) b = do {
     b \<leftarrow> attr_Write h a (WriteUInt16 h (attr_length a) (WriteUInt16 h (attr_type a) b));
     attrs_Write h l b
   }"

definition StunMessage_Write :: "(nat \<Rightarrow> int) \<Rightarrow> StunMessage \<Rightarrow> ByteBuffer \<Rightarrow> ByteBuffer option" where
  "StunMessage_Write h m b =
     attrs_Write h (attrs m) (WriteString h (transaction_id m) (WriteUInt16 h (msg_length m) (WriteUInt16 h (msg_type m) b)))"

subsection \<open>Reading\<close>

definition Address_Read :: "StunAddress \<Rightarrow> ByteBuffer \<Rightarrow> bool \<times> StunAddress \<times> ByteBuffer" where
  "Address_Read a b =
     (case ReadUInt8 b of (None, b) \<Rightarrow> (False, a, b) | (Some _, b) \<Rightarrow>
       (case ReadUInt8 b of (None, b) \<Rightarrow> (False, a, b) | (Some f, b) \<Rightarrow>
         (let a = a\<lparr>family := f\<rparr> in case ReadUInt16 b of (None, b) \<Rightarrow> (False, a, b) | (Some p, b) \<Rightarrow>
           (let a = a\<lparr>port := p\<rparr> in case ReadUInt32 b of (None, b) \<Rightarrow> (False, a, b) | (Some i, b) \<Rightarrow>
             (True, a\<lparr>ip := i\<rparr>, b)))))"

fun types_Read :: "nat \<Rightarrow> int list \<Rightarrow> ByteBuffer \<Rightarrow> bool \<times> int list \<times> ByteBuffer" where
  "types_Read 0 l b = (True, l, b)"
| "types_Read (Suc n) l b = (case ReadUInt16 b of (None, b) \<Rightarrow> (False, l, b) | (Some t, b) \<Rightarrow> types_Read n (l @ [t]) b)"

text \<open>The result of reading the address to preallocate is not looked at.\<close>

definition TransportPrefs_Read :: "StunAttribute \<Rightarrow> ByteBuffer \<Rightarrow> bool \<times> StunAttribute \<times> ByteBuffer" where
  "TransportPrefs_Read a b =
     (case ReadUInt32 b of (None, b) \<Rightarrow> (False, a, b) | (Some val, b) \<Rightarrow>
        (let p = (drop_bit 2 val AND 1 \<noteq> 0); t = u8 (val AND 3)
         in if \<not> p then (attr_length a = 4, a\<lparr>body := TransportPrefs False t None\<rparr>, b)
            else if attr_length a \<noteq> 12 then (False, a\<lparr>body := TransportPrefs True t None\<rparr>, b)
            else (case Address_Read no_address b of (_, x, b) \<Rightarrow> (True, a\<lparr>body := TransportPrefs True t (Some x)\<rparr>, b))))"

definition UInt32_Read :: "StunAttribute \<Rightarrow> ByteBuffer \<Rightarrow> bool \<times> StunAttribute \<times> ByteBuffer" where
  "UInt32_Read a b = (case ReadUInt32 b of (None, b) \<Rightarrow> (False, a, b) | (Some x, b) \<Rightarrow> (True, a\<lparr>body := UInt32 x\<rparr>, b))"

definition ByteString_Read :: "StunAttribute \<Rightarrow> ByteBuffer \<Rightarrow> bool \<times> StunAttribute \<times> ByteBuffer" where
  "ByteString_Read a b =
     (case ReadBytes (nat (attr_length a)) b of (None, b) \<Rightarrow> (False, a, b) | (Some l, b) \<Rightarrow> (True, a\<lparr>body := ByteString l\<rparr>, b))"

definition ErrorCode_Read :: "int list \<Rightarrow> StunAttribute \<Rightarrow> ByteBuffer \<Rightarrow> bool \<times> StunAttribute \<times> ByteBuffer" where
  "ErrorCode_Read r a b =
     (case ReadUInt32 b of (None, b) \<Rightarrow> (False, a, b) | (Some val, b) \<Rightarrow>
        (case SetErrorCode val of (c, n) \<Rightarrow>
           (case ReadString r (nat (attr_length a - 4)) b of
              (None, b) \<Rightarrow> (False, a\<lparr>body := ErrorCode c n r\<rparr>, b)
            | (Some r, b) \<Rightarrow> (True, a\<lparr>body := ErrorCode c n r\<rparr>, b))))"

definition UInt16List_Read :: "int list \<Rightarrow> StunAttribute \<Rightarrow> ByteBuffer \<Rightarrow> bool \<times> StunAttribute \<times> ByteBuffer" where
  "UInt16List_Read l a b =
     (case types_Read (nat (attr_length a div 2)) l b of (ok, l, b) \<Rightarrow> (ok, a\<lparr>body := UInt16List l\<rparr>, b))"

text \<open>The virtual function.\<close>

fun attr_Read :: "StunAttribute \<Rightarrow> ByteBuffer \<Rightarrow> bool \<times> StunAttribute \<times> ByteBuffer" where
  "attr_Read a b =
     (case body a of
        Address x \<Rightarrow> (case Address_Read x b of (ok, x, b) \<Rightarrow> (ok, a\<lparr>body := Address x\<rparr>, b))
      | UInt32 _ \<Rightarrow> UInt32_Read a b
      | ByteString _ \<Rightarrow> ByteString_Read a b
      | ErrorCode _ _ r \<Rightarrow> ErrorCode_Read r a b
      | UInt16List l \<Rightarrow> UInt16List_Read l a b
      | TransportPrefs _ _ _ \<Rightarrow> TransportPrefs_Read a b)"

lemmas body_Read_defs = UInt32_Read_def ByteString_Read_def ErrorCode_Read_def UInt16List_Read_def

text \<open>No operation makes the contents longer.\<close>

lemma ReadBytes_Length: "ReadBytes n b = (v, b') \<Longrightarrow> Length b' \<le> Length b \<and> (v \<noteq> None \<longrightarrow> Length b' + n = Length b)"
  by (auto simp: ReadBytes_def Length_def split: if_splits)

lemma Read_Length:
  "ReadUInt8 b = (v, b') \<Longrightarrow> Length b' \<le> Length b"
  "ReadUInt16 b = (v, b') \<Longrightarrow> Length b' \<le> Length b \<and> (v \<noteq> None \<longrightarrow> Length b' + 2 = Length b)"
  "ReadUInt32 b = (v, b') \<Longrightarrow> Length b' \<le> Length b"
  "ReadString s n b = (w, b') \<Longrightarrow> Length b' \<le> Length b"
  by (auto simp: ReadUInt8_def ReadUInt16_def ReadUInt32_def ReadString_def Length_def dest!: ReadBytes_Length split: prod.splits option.splits if_splits)

lemma Address_Read_Length: "Address_Read a b = (ok, a', b') \<Longrightarrow> Length b' \<le> Length b"
  by (auto simp: Address_Read_def Let_def dest!: Read_Length split: prod.splits option.splits)

lemma types_Read_Length: "types_Read n l b = (ok, l', b') \<Longrightarrow> Length b' \<le> Length b"
proof (induction n l b rule: types_Read.induct)
  case (2 n l b)
  then show ?case by (cases "ReadUInt16 b") (fastforce dest: Read_Length split: option.splits)
qed simp

lemma attr_Read_Length: "attr_Read a b = (ok, a', b') \<Longrightarrow> Length b' \<le> Length b"
  by (auto simp: body_Read_defs TransportPrefs_Read_def Let_def SetErrorCode_def dest!: Read_Length ReadBytes_Length Address_Read_Length types_Read_Length
      split: StunBody.splits prod.splits option.splits if_splits)

declare attr_Read.simps [simp del]

text \<open>The loop over the attributes ends: every round reads at least the type and the length.\<close>

function read_attrs :: "nat \<Rightarrow> StunAttribute list \<Rightarrow> ByteBuffer \<Rightarrow> bool \<times> StunAttribute list \<times> ByteBuffer" where
  "read_attrs rest l b =
     (if \<not> Length b > rest then (True, l, b)
      else case ReadUInt16 b of (None, b) \<Rightarrow> (False, l, b) | (Some ty, b) \<Rightarrow>
        (case ReadUInt16 b of (None, b) \<Rightarrow> (False, l, b) | (Some len, b) \<Rightarrow>
          (case StunAttribute_Create ty len of None \<Rightarrow> (False, l, b) | Some a \<Rightarrow>
            (case attr_Read a b of (ok, a, b) \<Rightarrow> if \<not> ok then (False, l, b) else read_attrs rest (l @ [a]) b))))"
  by pat_completeness auto
termination
proof (relation "measure (\<lambda>(rest, l, b). Length b)")
  fix rest l b a1 b1 ty a2 b2 len a x ok y a' b'
  show "wf (measure (\<lambda>(rest :: nat, l :: StunAttribute list, b). Length b))" by simp
  assume e: "(a1, b1) = ReadUInt16 b" "a1 = Some ty" "(a2, b2) = ReadUInt16 b1" "a2 = Some len" "(ok, x) = attr_Read a b2" "(a', b') = x"
  have "Length b1 + 2 = Length b" "Length b2 \<le> Length b1"
    using Read_Length(2) [OF e(1) [symmetric]] Read_Length(2) [OF e(3) [symmetric]] e(2) by simp_all
  moreover have "Length b' \<le> Length b2" using e(5,6) by (intro attr_Read_Length [of a b2 ok a' b']) simp
  ultimately have "Length b' < Length b" by simp
  then show "((rest, l @ [a'], b'), (rest, l, b)) \<in> measure (\<lambda>(rest, l, b). Length b)" by simp
qed
declare read_attrs.simps [simp del]

definition StunMessage_Read :: "StunMessage \<Rightarrow> ByteBuffer \<Rightarrow> bool \<times> StunMessage \<times> ByteBuffer" where
  "StunMessage_Read m b =
     (case ReadUInt16 b of (None, b) \<Rightarrow> (False, m, b) | (Some t, b) \<Rightarrow>
       (let m = m\<lparr>msg_type := t\<rparr> in case ReadUInt16 b of (None, b) \<Rightarrow> (False, m, b) | (Some len, b) \<Rightarrow>
         (let m = m\<lparr>msg_length := len\<rparr> in case ReadString [] 16 b of (None, b) \<Rightarrow> (False, m, b) | (Some tid, b) \<Rightarrow>
           (let m = m\<lparr>transaction_id := tid\<rparr>
            in if nat len > Length b then (False, m, b)
               else (let rest = Length b - nat len
                     in case read_attrs rest [] b of (ok, l, b) \<Rightarrow> (ok \<and> Length b = rest, m\<lparr>attrs := l\<rparr>, b))))))"

subsection \<open>The bytes of a message\<close>

definition addr_bytes :: "StunAddress \<Rightarrow> int list" where
  "addr_bytes a = [0, family a] @ short_to_bytes (port a) @ long_to_bytes (ip a)"

definition body_bytes :: "StunBody \<Rightarrow> int list" where
  "body_bytes x =
     (case x of
        Address a \<Rightarrow> addr_bytes a
      | UInt32 v \<Rightarrow> long_to_bytes v
      | ByteString l \<Rightarrow> l
      | ErrorCode c n r \<Rightarrow> long_to_bytes (error_code c n) @ r
      | UInt16List l \<Rightarrow> concat (map short_to_bytes l)
      | TransportPrefs p t a \<Rightarrow> long_to_bytes ((if p then 4 else 0) OR t) @ (case a of None \<Rightarrow> [] | Some a \<Rightarrow> addr_bytes a))"

definition attr_bytes :: "StunAttribute \<Rightarrow> int list" where
  "attr_bytes a = short_to_bytes (attr_type a) @ short_to_bytes (attr_length a) @ body_bytes (body a)"

definition msg_bytes :: "StunMessage \<Rightarrow> int list" where
  "msg_bytes m = short_to_bytes (msg_type m) @ short_to_bytes (msg_length m) @ transaction_id m @ concat (map attr_bytes (attrs m))"

text \<open>Well-formed attributes and messages: the type says which body, the lengths are true, every number fits its width.\<close>

definition addr_ok :: "StunAddress \<Rightarrow> bool" where
  "addr_ok a \<longleftrightarrow> 0 \<le> family a \<and> family a < 256 \<and> 0 \<le> port a \<and> port a < 65536 \<and> 0 \<le> ip a \<and> ip a < 4294967296"

definition body_ok :: "int \<Rightarrow> StunBody \<Rightarrow> bool" where
  "body_ok ty x =
     (case x of
        Address a \<Rightarrow> ty \<in> set stun_address_types \<and> addr_ok a
      | UInt32 v \<Rightarrow> ty \<in> set stun_uint32_types \<and> 0 \<le> v \<and> v < 4294967296
      | ByteString l \<Rightarrow> ty \<in> set stun_padded_types \<and> length l mod 4 = 0 \<or> ty = STUN_ATTR_MESSAGE_INTEGRITY \<and> length l = 20
                       \<or> ty = STUN_ATTR_DATA
      | ErrorCode c n r \<Rightarrow> ty = STUN_ATTR_ERROR_CODE \<and> 0 \<le> c \<and> c < 8 \<and> 0 \<le> n \<and> n < 256
      | UInt16List l \<Rightarrow> ty = STUN_ATTR_UNKNOWN_ATTRIBUTES \<and> (\<forall>t\<in>set l. 0 \<le> t \<and> t < 65536)
      | TransportPrefs p t a \<Rightarrow> ty = STUN_ATTR_TRANSPORT_PREFERENCES \<and> 0 \<le> t \<and> t < 4
                               \<and> p = (a \<noteq> None) \<and> (case a of None \<Rightarrow> True | Some a \<Rightarrow> addr_ok a))"

definition attr_ok :: "StunAttribute \<Rightarrow> bool" where
  "attr_ok a \<longleftrightarrow> body_ok (attr_type a) (body a) \<and> attr_length a = int (length (body_bytes (body a))) \<and> attr_length a < 65536"

definition msg_ok :: "StunMessage \<Rightarrow> bool" where
  "msg_ok m \<longleftrightarrow> 0 \<le> msg_type m \<and> msg_type m < 65536 \<and> length (transaction_id m) = 16 \<and> (\<forall>a\<in>set (attrs m). attr_ok a)
     \<and> msg_length m = int (length (concat (map attr_bytes (attrs m)))) \<and> msg_length m < 65536"

subsection \<open>Writing gives the bytes\<close>

lemma put_ok [simp]:
  assumes "bb_valid b"
  shows "bb_valid (WriteBytes h d b)" "bb_content (WriteBytes h d b) = bb_content b @ d"
    "bb_valid (WriteUInt8 h v b)" "bb_content (WriteUInt8 h v b) = bb_content b @ [v]"
    "bb_valid (WriteUInt16 h v b)" "bb_content (WriteUInt16 h v b) = bb_content b @ short_to_bytes v"
    "bb_valid (WriteUInt32 h v b)" "bb_content (WriteUInt32 h v b) = bb_content b @ long_to_bytes v"
    "bb_valid (WriteString h d b)" "bb_content (WriteString h d b) = bb_content b @ d"
  using bb.put_law [OF assms] by (simp_all add: WriteUInt8_def WriteUInt16_def WriteUInt32_def WriteString_def)

lemma Address_Write_ok [simp]:
  "bb_valid b \<Longrightarrow> bb_valid (Address_Write h a b)"
  "bb_valid b \<Longrightarrow> bb_content (Address_Write h a b) = bb_content b @ addr_bytes a"
  by (simp_all add: Address_Write_def addr_bytes_def)

lemma types_Write_ok:
  assumes "bb_valid b"
  shows "bb_valid (fold (WriteUInt16 h) l b) \<and> bb_content (fold (WriteUInt16 h) l b) = bb_content b @ concat (map short_to_bytes l)"
proof -
  have "WriteUInt16 h = WriteBytes h \<circ> short_to_bytes" by (rule ext)+ (simp add: WriteUInt16_def)
  then show ?thesis using bb.puts_content [OF assms, where ds = "map short_to_bytes l"] by (simp add: fold_map)
qed

lemma attr_Write_ok:
  assumes "bb_valid b" "attr_ok a"
  shows "\<exists>b'. attr_Write h a b = Some b' \<and> bb_valid b' \<and> bb_content b' = bb_content b @ body_bytes (body a)"
proof (cases "body a")
  case (UInt16List l)
  then show ?thesis using types_Write_ok [OF assms(1)] by (simp add: body_bytes_def body_Write_defs)
next
  case (ByteString l)
  then show ?thesis using assms by (simp add: body_bytes_def body_Write_defs attr_ok_def defined_def)
qed (use assms in \<open>auto simp: body_bytes_def body_Write_defs attr_ok_def body_ok_def Let_def split: option.splits\<close>)

declare attr_Write.simps [simp del]

lemma attrs_Write_ok:
  assumes "bb_valid b" "\<forall>a\<in>set l. attr_ok a"
  shows "\<exists>b'. attrs_Write h l b = Some b' \<and> bb_valid b' \<and> bb_content b' = bb_content b @ concat (map attr_bytes l)"
  using assms
proof (induction l arbitrary: b)
  case (Cons a l)
  define b0 where "b0 = WriteUInt16 h (attr_length a) (WriteUInt16 h (attr_type a) b)"
  have b0: "bb_valid b0" "bb_content b0 = bb_content b @ short_to_bytes (attr_type a) @ short_to_bytes (attr_length a)"
    using Cons.prems(1) by (simp_all add: b0_def)
  obtain b1 where b1: "attr_Write h a b0 = Some b1" "bb_valid b1" "bb_content b1 = bb_content b0 @ body_bytes (body a)"
    using attr_Write_ok [OF b0(1), of a h] Cons.prems(2) by auto
  obtain b2 where "attrs_Write h l b1 = Some b2" "bb_valid b2" "bb_content b2 = bb_content b1 @ concat (map attr_bytes l)"
    using Cons.IH [OF b1(2)] Cons.prems(2) by auto
  then show ?case using b1 b0 by (intro exI [of _ b2]) (simp add: b0_def [symmetric] attr_bytes_def [of a])
qed simp

lemma StunMessage_Write_ok:
  assumes "bb_valid b" "msg_ok m"
  shows "\<exists>b'. StunMessage_Write h m b = Some b' \<and> bb_valid b' \<and> bb_content b' = bb_content b @ msg_bytes m"
  using attrs_Write_ok [where l = "attrs m" and h = h and b = "WriteString h (transaction_id m) (WriteUInt16 h (msg_length m) (WriteUInt16 h (msg_type m) b))"] assms
  by (simp add: StunMessage_Write_def msg_ok_def msg_bytes_def)

subsection \<open>Reading gives the message back\<close>

lemma Address_Read_front:
  assumes "bb_valid b" "addr_ok a" "bb_content b = addr_bytes a @ r"
  shows "\<exists>b'. Address_Read x b = (True, a, b') \<and> bb_valid b' \<and> bb_content b' = r"
proof -
  have c: "bb_content b = 0 # family a # short_to_bytes (port a) @ long_to_bytes (ip a) @ r" using assms(3) by (simp add: addr_bytes_def)
  obtain b1 where b1: "ReadUInt8 b = (Some 0, b1)" "bb_valid b1" "bb_content b1 = family a # short_to_bytes (port a) @ long_to_bytes (ip a) @ r"
    using read_front(1) [OF assms(1) c] by blast
  obtain b2 where b2: "ReadUInt8 b1 = (Some (family a), b2)" "bb_valid b2" "bb_content b2 = short_to_bytes (port a) @ long_to_bytes (ip a) @ r"
    using read_front(1) [OF b1(2,3)] by blast
  obtain b3 where b3: "ReadUInt16 b2 = (Some (port a), b3)" "bb_valid b3" "bb_content b3 = long_to_bytes (ip a) @ r"
    using read_front(2) [OF b2(2,3)] assms(2) by (auto simp: addr_ok_def)
  obtain b4 where b4: "ReadUInt32 b3 = (Some (ip a), b4)" "bb_valid b4" "bb_content b4 = r"
    using read_front(3) [OF b3(2,3)] assms(2) by (auto simp: addr_ok_def)
  show ?thesis by (intro exI [of _ b4]) (simp add: Address_Read_def b1 b2 b3 b4)
qed

lemma types_Read_front:
  assumes "bb_valid b" "\<forall>t\<in>set ts. 0 \<le> t \<and> t < 65536" "bb_content b = concat (map short_to_bytes ts) @ r"
  shows "\<exists>b'. types_Read (length ts) l b = (True, l @ ts, b') \<and> bb_valid b' \<and> bb_content b' = r"
  using assms
proof (induction ts arbitrary: l b)
  case (Cons t ts)
  obtain b1 where b1: "ReadUInt16 b = (Some t, b1)" "bb_valid b1" "bb_content b1 = concat (map short_to_bytes ts) @ r"
    using read_front(2) [OF Cons.prems(1), of t "concat (map short_to_bytes ts) @ r"] Cons.prems(2,3) by auto
  show ?case using Cons.IH [OF b1(2) _ b1(3), of "l @ [t]"] Cons.prems(2) b1(1) by simp
qed auto

definition body_init :: "StunBody \<Rightarrow> StunBody" where
  "body_init x =
     (case x of Address _ \<Rightarrow> Address no_address | UInt32 _ \<Rightarrow> UInt32 0 | ByteString _ \<Rightarrow> ByteString []
      | ErrorCode _ _ _ \<Rightarrow> ErrorCode 0 0 [] | UInt16List _ \<Rightarrow> UInt16List [] | TransportPrefs _ _ _ \<Rightarrow> TransportPrefs False 0 None)"

lemma length_addr_bytes [simp]: "length (addr_bytes a) = 8"
  by (simp add: addr_bytes_def)

lemma length_types_bytes [simp]: "length (concat (map short_to_bytes l)) = 2 * length l"
  by (induction l) simp_all

lemmas stun_type_defs = stun_address_types_def stun_uint32_types_def stun_padded_types_def

lemma stun_types_apart [simp]:
  "ty \<in> set stun_uint32_types \<Longrightarrow> ty \<notin> set stun_address_types"
  "ty \<in> set stun_padded_types \<Longrightarrow> ty \<notin> set stun_address_types \<and> ty \<notin> set stun_uint32_types"
  "8 \<notin> set stun_address_types \<and> 8 \<notin> set stun_uint32_types \<and> 8 \<notin> set stun_padded_types"
  "9 \<notin> set stun_address_types \<and> 9 \<notin> set stun_uint32_types \<and> 9 \<notin> set stun_padded_types"
  "10 \<notin> set stun_address_types \<and> 10 \<notin> set stun_uint32_types \<and> 10 \<notin> set stun_padded_types"
  "12 \<notin> set stun_address_types \<and> 12 \<notin> set stun_uint32_types \<and> 12 \<notin> set stun_padded_types"
  "19 \<notin> set stun_address_types \<and> 19 \<notin> set stun_uint32_types \<and> 19 \<notin> set stun_padded_types"
  by (auto simp: stun_type_defs)

lemma Create_ok:
  assumes "attr_ok a"
  shows "StunAttribute_Create (attr_type a) (attr_length a) = Some (a\<lparr>body := body_init (body a)\<rparr>)"
proof -
  obtain ty len x where a: "a = \<lparr>attr_type = ty, attr_length = len, body = x\<rparr>" by (cases a)
  have ok: "body_ok ty x" "len = int (length (body_bytes x))" using assms by (simp_all add: a attr_ok_def)
  have "StunAttribute_Create ty len = Some \<lparr>attr_type = ty, attr_length = len, body = body_init x\<rparr>"
  proof (cases x)
    case (ByteString l)
    then show ?thesis using ok by (auto simp: StunAttribute_Create_def body_ok_def body_bytes_def body_init_def zmod_int [symmetric])
  qed (use ok in \<open>auto simp: StunAttribute_Create_def body_ok_def body_bytes_def body_init_def split: option.splits\<close>)
  then show ?thesis by (simp add: a)
qed

lemma and_255: "(x::int) AND 255 = x mod 256"
  using take_bit_eq_mask [of 8 x] by (simp add: take_bit_eq_mod mask_eq_exp_minus_1)

lemma error_code_back:
  assumes "0 \<le> c" "c < 8" "0 \<le> n" "n < 256"
  shows "SetErrorCode (error_code c n) = (c, n)" "0 \<le> error_code c n" "error_code c n < 4294967296"
proof -
  have "error_code c n = concat_bit 8 n c" using assms by (simp add: error_code_def concat_bit_def take_bit_int_eq_self or.commute)
  then have e: "error_code c n = c * 256 + n" using assms by (simp add: concat_bit_eq take_bit_int_eq_self push_bit_eq_mult)
  show "SetErrorCode (error_code c n) = (c, n)" "0 \<le> error_code c n" "error_code c n < 4294967296"
    using assms by (simp_all add: e SetErrorCode_def drop_bit_eq_div and_7 and_255)
qed

lemma prefs_back:
  assumes "0 \<le> t" "t < 4"
  shows "0 \<le> (if p then 4 else 0) OR t" "(if p then 4 else 0) OR t < 4294967296"
    "drop_bit 2 ((if p then 4 else 0) OR t) AND 1 = (if p then 1 else 0)" "u8 (((if p then 4 else 0) OR t) AND 3) = t"
proof -
  have "t = 0 \<or> t = 1 \<or> t = 2 \<or> t = 3" using assms by arith
  then show "0 \<le> (if p then 4 else 0) OR t" "(if p then 4 else 0) OR t < 4294967296"
    "drop_bit 2 ((if p then 4 else 0) OR t) AND 1 = (if p then 1 else 0)" "u8 (((if p then 4 else 0) OR t) AND 3) = t"
    by (auto simp: u8_def)
qed

lemma TransportPrefs_Read_front:
  assumes "bb_valid b" "body_ok ty (TransportPrefs p t x)" "bb_content b = body_bytes (TransportPrefs p t x) @ r"
    "attr_length a = int (length (body_bytes (TransportPrefs p t x)))"
  shows "\<exists>b'. TransportPrefs_Read a b = (True, a\<lparr>body := TransportPrefs p t x\<rparr>, b') \<and> bb_valid b' \<and> bb_content b' = r"
proof -
  define rest where "rest = (case x of None \<Rightarrow> [] | Some x \<Rightarrow> addr_bytes x) @ r"
  have t: "0 \<le> t" "t < 4" using assms(2) by (simp_all add: body_ok_def)
  note pref = prefs_back [OF t, of p]
  obtain b1 where b1: "ReadUInt32 b = (Some ((if p then 4 else 0) OR t), b1)" "bb_valid b1" "bb_content b1 = rest"
    using read_front(3) [OF assms(1) _ pref(1,2), of rest] assms(3) by (auto simp: body_bytes_def rest_def)
  show ?thesis
  proof (cases x)
    case None
    then show ?thesis using assms(2,4) b1 pref(3,4) by (simp add: TransportPrefs_Read_def Let_def body_ok_def body_bytes_def rest_def)
  next
    case (Some y)
    have y: "addr_ok y" "bb_content b1 = addr_bytes y @ r" using assms(2) b1(3) Some by (simp_all add: body_ok_def rest_def)
    obtain b2 where "Address_Read no_address b1 = (True, y, b2)" "bb_valid b2" "bb_content b2 = r"
      using Address_Read_front [OF b1(2) y] by blast
    then show ?thesis using assms(2,4) b1 pref(3,4) Some by (simp add: TransportPrefs_Read_def Let_def body_ok_def body_bytes_def)
  qed
qed

lemma attr_Read_front:
  assumes "bb_valid b" "attr_ok a" "bb_content b = body_bytes (body a) @ r"
  shows "\<exists>b'. attr_Read (a\<lparr>body := body_init (body a)\<rparr>) b = (True, a, b') \<and> bb_valid b' \<and> bb_content b' = r"
proof -
  obtain ty len x where a: "a = \<lparr>attr_type = ty, attr_length = len, body = x\<rparr>" by (cases a)
  have ok: "body_ok ty x" "len = int (length (body_bytes x))" using assms(2) by (simp_all add: a attr_ok_def)
  have c: "bb_content b = body_bytes x @ r" using assms(3) by (simp add: a)
  have "\<exists>b'. attr_Read \<lparr>attr_type = ty, attr_length = len, body = body_init x\<rparr> b = (True, a, b') \<and> bb_valid b' \<and> bb_content b' = r"
  proof (cases x)
    case (Address y)
    then have "addr_ok y" "bb_content b = addr_bytes y @ r" using ok(1) c by (simp_all add: body_ok_def body_bytes_def)
    then obtain b' where "Address_Read no_address b = (True, y, b')" "bb_valid b'" "bb_content b' = r"
      using Address_Read_front [OF assms(1)] by blast
    then show ?thesis by (simp add: a Address attr_Read.simps body_Read_defs body_init_def)
  next
    case (UInt32 v)
    then obtain b' where "ReadUInt32 b = (Some v, b')" "bb_valid b'" "bb_content b' = r"
      using read_front(3) [OF assms(1)] ok(1) c by (auto simp: body_ok_def body_bytes_def)
    then show ?thesis by (simp add: a UInt32 attr_Read.simps body_Read_defs body_init_def)
  next
    case (ByteString l)
    then obtain b' where "ReadBytes (length l) b = (Some l, b')" "bb_valid b'" "bb_content b' = r"
      using read_front(5) [OF assms(1)] c by (auto simp: body_bytes_def)
    then show ?thesis using ok(2) by (simp add: a ByteString attr_Read.simps body_Read_defs body_init_def body_bytes_def)
  next
    case (ErrorCode k n s)
    have cn: "0 \<le> k" "k < 8" "0 \<le> n" "n < 256" using ok(1) by (simp_all add: ErrorCode body_ok_def)
    obtain b1 where b1: "ReadUInt32 b = (Some (error_code k n), b1)" "bb_valid b1" "bb_content b1 = s @ r"
      using read_front(3) [OF assms(1) _ error_code_back(2,3) [OF cn], of "s @ r"] c by (auto simp: ErrorCode body_bytes_def)
    obtain b2 where "ReadString [] (length s) b1 = (Some s, b2)" "bb_valid b2" "bb_content b2 = r"
      using read_front(4) [OF b1(2,3), of "[]"] by auto
    then show ?thesis using ok(2) b1 error_code_back(1) [OF cn] by (simp add: a ErrorCode attr_Read.simps body_Read_defs body_init_def body_bytes_def)
  next
    case (UInt16List l)
    then obtain b' where "types_Read (length l) [] b = (True, l, b')" "bb_valid b'" "bb_content b' = r"
      using types_Read_front [OF assms(1), of l r "[]"] ok(1) c by (auto simp: body_ok_def body_bytes_def)
    then show ?thesis using ok(2) by (simp add: a UInt16List attr_Read.simps body_Read_defs body_init_def body_bytes_def)
  next
    case (TransportPrefs p t y)
    then show ?thesis using TransportPrefs_Read_front [OF assms(1), of ty p t y r "\<lparr>attr_type = ty, attr_length = len, body = body_init x\<rparr>"] ok c
      by (simp add: a attr_Read.simps body_Read_defs body_init_def)
  qed
  then show ?thesis by (simp add: a)
qed

lemma read_attrs_front:
  assumes "bb_valid b" "\<forall>a\<in>set l. attr_ok a" "bb_content b = concat (map attr_bytes l) @ r"
  shows "\<exists>b'. read_attrs (length r) l0 b = (True, l0 @ l, b') \<and> bb_valid b' \<and> bb_content b' = r"
  using assms
proof (induction l arbitrary: l0 b)
  case Nil
  then have "Length b = length r" using bb_length [OF Nil.prems(1)] by simp
  then show ?case using Nil by (simp add: read_attrs.simps [of _ _ b])
next
  case (Cons a l)
  define r1 where "r1 = concat (map attr_bytes l) @ r"
  have a: "attr_ok a" "0 \<le> attr_type a" "attr_type a < 65536" "0 \<le> attr_length a" "attr_length a < 65536"
    using Cons.prems(2) by (auto simp: attr_ok_def body_ok_def stun_type_defs split: StunBody.splits)
  have c: "bb_content b = short_to_bytes (attr_type a) @ short_to_bytes (attr_length a) @ body_bytes (body a) @ r1"
    using Cons.prems(3) by (simp add: attr_bytes_def [of a] r1_def)
  obtain b1 where b1: "ReadUInt16 b = (Some (attr_type a), b1)" "bb_valid b1"
    "bb_content b1 = short_to_bytes (attr_length a) @ body_bytes (body a) @ r1"
    using read_front(2) [OF Cons.prems(1) c] a by blast
  obtain b2 where b2: "ReadUInt16 b1 = (Some (attr_length a), b2)" "bb_valid b2" "bb_content b2 = body_bytes (body a) @ r1"
    using read_front(2) [OF b1(2,3)] a by blast
  obtain b3 where b3: "attr_Read (a\<lparr>body := body_init (body a)\<rparr>) b2 = (True, a, b3)" "bb_valid b3" "bb_content b3 = r1"
    using attr_Read_front [OF b2(2) a(1) b2(3)] by blast
  have "Length b > length r" using bb_length [OF Cons.prems(1)] by (simp add: c r1_def)
  then have "read_attrs (length r) l0 b = read_attrs (length r) (l0 @ [a]) b3"
    using b1(1) b2(1) b3(1) Create_ok [OF a(1)] by (subst read_attrs.simps) simp
  then show ?case using Cons.IH [OF b3(2), of "l0 @ [a]"] Cons.prems(2) b3(3) by (simp add: r1_def)
qed

lemma StunMessage_Read_front:
  assumes "bb_valid b" "msg_ok m" "bb_content b = msg_bytes m @ r"
  shows "\<exists>b'. StunMessage_Read m0 b = (True, m, b') \<and> bb_valid b' \<and> bb_content b' = r"
proof -
  define r1 where "r1 = concat (map attr_bytes (attrs m)) @ r"
  have m: "0 \<le> msg_type m" "msg_type m < 65536" "0 \<le> msg_length m" "msg_length m < 65536" "length (transaction_id m) = 16"
    "\<forall>a\<in>set (attrs m). attr_ok a" "msg_length m = int (length (concat (map attr_bytes (attrs m))))"
    using assms(2) by (simp_all add: msg_ok_def)
  have c: "bb_content b = short_to_bytes (msg_type m) @ short_to_bytes (msg_length m) @ transaction_id m @ r1"
    using assms(3) by (simp add: msg_bytes_def r1_def)
  obtain b1 where b1: "ReadUInt16 b = (Some (msg_type m), b1)" "bb_valid b1"
    "bb_content b1 = short_to_bytes (msg_length m) @ transaction_id m @ r1"
    using read_front(2) [OF assms(1) c m(1,2)] by blast
  obtain b2 where b2: "ReadUInt16 b1 = (Some (msg_length m), b2)" "bb_valid b2" "bb_content b2 = transaction_id m @ r1"
    using read_front(2) [OF b1(2,3) m(3,4)] by blast
  obtain b3 where b3: "ReadString [] 16 b2 = (Some (transaction_id m), b3)" "bb_valid b3" "bb_content b3 = r1"
    using read_front(4) [OF b2(2,3), of "[]"] m(5) by auto
  have l: "Length b3 = nat (msg_length m) + length r" using bb_length [OF b3(2)] b3(3) m(7) by (simp add: r1_def)
  obtain b4 where b4: "read_attrs (length r) [] b3 = (True, attrs m, b4)" "bb_valid b4" "bb_content b4 = r"
    using read_attrs_front [OF b3(2) m(6), of r "[]"] b3(3) by (auto simp: r1_def)
  have "Length b4 = length r" using bb_length [OF b4(2)] b4(3) by simp
  then have "StunMessage_Read m0 b = (True, m, b4)"
    by (simp add: StunMessage_Read_def Let_def b1(1) b2(1) b3(1) b4(1) l)
  then show ?thesis using b4 by blast
qed

text \<open>
  C9: STUN round trip. Any well-formed message (the declared lengths are true, every number fits its
  width), of every attribute kind, is written to the byte buffer without undefined behaviour, behind what
  the buffer holds; and the bytes written, at the front of any valid buffer and followed by anything, are
  read back as exactly this message, leaving exactly what follows.
\<close>

theorem StunMessage_roundtrip:
  assumes "msg_ok m" "bb_valid b"
  shows "\<exists>b1 w. StunMessage_Write h m b = Some b1 \<and> bb_valid b1 \<and> bb_content b1 = bb_content b @ w
    \<and> (\<forall>b2 r m0. bb_valid b2 \<and> bb_content b2 = w @ r
         \<longrightarrow> (\<exists>b3. StunMessage_Read m0 b2 = (True, m, b3) \<and> bb_valid b3 \<and> bb_content b3 = r))"
proof -
  obtain b1 where "StunMessage_Write h m b = Some b1" "bb_valid b1" "bb_content b1 = bb_content b @ msg_bytes m"
    using StunMessage_Write_ok [OF assms(2,1)] by blast
  then show ?thesis using StunMessage_Read_front [OF _ assms(1)] by (intro exI [of _ b1] exI [of _ "msg_bytes m"]) simp
qed

text \<open>A binding response with a mapped address, an error code and a preallocated transport.\<close>

definition sample_message :: StunMessage where
  "sample_message =
     fold AddAttribute
       [\<lparr>attr_type = 1, attr_length = 8, body = Address \<lparr>family = 1, port = 3478, ip = 0xC0A80001\<rparr>\<rparr>,
        SetReason [66, 65, 68] (CreateErrorCode\<lparr>body := ErrorCode 4 20 []\<rparr>),
        AddType 7 CreateUnknownAttributes,
        SetPreallocateAddress (Some \<lparr>family = 1, port = 5, ip = 6\<rparr>) CreateTransportPrefs]
       (SetTransactionID (replicate 16 65) (StunMessage_new\<lparr>msg_type := 0x0101\<rparr>))"

theorem StunMessage_roundtrip_witness:
  "\<exists>b1 b3. StunMessage_Write (\<lambda>i. 7) sample_message (ByteBuffer_new (\<lambda>i. 9)) = Some b1
     \<and> StunMessage_Read StunMessage_new b1 = (True, sample_message, b3) \<and> Length b3 = 0"
proof -
  have ok: "msg_ok sample_message"
    by (simp add: sample_message_def msg_ok_def AddAttribute_def SetTransactionID_def StunMessage_new_def CreateErrorCode_def
      CreateUnknownAttributes_def CreateTransportPrefs_def attr_ok_def body_ok_def body_bytes_def attr_bytes_def addr_ok_def
      stun_type_defs u16_def)
  obtain b1 w where "StunMessage_Write (\<lambda>i. 7) sample_message (ByteBuffer_new (\<lambda>i. 9)) = Some b1" "bb_valid b1" "bb_content b1 = w"
    "\<And>b2 r m0. bb_valid b2 \<Longrightarrow> bb_content b2 = w @ r
       \<Longrightarrow> \<exists>b3. StunMessage_Read m0 b2 = (True, sample_message, b3) \<and> bb_valid b3 \<and> bb_content b3 = r"
    using StunMessage_roundtrip [OF ok new_valid(1), of "\<lambda>i. 7" "\<lambda>i. 9"] by auto
  then show ?thesis using bb_length by (metis append_Nil2 list.size(3))
qed

subsection \<open>What is read is well formed\<close>

text \<open>\<open>took n b b'\<close>: the first \<open>n\<close> bytes were read.\<close>

definition took :: "nat \<Rightarrow> ByteBuffer \<Rightarrow> ByteBuffer \<Rightarrow> bool" where
  "took n b b' \<longleftrightarrow> bb_valid b' \<and> (\<exists>d. length d = n \<and> bb_content b = d @ bb_content b')"

lemma took_trans: "took n b b1 \<Longrightarrow> took k b1 b2 \<Longrightarrow> took (n + k) b b2"
  by (fastforce simp: took_def)

lemma took_facts: "took n b b' \<Longrightarrow> bb_valid b \<Longrightarrow> bb_valid b' \<and> Length b = n + Length b'"
proof -
  assume a: "took n b b'" "bb_valid b"
  then have "length (bb_content b) = n + length (bb_content b')" by (auto simp: took_def simp del: bb_length)
  then show ?thesis using a by (simp add: took_def)
qed

lemma took_octets: "took n b b' \<Longrightarrow> octets (bb_content b) \<Longrightarrow> octets (bb_content b')"
  by (auto simp: took_def)

lemma ReadBytes_took: "bb_valid b \<Longrightarrow> ReadBytes n b = (Some d, b') \<Longrightarrow> length d = n \<and> took n b b'
    \<and> (octets (bb_content b) \<longrightarrow> octets d)"
  using bb.get_cases [of b n] by (auto simp: took_def)

lemma Read_took:
  assumes "bb_valid b"
  shows "ReadUInt8 b = (Some v, b') \<Longrightarrow> octets (bb_content b) \<Longrightarrow> took 1 b b' \<and> 0 \<le> v \<and> v < 256"
    "ReadUInt16 b = (Some v, b') \<Longrightarrow> octets (bb_content b) \<Longrightarrow> took 2 b b' \<and> 0 \<le> v \<and> v < 65536"
    "ReadUInt32 b = (Some v, b') \<Longrightarrow> octets (bb_content b) \<Longrightarrow> took 4 b b' \<and> 0 \<le> v \<and> v < 4294967296"
    "ReadString s n b = (Some t, b') \<Longrightarrow> took n b b' \<and> length t = length s + n"
proof -
  show "took 1 b b' \<and> 0 \<le> v \<and> v < 256" if e: "ReadUInt8 b = (Some v, b')" "octets (bb_content b)"
  proof -
    obtain d where r: "ReadBytes 1 b = (Some d, b')" "v = hd d"
      using e(1) by (auto simp: ReadUInt8_def split: prod.splits)
    have d: "length d = 1" "octets d" "took 1 b b'" using ReadBytes_took [OF assms r(1)] e(2) by simp_all
    show ?thesis unfolding r(2) using octets_nth [of d 0] d by (simp add: hd_conv_nth length_0_conv [symmetric] del: length_0_conv)
  qed
  show "took 2 b b' \<and> 0 \<le> v \<and> v < 65536" if e: "ReadUInt16 b = (Some v, b')" "octets (bb_content b)"
  proof -
    obtain d where r: "ReadBytes 2 b = (Some d, b')" "v = bytes_to_short d"
      using e(1) by (auto simp: ReadUInt16_def split: prod.splits option.splits)
    have d: "length d = 2" "octets d" "took 2 b b'" using ReadBytes_took [OF assms r(1)] e(2) by simp_all
    show ?thesis unfolding r(2) using bytes_to_short_range [of d] d by simp
  qed
  show "took 4 b b' \<and> 0 \<le> v \<and> v < 4294967296" if e: "ReadUInt32 b = (Some v, b')" "octets (bb_content b)"
  proof -
    obtain d where r: "ReadBytes 4 b = (Some d, b')" "v = bytes_to_long d"
      using e(1) by (auto simp: ReadUInt32_def split: prod.splits option.splits)
    have d: "length d = 4" "octets d" "took 4 b b'" using ReadBytes_took [OF assms r(1)] e(2) by simp_all
    show ?thesis unfolding r(2) using bytes_to_long_range [of d] d by simp
  qed
  have "ReadString s n b = (case ReadBytes n b of (v, b) \<Rightarrow> (map_option (\<lambda>d. s @ d) v, b))"
    by (simp add: ReadString_def ReadBytes_def)
  then show "ReadString s n b = (Some t, b') \<Longrightarrow> took n b b' \<and> length t = length s + n"
    using ReadBytes_took [OF assms, of n] by (auto split: prod.splits)
qed

lemma Address_Read_took:
  assumes "bb_valid b" "octets (bb_content b)" "Address_Read x b = (True, a, b')"
  shows "took 8 b b' \<and> addr_ok a"
proof -
  obtain z b1 f b2 p b3 i where e: "ReadUInt8 b = (Some z, b1)" "ReadUInt8 b1 = (Some f, b2)" "ReadUInt16 b2 = (Some p, b3)"
    "ReadUInt32 b3 = (Some i, b')" "a = x\<lparr>family := f, port := p, ip := i\<rparr>"
    using assms(3) by (auto simp: Address_Read_def Let_def split: prod.splits option.splits)
  note s1 = Read_took(1) [OF assms(1) e(1) assms(2)]
  note v1 = took_facts [OF conjunct1 [OF s1] assms(1)] took_octets [OF conjunct1 [OF s1] assms(2)]
  note s2 = Read_took(1) [OF conjunct1 [OF v1(1)] e(2) v1(2)]
  note v2 = took_facts [OF conjunct1 [OF s2] conjunct1 [OF v1(1)]] took_octets [OF conjunct1 [OF s2] v1(2)]
  note s3 = Read_took(2) [OF conjunct1 [OF v2(1)] e(3) v2(2)]
  note v3 = took_facts [OF conjunct1 [OF s3] conjunct1 [OF v2(1)]] took_octets [OF conjunct1 [OF s3] v2(2)]
  note s4 = Read_took(3) [OF conjunct1 [OF v3(1)] e(4) v3(2)]
  have "took (1 + (1 + (2 + 4))) b b'" using s1 s2 s3 s4 by (blast intro: took_trans)
  then show ?thesis using s2 s3 s4 by (simp add: e(5) addr_ok_def)
qed

lemma types_Read_took:
  assumes "bb_valid b" "octets (bb_content b)" "types_Read n l b = (True, l', b')"
  shows "took (2 * n) b b' \<and> length l' = length l + n \<and> set l' \<subseteq> set l \<union> {0..<65536}"
  using assms
proof (induction n l b rule: types_Read.induct)
  case (2 n l b)
  obtain t b1 where e: "ReadUInt16 b = (Some t, b1)" "types_Read n (l @ [t]) b1 = (True, l', b')"
    using "2.prems"(3) by (auto split: prod.splits option.splits)
  note s = Read_took(2) [OF "2.prems"(1) e(1) "2.prems"(2)]
  have v: "bb_valid b1" "octets (bb_content b1)" using s took_facts took_octets "2.prems" by blast+
  have "took (2 * n) b1 b' \<and> length l' = length (l @ [t]) + n \<and> set l' \<subseteq> set (l @ [t]) \<union> {0..<65536}"
    using "2.IH" [OF e(1) [symmetric] refl v e(2)] .
  then show ?case using s took_trans [of 2 b b1 "2 * n" b'] by auto
qed (auto simp: took_def)

lemma Create_cases:
  assumes "StunAttribute_Create ty len = Some a" "0 \<le> len"
  shows "attr_type a = ty \<and> attr_length a = len \<and>
    (case body a of
       Address x \<Rightarrow> ty \<in> set stun_address_types \<and> len = 8
     | UInt32 _ \<Rightarrow> ty \<in> set stun_uint32_types \<and> len = 4
     | ByteString _ \<Rightarrow> ty \<in> set stun_padded_types \<and> nat len mod 4 = 0 \<or> ty = STUN_ATTR_MESSAGE_INTEGRITY \<and> len = 20 \<or> ty = STUN_ATTR_DATA
     | ErrorCode _ _ r \<Rightarrow> ty = STUN_ATTR_ERROR_CODE \<and> 4 \<le> len \<and> r = []
     | UInt16List l \<Rightarrow> ty = STUN_ATTR_UNKNOWN_ATTRIBUTES \<and> len mod 2 = 0 \<and> l = []
     | TransportPrefs _ _ _ \<Rightarrow> ty = STUN_ATTR_TRANSPORT_PREFERENCES)"
proof -
  have "nat len mod 4 = 0" if "len mod 4 = 0" using that assms(2) by presburger
  then show ?thesis using assms(1) unfolding StunAttribute_Create_def by (auto split: if_split_asm)
qed

lemma attr_Read_took:
  assumes "bb_valid b" "octets (bb_content b)" "StunAttribute_Create ty len = Some a0" "0 \<le> len" "len < 65536"
    and "attr_Read a0 b = (True, a, b')" "ty \<noteq> STUN_ATTR_TRANSPORT_PREFERENCES"
  shows "took (nat len) b b' \<and> attr_ok a \<and> attr_length a = len \<and> attr_type a = ty"
proof -
  note c = Create_cases [OF assms(3,4)]
  show ?thesis
  proof (cases "body a0")
    case (Address x)
    obtain y where y: "Address_Read x b = (True, y, b')" "a = a0\<lparr>body := Address y\<rparr>"
      using assms(6) by (auto simp: attr_Read.simps body_Read_defs Address split: prod.splits)
    show ?thesis using Address_Read_took [OF assms(1,2) y(1)] c by (simp add: y(2) Address attr_ok_def body_ok_def body_bytes_def)
  next
    case (UInt32 x)
    obtain v where v: "ReadUInt32 b = (Some v, b')" "a = a0\<lparr>body := UInt32 v\<rparr>"
      using assms(6) by (auto simp: attr_Read.simps body_Read_defs UInt32 split: prod.splits option.splits)
    show ?thesis using Read_took(3) [OF assms(1) v(1) assms(2)] c by (simp add: v(2) UInt32 attr_ok_def body_ok_def body_bytes_def)
  next
    case (ByteString x)
    obtain l where l: "ReadBytes (nat len) b = (Some l, b')" "a = a0\<lparr>body := ByteString l\<rparr>"
      using assms(6) c by (auto simp: attr_Read.simps body_Read_defs ByteString split: prod.splits option.splits)
    show ?thesis using ReadBytes_took [OF assms(1) l(1)] c assms(4,5) by (auto simp: l(2) ByteString attr_ok_def body_ok_def body_bytes_def)
  next
    case (ErrorCode k n r)
    obtain v b1 r1 where v: "ReadUInt32 b = (Some v, b1)" "ReadString [] (nat (len - 4)) b1 = (Some r1, b')"
      "a = a0\<lparr>body := ErrorCode (fst (SetErrorCode v)) (snd (SetErrorCode v)) r1\<rparr>"
      using assms(6) c by (auto simp: attr_Read.simps body_Read_defs ErrorCode split: prod.splits option.splits)
    note s1 = Read_took(3) [OF assms(1) v(1) assms(2)]
    have s2: "took (nat (len - 4)) b1 b'" "length r1 = nat (len - 4)"
      using Read_took(4) [OF _ v(2)] took_facts [OF conjunct1 [OF s1] assms(1)] by simp_all
    have "4 \<le> len" using c ErrorCode by simp
    then have "4 + nat (len - 4) = nat len" by linarith
    then have "took (nat len) b b'" using took_trans [OF conjunct1 [OF s1] s2(1)] by (simp only:)
    then show ?thesis using s2(2) c assms(5) by (simp add: v(3) ErrorCode attr_ok_def body_ok_def body_bytes_def SetErrorCode_def and_7 and_255)
  next
    case (UInt16List l)
    obtain l1 where l1: "types_Read (nat (len div 2)) [] b = (True, l1, b')" "a = a0\<lparr>body := UInt16List l1\<rparr>"
      using assms(6) c by (auto simp: attr_Read.simps body_Read_defs UInt16List split: prod.splits)
    note s = types_Read_took [OF assms(1,2) l1(1)]
    have "len mod 2 = 0" using c UInt16List by simp
    then obtain q where "len = 2 * q" by (auto elim: evenE simp: mod_0_imp_dvd)
    then have len: "2 * nat (len div 2) = nat len" "2 * int (nat (len div 2)) = len" using assms(4) by (simp_all add: nat_mult_distrib)
    have n: "int (length l1) = int (nat (len div 2))" using s by simp
    have "2 * int (length l1) = len" unfolding n by (rule len(2))
    moreover have "\<forall>t\<in>set l1. 0 \<le> t \<and> t < 65536" using s by auto
    ultimately show ?thesis using s c assms(4,5) len(1) by (simp add: l1(2) UInt16List attr_ok_def body_ok_def body_bytes_def)
  next
    case (TransportPrefs p t x)
    then show ?thesis using c assms(7) by simp
  qed
qed

lemma attr_Read_type: "attr_Read a b = (ok, a', b') \<Longrightarrow> attr_type a' = attr_type a"
  by (auto simp: attr_Read.simps body_Read_defs TransportPrefs_Read_def Let_def split: StunBody.splits prod.splits option.splits if_splits)

text \<open>One round of the loop.\<close>

lemma read_attrs_step:
  assumes "read_attrs rest l0 b = (True, l, b')" "Length b > rest"
  shows "\<exists>ty b1 len b2 a0 a b3. ReadUInt16 b = (Some ty, b1) \<and> ReadUInt16 b1 = (Some len, b2)
    \<and> StunAttribute_Create ty len = Some a0 \<and> attr_Read a0 b2 = (True, a, b3) \<and> read_attrs rest (l0 @ [a]) b3 = (True, l, b')
    \<and> Length b3 < Length b"
proof -
  obtain ty b1 len b2 a0 a b3 where e: "ReadUInt16 b = (Some ty, b1)" "ReadUInt16 b1 = (Some len, b2)"
    "StunAttribute_Create ty len = Some a0" "attr_Read a0 b2 = (True, a, b3)" "read_attrs rest (l0 @ [a]) b3 = (True, l, b')"
    using assms by (subst (asm) read_attrs.simps) (auto split: prod.splits option.splits if_splits)
  have "Length b3 < Length b"
    using Read_Length(2) [OF e(1)] Read_Length(2) [OF e(2)] attr_Read_Length [OF e(4)] by simp
  then show ?thesis using e by blast
qed

lemma read_attrs_keeps: "read_attrs rest l0 b = (True, l, b') \<Longrightarrow> set l0 \<subseteq> set l"
proof (induction "Length b" arbitrary: l0 b rule: less_induct)
  case less
  show ?case
  proof (cases "Length b > rest")
    case False
    then show ?thesis using less.prems by (simp add: read_attrs.simps [of rest l0 b])
  next
    case True
    obtain a b3 where "read_attrs rest (l0 @ [a]) b3 = (True, l, b')" "Length b3 < Length b"
      using read_attrs_step [OF less.prems True] by blast
    then have "set (l0 @ [a]) \<subseteq> set l" by (intro less.hyps)
    then show ?thesis by simp
  qed
qed

lemma read_attrs_took:
  assumes "read_attrs rest l0 b = (True, l, b')" "bb_valid b" "octets (bb_content b)" "Length b' = rest"
    and "\<forall>a\<in>set l0. attr_ok a" "\<forall>a\<in>set l. attr_type a \<noteq> STUN_ATTR_TRANSPORT_PREFERENCES"
  shows "\<exists>k. l = l0 @ k \<and> (\<forall>a\<in>set k. attr_ok a) \<and> took (length (concat (map attr_bytes k))) b b'"
  using assms
proof (induction "Length b" arbitrary: l0 b rule: less_induct)
  case less
  show ?case
  proof (cases "Length b > rest")
    case False
    then have "l = l0" "b' = b" using less.prems(1) by (simp_all add: read_attrs.simps [of rest l0 b])
    then show ?thesis using less.prems(2) by (intro exI [of _ "[]"]) (simp add: took_def)
  next
    case True
    obtain ty b1 len b2 a0 a b3 where e: "ReadUInt16 b = (Some ty, b1)" "ReadUInt16 b1 = (Some len, b2)"
      "StunAttribute_Create ty len = Some a0" "attr_Read a0 b2 = (True, a, b3)" "read_attrs rest (l0 @ [a]) b3 = (True, l, b')"
      "Length b3 < Length b"
      using read_attrs_step [OF less.prems(1) True] by blast
    note s1 = Read_took(2) [OF less.prems(2) e(1) less.prems(3)]
    have v1: "bb_valid b1" "octets (bb_content b1)" using s1 took_facts took_octets less.prems by blast+
    note s2 = Read_took(2) [OF v1(1) e(2) v1(2)]
    have v2: "bb_valid b2" "octets (bb_content b2)" using s2 took_facts took_octets v1 by blast+
    have "a \<in> set l" using read_attrs_keeps [OF e(5)] by auto
    then have "ty \<noteq> STUN_ATTR_TRANSPORT_PREFERENCES"
      using less.prems(6) attr_Read_type [OF e(4)] Create_cases [OF e(3)] s2 by auto
    then have s3: "took (nat len) b2 b3" "attr_ok a" "attr_length a = len"
      using attr_Read_took [OF v2 e(3) _ _ e(4)] s2 by simp_all
    have v3: "bb_valid b3" "octets (bb_content b3)" using s3(1) took_facts took_octets v2 by blast+
    obtain k where k: "l = (l0 @ [a]) @ k" "\<forall>a\<in>set k. attr_ok a" "took (length (concat (map attr_bytes k))) b3 b'"
      using less.hyps [OF e(6,5) v3 less.prems(4)] less.prems(5,6) s3(2) by auto
    have n: "length (concat (map attr_bytes (a # k))) = 2 + (2 + (nat len + length (concat (map attr_bytes k))))"
      using s3(2,3) by (simp add: attr_bytes_def [of a] attr_ok_def)
    have "took (length (concat (map attr_bytes (a # k)))) b b'"
      unfolding n by (intro took_trans [OF conjunct1 [OF s1]] took_trans [OF conjunct1 [OF s2]] took_trans [OF s3(1)] k(3))
    then show ?thesis using k(1,2) s3(2) by (intro exI [of _ "a # k"]) simp
  qed
qed

text \<open>The sizes that \<open>stun.h\<close> lists with the types: as \<open>attr_ok\<close>, which follows \<open>StunAttribute::Create\<close>, but a magic cookie has four bytes.\<close>

definition documented_attr :: "StunAttribute \<Rightarrow> bool" where
  "documented_attr a \<longleftrightarrow> attr_ok a \<and> (attr_type a = STUN_ATTR_MAGIC_COOKIE \<longrightarrow> attr_length a = 4)"

lemma cookie_length: "attr_ok a \<Longrightarrow> attr_type a = STUN_ATTR_MAGIC_COOKIE \<Longrightarrow> attr_length a mod 4 = 0"
  by (auto simp: attr_ok_def body_ok_def body_bytes_def stun_type_defs zmod_int [symmetric] split: StunBody.splits)

text \<open>
  C10: Whatever bytes arrive: when \<open>StunMessage::Read\<close> accepts them and the message has no transport
  preferences, each attribute's type, declared length and contents agree, every number fits its width, the length of
  the message is the sum of its attributes, and exactly the header and the declared number of bytes have
  been taken from the buffer. Each attribute has the size that \<open>stun.h\<close> documents for its type, with one
  exception: a magic cookie, documented with 4 bytes, is accepted with any multiple of 4.
\<close>

theorem StunMessage_Read_wellformed:
  assumes "bb_valid b" "octets (bb_content b)" "StunMessage_Read m0 b = (True, m, b')" "GetTransportPrefs m = None"
  shows "msg_ok m \<and> bb_valid b' \<and> bb_content b' = drop (20 + nat (msg_length m)) (bb_content b)
    \<and> Length b = 20 + nat (msg_length m) + Length b'
    \<and> (\<forall>a\<in>set (attrs m). documented_attr a
         \<or> attr_type a = STUN_ATTR_MAGIC_COOKIE \<and> attr_length a \<noteq> 4 \<and> attr_length a mod 4 = 0)"
proof -
  obtain t b1 len b2 tid b3 l where e: "ReadUInt16 b = (Some t, b1)" "ReadUInt16 b1 = (Some len, b2)" "ReadString [] 16 b2 = (Some tid, b3)"
    "nat len \<le> Length b3" "read_attrs (Length b3 - nat len) [] b3 = (True, l, b')" "Length b' = Length b3 - nat len"
    "m = m0\<lparr>msg_type := t, msg_length := len, transaction_id := tid, attrs := l\<rparr>"
    using assms(3) by (auto simp: StunMessage_Read_def Let_def split: prod.splits option.splits if_splits)
  note s1 = Read_took(2) [OF assms(1) e(1) assms(2)]
  have v1: "bb_valid b1" "octets (bb_content b1)" using s1 took_facts took_octets assms(1,2) by blast+
  note s2 = Read_took(2) [OF v1(1) e(2) v1(2)]
  have v2: "bb_valid b2" "octets (bb_content b2)" using s2 took_facts took_octets v1 by blast+
  note s3 = Read_took(4) [OF v2(1) e(3)]
  have v3: "bb_valid b3" "octets (bb_content b3)" using s3 took_facts took_octets v2 by blast+
  have "\<forall>a\<in>set l. attr_type a \<noteq> STUN_ATTR_TRANSPORT_PREFERENCES"
    using assms(4) by (simp add: GetTransportPrefs_def GetAttribute_def find_None_iff e(7))
  then obtain k where k: "l = k" "\<forall>a\<in>set l. attr_ok a" "took (length (concat (map attr_bytes l))) b3 b'"
    using read_attrs_took [OF e(5) v3 e(6)] by auto
  have n: "length (concat (map attr_bytes l)) = nat len" using took_facts [OF k(3) v3(1)] e(4,6) by linarith
  have t: "took (2 + (2 + (16 + nat len))) b b'"
    using k(3) unfolding n by (intro took_trans [OF conjunct1 [OF s1]] took_trans [OF conjunct1 [OF s2]] took_trans [OF conjunct1 [OF s3]])
  then have "bb_content b' = drop (20 + nat len) (bb_content b)" by (auto simp: took_def)
  moreover have "\<forall>a\<in>set l. documented_attr a \<or> attr_type a = STUN_ATTR_MAGIC_COOKIE \<and> attr_length a \<noteq> 4 \<and> attr_length a mod 4 = 0"
    using k(2) cookie_length by (auto simp: documented_attr_def)
  ultimately show ?thesis using took_facts [OF t assms(1)] s1 s2 s3 k(2) n by (simp add: e(7) msg_ok_def)
qed

theorem StunMessage_Read_wellformed_witness:
  "\<exists>m b'. StunMessage_Read StunMessage_new
       (ByteBuffer_of ([1, 1, 0, 8] @ replicate 16 65 @ [0, 3, 0, 4, 0, 0, 0, 6] @ [99])) = (True, m, b') \<and> msg_ok m \<and> bb_content b' = [99]
     \<and> (\<forall>a\<in>set (attrs m). documented_attr a)"
proof -
  let ?b = "ByteBuffer_of ([1, 1, 0, 8] @ replicate 16 65 @ [0, 3, 0, 4, 0, 0, 0, 6] @ [99])"
  define m where "m = \<lparr>msg_type = 257, msg_length = 8, transaction_id = replicate 16 65, attrs = [\<lparr>attr_type = 3, attr_length = 4, body = UInt32 6\<rparr>]\<rparr>"
  have r: "StunMessage_Read StunMessage_new ?b = (True, m, ?b\<lparr>buf_start := 28\<rparr>)" unfolding m_def by code_simp
  have "octets (bb_content ?b)" by (simp add: octets_def numeral_nat)
  moreover have "GetTransportPrefs m = None" unfolding m_def by code_simp
  ultimately have w: "msg_ok m \<and> bb_content (?b\<lparr>buf_start := 28\<rparr>) = drop (20 + nat (msg_length m)) (bb_content ?b)
      \<and> (\<forall>a\<in>set (attrs m). documented_attr a \<or> attr_type a = STUN_ATTR_MAGIC_COOKIE \<and> attr_length a \<noteq> 4 \<and> attr_length a mod 4 = 0)"
    using StunMessage_Read_wellformed [OF new_valid(3) _ r] by simp
  then have "\<forall>a\<in>set (attrs m). documented_attr a" by (simp add: m_def)
  then show ?thesis using r w by (auto simp: m_def numeral_nat)
qed

text \<open>
  With transport preferences this fails: \<open>StunTransportPrefsAttribute::Read\<close> does not look at the
  result of reading the address to preallocate. A message that ends before the address is accepted,
  with an attribute that claims twelve bytes where four were read, and the address is taken for all zero.
\<close>

theorem truncated_preallocation_accepted:
  shows "\<exists>m b'. StunMessage_Read StunMessage_new (ByteBuffer_of ([0, 3, 0, 8] @ replicate 16 65 @ [0, 12, 0, 12, 0, 0, 0, 4])) = (True, m, b')
    \<and> attrs m = [\<lparr>attr_type = 12, attr_length = 12, body = TransportPrefs True 0 (Some no_address)\<rparr>]
    \<and> msg_length m = 8 \<and> Length b' = 0 \<and> \<not> msg_ok m"
proof -
  let ?b = "ByteBuffer_of ([0, 3, 0, 8] @ replicate 16 65 @ [0, 12, 0, 12, 0, 0, 0, 4])"
  define m where "m = \<lparr>msg_type = 3, msg_length = 8, transaction_id = replicate 16 65,
    attrs = [\<lparr>attr_type = 12, attr_length = 12, body = TransportPrefs True 0 (Some no_address)\<rparr>]\<rparr>"
  have r: "StunMessage_Read StunMessage_new ?b = (True, m, ?b\<lparr>buf_start := 28\<rparr>)" unfolding m_def by code_simp
  have "\<not> msg_ok m" by (simp add: m_def msg_ok_def attr_bytes_def body_bytes_def)
  then show ?thesis using r by (intro exI [of _ m] exI [of _ "?b\<lparr>buf_start := 28\<rparr>"]) (simp add: m_def Length_def ByteBuffer_of_def)
qed

end
