(* ===== verification/LJ_MessageQueue.thy ===== *)
theory LJ_MessageQueue
  imports LJ_Base "HOL-Library.Multiset"
begin

text \<open>
  The message queue of a thread (\<open>talk/base/messagequeue.cc\<close>, \<open>messagequeue.h\<close>): posted messages in the
  order of posting, delayed messages in a priority queue by the time at which they are due, and one
  message that was looked at. A handler is a number (0 is NULL), the data of a message is a handle (0 is NULL),
  and \<open>deleted\<close> records what \<open>delete\<close> was called on. The standard library's priority queue promises
  only that its top has the smallest time: which of several with that time is left to the
  argument \<open>pick\<close>. The operations hold the queue's lock; their interleaving is a sequence. What other
  threads do while \<open>Get\<close> waits, and the clock after it, come from a list. The base class's
  \<open>ReceiveSends\<close> does nothing. Log messages are left out.
\<close>

subsection \<open>Types\<close>

record Message =
  phandler :: nat
  message_id :: int
  pdata :: nat
  ts_sensitive :: int

record DelayedMessage =
  cmsDelay_ :: int
  msTrigger :: int
  dmsg :: Message

record MessageQueue =
  fStop :: bool
  fPeekKeep :: bool
  msgPeek :: Message
  active :: bool
  msgq :: "Message list"
  dmsgq :: "DelayedMessage list"
  deleted :: "nat list"

abbreviation (input) kForever :: int where "kForever \<equiv> -1"
abbreviation (input) MQID_ANY :: int where "MQID_ANY \<equiv> 4294967295"
abbreviation (input) MQID_DISPOSE :: int where "MQID_DISPOSE \<equiv> 4294967294"
abbreviation (input) kMaxMsgLatency :: int where "kMaxMsgLatency \<equiv> 150"

definition no_message :: Message where
  "no_message = \<lparr>phandler = 0, message_id = 0, pdata = 0, ts_sensitive = 0\<rparr>"

definition MessageQueue_new :: MessageQueue where
  "MessageQueue_new = \<lparr>fStop = False, fPeekKeep = False, msgPeek = no_message, active = False, msgq = [], dmsgq = [], deleted = []\<rparr>"

type_synonym pick = "DelayedMessage list \<Rightarrow> nat"

definition pq_top :: "pick \<Rightarrow> DelayedMessage list \<Rightarrow> DelayedMessage" where
  "pq_top pick dq = dq ! pick dq"

definition pq_pop :: "pick \<Rightarrow> DelayedMessage list \<Rightarrow> DelayedMessage list" where
  "pq_pop pick dq = take (pick dq) dq @ drop (Suc (pick dq)) dq"

subsection \<open>Operations\<close>

definition Stop :: "MessageQueue \<Rightarrow> MessageQueue" where
  "Stop q = q\<lparr>fStop := True\<rparr>"

definition Restart :: "MessageQueue \<Rightarrow> MessageQueue" where
  "Restart q = q\<lparr>fStop := False\<rparr>"

definition EnsureActive :: "MessageQueue \<Rightarrow> MessageQueue" where
  "EnsureActive q = (if \<not> active q then q\<lparr>active := True\<rparr> else q)"

definition Post :: "int \<Rightarrow> nat \<Rightarrow> int \<Rightarrow> nat \<Rightarrow> bool \<Rightarrow> MessageQueue \<Rightarrow> MessageQueue" where
  "Post now h mid data time_sensitive q =
     (if fStop q then q
      else (let q = EnsureActive q;
                msg = \<lparr>phandler = h, message_id = mid, pdata = data, ts_sensitive = (if time_sensitive then u32 (now + kMaxMsgLatency) else 0)\<rparr>
            in q\<lparr>msgq := msgq q @ [msg]\<rparr>))"

definition DelayedMessage_new :: "int \<Rightarrow> int \<Rightarrow> Message \<Rightarrow> DelayedMessage" where
  "DelayedMessage_new now cmsDelay msg = \<lparr>cmsDelay_ = cmsDelay, msTrigger = u32 (now + cmsDelay), dmsg = msg\<rparr>"

definition PostDelayed :: "int \<Rightarrow> int \<Rightarrow> nat \<Rightarrow> int \<Rightarrow> nat \<Rightarrow> MessageQueue \<Rightarrow> MessageQueue" where
  "PostDelayed now cmsDelay h mid data q =
     (if fStop q then q
      else (let q = EnsureActive q;
                msg = \<lparr>phandler = h, message_id = mid, pdata = data, ts_sensitive = 0\<rparr>
            in q\<lparr>dmsgq := dmsgq q @ [DelayedMessage_new now cmsDelay msg]\<rparr>))"

text \<open>\<open>Dispose\<close> posts the object to be deleted.\<close>

definition Dispose :: "int \<Rightarrow> nat \<Rightarrow> MessageQueue \<Rightarrow> MessageQueue" where
  "Dispose now doomed q = (if doomed \<noteq> 0 then Post now 0 MQID_DISPOSE doomed False q else q)"

definition GetDelay :: "pick \<Rightarrow> int \<Rightarrow> MessageQueue \<Rightarrow> int" where
  "GetDelay pick now q =
     (if msgq q \<noteq> [] then 0
      else if dmsgq q \<noteq> [] then (let delay = s32 (u32 (msTrigger (pq_top pick (dmsgq q)) - now)) in if delay < 0 then 0 else delay)
      else kForever)"

text \<open>Does \<open>Clear\<close> remove this message?\<close>

definition clears :: "nat \<Rightarrow> int \<Rightarrow> Message \<Rightarrow> bool" where
  "clears h mid m = ((if h \<noteq> 0 \<and> phandler m \<noteq> h then False else True) \<and> (mid = MQID_ANY \<or> message_id m = mid))"

text \<open>The loop over the posted messages takes each from the front and puts it back at the end unless it is removed.\<close>

fun clear_posted :: "nat \<Rightarrow> nat \<Rightarrow> int \<Rightarrow> Message list \<Rightarrow> nat list \<Rightarrow> Message list \<times> nat list" where
  "clear_posted 0 h mid ms del = (ms, del)"
| "clear_posted (Suc c) h mid [] del = ([], del)"
| "clear_posted (Suc c) h mid (m # ms) del =
     (if clears h mid m then clear_posted c h mid ms (del @ [pdata m]) else clear_posted c h mid (ms @ [m]) del)"

text \<open>The loop over the priority queue empties it; what stays is put in again. The first argument bounds the rounds by the size.\<close>

fun clear_delayed :: "pick \<Rightarrow> nat \<Rightarrow> nat \<Rightarrow> int \<Rightarrow> DelayedMessage list \<Rightarrow> DelayedMessage list \<Rightarrow> nat list \<Rightarrow> DelayedMessage list \<times> nat list" where
  "clear_delayed pick 0 h mid dq keep del = (keep, del)"
| "clear_delayed pick (Suc c) h mid dq keep del =
     (let d = pq_top pick dq
      in if clears h mid (dmsg d) then clear_delayed pick c h mid (pq_pop pick dq) keep (del @ [pdata (dmsg d)])
         else clear_delayed pick c h mid (pq_pop pick dq) (keep @ [d]) del)"

definition Clear :: "pick \<Rightarrow> nat \<Rightarrow> int \<Rightarrow> MessageQueue \<Rightarrow> MessageQueue" where
  "Clear pick h mid q =
     (let q = (if fPeekKeep q \<and> (h = 0 \<or> phandler (msgPeek q) = h) \<and> (mid = MQID_ANY \<or> message_id (msgPeek q) = mid)
               then q\<lparr>deleted := deleted q @ [pdata (msgPeek q)], fPeekKeep := False\<rparr> else q)
      in case clear_posted (length (msgq q)) h mid (msgq q) (deleted q) of (ms, del) \<Rightarrow>
           (case clear_delayed pick (length (dmsgq q)) h mid (dmsgq q) [] del of (dq, del) \<Rightarrow>
              q\<lparr>msgq := ms, dmsgq := dq, deleted := del\<rparr>))"

text \<open>The destructor: an active queue is taken from the manager's list and cleared of every message.\<close>

definition MessageQueue_delete :: "pick \<Rightarrow> MessageQueue \<Rightarrow> MessageQueue" where
  "MessageQueue_delete pick q = (if active q then Clear pick 0 MQID_ANY q else q)"

text \<open>The manager of all queues knows the active ones, here by number; it clears them of a handler that is destroyed.\<close>

definition Manager_Add :: "nat \<Rightarrow> nat list \<Rightarrow> nat list" where
  "Manager_Add i message_queues = message_queues @ [i]"

definition Manager_Remove :: "nat \<Rightarrow> nat list \<Rightarrow> nat list" where
  "Manager_Remove i message_queues = remove1 i message_queues"

definition Manager_Clear :: "pick \<Rightarrow> nat \<Rightarrow> nat list \<Rightarrow> (nat \<Rightarrow> MessageQueue) \<Rightarrow> nat \<Rightarrow> MessageQueue" where
  "Manager_Clear pick h message_queues queues = fold (\<lambda>i f. f(i := Clear pick h MQID_ANY (f i))) message_queues queues"

subsection \<open>Getting a message\<close>

text \<open>
  The loop that moves what is due to the posted messages, with the time until the next one. Every round
  takes one from the priority queue: its size bounds the rounds.
\<close>

fun release :: "pick \<Rightarrow> nat \<Rightarrow> int \<Rightarrow> Message list \<Rightarrow> DelayedMessage list \<Rightarrow> int \<times> Message list \<times> DelayedMessage list" where
  "release pick 0 cur ms dq = (kForever, ms, dq)"
| "release pick (Suc c) cur ms dq =
     (let d = pq_top pick dq
      in if cur < msTrigger d then (s32 (u32 (msTrigger d - cur)), ms, dq)
         else release pick c cur (ms @ [dmsg d]) (pq_pop pick dq))"

text \<open>The loop over the posted messages deletes what was disposed and stops at the first other.\<close>

fun take_posted :: "Message list \<Rightarrow> nat list \<Rightarrow> Message option \<times> Message list \<times> nat list" where
  "take_posted [] del = (None, [], del)"
| "take_posted (m # ms) del = (if message_id m = MQID_DISPOSE then take_posted ms (del @ [pdata m]) else (Some m, ms, del))"

definition check_queues :: "pick \<Rightarrow> int \<Rightarrow> MessageQueue \<Rightarrow> Message option \<times> int \<times> MessageQueue" where
  "check_queues pick cur q =
     (case release pick (length (dmsgq q)) cur (msgq q) (dmsgq q) of (next, ms, dq) \<Rightarrow>
        (case take_posted ms (deleted q) of (m, ms, del) \<Rightarrow> (m, next, q\<lparr>msgq := ms, dmsgq := dq, deleted := del\<rparr>)))"

text \<open>How long to wait: the shorter of the delay and of what is left of the time asked for.\<close>

definition wait_time :: "int \<Rightarrow> int \<Rightarrow> int \<Rightarrow> int" where
  "wait_time cmsWait cmsElapsed cmsDelayNext =
     (if cmsWait = kForever then cmsDelayNext
      else (let n = cmsWait - cmsElapsed; n = (if n < 0 then 0 else n)
            in if cmsDelayNext \<noteq> kForever \<and> cmsDelayNext < n then cmsDelayNext else n))"

text \<open>
  \<open>env\<close> lists, for every \<open>Wait\<close>, the clock after it and what has become of the queue meanwhile; it may depend
  on the time that \<open>Wait\<close> was asked for. When it is used up, \<open>Get\<close> still waits: \<open>None\<close>.
\<close>

type_synonym wait_env = "(int \<Rightarrow> int \<times> (MessageQueue \<Rightarrow> MessageQueue)) list"

fun Get_loop :: "pick \<Rightarrow> int \<Rightarrow> int \<Rightarrow> int \<Rightarrow> int \<Rightarrow> wait_env \<Rightarrow> MessageQueue \<Rightarrow> (Message option \<times> MessageQueue) option" where
  "Get_loop pick cmsWait msStart cur elapsed env q =
     (case check_queues pick cur q of
        (Some m, _, q) \<Rightarrow> Some (Some m, q)
      | (None, next, q) \<Rightarrow>
          if fStop q then Some (None, q)
          else (case env of [] \<Rightarrow> None
                | w # env \<Rightarrow>
                    (case w (wait_time cmsWait elapsed next) of (cur, others) \<Rightarrow>
                       (let q = others q; elapsed = s32 (u32 (cur - msStart))
                        in if cmsWait \<noteq> kForever \<and> elapsed \<ge> cmsWait then Some (None, q)
                           else Get_loop pick cmsWait msStart cur elapsed env q))))"

definition Get :: "pick \<Rightarrow> int \<Rightarrow> int \<Rightarrow> wait_env \<Rightarrow> MessageQueue \<Rightarrow> (Message option \<times> MessageQueue) option" where
  "Get pick cmsWait now env q =
     (if fPeekKeep q then Some (Some (msgPeek q), q\<lparr>fPeekKeep := False\<rparr>)
      else Get_loop pick cmsWait now now 0 env q)"

definition Peek :: "pick \<Rightarrow> int \<Rightarrow> int \<Rightarrow> wait_env \<Rightarrow> MessageQueue \<Rightarrow> (Message option \<times> MessageQueue) option" where
  "Peek pick cmsWait now env q =
     (if fPeekKeep q then Some (Some (msgPeek q), q)
      else (case Get pick cmsWait now env q of
              None \<Rightarrow> None
            | Some (None, q) \<Rightarrow> Some (None, q)
            | Some (Some m, q) \<Rightarrow> Some (Some m, q\<lparr>msgPeek := m, fPeekKeep := True\<rparr>)))"

subsection \<open>What the priority queue promises\<close>

text \<open>The interface of \<open>std::priority_queue\<close>: the top is in the queue and nothing in it is due earlier.\<close>

locale priority_queue =
  fixes pick :: "DelayedMessage list \<Rightarrow> nat"
  assumes pick_in: "dq \<noteq> [] \<Longrightarrow> pick dq < length dq"
    and pick_min: "d \<in> set dq \<Longrightarrow> msTrigger (dq ! pick dq) \<le> msTrigger d"
begin

lemma pop_mset: "dq \<noteq> [] \<Longrightarrow> mset dq = add_mset (pq_top pick dq) (mset (pq_pop pick dq))"
proof -
  assume "dq \<noteq> []"
  then have "dq = take (pick dq) dq @ pq_top pick dq # drop (Suc (pick dq)) dq"
    using id_take_nth_drop [OF pick_in] by (simp add: pq_top_def)
  then have "mset dq = mset (take (pick dq) dq @ pq_top pick dq # drop (Suc (pick dq)) dq)" by simp
  then show ?thesis by (simp add: pq_pop_def)
qed

lemma pop_length: "length dq = Suc c \<Longrightarrow> length (pq_pop pick dq) = c"
  using pick_in [of dq] by (cases dq) (simp_all add: pq_pop_def)

lemma top_least: "d \<in> set dq \<Longrightarrow> msTrigger (pq_top pick dq) \<le> msTrigger d"
  by (simp add: pq_top_def pick_min)

lemma top_in: "dq \<noteq> [] \<Longrightarrow> pq_top pick dq \<in> set dq"
  by (simp add: pq_top_def pick_in)

text \<open>The due messages are released in the order of their times; what is not due stays.\<close>

lemma release_spec:
  assumes "release pick (length dq) cur ms dq = (next, ms', dq')"
  shows "\<exists>ds. ms' = ms @ map dmsg ds \<and> sorted (map msTrigger ds)
    \<and> mset ds = filter_mset (\<lambda>d. msTrigger d \<le> cur) (mset dq) \<and> mset dq' = filter_mset (\<lambda>d. cur < msTrigger d) (mset dq)
    \<and> next = (if dq' = [] then kForever else s32 (u32 (Min (msTrigger ` set dq') - cur)))"
  using assms
proof (induction "length dq" arbitrary: ms dq)
  case 0
  then show ?case by (intro exI [of _ "[]"]) simp
next
  case (Suc c)
  define d where "d = pq_top pick dq"
  have ne: "dq \<noteq> []" using Suc.hyps(2) by auto
  have least: "\<forall>x\<in>set dq. msTrigger d \<le> msTrigger x" using top_least by (simp add: d_def)
  have r: "(if cur < msTrigger d then (s32 (u32 (msTrigger d - cur)), ms, dq)
            else release pick c cur (ms @ [dmsg d]) (pq_pop pick dq)) = (next, ms', dq')"
    using Suc.prems unfolding Suc.hyps(2) [symmetric] d_def by (simp only: release.simps Let_def)
  show ?case
  proof (cases "cur < msTrigger d")
    case True
    have "Min (msTrigger ` set dq) = msTrigger d"
      using least top_in [OF ne] by (intro Min_eqI) (auto simp: d_def)
    moreover have "filter_mset (\<lambda>x. msTrigger x \<le> cur) (mset dq) = {#}" "filter_mset (\<lambda>x. cur < msTrigger x) (mset dq) = mset dq"
      using True least by (auto simp: filter_mset_eq_conv)
    ultimately show ?thesis using r True ne by (intro exI [of _ "[]"]) auto
  next
    case False
    have c: "c = length (pq_pop pick dq)" using pop_length [OF Suc.hyps(2) [symmetric]] by simp
    obtain ds where ds: "ms' = (ms @ [dmsg d]) @ map dmsg ds" "sorted (map msTrigger ds)"
      "mset ds = filter_mset (\<lambda>x. msTrigger x \<le> cur) (mset (pq_pop pick dq))"
      "mset dq' = filter_mset (\<lambda>x. cur < msTrigger x) (mset (pq_pop pick dq))"
      "next = (if dq' = [] then kForever else s32 (u32 (Min (msTrigger ` set dq') - cur)))"
      using Suc.hyps(1) [OF c, of "ms @ [dmsg d]"] r False by (auto simp: c)
    have m: "mset dq = add_mset d (mset (pq_pop pick dq))" using pop_mset [OF ne] by (simp add: d_def)
    have "set ds \<subseteq> set dq"
    proof
      fix x assume "x \<in> set ds"
      then have "x \<in># mset ds" by simp
      then have "x \<in># mset dq" unfolding ds(3) m by simp
      then show "x \<in> set dq" by simp
    qed
    then have "sorted (map msTrigger (d # ds))" using ds(2) least by auto
    then show ?thesis using ds False m by (intro exI [of _ "d # ds"]) simp
  qed
qed

lemma clear_delayed_spec:
  assumes "clear_delayed pick (length dq) h mid dq keep del = (dq', del')"
  shows "mset dq' = mset keep + filter_mset (\<lambda>d. \<not> clears h mid (dmsg d)) (mset dq)
    \<and> mset del' = mset del + image_mset (\<lambda>d. pdata (dmsg d)) (filter_mset (\<lambda>d. clears h mid (dmsg d)) (mset dq))"
  using assms
proof (induction "length dq" arbitrary: dq keep del)
  case (Suc c)
  have ne: "dq \<noteq> []" using Suc.hyps(2) by auto
  have c: "c = length (pq_pop pick dq)" using pop_length [OF Suc.hyps(2) [symmetric]] by simp
  have r: "(if clears h mid (dmsg (pq_top pick dq))
            then clear_delayed pick (length (pq_pop pick dq)) h mid (pq_pop pick dq) keep (del @ [pdata (dmsg (pq_top pick dq))])
            else clear_delayed pick (length (pq_pop pick dq)) h mid (pq_pop pick dq) (keep @ [pq_top pick dq]) del) = (dq', del')"
    using Suc.prems unfolding Suc.hyps(2) [symmetric] c by (simp add: Let_def)
  show ?case
    using Suc.hyps(1) [OF c] r unfolding pop_mset [OF ne] by (auto split: if_splits)
qed simp

end

text \<open>The first of the earliest is such a choice.\<close>

fun first_min :: "DelayedMessage list \<Rightarrow> nat" where
  "first_min [] = 0"
| "first_min [d] = 0"
| "first_min (d # e # ds) = (let i = first_min (e # ds) in if msTrigger d \<le> msTrigger ((e # ds) ! i) then 0 else Suc i)"

interpretation pq: priority_queue first_min
proof
  show in_range: "first_min dq < length dq" if "dq \<noteq> []" for dq
    using that by (induction dq rule: first_min.induct) (simp_all add: Let_def)
  show "msTrigger (dq ! first_min dq) \<le> msTrigger d" if "d \<in> set dq" for d dq
    using that
  proof (induction dq arbitrary: d rule: first_min.induct)
    case (3 x y ds)
    then show ?case by (fastforce simp: Let_def)
  qed simp_all
qed

subsection \<open>What the loops do\<close>

lemma clear_posted_aux:
  "clear_posted (length xs) h mid (xs @ ys) del
     = (ys @ filter (\<lambda>m. \<not> clears h mid m) xs, del @ map pdata (filter (clears h mid) xs))"
proof (induction xs arbitrary: ys del)
  case (Cons x xs)
  show ?case using Cons.IH [of "ys @ [x]" del] Cons.IH [of ys "del @ [pdata x]"] by simp
qed simp

lemma clear_posted_spec:
  "clear_posted (length ms) h mid ms del = (filter (\<lambda>m. \<not> clears h mid m) ms, del @ map pdata (filter (clears h mid) ms))"
  using clear_posted_aux [of ms h mid "[]"] by simp

definition disposes :: "Message \<Rightarrow> bool" where
  "disposes m \<longleftrightarrow> message_id m = MQID_DISPOSE"

lemma take_posted_spec:
  "take_posted ms del =
     (case dropWhile disposes ms of [] \<Rightarrow> (None, [], del @ map pdata (takeWhile disposes ms))
      | m # r \<Rightarrow> (Some m, r, del @ map pdata (takeWhile disposes ms)))"
  by (induction ms arbitrary: del) (simp_all add: disposes_def [symmetric] split: list.split del: dropWhile_eq_Nil_conv)

text \<open>
  C23: The order of delivery. Let the priority queue keep its promise. What \<open>Get\<close> finds is the first message
  that is not a disposal of: the posted ones in the order of posting, then the delayed ones that are due,
  earliest first. What comes behind it stays in this order; the delayed ones that are not due stay,
  and the wait computed for them ends when the first becomes due. Disposed objects are deleted on the way.
\<close>

theorem Get_delivers_in_order:
  assumes "priority_queue pick" "check_queues pick cur q = (m, nx, q')"
  shows "\<exists>ds. sorted (map msTrigger ds) \<and> mset ds = filter_mset (\<lambda>d. msTrigger d \<le> cur) (mset (dmsgq q))
    \<and> mset (dmsgq q') = filter_mset (\<lambda>d. cur < msTrigger d) (mset (dmsgq q))
    \<and> (case dropWhile disposes (msgq q @ map dmsg ds) of [] \<Rightarrow> m = None \<and> msgq q' = [] | x # r \<Rightarrow> m = Some x \<and> msgq q' = r)
    \<and> deleted q' = deleted q @ map pdata (takeWhile disposes (msgq q @ map dmsg ds))
    \<and> nx = (if dmsgq q' = [] then kForever else s32 (u32 (Min (msTrigger ` set (dmsgq q')) - cur)))"
proof -
  obtain next1 ms dq where r: "release pick (length (dmsgq q)) cur (msgq q) (dmsgq q) = (next1, ms, dq)" by (metis prod_cases3)
  obtain ds where ds: "ms = msgq q @ map dmsg ds" "sorted (map msTrigger ds)"
    "mset ds = filter_mset (\<lambda>d. msTrigger d \<le> cur) (mset (dmsgq q))" "mset dq = filter_mset (\<lambda>d. cur < msTrigger d) (mset (dmsgq q))"
    "next1 = (if dq = [] then kForever else s32 (u32 (Min (msTrigger ` set dq) - cur)))"
    using priority_queue.release_spec [OF assms(1) r] by blast
  show ?thesis
    using assms(2) ds(2-5)
    by (intro exI [of _ ds], unfold ds(1) [symmetric], cases "dropWhile disposes ms") (auto simp: check_queues_def r take_posted_spec simp del: dropWhile_eq_Nil_conv)
qed

theorem Get_delivers_in_order_witness:
  "fst (check_queues first_min 350 (PostDelayed 0 500 7 3 0 (PostDelayed 0 200 7 2 0 (PostDelayed 0 300 7 1 0 (Dispose 0 9 MessageQueue_new)))))
     = Some \<lparr>phandler = 7, message_id = 2, pdata = 0, ts_sensitive = 0\<rparr>"
proof -
  define q where "q = PostDelayed 0 500 7 3 0 (PostDelayed 0 200 7 2 0 (PostDelayed 0 300 7 1 0 (Dispose 0 9 MessageQueue_new)))"
  define M where "M = (\<lambda>i. \<lparr>phandler = 7, message_id = i, pdata = 0, ts_sensitive = 0\<rparr>)"
  have q: "msgq q = [\<lparr>phandler = 0, message_id = MQID_DISPOSE, pdata = 9, ts_sensitive = 0\<rparr>]"
    "dmsgq q = [\<lparr>cmsDelay_ = 300, msTrigger = 300, dmsg = M 1\<rparr>, \<lparr>cmsDelay_ = 200, msTrigger = 200, dmsg = M 2\<rparr>, \<lparr>cmsDelay_ = 500, msTrigger = 500, dmsg = M 3\<rparr>]"
    by (simp_all add: q_def M_def PostDelayed_def Dispose_def Post_def MessageQueue_new_def EnsureActive_def DelayedMessage_new_def u32_def)
  obtain m nx q' where e: "check_queues first_min 350 q = (m, nx, q')" by (metis prod_cases3)
  obtain ds where ds: "sorted (map msTrigger ds)" "mset ds = filter_mset (\<lambda>d. msTrigger d \<le> 350) (mset (dmsgq q))"
    "case dropWhile disposes (msgq q @ map dmsg ds) of [] \<Rightarrow> m = None \<and> msgq q' = [] | x # r \<Rightarrow> m = Some x \<and> msgq q' = r"
    using Get_delivers_in_order [OF pq.priority_queue_axioms e] by blast
  have "mset ds = mset [\<lparr>cmsDelay_ = 300, msTrigger = 300, dmsg = M 1\<rparr>, \<lparr>cmsDelay_ = 200, msTrigger = 200, dmsg = M 2\<rparr>]"
    using ds(2) by (simp add: q)
  then have "ds = [\<lparr>cmsDelay_ = 200, msTrigger = 200, dmsg = M 2\<rparr>, \<lparr>cmsDelay_ = 300, msTrigger = 300, dmsg = M 1\<rparr>]"
    using ds(1) mset_eq_length by (fastforce simp: length_Suc_conv add_eq_conv_diff numeral_2_eq_2)
  then have "m = Some (M 2)" using ds(3) by (simp add: q disposes_def M_def)
  then show ?thesis using e by (simp add: q_def M_def)
qed

subsection \<open>Accounting for messages\<close>

definition pending :: "MessageQueue \<Rightarrow> Message multiset" where
  "pending q = mset (msgq q) + image_mset dmsg (mset (dmsgq q)) + (if fPeekKeep q then {#msgPeek q#} else {#})"

lemma image_filter_dmsg: "image_mset dmsg (filter_mset (\<lambda>d. P (dmsg d)) D) = filter_mset P (image_mset dmsg D)"
  by (induction D) simp_all

lemma Clear_pending:
  assumes "priority_queue pick"
  shows "pending (Clear pick h mid q) = filter_mset (\<lambda>m. \<not> clears h mid m) (pending q)
    \<and> mset (deleted (Clear pick h mid q)) = mset (deleted q) + image_mset pdata (filter_mset (clears h mid) (pending q))"
proof -
  define q0 where "q0 = (if fPeekKeep q \<and> (h = 0 \<or> phandler (msgPeek q) = h) \<and> (mid = MQID_ANY \<or> message_id (msgPeek q) = mid)
               then q\<lparr>deleted := deleted q @ [pdata (msgPeek q)], fPeekKeep := False\<rparr> else q)"
  obtain dq del where d: "clear_delayed pick (length (dmsgq q0)) h mid (dmsgq q0) [] (deleted q0 @ map pdata (filter (clears h mid) (msgq q0))) = (dq, del)"
    by (metis surj_pair)
  have c: "Clear pick h mid q = q0\<lparr>msgq := filter (\<lambda>m. \<not> clears h mid m) (msgq q0), dmsgq := dq, deleted := del\<rparr>"
    unfolding Clear_def q0_def [symmetric] Let_def clear_posted_spec by (simp add: d)
  have p: "q0 = (if fPeekKeep q \<and> clears h mid (msgPeek q) then q\<lparr>deleted := deleted q @ [pdata (msgPeek q)], fPeekKeep := False\<rparr> else q)"
    by (auto simp: q0_def clears_def)
  have q0: "msgq q0 = msgq q" "dmsgq q0 = dmsgq q" by (simp_all add: q0_def)
  show ?thesis
    using priority_queue.clear_delayed_spec [OF assms d]
    by (auto simp: c q0 pending_def image_filter_dmsg p image_mset.compositionality comp_def simp flip: image_filter_dmsg)
qed

text \<open>A run: what is done with the queue, one operation after the other, \<open>Get\<close> and \<open>Peek\<close> without waiting.\<close>

datatype queue_op =
  OPost int nat int nat bool | OPostDelayed int int nat int nat | OClear nat int | OGet int | OPeek int | OStop | ORestart

definition poll :: "int \<Rightarrow> wait_env" where
  "poll now = [\<lambda>_. (now, \<lambda>q. q)]"

text \<open>The message that is handed out, if any, and the queue.\<close>

fun run_op :: "pick \<Rightarrow> queue_op \<Rightarrow> MessageQueue \<Rightarrow> (Message option \<times> MessageQueue) option" where
  "run_op pick (OPost now h mid data ts) q = Some (None, Post now h mid data ts q)"
| "run_op pick (OPostDelayed now delay h mid data) q = Some (None, PostDelayed now delay h mid data q)"
| "run_op pick (OClear h mid) q = Some (None, Clear pick h mid q)"
| "run_op pick (OGet now) q = Get pick 0 now (poll now) q"
| "run_op pick (OPeek now) q = map_option (\<lambda>(_, q). (None, q)) (Peek pick 0 now (poll now) q)"
| "run_op pick OStop q = Some (None, Stop q)"
| "run_op pick ORestart q = Some (None, Restart q)"

fun run_queue :: "pick \<Rightarrow> queue_op list \<Rightarrow> MessageQueue \<Rightarrow> (Message list \<times> MessageQueue) option" where
  "run_queue pick [] q = Some ([], q)"
| "run_queue pick (op # ops) q = do {
     (m, q) \<leftarrow> run_op pick op q;
     (ms, q) \<leftarrow> run_queue pick ops q;
     Some ((case m of None \<Rightarrow> [] | Some m \<Rightarrow> [m]) @ ms, q)
   }"

text \<open>The messages a run posts: a queue that was stopped takes none.\<close>

fun posted :: "queue_op list \<Rightarrow> bool \<Rightarrow> Message list" where
  "posted [] stop = []"
| "posted (op # ops) stop =
     (case op of
        OPost now h mid data ts \<Rightarrow>
          (if stop then [] else [\<lparr>phandler = h, message_id = mid, pdata = data, ts_sensitive = (if ts then u32 (now + kMaxMsgLatency) else 0)\<rparr>])
          @ posted ops stop
      | OPostDelayed now delay h mid data \<Rightarrow>
          (if stop then [] else [\<lparr>phandler = h, message_id = mid, pdata = data, ts_sensitive = 0\<rparr>]) @ posted ops stop
      | OStop \<Rightarrow> posted ops True
      | ORestart \<Rightarrow> posted ops False
      | _ \<Rightarrow> posted ops stop)"

text \<open>May the message vanish in this run without being handed out?\<close>

definition removable :: "queue_op list \<Rightarrow> Message \<Rightarrow> bool" where
  "removable ops m \<longleftrightarrow> disposes m \<or> (\<exists>op\<in>set ops. case op of OClear h mid \<Rightarrow> clears h mid m | _ \<Rightarrow> False)"

lemma check_queues_pending:
  assumes "priority_queue pick" "check_queues pick cur q = (m, nx, q')"
  shows "fStop q' = fStop q \<and> fPeekKeep q' = fPeekKeep q \<and> msgPeek q' = msgPeek q \<and>
    (\<exists>gone. pending q' + mset (case m of None \<Rightarrow> [] | Some m \<Rightarrow> [m]) + gone = pending q
       \<and> mset (deleted q') = mset (deleted q) + image_mset pdata gone \<and> (\<forall>x\<in>#gone. disposes x))"
proof -
  obtain next1 ms dq where r: "release pick (length (dmsgq q)) cur (msgq q) (dmsgq q) = (next1, ms, dq)" by (metis prod_cases3)
  obtain ds where ds: "ms = msgq q @ map dmsg ds" "mset ds = filter_mset (\<lambda>d. msTrigger d \<le> cur) (mset (dmsgq q))"
    "mset dq = filter_mset (\<lambda>d. cur < msTrigger d) (mset (dmsgq q))"
    using priority_queue.release_spec [OF assms(1) r] by blast
  have "mset (dmsgq q) = mset ds + mset dq"
    unfolding ds(2,3) by (simp add: multiset_eq_iff)
  then have p: "mset ms + image_mset dmsg (mset dq) = mset (msgq q) + image_mset dmsg (mset (dmsgq q))" by (simp add: ds(1))
  have split: "mset ms = mset (takeWhile disposes ms) + mset (dropWhile disposes ms)" by (metis mset_append takeWhile_dropWhile_id)
  show ?thesis
    using assms(2) p split
    by (cases "dropWhile disposes ms"; intro conjI exI [of _ "mset (takeWhile disposes ms)"])
       (auto simp: check_queues_def r take_posted_spec pending_def ac_simps simp del: dropWhile_eq_Nil_conv dest: set_takeWhileD)
qed

text \<open>One operation: what was pending or is posted is pending, handed out or removed for a reason.\<close>

definition accounted :: "queue_op list \<Rightarrow> MessageQueue \<Rightarrow> Message list \<Rightarrow> MessageQueue \<Rightarrow> bool" where
  "accounted ops q ms q' \<longleftrightarrow>
     (\<exists>gone. pending q' + mset ms + gone = pending q + mset (posted ops (fStop q))
        \<and> mset (deleted q') = mset (deleted q) + image_mset pdata gone \<and> (\<forall>x\<in>#gone. removable ops x))"

lemma poll_ok:
  assumes "priority_queue pick" "\<not> fPeekKeep q"
  shows "\<exists>m nx q'. check_queues pick now q = (m, nx, q') \<and> Get pick 0 now (poll now) q = Some (m, q')"
proof -
  obtain m nx q' where "check_queues pick now q = (m, nx, q')" by (metis prod_cases3)
  then show ?thesis using assms(2) by (cases m) (auto simp: Get_def poll_def s32_id Let_def)
qed

lemma run_op_accounted:
  assumes "priority_queue pick"
  shows "\<exists>m q'. run_op pick op q = Some (m, q') \<and> accounted [op] q (case m of None \<Rightarrow> [] | Some m \<Rightarrow> [m]) q'
    \<and> fStop q' = (case op of OStop \<Rightarrow> True | ORestart \<Rightarrow> False | _ \<Rightarrow> fStop q)"
proof (cases op)
  case (OClear h mid)
  have "fStop (Clear pick h mid q) = fStop q" by (auto simp: Clear_def Let_def split: prod.splits)
  moreover have "filter_mset (\<lambda>m. \<not> clears h mid m) (pending q) + filter_mset (clears h mid) (pending q) = pending q"
    by (simp add: add.commute)
  ultimately show ?thesis using Clear_pending [OF assms, of h mid q]
    by (simp add: OClear accounted_def removable_def) (intro exI [of _ "filter_mset (clears h mid) (pending q)"], simp)
next
  case (OGet now)
  show ?thesis
  proof (cases "fPeekKeep q")
    case True
    then show ?thesis by (simp add: OGet Get_def accounted_def pending_def)
  next
    case False
    obtain m nx q' where e: "check_queues pick now q = (m, nx, q')" "Get pick 0 now (poll now) q = Some (m, q')"
      using poll_ok [OF assms False] by blast
    show ?thesis using check_queues_pending [OF assms e(1)] e(2) by (auto simp: OGet accounted_def removable_def)
  qed
next
  case (OPeek now)
  show ?thesis
  proof (cases "fPeekKeep q")
    case True
    then show ?thesis by (simp add: OPeek Peek_def accounted_def)
  next
    case False
    obtain m nx q' where e: "check_queues pick now q = (m, nx, q')" "Get pick 0 now (poll now) q = Some (m, q')"
      using poll_ok [OF assms False] by blast
    show ?thesis using check_queues_pending [OF assms e(1)] e(2) False
      by (cases m) (auto simp: OPeek Peek_def accounted_def removable_def pending_def)
  qed
qed (auto simp: accounted_def pending_def Post_def PostDelayed_def Stop_def Restart_def EnsureActive_def DelayedMessage_new_def Let_def)

lemma accounted_trans:
  assumes "accounted [op] q ms q1" "accounted ops q1 ms' q2" "fStop q1 = (case op of OStop \<Rightarrow> True | ORestart \<Rightarrow> False | _ \<Rightarrow> fStop q)"
  shows "accounted (op # ops) q (ms @ ms') q2"
proof -
  obtain g where g: "pending q1 + mset ms + g = pending q + mset (posted [op] (fStop q))" "mset (deleted q1) = mset (deleted q) + image_mset pdata g"
    "\<forall>x\<in>#g. removable [op] x" using assms(1) by (auto simp: accounted_def)
  obtain g' where g': "pending q2 + mset ms' + g' = pending q1 + mset (posted ops (fStop q1))" "mset (deleted q2) = mset (deleted q1) + image_mset pdata g'"
    "\<forall>x\<in>#g'. removable ops x" using assms(2) by (auto simp: accounted_def)
  have "posted (op # ops) (fStop q) = posted [op] (fStop q) @ posted ops (fStop q1)" unfolding assms(3) by (cases op) simp_all
  then have "pending q2 + mset (ms @ ms') + (g + g') = pending q + mset (posted (op # ops) (fStop q))"
    using arg_cong2 [OF g(1) g'(1), of "(+)"] by (simp add: ac_simps)
  moreover have "\<forall>x\<in>#g + g'. removable (op # ops) x" using g(3) g'(3) by (auto simp: removable_def)
  ultimately show ?thesis using g(2) g'(2) unfolding accounted_def by (intro exI [of _ "g + g'"]) simp
qed

lemma run_queue_accounted:
  assumes "priority_queue pick"
  shows "\<exists>ms q'. run_queue pick ops q = Some (ms, q') \<and> accounted ops q ms q'"
proof (induction ops arbitrary: q)
  case Nil
  show ?case by (auto simp: accounted_def)
next
  case (Cons op ops)
  obtain m q1 where 1: "run_op pick op q = Some (m, q1)" "accounted [op] q (case m of None \<Rightarrow> [] | Some m \<Rightarrow> [m]) q1"
    "fStop q1 = (case op of OStop \<Rightarrow> True | ORestart \<Rightarrow> False | _ \<Rightarrow> fStop q)" using run_op_accounted [OF assms] by blast
  obtain ms q2 where 2: "run_queue pick ops q1 = Some (ms, q2)" "accounted ops q1 ms q2" using Cons.IH by blast
  show ?case using 1(1) 2(1) accounted_trans [OF 1(2) 2(2) 1(3)] by simp
qed

text \<open>
  C16: No message is lost, and none is delivered twice. In any run of operations by any threads, each returns,
  and the messages that were pending or have been posted are exactly those that were handed out, those still
  pending, and those that were removed because a \<open>Clear\<close> of the run names their handler and number or
  because they are disposals; and the data of the removed ones, no other, is deleted, once.
\<close>

theorem messages_accounted_for:
  assumes "priority_queue pick"
  shows "\<exists>ms q' gone. run_queue pick ops q = Some (ms, q')
    \<and> pending q' + mset ms + gone = pending q + mset (posted ops (fStop q))
    \<and> mset (deleted q') = mset (deleted q) + image_mset pdata gone \<and> (\<forall>x\<in>#gone. removable ops x)"
  using run_queue_accounted [OF assms, of ops q] by (auto simp: accounted_def)

theorem messages_accounted_for_witness:
  "\<exists>ms q'. run_queue first_min [OPostDelayed 0 100 7 1 5, OPost 0 8 2 6 False, OGet 50, OClear 7 MQID_ANY, OGet 200] MessageQueue_new = Some (ms, q')
     \<and> pending q' + mset ms \<subseteq># {#\<lparr>phandler = 7, message_id = 1, pdata = 5, ts_sensitive = 0\<rparr>, \<lparr>phandler = 8, message_id = 2, pdata = 6, ts_sensitive = 0\<rparr>#}"
proof -
  let ?ops = "[OPostDelayed 0 100 7 1 5, OPost 0 8 2 6 False, OGet 50, OClear 7 MQID_ANY, OGet 200]"
  obtain ms q' gone where r: "run_queue first_min ?ops MessageQueue_new = Some (ms, q')"
    "pending q' + mset ms + gone = pending MessageQueue_new + mset (posted ?ops (fStop MessageQueue_new))"
    using messages_accounted_for [OF pq.priority_queue_axioms, of ?ops MessageQueue_new] by blast
  have "pending q' + mset ms \<subseteq># pending MessageQueue_new + mset (posted ?ops (fStop MessageQueue_new))"
    by (metis r(2) mset_subset_eq_add_left)
  then show ?thesis using r(1) by (auto simp: pending_def MessageQueue_new_def)
qed

text \<open>
  Where the clock wraps around, every 49.7 days, the times are compared as plain numbers. A message
  delayed by 100 milliseconds that is posted 50 before the wrap is delivered at once; one that is due
  10 before the wrap, when the queue is looked at only after it, is not delivered, and would not be for 49 days.
\<close>

theorem delays_break_at_wrap:
  assumes "priority_queue pick"
  shows "fst (check_queues pick 4294967246 (PostDelayed 4294967246 100 h 1 data MessageQueue_new)) \<noteq> None
    \<and> fst (check_queues pick 5 (PostDelayed 4294967186 100 h 1 data MessageQueue_new)) = None"
proof -
  have "pick [d] = 0" for d using priority_queue.pick_in [OF assms, of "[d]"] by simp
  then show ?thesis
    by (simp add: check_queues_def PostDelayed_def MessageQueue_new_def EnsureActive_def DelayedMessage_new_def u32_def pq_top_def pq_pop_def)
qed

theorem delays_break_at_wrap_witness:
  "fst (check_queues first_min 4294967246 (PostDelayed 4294967246 100 7 1 0 MessageQueue_new)) \<noteq> None"
  using delays_break_at_wrap [OF pq.priority_queue_axioms] by blast

end
