(* ===== verification/LJ_StunRequest.thy ===== *)
theory LJ_StunRequest
  imports LJ_Stun LJ_MessageQueue "HOL-Library.AList"
begin

text \<open>
  Requests and their manager (\<open>talk/p2p/base/stunrequest.cc\<close>, \<open>stunrequest.h\<close>). A request is sent when the
  manager's thread hands it its message, and then posts itself the next one, later and later; the tenth
  message is the timeout. A response that carries its transaction id ends it. Requests are objects in a store, their
  addresses are numbers; using an object that was deleted, or the message of a request that has none,
  is \<open>None\<close>. The callbacks \<open>SignalSendPacket\<close>, \<open>OnResponse\<close>, \<open>OnErrorResponse\<close> and \<open>OnTimeout\<close> are recorded
  as events; what a subclass does in them is not modelled, \<open>GetNextDelay\<close> is the one of the class, and
  \<open>Prepare\<close> is the argument \<open>prep\<close>. The manager's map is an association list: the order matters only
  to the order in which \<open>Clear\<close> and the destructor treat the requests.
\<close>

subsection \<open>Types\<close>

record StunRequest =
  req_manager :: bool
  req_id :: "int list"
  req_msg :: "StunMessage option"
  req_count :: int
  req_timeout :: bool
  req_tstamp :: int

datatype StunEvent = SendPacket nat "int list" int | OnResponse nat StunMessage | OnErrorResponse nat StunMessage | OnTimeout nat

record StunRequestManager =
  thread :: MessageQueue
  requests :: "(int list \<times> nat) list"
  objects :: "nat \<Rightarrow> StunRequest option"
  events :: "StunEvent list"

abbreviation (input) MSG_STUN_SEND :: int where "MSG_STUN_SEND \<equiv> 1"
abbreviation (input) MAX_SENDS :: int where "MAX_SENDS \<equiv> 9"
abbreviation (input) DELAY_UNIT :: int where "DELAY_UNIT \<equiv> 100"
abbreviation (input) DELAY_MAX_FACTOR :: int where "DELAY_MAX_FACTOR \<equiv> 16"

subsection \<open>Requests\<close>

text \<open>The two constructors: the id is random, or that of the message given.\<close>

definition StunRequest_new :: "int list \<Rightarrow> StunRequest" where
  "StunRequest_new rnd = \<lparr>req_manager = False, req_id = rnd, req_msg = None, req_count = 0, req_timeout = False, req_tstamp = 0\<rparr>"

text \<open>This one leaves \<open>tstamp_\<close> uninitialised.\<close>

definition StunRequest_of :: "int \<Rightarrow> StunMessage \<Rightarrow> StunRequest" where
  "StunRequest_of any m =
     \<lparr>req_manager = False, req_id = transaction_id m, req_msg = Some m, req_count = 0, req_timeout = False, req_tstamp = any\<rparr>"

definition request_type :: "StunRequest \<Rightarrow> int option" where
  "request_type r = map_option msg_type (req_msg r)"

definition Elapsed :: "int \<Rightarrow> StunRequest \<Rightarrow> int" where
  "Elapsed now r = u32 (now - req_tstamp r)"

definition GetNextDelay :: "StunRequest \<Rightarrow> int \<times> StunRequest" where
  "GetNextDelay r =
     (let delay = DELAY_UNIT * min (push_bit (nat (req_count r)) 1) DELAY_MAX_FACTOR;
          r = r\<lparr>req_count := req_count r + 1\<rparr>
      in (delay, if req_count r = MAX_SENDS then r\<lparr>req_timeout := True\<rparr> else r))"

definition emit :: "StunEvent \<Rightarrow> StunRequestManager \<Rightarrow> StunRequestManager" where
  "emit e s = s\<lparr>events := events s @ [e]\<rparr>"

definition set_object :: "nat \<Rightarrow> StunRequest \<Rightarrow> StunRequestManager \<Rightarrow> StunRequestManager" where
  "set_object p r s = s\<lparr>objects := (objects s)(p \<mapsto> r)\<rparr>"

subsection \<open>The manager\<close>

definition SendDelayed :: "int \<Rightarrow> nat \<Rightarrow> int \<Rightarrow> StunRequestManager \<Rightarrow> StunRequestManager option" where
  "SendDelayed now p delay s = do {
     r \<leftarrow> objects s p;
     let r = r\<lparr>req_manager := True\<rparr>;
     Some ((set_object p r s)\<lparr>requests := AList.update (req_id r) p (requests s), thread := PostDelayed now delay p MSG_STUN_SEND 0 (thread s)\<rparr>)
   }"

definition Send :: "int \<Rightarrow> nat \<Rightarrow> StunRequestManager \<Rightarrow> StunRequestManager option" where
  "Send now p s = SendDelayed now p 0 s"

definition Remove :: "pick \<Rightarrow> nat \<Rightarrow> StunRequestManager \<Rightarrow> StunRequestManager option" where
  "Remove pick p s = do {
     r \<leftarrow> objects s p;
     Some (if map_of (requests s) (req_id r) \<noteq> None
           then s\<lparr>requests := AList.delete (req_id r) (requests s), thread := LJ_MessageQueue.Clear pick p MQID_ANY (thread s)\<rparr>
           else s)
   }"

text \<open>
  The destructor, with that of \<open>MessageHandler\<close>, which has the manager of all queues clear the active
  ones of messages to this handler.
\<close>

definition delete_request :: "pick \<Rightarrow> nat \<Rightarrow> StunRequestManager \<Rightarrow> StunRequestManager option" where
  "delete_request pick p s = do {
     r \<leftarrow> objects s p;
     s \<leftarrow> (if req_manager r
           then map_option (\<lambda>s. s\<lparr>thread := LJ_MessageQueue.Clear pick p MQID_ANY (thread s)\<rparr>) (Remove pick p s)
           else Some s);
     let s = (if active (thread s) then s\<lparr>thread := LJ_MessageQueue.Clear pick p MQID_ANY (thread s)\<rparr> else s);
     Some (s\<lparr>objects := (objects s)(p := None)\<rparr>)
   }"

fun remove_all :: "pick \<Rightarrow> nat list \<Rightarrow> StunRequestManager \<Rightarrow> StunRequestManager option" where
  "remove_all pick [] s = Some s"
| "remove_all pick (p # ps) s = do { s \<leftarrow> Remove pick p s; remove_all pick ps s }"

definition StunRequestManager_Clear :: "pick \<Rightarrow> StunRequestManager \<Rightarrow> StunRequestManager option" where
  "StunRequestManager_Clear pick s = remove_all pick (map snd (requests s)) s"

text \<open>The destructor of the manager erases and deletes the first request until there is none.\<close>

function StunRequestManager_delete :: "pick \<Rightarrow> StunRequestManager \<Rightarrow> StunRequestManager option" where
  "StunRequestManager_delete pick s =
     (case requests s of [] \<Rightarrow> Some s
      | (i, p) # l \<Rightarrow>
          (case delete_request pick p (s\<lparr>requests := l\<rparr>) of None \<Rightarrow> None | Some s' \<Rightarrow> StunRequestManager_delete pick s'))"
  by pat_completeness auto
termination
proof (relation "measure (\<lambda>(pick, s). length (requests s))")
  fix pick and s :: StunRequestManager and x i p l s'
  assume a: "requests s = x # l" "delete_request pick p (s\<lparr>requests := l\<rparr>) = Some s'"
  have "length (AList.delete k l) \<le> length l" for k :: "int list" by (simp add: AList.delete_eq)
  then have "length (requests s') \<le> length l" using a(2)
    by (auto simp: delete_request_def Remove_def Let_def bind_eq_Some_conv split: if_splits)
  then show "((pick, s'), (pick, s)) \<in> measure (\<lambda>(pick, s). length (requests s))" using a(1) by simp
qed simp

text \<open>The message of a request is built when it is first dispatched.\<close>

definition built_msg :: "(nat \<Rightarrow> StunMessage \<Rightarrow> StunMessage) \<Rightarrow> nat \<Rightarrow> StunRequest \<Rightarrow> StunMessage" where
  "built_msg prep p r = (case req_msg r of None \<Rightarrow> prep p (SetTransactionID (req_id r) StunMessage_new) | Some m \<Rightarrow> m)"

definition OnMessage :: "pick \<Rightarrow> (nat \<Rightarrow> StunMessage \<Rightarrow> StunMessage) \<Rightarrow> (nat \<Rightarrow> int) \<Rightarrow> int \<Rightarrow> nat \<Rightarrow> StunRequestManager \<Rightarrow> StunRequestManager option" where
  "OnMessage pick prep h now p s = do {
     r \<leftarrow> objects s p;
     let m = built_msg prep p r;
     let r = r\<lparr>req_msg := Some m\<rparr>;
     let s = set_object p r s;
     if req_timeout r then delete_request pick p (emit (OnTimeout p) s)
     else do {
       let r = r\<lparr>req_tstamp := now\<rparr>;
       b \<leftarrow> StunMessage_Write h m (ByteBuffer_new h);
       let s = emit (SendPacket p (take (Length b) (Data b)) now) s;
       let (delay, r) = GetNextDelay r;
       defined (req_manager r);
       Some ((set_object p r s)\<lparr>thread := PostDelayed now delay p MSG_STUN_SEND 0 (thread s)\<rparr>)
     }
   }"

definition CheckResponse :: "pick \<Rightarrow> StunMessage \<Rightarrow> StunRequestManager \<Rightarrow> (bool \<times> StunRequestManager) option" where
  "CheckResponse pick msg s =
     (case map_of (requests s) (transaction_id msg) of
        None \<Rightarrow> Some (False, s)
      | Some p \<Rightarrow> do {
          r \<leftarrow> objects s p;
          ty \<leftarrow> request_type r;
          if msg_type msg = GetStunResponseType ty
          then map_option (Pair True) (delete_request pick p (emit (OnResponse p msg) s))
          else if msg_type msg = GetStunErrorResponseType ty
          then map_option (Pair True) (delete_request pick p (emit (OnErrorResponse p msg) s))
          else Some (False, s)
        })"

definition CheckResponse_data :: "pick \<Rightarrow> int list \<Rightarrow> StunRequestManager \<Rightarrow> (bool \<times> StunRequestManager) option" where
  "CheckResponse_data pick data s =
     (if length data < 20 then Some (False, s)
      else (let tid = take 16 (drop 4 data)
            in if map_of (requests s) tid = None then Some (False, s)
               else (case StunMessage_Read StunMessage_new (ByteBuffer_of data) of (ok, msg, _) \<Rightarrow>
                      if \<not> ok then Some (False, s) else CheckResponse pick msg s)))"

text \<open>The thread takes a message that is there, without waiting, and dispatches it.\<close>

definition Dispatch :: "pick \<Rightarrow> (nat \<Rightarrow> StunMessage \<Rightarrow> StunMessage) \<Rightarrow> (nat \<Rightarrow> int) \<Rightarrow> int \<Rightarrow> StunRequestManager \<Rightarrow> StunRequestManager option" where
  "Dispatch pick prep h now s = do {
     (m, q) \<leftarrow> LJ_MessageQueue.Get pick 0 now (poll now) (thread s);
     let s = s\<lparr>thread := q\<rparr>;
     case m of None \<Rightarrow> Some s | Some m \<Rightarrow> OnMessage pick prep h now (phandler m) s
   }"

subsection \<open>The invariant\<close>

definition send_msg :: "nat \<Rightarrow> Message" where
  "send_msg p = \<lparr>phandler = p, message_id = MSG_STUN_SEND, pdata = 0, ts_sensitive = 0\<rparr>"

definition sends :: "nat \<Rightarrow> StunEvent list \<Rightarrow> nat" where
  "sends p evs = length (filter (\<lambda>e. case e of SendPacket x _ _ \<Rightarrow> x = p | _ \<Rightarrow> False) evs)"

definition object_ok :: "StunEvent list \<Rightarrow> nat \<Rightarrow> StunRequest \<Rightarrow> bool" where
  "object_ok evs p r \<longleftrightarrow> p \<noteq> 0 \<and> 0 \<le> req_count r \<and> req_count r \<le> MAX_SENDS \<and> req_timeout r = (req_count r = MAX_SENDS)
     \<and> req_count r = int (sends p evs) \<and> length (req_id r) = 16
     \<and> (case req_msg r of None \<Rightarrow> True | Some m \<Rightarrow> msg_ok m \<and> transaction_id m = req_id r)"

definition store_ok :: "StunRequestManager \<Rightarrow> bool" where
  "store_ok s \<longleftrightarrow> distinct (map fst (requests s)) \<and> distinct (map snd (requests s))
     \<and> (\<forall>(i, p)\<in>set (requests s). \<exists>r. objects s p = Some r \<and> req_id r = i \<and> req_manager r)
     \<and> (\<forall>p r. objects s p = Some r \<longrightarrow> object_ok (events s) p r)
     \<and> (\<forall>p r p' r'. objects s p = Some r \<and> objects s p' = Some r' \<and> req_manager r \<and> req_manager r' \<and> req_id r = req_id r' \<longrightarrow> p = p')
     \<and> (\<forall>p. sends p (events s) \<le> 9)"

text \<open>The thread holds one message for each registered request, except those of \<open>X\<close>.\<close>

definition thread_ok :: "Message multiset \<Rightarrow> StunRequestManager \<Rightarrow> bool" where
  "thread_ok X s \<longleftrightarrow> \<not> fStop (thread s) \<and> \<not> fPeekKeep (thread s)
     \<and> pending (thread s) + X = mset (map (\<lambda>x. send_msg (snd x)) (requests s))"

definition stun_inv :: "StunRequestManager \<Rightarrow> bool" where
  "stun_inv s \<longleftrightarrow> store_ok s \<and> thread_ok {#} s"

lemma send_msg_simps [simp]: "phandler (send_msg p) = p" "message_id (send_msg p) = 1" "send_msg p = send_msg p' \<longleftrightarrow> p = p'"
  by (auto simp: send_msg_def)

lemma sends_simps [simp]:
  "sends p [] = 0" "sends p (evs @ [SendPacket x w t]) = sends p evs + (if x = p then 1 else 0)"
  "sends p (evs @ [OnTimeout x]) = sends p evs" "sends p (evs @ [OnResponse x m]) = sends p evs" "sends p (evs @ [OnErrorResponse x m]) = sends p evs"
  by (simp_all add: sends_def)

lemma emit_fields [simp]:
  "thread (emit e s) = thread s" "requests (emit e s) = requests s" "objects (emit e s) = objects s" "events (emit e s) = events s @ [e]"
  by (simp_all add: emit_def)

lemma set_object_fields [simp]:
  "thread (set_object p r s) = thread s" "requests (set_object p r s) = requests s" "events (set_object p r s) = events s"
  "objects (set_object p r s) = (objects s)(p \<mapsto> r)"
  by (simp_all add: set_object_def)

lemma Clear_flags [simp]: "fStop (LJ_MessageQueue.Clear pick h mid q) = fStop q" "\<not> fPeekKeep q \<Longrightarrow> \<not> fPeekKeep (LJ_MessageQueue.Clear pick h mid q)"
  by (auto simp: Clear_def Let_def split: prod.splits)

lemma clears_handler [simp]: "h \<noteq> 0 \<Longrightarrow> clears h MQID_ANY m \<longleftrightarrow> phandler m = h"
  by (auto simp: clears_def)

lemma PostDelayed_send:
  assumes "\<not> fStop q" "\<not> fPeekKeep q"
  shows "\<not> fStop (PostDelayed now d p 1 0 q)" "\<not> fPeekKeep (PostDelayed now d p 1 0 q)"
    "pending (PostDelayed now d p 1 0 q) = add_mset (send_msg p) (pending q)"
  using assms by (simp_all add: PostDelayed_def EnsureActive_def pending_def send_msg_def DelayedMessage_new_def Let_def)

text \<open>A registered pair carries the address of the object with this id.\<close>

lemma registered_iff:
  assumes "store_ok s" "objects s p = Some r" "req_manager r" "x \<in> set (requests s)"
  shows "snd x = p \<longleftrightarrow> fst x = req_id r"
proof -
  obtain i p' where x: "x = (i, p')" by (cases x)
  obtain r' where "objects s p' = Some r'" "req_id r' = i" "req_manager r'" using assms(1,4) by (auto simp: store_ok_def x)
  then show ?thesis using assms(1-3) by (auto simp: x store_ok_def)
qed

lemma unmanaged_unregistered:
  assumes "store_ok s" "objects s p = Some r" "\<not> req_manager r" "x \<in> set (requests s)"
  shows "snd x \<noteq> p"
  using assms by (auto simp: store_ok_def)

lemma filter_pending:
  assumes "pending q + X = mset (map (\<lambda>x. send_msg (snd x)) l)" "\<forall>x\<in>#X. phandler x = p"
  shows "filter_mset (\<lambda>m. phandler m \<noteq> p) (pending q) = mset (map (\<lambda>x. send_msg (snd x)) (filter (\<lambda>x. snd x \<noteq> p) l))"
proof -
  have "filter_mset (\<lambda>m. phandler m \<noteq> p) (pending q + X) = filter_mset (\<lambda>m. phandler m \<noteq> p) (pending q)"
    using assms(2) by (simp add: filter_mset_eq_conv)
  moreover have "filter_mset (\<lambda>m. phandler m \<noteq> p) (mset (map (\<lambda>x. send_msg (snd x)) l)) = mset (map (\<lambda>x. send_msg (snd x)) (filter (\<lambda>x. snd x \<noteq> p) l))"
    by (induction l) simp_all
  ultimately show ?thesis using assms(1) by simp
qed

text \<open>What removing and deleting leave behind.\<close>

definition without :: "nat \<Rightarrow> StunRequestManager \<Rightarrow> (int list \<times> nat) list" where
  "without p s = filter (\<lambda>x. snd x \<noteq> p) (requests s)"

lemma Clear_without:
  assumes "priority_queue pick" "thread_ok X s" "\<forall>x\<in>#X. phandler x = p" "p \<noteq> 0"
  shows "thread_ok {#} (s\<lparr>requests := without p s, thread := LJ_MessageQueue.Clear pick p MQID_ANY (thread s)\<rparr>)"
  using assms filter_pending [of "thread s" X "requests s" p] Clear_pending [OF assms(1), of p MQID_ANY "thread s"]
  by (simp add: thread_ok_def without_def)

lemma Remove_spec:
  assumes "priority_queue pick" "store_ok s" "thread_ok X s" "\<forall>x\<in>#X. phandler x = p" "X \<noteq> {#} \<longrightarrow> p \<in> snd ` set (requests s)"
    and "objects s p = Some r" "req_manager r"
  shows "\<exists>q. Remove pick p s = Some (s\<lparr>requests := without p s, thread := q\<rparr>) \<and> thread_ok {#} (s\<lparr>requests := without p s, thread := q\<rparr>)"
proof -
  have p: "p \<noteq> 0" using assms(2,6) by (auto simp: store_ok_def object_ok_def)
  have w: "AList.delete (req_id r) (requests s) = without p s"
    unfolding AList.delete_eq without_def using registered_iff [OF assms(2,6,7)] by (intro filter_cong) (auto simp: case_prod_unfold)
  show ?thesis
  proof (cases "map_of (requests s) (req_id r) = None")
    case False
    then show ?thesis using Clear_without [OF assms(1,3,4) p] w assms(6)
      by (intro exI [of _ "LJ_MessageQueue.Clear pick p MQID_ANY (thread s)"]) (simp add: Remove_def)
  next
    case True
    then have "\<forall>x\<in>set (requests s). snd x \<noteq> p" using registered_iff [OF assms(2,6,7)] by (force simp: map_of_eq_None_iff)
    then have "without p s = requests s" "X = {#}" using assms(5) by (auto simp: without_def filter_id_conv)
    then show ?thesis using True assms(3,6) by (intro exI [of _ "thread s"]) (simp add: Remove_def)
  qed
qed

lemma without_filter [simp]: "filter (\<lambda>x. snd x \<noteq> p) (without p s) = without p s" "p \<notin> snd ` set (without p s)"
  by (auto simp: without_def)

lemma thread_ok_Clear_again:
  assumes "priority_queue pick" "thread_ok {#} s" "p \<notin> snd ` set (requests s)" "p \<noteq> 0"
  shows "thread_ok {#} (s\<lparr>thread := LJ_MessageQueue.Clear pick p MQID_ANY (thread s)\<rparr>)"
proof -
  have "without p s = requests s" using assms(3) by (auto simp: without_def filter_id_conv)
  then show ?thesis using Clear_without [OF assms(1,2) _ assms(4)] by (simp add: thread_ok_def)
qed

lemma delete_request_spec:
  assumes "priority_queue pick" "store_ok s" "thread_ok X s" "\<forall>x\<in>#X. phandler x = p" "X \<noteq> {#} \<longrightarrow> p \<in> snd ` set (requests s)"
    and "objects s p = Some r"
  shows "\<exists>q. delete_request pick p s = Some (s\<lparr>requests := without p s, thread := q, objects := (objects s)(p := None)\<rparr>)
    \<and> thread_ok {#} (s\<lparr>requests := without p s, thread := q\<rparr>)"
proof -
  have p: "p \<noteq> 0" using assms(2,6) by (auto simp: store_ok_def object_ok_def)
  have "\<exists>q. (if req_manager r then map_option (\<lambda>s. s\<lparr>thread := LJ_MessageQueue.Clear pick p MQID_ANY (thread s)\<rparr>) (Remove pick p s) else Some s)
      = Some (s\<lparr>requests := without p s, thread := q\<rparr>) \<and> thread_ok {#} (s\<lparr>requests := without p s, thread := q\<rparr>)"
  proof (cases "req_manager r")
    case True
    obtain q where q: "Remove pick p s = Some (s\<lparr>requests := without p s, thread := q\<rparr>)" "thread_ok {#} (s\<lparr>requests := without p s, thread := q\<rparr>)"
      using Remove_spec [OF assms True] by blast
    then show ?thesis using True thread_ok_Clear_again [OF assms(1) q(2) _ p]
      by (intro exI [of _ "LJ_MessageQueue.Clear pick p MQID_ANY q"]) simp
  next
    case False
    then have "\<forall>x\<in>set (requests s). snd x \<noteq> p" using unmanaged_unregistered [OF assms(2,6)] by blast
    then have "without p s = requests s" "X = {#}" using assms(5) by (auto simp: without_def filter_id_conv)
    then show ?thesis using False assms(3) by (intro exI [of _ "thread s"]) simp
  qed
  then obtain q where q: "(if req_manager r then map_option (\<lambda>s. s\<lparr>thread := LJ_MessageQueue.Clear pick p MQID_ANY (thread s)\<rparr>) (Remove pick p s) else Some s)
      = Some (s\<lparr>requests := without p s, thread := q\<rparr>)" "thread_ok {#} (s\<lparr>requests := without p s, thread := q\<rparr>)" by blast
  have "delete_request pick p s = Some (s\<lparr>requests := without p s, thread := (if active q then LJ_MessageQueue.Clear pick p MQID_ANY q else q),
      objects := (objects s)(p := None)\<rparr>)"
    unfolding delete_request_def assms(6) by (simp add: q(1))
  moreover have "thread_ok {#} (s\<lparr>requests := without p s, thread := (if active q then LJ_MessageQueue.Clear pick p MQID_ANY q else q)\<rparr>)"
    using q(2) thread_ok_Clear_again [OF assms(1) q(2) _ p] by simp
  ultimately show ?thesis by blast
qed

lemma store_ok_without:
  assumes "store_ok s"
  shows "store_ok (s\<lparr>requests := without p s, thread := q, objects := (objects s)(p := None)\<rparr>)"
    "store_ok (s\<lparr>requests := without p s, thread := q\<rparr>)"
proof -
  have d: "distinct (map fst (without p s))" "distinct (map snd (without p s))" "set (without p s) \<subseteq> set (requests s)" "p \<notin> snd ` set (without p s)"
    using assms by (auto simp: store_ok_def without_def distinct_map intro: distinct_filter inj_on_subset)
  show "store_ok (s\<lparr>requests := without p s, thread := q\<rparr>)" using assms d unfolding store_ok_def by simp blast
  show "store_ok (s\<lparr>requests := without p s, thread := q, objects := (objects s)(p := None)\<rparr>)"
    using assms d unfolding store_ok_def by (simp add: image_iff) (intro conjI ballI, fastforce+)
qed

lemma delete_request_inv:
  assumes "priority_queue pick" "store_ok s" "thread_ok X s" "\<forall>x\<in>#X. phandler x = p" "X \<noteq> {#} \<longrightarrow> p \<in> snd ` set (requests s)"
    and "objects s p = Some r"
  shows "\<exists>s'. delete_request pick p s = Some s' \<and> stun_inv s' \<and> events s' = events s \<and> objects s' = (objects s)(p := None) \<and> requests s' = without p s"
proof -
  obtain q where q: "delete_request pick p s = Some (s\<lparr>requests := without p s, thread := q, objects := (objects s)(p := None)\<rparr>)"
    "thread_ok {#} (s\<lparr>requests := without p s, thread := q\<rparr>)" using delete_request_spec [OF assms] by blast
  then show ?thesis using store_ok_without(1) [OF assms(2), of p q] by (simp add: stun_inv_def thread_ok_def)
qed

lemma store_ok_emit:
  assumes "store_ok s" "\<And>p. sends p (events s @ [e]) = sends p (events s)"
  shows "store_ok (emit e s)"
  using assms(1) unfolding store_ok_def object_ok_def emit_fields assms(2) .

lemma store_ok_thread [simp]: "store_ok (s\<lparr>thread := q\<rparr>) = store_ok s"
  by (cases s) (simp add: store_ok_def)

lemma thread_ok_emit [simp]: "thread_ok X (emit e s) = thread_ok X s" "thread_ok X (set_object p r s) = thread_ok X s"
  by (simp_all add: thread_ok_def)

lemma remove_all_inv:
  assumes "priority_queue pick"
  shows "stun_inv s \<Longrightarrow> \<forall>p\<in>set ps. \<exists>r. objects s p = Some r \<and> req_manager r
    \<Longrightarrow> \<exists>s'. remove_all pick ps s = Some s' \<and> stun_inv s' \<and> events s' = events s \<and> objects s' = objects s
        \<and> requests s' = filter (\<lambda>x. snd x \<notin> set ps) (requests s)"
proof (induction ps arbitrary: s)
  case (Cons p ps)
  obtain r where r: "objects s p = Some r" "req_manager r" using Cons.prems(2) by auto
  have inv: "store_ok s" "thread_ok {#} s" using Cons.prems(1) by (simp_all add: stun_inv_def)
  obtain q where q: "Remove pick p s = Some (s\<lparr>requests := without p s, thread := q\<rparr>)" "thread_ok {#} (s\<lparr>requests := without p s, thread := q\<rparr>)"
    using Remove_spec [OF assms inv _ _ r] by auto
  define s1 where "s1 = s\<lparr>requests := without p s, thread := q\<rparr>"
  have s1: "stun_inv s1" "objects s1 = objects s" "events s1 = events s" "requests s1 = without p s"
    using q(2) store_ok_without(2) [OF inv(1)] by (simp_all add: s1_def stun_inv_def)
  obtain s' where "remove_all pick ps s1 = Some s'" "stun_inv s'" "events s' = events s1" "objects s' = objects s1"
    "requests s' = filter (\<lambda>x. snd x \<notin> set ps) (requests s1)" using Cons.IH [OF s1(1)] Cons.prems(2) s1(2) by auto
  moreover have "Remove pick p s = Some s1" using q(1) by (simp add: s1_def)
  ultimately show ?case using s1 by (intro exI [of _ s']) (auto simp: without_def intro!: filter_cong)
qed simp

subsection \<open>Dispatching\<close>

text \<open>What a subclass may do in \<open>Prepare\<close>: build a well-formed message without changing its id.\<close>

definition prep_ok :: "(nat \<Rightarrow> StunMessage \<Rightarrow> StunMessage) \<Rightarrow> bool" where
  "prep_ok prep \<longleftrightarrow> (\<forall>p tid. length tid = 16 \<longrightarrow> msg_ok (prep p (SetTransactionID tid StunMessage_new))
     \<and> transaction_id (prep p (SetTransactionID tid StunMessage_new)) = tid)"

lemma built_msg_ok:
  assumes "prep_ok prep" "object_ok evs p r"
  shows "msg_ok (built_msg prep p r)" "transaction_id (built_msg prep p r) = req_id r"
  using assms by (auto simp: built_msg_def prep_ok_def object_ok_def split: option.splits)

lemma Data_content: "bb_valid b \<Longrightarrow> take (Length b) (Data b) = bb_content b"
  by (simp add: Data_def Length_def bb_content_def)

text \<open>The delays: 100, 200, 400, 800, and 1600 milliseconds from then on.\<close>

definition next_delay :: "int \<Rightarrow> int" where
  "next_delay c = 100 * min (2 ^ nat c) 16"

lemma GetNextDelay_spec:
  "GetNextDelay r = (next_delay (req_count r), r\<lparr>req_count := req_count r + 1, req_timeout := (req_count r + 1 = MAX_SENDS \<or> req_timeout r)\<rparr>)"
  by (simp add: GetNextDelay_def next_delay_def Let_def push_bit_eq_mult)

lemma OnMessage_send:
  assumes "objects s p = Some r" "object_ok (events s) p r" "req_manager r" "prep_ok prep" "\<not> req_timeout r"
  shows "OnMessage pick prep h now p s =
    Some ((emit (SendPacket p (msg_bytes (built_msg prep p r)) now)
       (set_object p (r\<lparr>req_msg := Some (built_msg prep p r), req_tstamp := now, req_count := req_count r + 1, req_timeout := (req_count r + 1 = MAX_SENDS)\<rparr>) s))
      \<lparr>thread := PostDelayed now (next_delay (req_count r)) p MSG_STUN_SEND 0 (thread s)\<rparr>)"
proof -
  obtain b where b: "StunMessage_Write h (built_msg prep p r) (ByteBuffer_new h) = Some b" "bb_valid b" "bb_content b = msg_bytes (built_msg prep p r)"
    using StunMessage_Write_ok [OF new_valid(1) built_msg_ok(1) [OF assms(4,2)], of h h] by auto
  show ?thesis using assms(3,5)
    by (simp add: OnMessage_def assms(1) b(1) Data_content [OF b(2)] b(3) GetNextDelay_spec Let_def emit_def set_object_def)
qed

lemma store_ok_send:
  assumes "store_ok s" "objects s p = Some r" "req_manager r" "prep_ok prep" "\<not> req_timeout r"
  shows "store_ok ((emit (SendPacket p w now)
       (set_object p (r\<lparr>req_msg := Some (built_msg prep p r), req_tstamp := now, req_count := req_count r + 1, req_timeout := (req_count r + 1 = MAX_SENDS)\<rparr>) s))
      \<lparr>thread := q\<rparr>)"
proof -
  have ok: "object_ok (events s) p r" using assms(1,2) by (simp add: store_ok_def)
  note b = built_msg_ok [OF assms(4) ok]
  have c: "req_count r < 9" "sends p (events s) < 9" using ok assms(5) by (auto simp: object_ok_def)
  have new: "object_ok (events s @ [SendPacket p w now]) p
     (r\<lparr>req_msg := Some (built_msg prep p r), req_tstamp := now, req_count := req_count r + 1, req_timeout := (req_count r + 1 = MAX_SENDS)\<rparr>)"
    using ok b c by (auto simp: object_ok_def)
  have old: "object_ok (events s @ [SendPacket p w now]) x y" if "object_ok (events s) x y" "x \<noteq> p" for x y
    using that by (simp add: object_ok_def)
  show ?thesis
    using assms(1-3) new old c unfolding store_ok_def by (auto split: if_splits; fastforce)
qed

lemma OnMessage_timeout:
  assumes "priority_queue pick" "prep_ok prep" "store_ok s" "thread_ok {#send_msg p#} s" "p \<in> snd ` set (requests s)"
    and "objects s p = Some r" "req_manager r" "req_timeout r"
  shows "\<exists>s'. OnMessage pick prep h now p s = Some s' \<and> stun_inv s' \<and> events s' = events s @ [OnTimeout p]
    \<and> objects s' = (objects s)(p := None) \<and> requests s' = without p s"
proof -
  define r1 where "r1 = r\<lparr>req_msg := Some (built_msg prep p r)\<rparr>"
  define s2 where "s2 = emit (OnTimeout p) (set_object p r1 s)"
  have ok: "object_ok (events s) p r" using assms(3,6) by (simp add: store_ok_def)
  then have "object_ok (events s) p r1" using built_msg_ok [OF assms(2) ok] by (simp add: object_ok_def r1_def)
  then have "store_ok (set_object p r1 s)" using assms(3,6,7) unfolding store_ok_def by (auto simp: r1_def split: if_splits; fastforce)
  then have s2: "store_ok s2" unfolding s2_def by (rule store_ok_emit) simp
  have "thread_ok {#send_msg p#} s2" "p \<in> snd ` set (requests s2)" "objects s2 p = Some r1" using assms(4,5) by (simp_all add: s2_def)
  then obtain s' where "delete_request pick p s2 = Some s'" "stun_inv s'" "events s' = events s2" "objects s' = (objects s2)(p := None)" "requests s' = without p s2"
    using delete_request_inv [OF assms(1) s2, of "{#send_msg p#}" p r1] by auto
  then show ?thesis using assms(6,8) by (simp add: OnMessage_def r1_def s2_def Let_def without_def)
qed

lemma Dispatch_inv:
  assumes "priority_queue pick" "stun_inv s" "prep_ok prep"
  shows "\<exists>s'. Dispatch pick prep h now s = Some s' \<and> stun_inv s'"
proof -
  have inv: "store_ok s" "\<not> fStop (thread s)" "\<not> fPeekKeep (thread s)" "pending (thread s) = mset (map (\<lambda>x. send_msg (snd x)) (requests s))"
    using assms(2) by (simp_all add: stun_inv_def thread_ok_def)
  obtain m nx q where g: "check_queues pick now (thread s) = (m, nx, q)" "LJ_MessageQueue.Get pick 0 now (poll now) (thread s) = Some (m, q)"
    using poll_ok [OF assms(1) inv(3)] by blast
  obtain gone where c: "fStop q = fStop (thread s)" "fPeekKeep q = fPeekKeep (thread s)"
    "pending q + mset (case m of None \<Rightarrow> [] | Some m \<Rightarrow> [m]) + gone = pending (thread s)" "\<forall>x\<in>#gone. disposes x"
    using check_queues_pending [OF assms(1) g(1)] by blast
  have "\<forall>x\<in>#gone. x \<in># pending (thread s)" using c(3) by (metis mset_subset_eqD mset_subset_eq_add_right)
  then have "False" if "x \<in># gone" for x using that c(4) unfolding inv(4) by (fastforce simp: disposes_def)
  then have "gone = {#}" by (meson multiset_nonemptyE)
  then have p: "pending q + mset (case m of None \<Rightarrow> [] | Some m \<Rightarrow> [m]) = pending (thread s)" using c(3) by simp
  define s1 where "s1 = s\<lparr>thread := q\<rparr>"
  have st: "store_ok s1" using inv(1) by (simp add: s1_def)
  show ?thesis
  proof (cases m)
    case None
    then have "stun_inv s1" using st p c(1,2) inv by (simp add: stun_inv_def thread_ok_def s1_def)
    then show ?thesis using g(2) None by (simp add: Dispatch_def s1_def)
  next
    case (Some msg)
    have "pending (thread s) = add_mset msg (pending q)" using p Some by simp
    then have "msg \<in># pending (thread s)" by simp
    then obtain i x where x: "(i, x) \<in> set (requests s)" "msg = send_msg x" unfolding inv(4) by auto
    obtain r where r: "objects s x = Some r" "req_manager r" using inv(1) x(1) by (auto simp: store_ok_def)
    have ok: "object_ok (events s1) x r" "objects s1 x = Some r" using inv(1) r by (simp_all add: store_ok_def s1_def)
    have t: "thread_ok {#send_msg x#} s1" using p c(1,2) inv Some x(2) by (simp add: thread_ok_def s1_def)
    have d: "Dispatch pick prep h now s = OnMessage pick prep h now x s1"
      using g(2) Some x(2) by (simp add: Dispatch_def s1_def)
    show ?thesis
    proof (cases "req_timeout r")
      case False
      have "thread_ok {#} ((emit e (set_object x r' s1))\<lparr>thread := PostDelayed now d' x MSG_STUN_SEND 0 (thread s1)\<rparr>)" for e r' d'
        using t PostDelayed_send [of "thread s1"] by (simp add: thread_ok_def)
      then show ?thesis
        unfolding d OnMessage_send [OF ok(2,1) r(2) assms(3) False] using store_ok_send [OF st ok(2) r(2) assms(3) False] by (simp add: stun_inv_def)
    next
      case True
      have "x \<in> snd ` set (requests s1)" using x(1) by (force simp: s1_def)
      then show ?thesis using OnMessage_timeout [OF assms(1,3) st t _ ok(2) r(2) True] d by auto
    qed
  qed
qed

subsection \<open>Responses\<close>

text \<open>The id that is looked up first is the one of the message that is read.\<close>

lemma ReadUInt16_took: "bb_valid b \<Longrightarrow> ReadUInt16 b = (Some v, b') \<Longrightarrow> took 2 b b'"
  using ReadBytes_took [of b 2] by (auto simp: ReadUInt16_def split: prod.splits option.splits)

lemma Read_transaction_id:
  assumes "StunMessage_Read m0 (ByteBuffer_of data) = (True, m, b')"
  shows "transaction_id m = take 16 (drop 4 data)"
proof -
  obtain t b1 len b2 tid b3 l where e: "ReadUInt16 (ByteBuffer_of data) = (Some t, b1)" "ReadUInt16 b1 = (Some len, b2)"
    "ReadString [] 16 b2 = (Some tid, b3)" "m = m0\<lparr>msg_type := t, msg_length := len, transaction_id := tid, attrs := l\<rparr>"
    using assms by (auto simp: StunMessage_Read_def Let_def split: prod.splits option.splits if_splits)
  have 1: "took 2 (ByteBuffer_of data) b1" using ReadUInt16_took [OF _ e(1)] by simp
  have 2: "took 2 b1 b2" using ReadUInt16_took [OF _ e(2)] took_facts [OF 1] by simp
  have "took 4 (ByteBuffer_of data) b2" using took_trans [OF 1 2] by simp
  then obtain d where d: "bb_valid b2" "length d = 4" "data = d @ bb_content b2" by (auto simp: took_def)
  have "ReadString [] 16 b2 = (case ReadBytes 16 b2 of (v, b) \<Rightarrow> (v, b))" by (simp add: ReadString_def ReadBytes_def)
  then have "ReadBytes 16 b2 = (Some tid, b3)" using e(3) by simp
  then have "tid = take 16 (bb_content b2)" using bb.get_cases [OF d(1), of 16] by auto
  then show ?thesis using d by (simp add: e(4))
qed

text \<open>Nobody can answer a request whose message has not been built: the id has not left the program.\<close>

definition answerable :: "int list \<Rightarrow> StunRequestManager \<Rightarrow> bool" where
  "answerable data s \<longleftrightarrow> (case map_of (requests s) (take 16 (drop 4 data)) of None \<Rightarrow> True
     | Some p \<Rightarrow> (case objects s p of None \<Rightarrow> True | Some r \<Rightarrow> req_msg r \<noteq> None))"

definition gone :: "nat \<Rightarrow> StunRequestManager \<Rightarrow> bool" where
  "gone p s \<longleftrightarrow> objects s p = None \<and> p \<notin> snd ` set (requests s) \<and> send_msg p \<notin># pending (thread s)"

lemma CheckResponse_data_spec:
  assumes "priority_queue pick" "stun_inv s" "answerable data s"
  shows "\<exists>ok s'. CheckResponse_data pick data s = Some (ok, s') \<and> stun_inv s' \<and> (\<not> ok \<longrightarrow> s' = s)
    \<and> (ok \<longrightarrow> (\<exists>p m. map_of (requests s) (take 16 (drop 4 data)) = Some p \<and> gone p s'
         \<and> (events s' = events s @ [OnResponse p m] \<or> events s' = events s @ [OnErrorResponse p m])))"
proof -
  have inv: "store_ok s" "thread_ok {#} s" using assms(2) by (simp_all add: stun_inv_def)
  define tid where "tid = take 16 (drop 4 data)"
  obtain ok m b where rd: "StunMessage_Read StunMessage_new (ByteBuffer_of data) = (ok, m, b)" by (metis prod_cases3)
  have refused: ?thesis if "CheckResponse_data pick data s = Some (False, s)"
    using that assms(2) by (intro exI [of _ False] exI [of _ s]) simp
  show ?thesis
  proof (cases "length data < 20 \<or> map_of (requests s) tid = None \<or> \<not> ok")
    case True
    then have "CheckResponse_data pick data s = Some (False, s)"
      using rd by (cases "length data < 20") (auto simp: CheckResponse_data_def tid_def)
    then show ?thesis by (rule refused)
  next
    case False
    then obtain p where p: "map_of (requests s) tid = Some p" by auto
    then have "(tid, p) \<in> set (requests s)" by (rule map_of_SomeD)
    then obtain r where r: "objects s p = Some r" using inv(1) by (auto simp: store_ok_def)
    have id: "transaction_id m = tid" using Read_transaction_id rd False by (simp add: tid_def)
    obtain q where q: "req_msg r = Some q" using assms(3) p r by (auto simp: answerable_def tid_def)
    have c: "CheckResponse_data pick data s =
        (if msg_type m = GetStunResponseType (msg_type q) then map_option (Pair True) (delete_request pick p (emit (OnResponse p m) s))
         else if msg_type m = GetStunErrorResponseType (msg_type q) then map_option (Pair True) (delete_request pick p (emit (OnErrorResponse p m) s))
         else Some (False, s))"
      using False p rd by (simp add: CheckResponse_data_def tid_def [symmetric] CheckResponse_def id r q request_type_def)
    have del: "\<exists>s'. delete_request pick p (emit e s) = Some s' \<and> stun_inv s' \<and> events s' = events s @ [e] \<and> gone p s'"
      if same: "\<And>x. sends x (events s @ [e]) = sends x (events s)" for e
    proof -
      obtain s' where s': "delete_request pick p (emit e s) = Some s'" "stun_inv s'" "events s' = events (emit e s)"
        "objects s' = (objects (emit e s))(p := None)" "requests s' = without p (emit e s)"
        using delete_request_inv [OF assms(1) store_ok_emit [OF inv(1) same], of "{#}" p r] inv(2) r by auto
      have "p \<notin> snd ` set (requests s')" by (simp add: s'(5))
      moreover have "pending (thread s') = mset (map (\<lambda>x. send_msg (snd x)) (requests s'))" using s'(2) by (simp add: stun_inv_def thread_ok_def)
      ultimately have "gone p s'" using s'(4) by (force simp: gone_def)
      then show ?thesis using s' by auto
    qed
    show ?thesis
      using del [of "OnResponse p m"] del [of "OnErrorResponse p m"] p assms(2) unfolding c by (auto simp: tid_def)
  qed
qed

lemma CheckResponse_unanswerable:
  assumes "stun_inv s" "\<not> answerable data s"
  shows "CheckResponse_data pick data s =
    (if 20 \<le> length data \<and> fst (StunMessage_Read StunMessage_new (ByteBuffer_of data)) then None else Some (False, s))"
proof -
  obtain ok m b where rd: "StunMessage_Read StunMessage_new (ByteBuffer_of data) = (ok, m, b)" by (metis prod_cases3)
  obtain p r where p: "map_of (requests s) (take 16 (drop 4 data)) = Some p" "objects s p = Some r" "req_msg r = None"
    using assms(2) by (auto simp: answerable_def split: option.splits)
  show ?thesis
  proof (cases "20 \<le> length data \<and> ok")
    case True
    then have "transaction_id m = take 16 (drop 4 data)" using Read_transaction_id rd by simp
    then show ?thesis using True p rd by (simp add: CheckResponse_data_def CheckResponse_def request_type_def)
  next
    case False
    then show ?thesis using p rd by (auto simp: CheckResponse_data_def)
  qed
qed

text \<open>
  C22: What comes from the network, in any state that satisfies the invariant. Whatever bytes arrive, the response check
  returns, except in one case: the bytes are a message that can be read, of 20 bytes or more, and carry the transaction id
  of a registered request whose own message has not been built yet. Then the code dereferences a null pointer, the
  value \<open>None\<close>. When the check returns \<open>false\<close> nothing has changed. When it returns \<open>true\<close>, the request that carries
  the transaction id has got exactly one callback and is gone: deleted, no longer registered, and with no message
  left on the thread.
\<close>

theorem response_ends_request:
  assumes "priority_queue pick" "stun_inv s"
  shows "(CheckResponse_data pick data s = None \<longleftrightarrow>
      20 \<le> length data \<and> fst (StunMessage_Read StunMessage_new (ByteBuffer_of data))
      \<and> (\<exists>p r. map_of (requests s) (take 16 (drop 4 data)) = Some p \<and> objects s p = Some r \<and> req_msg r = None))
    \<and> (\<forall>ok s'. CheckResponse_data pick data s = Some (ok, s') \<longrightarrow> stun_inv s' \<and> (\<not> ok \<longrightarrow> s' = s)
        \<and> (ok \<longrightarrow> (\<exists>p m. map_of (requests s) (take 16 (drop 4 data)) = Some p \<and> gone p s'
             \<and> (events s' = events s @ [OnResponse p m] \<or> events s' = events s @ [OnErrorResponse p m]))))"
proof -
  have A: "answerable data s \<longleftrightarrow>
      \<not> (\<exists>p r. map_of (requests s) (take 16 (drop 4 data)) = Some p \<and> objects s p = Some r \<and> req_msg r = None)"
    by (auto simp: answerable_def split: option.splits)
  show ?thesis
  proof (cases "answerable data s")
    case True
    from CheckResponse_data_spec [OF assms True] True A show ?thesis by auto
  next
    case False
    then show ?thesis using CheckResponse_unanswerable [OF assms(2) False, of pick] assms(2) A by auto
  qed
qed

subsection \<open>Runs\<close>

datatype stun_op =
  New nat "int list" | NewOf nat int StunMessage | SendRequest int nat int | Tick int | Response "int list" | RemoveRequest nat | ClearAll | DeleteRequest nat

fun stun_step :: "pick \<Rightarrow> (nat \<Rightarrow> StunMessage \<Rightarrow> StunMessage) \<Rightarrow> (nat \<Rightarrow> int) \<Rightarrow> stun_op \<Rightarrow> StunRequestManager \<Rightarrow> StunRequestManager option" where
  "stun_step pick prep h (New p tid) s = Some (set_object p (StunRequest_new tid) s)"
| "stun_step pick prep h (NewOf p any m) s = Some (set_object p (StunRequest_of any m) s)"
| "stun_step pick prep h (SendRequest now p delay) s = SendDelayed now p delay s"
| "stun_step pick prep h (Tick now) s = Dispatch pick prep h now s"
| "stun_step pick prep h (Response data) s = map_option snd (CheckResponse_data pick data s)"
| "stun_step pick prep h (RemoveRequest p) s = Remove pick p s"
| "stun_step pick prep h ClearAll s = StunRequestManager_Clear pick s"
| "stun_step pick prep h (DeleteRequest p) s = delete_request pick p s"

text \<open>
  The callers' part: addresses of new objects are new, ids have 16 bytes and messages are well formed; a
  request is sent once, and its (random) id is not that of another one that was sent; what is
  removed was sent.
\<close>

fun allowed :: "stun_op \<Rightarrow> StunRequestManager \<Rightarrow> bool" where
  "allowed (New p tid) s = (p \<noteq> 0 \<and> objects s p = None \<and> sends p (events s) = 0 \<and> length tid = 16)"
| "allowed (NewOf p any m) s = (p \<noteq> 0 \<and> objects s p = None \<and> sends p (events s) = 0 \<and> msg_ok m)"
| "allowed (SendRequest now p delay) s =
     (case objects s p of None \<Rightarrow> False
      | Some r \<Rightarrow> \<not> req_manager r \<and> (\<forall>p' r'. objects s p' = Some r' \<and> req_manager r' \<longrightarrow> req_id r' \<noteq> req_id r))"
| "allowed (Tick now) s = True"
| "allowed (Response data) s = answerable data s"
| "allowed (RemoveRequest p) s = (case objects s p of None \<Rightarrow> False | Some r \<Rightarrow> req_manager r)"
| "allowed ClearAll s = True"
| "allowed (DeleteRequest p) s = (objects s p \<noteq> None)"

definition no_requests :: StunRequestManager where
  "no_requests = \<lparr>thread = MessageQueue_new, requests = [], objects = Map.empty, events = []\<rparr>"

inductive stun_reachable :: "pick \<Rightarrow> (nat \<Rightarrow> StunMessage \<Rightarrow> StunMessage) \<Rightarrow> (nat \<Rightarrow> int) \<Rightarrow> StunRequestManager \<Rightarrow> bool" for pick prep h where
  start: "stun_reachable pick prep h no_requests"
| step: "stun_reachable pick prep h s \<Longrightarrow> allowed op s \<Longrightarrow> stun_step pick prep h op s = Some s' \<Longrightarrow> stun_reachable pick prep h s'"

lemma no_requests_inv: "stun_inv no_requests"
  by (simp add: stun_inv_def store_ok_def thread_ok_def pending_def MessageQueue_new_def no_requests_def)

lemma new_object_inv:
  assumes "stun_inv s" "objects s p = None" "object_ok (events s) p r" "\<not> req_manager r"
  shows "stun_inv (set_object p r s)"
  using assms unfolding stun_inv_def store_ok_def by (auto split: if_splits; fastforce)

lemma SendDelayed_inv:
  assumes "stun_inv s" "objects s p = Some r" "\<not> req_manager r" "\<forall>p' r'. objects s p' = Some r' \<and> req_manager r' \<longrightarrow> req_id r' \<noteq> req_id r"
  shows "\<exists>s'. SendDelayed now p delay s = Some s' \<and> stun_inv s'"
proof -
  have inv: "store_ok s" "thread_ok {#} s" using assms(1) by (simp_all add: stun_inv_def)
  have i: "req_id r \<notin> fst ` set (requests s)" using inv(1) assms(4) unfolding store_ok_def by fastforce
  have p: "p \<notin> snd ` set (requests s)" using unmanaged_unregistered [OF inv(1) assms(2,3)] by auto
  have u: "AList.update k v l = l @ [(k, v)]" if "k \<notin> fst ` set l" for k :: "int list" and v :: nat and l
    using that by (induction l) auto
  define r1 where "r1 = r\<lparr>req_manager := True\<rparr>"
  define s1 where "s1 = set_object p r1 s"
  have "object_ok (events s) p r" using inv(1) assms(2) by (simp add: store_ok_def)
  then have ok: "object_ok (events s) p r1" by (simp add: object_ok_def r1_def split: option.splits)
  have e: "SendDelayed now p delay s = Some (s1\<lparr>requests := requests s @ [(req_id r, p)], thread := PostDelayed now delay p 1 0 (thread s)\<rparr>)"
    using u [OF i] by (simp add: SendDelayed_def assms(2) Let_def r1_def s1_def set_object_def)
  have t: "thread_ok {#} (s1\<lparr>requests := requests s @ [(req_id r, p)], thread := PostDelayed now delay p 1 0 (thread s)\<rparr>)"
    using inv(2) PostDelayed_send [of "thread s" now delay p] by (simp add: thread_ok_def)
  have reg: "\<exists>y. objects s1 x = Some y \<and> req_id y = k \<and> req_manager y" if "(k, x) \<in> set (requests s @ [(req_id r, p)])" for k x
  proof (cases "(k, x) \<in> set (requests s)")
    case True
    then have "x \<noteq> p" using p by force
    moreover have "\<exists>y. objects s x = Some y \<and> req_id y = k \<and> req_manager y" using inv(1) True unfolding store_ok_def by blast
    ultimately show ?thesis by (simp add: s1_def)
  next
    case False
    then show ?thesis using that by (simp add: s1_def r1_def)
  qed
  have uniq: "x = x'" if "objects s1 x = Some y" "objects s1 x' = Some y'" "req_manager y" "req_manager y'" "req_id y = req_id y'" for x x' y y'
    using that assms(4) inv(1) unfolding store_ok_def s1_def r1_def by (auto split: if_splits; blast)
  have obj: "object_ok (events s) x y" if "objects s1 x = Some y" for x y
    using that ok inv(1) by (auto simp: store_ok_def s1_def split: if_splits)
  have d: "distinct (map fst (requests s @ [(req_id r, p)]))" "distinct (map snd (requests s @ [(req_id r, p)]))" "\<forall>x. sends x (events s) \<le> 9"
    using inv(1) i p by (simp_all add: store_ok_def)
  define s2 where "s2 = s1\<lparr>requests := requests s @ [(req_id r, p)], thread := PostDelayed now delay p 1 0 (thread s)\<rparr>"
  have f: "requests s2 = requests s @ [(req_id r, p)]" "objects s2 = objects s1" "events s2 = events s" by (simp_all add: s2_def s1_def)
  have "\<forall>(k, x)\<in>set (requests s2). \<exists>y. objects s2 x = Some y \<and> req_id y = k \<and> req_manager y" using reg unfolding f by blast
  moreover have "\<forall>x y. objects s2 x = Some y \<longrightarrow> object_ok (events s2) x y" using obj unfolding f by blast
  moreover have "\<forall>x y x' y'. objects s2 x = Some y \<and> objects s2 x' = Some y' \<and> req_manager y \<and> req_manager y' \<and> req_id y = req_id y' \<longrightarrow> x = x'"
    using uniq unfolding f by blast
  ultimately have "store_ok s2" using d unfolding store_ok_def f by blast
  then show ?thesis using e t by (simp add: stun_inv_def s2_def)
qed

definition sample_request :: StunMessage where
  "sample_request = StunMessage_new\<lparr>msg_type := 1\<rparr>"

definition sample_sent :: StunRequestManager where
  "sample_sent = the (SendDelayed 1000 7 0 (set_object 7 (StunRequest_of 0 sample_request) no_requests))"

lemma sample_sent_inv: "stun_inv sample_sent"
proof -
  let ?r = "StunRequest_of 0 sample_request" and ?s = "set_object 7 (StunRequest_of 0 sample_request) no_requests"
  have "object_ok [] 7 ?r" by (simp add: object_ok_def StunRequest_of_def sample_request_def StunMessage_new_def msg_ok_def)
  then have inv: "stun_inv ?s" by (intro new_object_inv no_requests_inv) (simp_all add: no_requests_def StunRequest_of_def)
  have r: "\<not> req_manager ?r" "objects ?s 7 = Some ?r" by (simp_all add: StunRequest_of_def)
  have "\<forall>p' r'. objects ?s p' = Some r' \<and> req_manager r' \<longrightarrow> req_id r' \<noteq> req_id ?r" using r(1) by (auto simp: no_requests_def split: if_splits)
  then obtain s' where "SendDelayed 1000 7 0 ?s = Some s'" "stun_inv s'" using SendDelayed_inv [OF inv r(2,1)] by blast
  then show ?thesis by (simp add: sample_sent_def)
qed

theorem response_ends_request_witness:
  "\<exists>s'. CheckResponse_data first_min (msg_bytes (StunMessage_new\<lparr>msg_type := 0x0101\<rparr>)) sample_sent = Some (True, s') \<and> gone 7 s'"
proof -
  let ?data = "msg_bytes (StunMessage_new\<lparr>msg_type := 0x0101\<rparr>)"
  have t: "map_option fst (CheckResponse_data first_min ?data sample_sent) = Some True" by code_simp
  have m: "map_of (requests sample_sent) (take 16 (drop 4 ?data)) = Some 7" by code_simp
  obtain s' where s': "CheckResponse_data first_min ?data sample_sent = Some (True, s')" using t by auto
  have "gone 7 s'"
    using response_ends_request [OF pq.priority_queue_axioms sample_sent_inv, of ?data] m unfolding s' by auto
  then show ?thesis using s' by blast
qed

lemma StunRequestManager_Clear_inv:
  assumes "priority_queue pick" "stun_inv s"
  shows "\<exists>s'. StunRequestManager_Clear pick s = Some s' \<and> stun_inv s' \<and> requests s' = []"
proof -
  have "\<forall>p\<in>set (map snd (requests s)). \<exists>r. objects s p = Some r \<and> req_manager r"
    using assms(2) by (fastforce simp: stun_inv_def store_ok_def)
  then obtain s' where s': "remove_all pick (map snd (requests s)) s = Some s'" "stun_inv s'"
    "requests s' = filter (\<lambda>x. snd x \<notin> set (map snd (requests s))) (requests s)"
    using remove_all_inv [OF assms] by blast
  have "requests s' = []" unfolding s'(3) by (auto simp: filter_empty_conv)
  then show ?thesis using s' by (simp add: StunRequestManager_Clear_def)
qed

lemma stun_step_inv:
  assumes "priority_queue pick" "prep_ok prep" "stun_inv s" "allowed op s"
  shows "\<exists>s'. stun_step pick prep h op s = Some s' \<and> stun_inv s'"
proof (cases op)
  case (New p tid)
  then have "object_ok (events s) p (StunRequest_new tid)" using assms(4) by (simp add: object_ok_def StunRequest_new_def)
  then show ?thesis using new_object_inv [OF assms(3)] assms(4) New by (simp add: StunRequest_new_def)
next
  case (NewOf p any m)
  then have "object_ok (events s) p (StunRequest_of any m)" using assms(4) by (simp add: object_ok_def StunRequest_of_def msg_ok_def)
  then show ?thesis using new_object_inv [OF assms(3)] assms(4) NewOf by (simp add: StunRequest_of_def)
next
  case (SendRequest now p delay)
  then show ?thesis using SendDelayed_inv [OF assms(3)] assms(4) by (auto split: option.splits)
next
  case (Tick now)
  then show ?thesis using Dispatch_inv [OF assms(1,3,2)] by simp
next
  case (Response data)
  then show ?thesis using CheckResponse_data_spec [OF assms(1,3)] assms(4) by fastforce
next
  case (RemoveRequest p)
  then obtain r where r: "objects s p = Some r" "req_manager r" using assms(4) by (auto split: option.splits)
  have inv: "store_ok s" "thread_ok {#} s" using assms(3) by (simp_all add: stun_inv_def)
  obtain q where "Remove pick p s = Some (s\<lparr>requests := without p s, thread := q\<rparr>)" "thread_ok {#} (s\<lparr>requests := without p s, thread := q\<rparr>)"
    using Remove_spec [OF assms(1) inv _ _ r] by auto
  then show ?thesis using store_ok_without(2) [OF inv(1), where p = p and q = q] by (simp add: RemoveRequest stun_inv_def)
next
  case ClearAll
  then show ?thesis using StunRequestManager_Clear_inv [OF assms(1,3)] by auto
next
  case (DeleteRequest p)
  then obtain r where r: "objects s p = Some r" using assms(4) by auto
  have inv: "store_ok s" "thread_ok {#} s" using assms(3) by (simp_all add: stun_inv_def)
  show ?thesis using delete_request_inv [OF assms(1) inv _ _ r] DeleteRequest by auto
qed

lemma stun_reachable_inv:
  assumes "priority_queue pick" "prep_ok prep"
  shows "stun_reachable pick prep h s \<Longrightarrow> stun_inv s"
proof (induction rule: stun_reachable.induct)
  case start
  show ?case by (rule no_requests_inv)
next
  case (step s op s')
  then show ?case using stun_step_inv [OF assms step.IH step.hyps(2), of h] by simp
qed

text \<open>
  C6: The life of requests is safe. Through any sequence of creating, sending (also with a delay), removing,
  deleting, clearing, dispatching and checking responses: every operation is defined (no object is used
  after it was deleted: no message for a deleted request stays on the thread); the thread holds exactly one
  message for each registered request and none else; ids and objects correspond one to one; and no
  request is ever sent more than nine times.
\<close>

theorem stun_requests_safe:
  assumes "priority_queue pick" "prep_ok prep" "stun_reachable pick prep h s" "allowed op s"
  shows "stun_step pick prep h op s \<noteq> None
    \<and> pending (thread s) = mset (map (\<lambda>x. send_msg (snd x)) (requests s))
    \<and> (\<forall>(i, p)\<in>set (requests s). \<exists>r. objects s p = Some r \<and> req_id r = i)
    \<and> distinct (map fst (requests s)) \<and> distinct (map snd (requests s)) \<and> (\<forall>p. sends p (events s) \<le> 9)"
proof -
  have inv: "stun_inv s" by (rule stun_reachable_inv [OF assms(1-3)])
  have "\<forall>(i, p)\<in>set (requests s). \<exists>r. objects s p = Some r \<and> req_id r = i" using inv by (fastforce simp: stun_inv_def store_ok_def)
  then show ?thesis using stun_step_inv [OF assms(1,2) inv assms(4), of h] inv by (auto simp: stun_inv_def store_ok_def thread_ok_def)
qed

text \<open>A subclass that makes a binding request.\<close>

definition binding_request :: "nat \<Rightarrow> StunMessage \<Rightarrow> StunMessage" where
  "binding_request p m = m\<lparr>msg_type := 1\<rparr>"

lemma binding_request_ok: "prep_ok binding_request"
  by (simp add: prep_ok_def binding_request_def msg_ok_def SetTransactionID_def StunMessage_new_def)

theorem stun_requests_safe_witness:
  "\<exists>s. stun_step first_min binding_request (\<lambda>i. 0) (SendRequest 1000 7 0) (set_object 7 (StunRequest_new (replicate 16 65)) no_requests) = Some s"
proof -
  let ?s = "set_object 7 (StunRequest_new (replicate 16 65)) no_requests"
  have "stun_reachable first_min binding_request (\<lambda>i. 0) ?s"
    by (rule stun_reachable.step [OF stun_reachable.start, where op = "New 7 (replicate 16 65)"]) (simp_all add: no_requests_def)
  moreover have "allowed (SendRequest 1000 7 0) ?s" by (simp add: StunRequest_new_def no_requests_def)
  ultimately show ?thesis using stun_requests_safe [OF pq.priority_queue_axioms binding_request_ok] by blast
qed

subsection \<open>A request that nobody answers\<close>

text \<open>The thread has nothing but the next message of request \<open>p\<close>, due at \<open>t\<close>.\<close>

definition awaits :: "(nat \<Rightarrow> StunMessage \<Rightarrow> StunMessage) \<Rightarrow> nat \<Rightarrow> int \<Rightarrow> int \<Rightarrow> StunMessage \<Rightarrow> StunRequestManager \<Rightarrow> bool" where
  "awaits prep p c t m s \<longleftrightarrow> store_ok s \<and> \<not> fStop (thread s) \<and> \<not> fPeekKeep (thread s) \<and> msgq (thread s) = []
     \<and> (\<exists>d. dmsgq (thread s) = [\<lparr>cmsDelay_ = d, msTrigger = t, dmsg = send_msg p\<rparr>])
     \<and> (\<exists>r. objects s p = Some r \<and> req_manager r \<and> req_count r = c \<and> requests s = [(req_id r, p)] \<and> built_msg prep p r = m)"

lemma poll_single:
  assumes "priority_queue pick" "\<not> fPeekKeep q" "msgq q = []" "dmsgq q = [\<lparr>cmsDelay_ = d, msTrigger = t, dmsg = send_msg p\<rparr>]"
  shows "LJ_MessageQueue.Get pick 0 now (poll now) q = Some (if t \<le> now then (Some (send_msg p), q\<lparr>msgq := [], dmsgq := []\<rparr>) else (None, q))"
proof -
  have "pick [x] = 0" for x using priority_queue.pick_in [OF assms(1), of "[x]"] by simp
  then have c: "check_queues pick now q = (if t \<le> now then (Some (send_msg p), kForever, q\<lparr>msgq := [], dmsgq := []\<rparr>) else (None, s32 (u32 (t - now)), q))"
    by (simp add: check_queues_def assms(3,4) pq_top_def pq_pop_def)
  obtain m nx q' where "check_queues pick now q = (m, nx, q')" "LJ_MessageQueue.Get pick 0 now (poll now) q = Some (m, q')"
    using poll_ok [OF assms(1,2)] by blast
  then show ?thesis by (simp add: c split: if_splits)
qed

text \<open>Before it is due nothing happens; when it is due it is sent, and the next is due after the delay.\<close>

lemma awaits_early:
  assumes "priority_queue pick" "awaits prep p c t m s" "now < t"
  shows "Dispatch pick prep h now s = Some s"
  using assms poll_single [OF assms(1), of "thread s"] by (auto simp: awaits_def Dispatch_def)

lemma awaits_send:
  assumes "priority_queue pick" "prep_ok prep" "awaits prep p c t m s" "c < MAX_SENDS" "0 \<le> t" "t \<le> now" "now + next_delay c < 4294967296"
  shows "\<exists>s'. Dispatch pick prep h now s = Some s' \<and> awaits prep p (c + 1) (now + next_delay c) m s'
    \<and> events s' = events s @ [SendPacket p (msg_bytes m) now]"
proof -
  obtain r d where r: "objects s p = Some r" "req_manager r" "req_count r = c" "requests s = [(req_id r, p)]" "built_msg prep p r = m"
    and q: "store_ok s" "\<not> fStop (thread s)" "\<not> fPeekKeep (thread s)" "msgq (thread s) = []"
      "dmsgq (thread s) = [\<lparr>cmsDelay_ = d, msTrigger = t, dmsg = send_msg p\<rparr>]" using assms(3) by (auto simp: awaits_def)
  define s1 where "s1 = s\<lparr>thread := (thread s)\<lparr>msgq := [], dmsgq := []\<rparr>\<rparr>"
  have d1: "Dispatch pick prep h now s = OnMessage pick prep h now p s1"
    using poll_single [OF assms(1) q(3-5), of now] assms(6) by (simp add: Dispatch_def s1_def)
  have ok: "objects s1 p = Some r" "store_ok s1" using r(1) q(1) by (simp_all add: s1_def)
  then have obj: "object_ok (events s1) p r" by (simp add: store_ok_def)
  then have nt: "\<not> req_timeout r" using r(3) assms(4) by (simp add: object_ok_def)
  have "0 \<le> next_delay c" by (simp add: next_delay_def)
  then have "u32 (now + next_delay c) = now + next_delay c" using assms(5-7) by (simp add: u32_id)
  then show ?thesis
    unfolding d1 OnMessage_send [OF ok(1) obj r(2) assms(2) nt]
    using store_ok_send [OF ok(2,1) r(2) assms(2) nt] q r
    by (simp add: awaits_def s1_def PostDelayed_def EnsureActive_def DelayedMessage_new_def send_msg_def Let_def) (simp add: built_msg_def)
qed

lemma stun_inv_gone:
  assumes "stun_inv s" "objects s p = None" "p \<notin> snd ` set (requests s)"
  shows "gone p s"
  using assms by (force simp: gone_def stun_inv_def thread_ok_def)

lemma awaits_timeout:
  assumes "priority_queue pick" "prep_ok prep" "awaits prep p MAX_SENDS t m s" "t \<le> now"
  shows "\<exists>s'. Dispatch pick prep h now s = Some s' \<and> events s' = events s @ [OnTimeout p] \<and> gone p s' \<and> requests s' = [] \<and> stun_inv s'"
proof -
  obtain r d where r: "objects s p = Some r" "req_manager r" "req_count r = MAX_SENDS" "requests s = [(req_id r, p)]" "built_msg prep p r = m"
    and q: "store_ok s" "\<not> fStop (thread s)" "\<not> fPeekKeep (thread s)" "msgq (thread s) = []"
      "dmsgq (thread s) = [\<lparr>cmsDelay_ = d, msTrigger = t, dmsg = send_msg p\<rparr>]" using assms(3) by (auto simp: awaits_def)
  define s1 where "s1 = s\<lparr>thread := (thread s)\<lparr>msgq := [], dmsgq := []\<rparr>\<rparr>"
  have d1: "Dispatch pick prep h now s = OnMessage pick prep h now p s1"
    using poll_single [OF assms(1) q(3-5), of now] assms(4) by (simp add: Dispatch_def s1_def)
  have ok: "objects s1 p = Some r" "store_ok s1" "p \<in> snd ` set (requests s1)" using r q(1) by (simp_all add: s1_def)
  then have t: "req_timeout r" using r(3) by (simp add: store_ok_def object_ok_def)
  have "thread_ok {#send_msg p#} s1" using q r(4) by (simp add: thread_ok_def s1_def pending_def)
  then obtain s' where s': "OnMessage pick prep h now p s1 = Some s'" "stun_inv s'" "events s' = events s1 @ [OnTimeout p]"
    "objects s' = (objects s1)(p := None)" "requests s' = without p s1"
    using OnMessage_timeout [OF assms(1,2) ok(2) _ ok(3,1) r(2) t] by blast
  have "gone p s'" using stun_inv_gone [OF s'(2)] s'(4,5) by simp
  then show ?thesis using s' d1 r(4) by (simp add: s1_def without_def)
qed

lemma Dispatch_idle:
  assumes "priority_queue pick" "stun_inv s" "requests s = []"
  shows "Dispatch pick prep h now s = Some s"
proof -
  have q: "msgq (thread s) = []" "dmsgq (thread s) = []" "\<not> fPeekKeep (thread s)" using assms(2,3) by (auto simp: stun_inv_def thread_ok_def pending_def)
  then obtain m nx q' where c: "check_queues pick now (thread s) = (m, nx, q')" "LJ_MessageQueue.Get pick 0 now (poll now) (thread s) = Some (m, q')"
    using poll_ok [OF assms(1) q(3)] by blast
  have "m = None \<and> q' = thread s" using c(1) q by (auto simp: check_queues_def)
  then show ?thesis using c(2) by (simp add: Dispatch_def)
qed

text \<open>The thread looks at the given times.\<close>

fun ticks :: "pick \<Rightarrow> (nat \<Rightarrow> StunMessage \<Rightarrow> StunMessage) \<Rightarrow> (nat \<Rightarrow> int) \<Rightarrow> int list \<Rightarrow> StunRequestManager \<Rightarrow> StunRequestManager option" where
  "ticks pick prep h [] s = Some s"
| "ticks pick prep h (t # ts) s = do { s \<leftarrow> Dispatch pick prep h t s; ticks pick prep h ts s }"

text \<open>The times at which the messages of a request are due, from the one with count \<open>c\<close> at \<open>t\<close> on.\<close>

fun due_from :: "nat \<Rightarrow> int \<Rightarrow> int \<Rightarrow> int list" where
  "due_from 0 c t = []"
| "due_from (Suc n) c t = t # due_from n (c + 1) (t + next_delay c)"

lemma next_delay_pos: "0 < next_delay c"
  by (simp add: next_delay_def)

lemma due_from_ge: "x \<in> set (due_from n c t) \<Longrightarrow> t \<le> x"
proof (induction n arbitrary: c t)
  case (Suc n)
  then show ?case using next_delay_pos [of c] by fastforce
qed simp

lemma ticks_idle: "priority_queue pick \<Longrightarrow> stun_inv s \<Longrightarrow> requests s = [] \<Longrightarrow> ticks pick prep h ts s = Some s"
  by (induction ts) (simp_all add: Dispatch_idle)

lemma ticks_awaits:
  assumes "priority_queue pick" "prep_ok prep"
  shows "awaits prep p c t m s \<Longrightarrow> 0 \<le> c \<Longrightarrow> c + int n = MAX_SENDS \<Longrightarrow> sorted ts \<Longrightarrow> set (due_from (Suc n) c t) \<subseteq> set ts
    \<Longrightarrow> 0 \<le> t \<Longrightarrow> \<forall>x\<in>set (due_from (Suc n) c t). x < 4294967296
    \<Longrightarrow> \<exists>s'. ticks pick prep h ts s = Some s' \<and> gone p s' \<and> requests s' = [] \<and> stun_inv s'
        \<and> events s' = events s @ map (SendPacket p (msg_bytes m)) (due_from n c t) @ [OnTimeout p]"
proof (induction ts arbitrary: s c t n)
  case (Cons x ts)
  have s: "sorted ts" "\<forall>y\<in>set ts. x \<le> y" using Cons.prems(4) by simp_all
  show ?case
  proof (cases "x < t")
    case True
    then have "set (due_from (Suc n) c t) \<subseteq> set ts" using Cons.prems(5) due_from_ge [of _ "Suc n" c t] by fastforce
    then show ?thesis using Cons.IH [OF Cons.prems(1-3) s(1) _ Cons.prems(6,7)] awaits_early [OF assms(1) Cons.prems(1) True] by simp
  next
    case False
    then have x: "x = t" using Cons.prems(5) s(2) by auto
    show ?thesis
    proof (cases n)
      case 0
      then have "awaits prep p MAX_SENDS t m s" using Cons.prems(1,3) by simp
      then obtain s' where "Dispatch pick prep h x s = Some s'" "events s' = events s @ [OnTimeout p]" "gone p s'" "requests s' = []" "stun_inv s'"
        using awaits_timeout [OF assms, of p t m s x h] x by auto
      then show ?thesis using ticks_idle [OF assms(1), of s'] 0 by simp
    next
      case (Suc k)
      have c: "c < MAX_SENDS" "0 \<le> c + 1" "c + 1 + int k = MAX_SENDS" using Cons.prems(2,3) Suc by simp_all
      have due: "set (due_from (Suc k) (c + 1) (t + next_delay c)) \<subseteq> set ts"
        using Cons.prems(5) due_from_ge [of _ "Suc k" "c + 1" "t + next_delay c"] next_delay_pos [of c] x Suc by fastforce
      have b: "\<forall>y\<in>set (due_from (Suc k) (c + 1) (t + next_delay c)). y < 4294967296" using Cons.prems(7) Suc by simp
      then have b1: "x + next_delay c < 4294967296" using x by simp
      obtain s1 where s1: "Dispatch pick prep h x s = Some s1" "awaits prep p (c + 1) (t + next_delay c) m s1" "events s1 = events s @ [SendPacket p (msg_bytes m) t]"
        using awaits_send [OF assms Cons.prems(1) c(1) Cons.prems(6) _ b1] x by auto
      have "0 \<le> t + next_delay c" using Cons.prems(6) next_delay_pos [of c] by simp
      then show ?thesis using Cons.IH [OF s1(2) c(2,3) s(1) due _ b] s1 Suc by simp
    qed
  qed
qed simp

text \<open>
  C7: A request that nobody answers ends. Sent at \<open>t0\<close> from an idle thread, with the thread looking at any
  times that include those at which its messages are due: the same bytes are sent exactly nine times, 0, 100,
  300, 700, 1500, 3100, 4700, 6300 and 7900 milliseconds after \<open>t0\<close>; 9.5 seconds after \<open>t0\<close> there is one
  timeout callback, and the request is gone.
\<close>

theorem unanswered_request_times_out:
  assumes "priority_queue pick" "prep_ok prep" "stun_inv s" "requests s = []" "objects s p = Some r" "allowed (SendRequest t0 p 0) s"
    and "req_count r = 0" "0 \<le> t0" "t0 + 9500 < 4294967296"
    and "sorted ts" "(\<lambda>x. t0 + x) ` {0, 100, 300, 700, 1500, 3100, 4700, 6300, 7900, 9500} \<subseteq> set ts"
  shows "\<exists>s0 s'. Send t0 p s = Some s0 \<and> ticks pick prep h ts s0 = Some s' \<and> gone p s' \<and> requests s' = []
    \<and> events s' = events s @ map (\<lambda>x. SendPacket p (msg_bytes (built_msg prep p r)) (t0 + x)) [0, 100, 300, 700, 1500, 3100, 4700, 6300, 7900] @ [OnTimeout p]"
proof -
  have new: "\<not> req_manager r" "\<forall>p' r'. objects s p' = Some r' \<and> req_manager r' \<longrightarrow> req_id r' \<noteq> req_id r"
    using assms(6) by (auto simp only: allowed.simps assms(5) option.case)
  obtain s0 where s0: "SendDelayed t0 p 0 s = Some s0" "stun_inv s0" using SendDelayed_inv [OF assms(3,5) new, of t0 0] by auto
  have q: "msgq (thread s) = []" "dmsgq (thread s) = []" "\<not> fPeekKeep (thread s)" "\<not> fStop (thread s)"
    using assms(3,4) by (auto simp: stun_inv_def thread_ok_def pending_def)
  have e: "s0 = (set_object p (r\<lparr>req_manager := True\<rparr>) s)\<lparr>requests := [(req_id r, p)], thread := PostDelayed t0 0 p 1 0 (thread s)\<rparr>"
    using s0(1) by (simp add: SendDelayed_def assms(4,5) Let_def)
  have st: "store_ok s0" using s0(2) by (simp add: stun_inv_def)
  have "u32 t0 = t0" using assms(8,9) by (simp add: u32_id)
  moreover have "built_msg prep p (r\<lparr>req_manager := True\<rparr>) = built_msg prep p r" by (simp add: built_msg_def split: option.splits)
  ultimately have aw: "awaits prep p 0 t0 (built_msg prep p r) s0" using st q assms(7) unfolding e
    by (simp add: awaits_def PostDelayed_def EnsureActive_def DelayedMessage_new_def send_msg_def Let_def)
  have d: "due_from 9 0 t0 = map (\<lambda>x. t0 + x) [0, 100, 300, 700, 1500, 3100, 4700, 6300, 7900]"
    "due_from (Suc 9) 0 t0 = map (\<lambda>x. t0 + x) [0, 100, 300, 700, 1500, 3100, 4700, 6300, 7900, 9500]"
    by (simp_all add: next_delay_def eval_nat_numeral)
  have sub: "set (due_from (Suc 9) 0 t0) \<subseteq> set ts" "\<forall>x\<in>set (due_from (Suc 9) 0 t0). x < 4294967296"
    unfolding d(2) using assms(9,11) by simp_all
  obtain s' where "ticks pick prep h ts s0 = Some s'" "gone p s'" "requests s' = []"
    "events s' = events s0 @ map (SendPacket p (msg_bytes (built_msg prep p r))) (due_from 9 0 t0) @ [OnTimeout p]"
    using ticks_awaits [OF assms(1,2) aw _ _ assms(10) sub(1) assms(8) sub(2)] by auto
  moreover have "events s0 = events s" by (simp add: e)
  ultimately show ?thesis using s0(1) by (simp add: Send_def d(1) comp_def)
qed

theorem unanswered_request_times_out_witness:
  "\<exists>s0 s'. Send 1000 7 (set_object 7 (StunRequest_new (replicate 16 65)) no_requests) = Some s0
     \<and> ticks first_min binding_request (\<lambda>i. 0) [1000, 1050, 1100, 1300, 1700, 2500, 4100, 5700, 7300, 8900, 10500, 20000] s0 = Some s' \<and> length (events s') = 10"
proof -
  let ?s = "set_object 7 (StunRequest_new (replicate 16 65)) no_requests"
  have "stun_inv ?s" by (rule new_object_inv [OF no_requests_inv]) (simp_all add: no_requests_def object_ok_def StunRequest_new_def)
  moreover have "objects ?s 7 = Some (StunRequest_new (replicate 16 65))" "requests ?s = []" "allowed (SendRequest 1000 7 0) ?s" "events ?s = []"
    by (simp_all add: no_requests_def StunRequest_new_def)
  moreover have "req_count (StunRequest_new (replicate 16 65)) = 0" by (simp add: StunRequest_new_def)
  ultimately show ?thesis
    using unanswered_request_times_out [OF pq.priority_queue_axioms binding_request_ok, of ?s 7 "StunRequest_new (replicate 16 65)" 1000
      "[1000, 1050, 1100, 1300, 1700, 2500, 4100, 5700, 7300, 8900, 10500, 20000]" "\<lambda>i. 0"] by fastforce
qed

end
