(* ===== verification/LJ_Base64.thy ===== *)
theory LJ_Base64
  imports LJ_Base
begin

text \<open>
  Base 64 (\<open>talk/base/base64.cc\<close>). Strings are lists of octets. \<open>char\<close> is signed, as on the platforms of
  the build files: the entry \<open>npos\<close> of the decoding table becomes -1 and equals \<open>npos\<close> again when it is
  compared. Reading the character after the end of a constant string gives 0, beyond it is undefined: \<open>None\<close>.
\<close>

subsection \<open>Tables\<close>

definition s8 :: "int \<Rightarrow> int" where
  "s8 x = (x + 128) mod 256 - 128"

abbreviation (input) np :: int where "np \<equiv> -1"
abbreviation (input) fillchar :: int where "fillchar \<equiv> 61"

definition Base64Table :: "int list" where
  "Base64Table = [65..90] @ [97..122] @ [48..57] @ [43, 47]"

definition DecodeTable :: "int list" where
  "DecodeTable = replicate 43 np @ [62] @ replicate 3 np @ [63] @ [52..61] @ replicate 7 np @ [0..25] @ replicate 6 np @ [26..51] @ replicate 133 np"

subsection \<open>Encoding\<close>

text \<open>One round of the loop writes four characters for up to three bytes; it starts at \<open>i < len\<close>.\<close>

definition encode_round :: "int list \<Rightarrow> nat \<Rightarrow> nat \<Rightarrow> nat \<times> int list" where
  "encode_round data len i =
     (let c = drop_bit 2 (data ! i) AND 0x3f;
          ret = [Base64Table ! nat c];
          c = push_bit 4 (data ! i) AND 0x3f;
          i = i + 1;
          c = (if i < len then c OR (drop_bit 4 (data ! i) AND 0x0f) else c);
          ret = ret @ [Base64Table ! nat c];
          (i, ret) =
            (if i < len then
               (let c = push_bit 2 (data ! i) AND 0x3f;
                    i = i + 1;
                    c = (if i < len then c OR (drop_bit 6 (data ! i) AND 0x03) else c)
                in (i, ret @ [Base64Table ! nat c]))
             else (i + 1, ret @ [fillchar]));
          ret = (if i < len then ret @ [Base64Table ! nat (data ! i AND 0x3f)] else ret @ [fillchar])
      in (i, ret))"

lemma encode_round_grows: "encode_round data len i = (i', ret) \<Longrightarrow> i + 2 = i'"
  by (auto simp: encode_round_def Let_def split: if_splits)

function encode_loop :: "int list \<Rightarrow> nat \<Rightarrow> nat \<Rightarrow> int list \<Rightarrow> int list" where
  "encode_loop data len i ret =
     (if i < len then (case encode_round data len i of (i', cs) \<Rightarrow> encode_loop data len (i' + 1) (ret @ cs)) else ret)"
  by pat_completeness auto
termination
  by (relation "measure (\<lambda>(data, len, i, ret). len - i)") (auto dest: encode_round_grows [OF sym])
declare encode_loop.simps [simp del]

definition encodeFromArray :: "int list \<Rightarrow> nat \<Rightarrow> int list" where
  "encodeFromArray data len = encode_loop data len 0 []"

definition encode :: "int list \<Rightarrow> int list" where
  "encode data = encode_loop data (length data) 0 []"

subsection \<open>Decoding\<close>

definition char_at :: "int list \<Rightarrow> nat \<Rightarrow> int option" where
  "char_at data i = (if i < length data then Some (data ! i) else if i = length data then Some 0 else None)"

text \<open>
  The two kinds of inner loop: do the look-up, while the character \<open>c\<close> is not one of base 64 and \<open>i\<close> can
  go on. The first sets \<open>c\<close>; the other sets \<open>c1\<close> but still tests \<open>c\<close>.
\<close>

function skip_np :: "int list \<Rightarrow> nat \<Rightarrow> (int \<times> nat) option" where
  "skip_np data i = do {
     x \<leftarrow> char_at data i;
     let c = DecodeTable ! nat x;
     if c = np then (if i + 1 < length data then skip_np data (i + 1) else Some (c, i + 1)) else Some (c, i)
   }"
  by pat_completeness auto
termination
  by (relation "measure (\<lambda>(data, i). length data - i)") auto
declare skip_np.simps [simp del]

function scan_while :: "int \<Rightarrow> int list \<Rightarrow> nat \<Rightarrow> (int \<times> nat) option" where
  "scan_while c data i = do {
     x \<leftarrow> char_at data i;
     let c1 = DecodeTable ! nat x;
     if c = np then (if i + 1 < length data then scan_while c data (i + 1) else Some (c1, i + 1)) else Some (c1, i)
   }"
  by pat_completeness auto
termination
  by (relation "measure (\<lambda>(c, data, i). length data - i)") auto
declare scan_while.simps [simp del]

text \<open>The third part of a round; the flag says that the loop was left by \<open>break\<close>.\<close>

definition decode_third :: "int list \<Rightarrow> int \<Rightarrow> nat \<Rightarrow> int list \<Rightarrow> (bool \<times> nat \<times> int list) option" where
  "decode_third data c i ret =
     (let i = i + 1
      in if i < length data then
           (let c1 = data ! i
            in if c1 = fillchar then Some (True, i, ret)
               else do {
                 (c1, i) \<leftarrow> scan_while c data i;
                 let c = s8 ((push_bit 6 c AND 0xc0) OR c1);
                 Some (False, i, ret @ [u8 c])
               })
         else Some (False, i, ret))"

definition decode_round :: "int list \<Rightarrow> nat \<Rightarrow> int list \<Rightarrow> (bool \<times> nat \<times> int list) option" where
  "decode_round data i ret = do {
     (c, i) \<leftarrow> skip_np data i;
     let i = i + 1;
     (c1, i) \<leftarrow> scan_while c data i;
     let c = s8 (push_bit 2 c OR (drop_bit 4 c1 AND 0x3));
     let ret = ret @ [u8 c];
     let i = i + 1;
     if i < length data then
       (let c = data ! i
        in if c = fillchar then Some (True, i, ret)
           else do {
             (c, i) \<leftarrow> skip_np data i;
             let c1 = s8 ((push_bit 4 c1 AND 0xf0) OR (drop_bit 2 c AND 0xf));
             decode_third data c i (ret @ [u8 c1])
           })
     else decode_third data c i ret
   }"

lemma skip_np_grows: "skip_np data i = Some (c, i') \<Longrightarrow> i \<le> i'"
proof (induction data i rule: skip_np.induct)
  case (1 data i)
  show ?case using "1.prems" "1.IH" unfolding skip_np.simps [of data i] by (fastforce simp: bind_eq_Some_conv Let_def split: if_splits)
qed

lemma scan_while_grows: "scan_while c data i = Some (c1, i') \<Longrightarrow> i \<le> i'"
proof (induction c data i rule: scan_while.induct)
  case (1 c data i)
  show ?case using "1.prems" "1.IH" unfolding scan_while.simps [of c data i] by (fastforce simp: bind_eq_Some_conv Let_def split: if_splits)
qed

lemma decode_third_grows: "decode_third data c i ret = Some (b, i', ret') \<Longrightarrow> i \<le> i'"
  by (auto simp: decode_third_def Let_def bind_eq_Some_conv dest!: scan_while_grows split: if_splits)

lemma decode_round_grows: "decode_round data i ret = Some (b, i', ret') \<Longrightarrow> i \<le> i'"
  by (auto simp: decode_round_def Let_def bind_eq_Some_conv dest!: scan_while_grows skip_np_grows decode_third_grows split: if_splits)

function decode_loop :: "int list \<Rightarrow> nat \<Rightarrow> int list \<Rightarrow> int list option" where
  "decode_loop data i ret =
     (if i < length data then
        (case decode_round data i ret of
           None \<Rightarrow> None
         | Some (stop, i', ret) \<Rightarrow> if stop then Some ret else decode_loop data (i' + 1) ret)
      else Some ret)"
  by pat_completeness auto
termination
  by (relation "measure (\<lambda>(data, i, ret). length data - i)") (auto dest: decode_round_grows)
declare decode_loop.simps [simp del]

definition decode :: "int list \<Rightarrow> int list option" where
  "decode data = decode_loop data 0 []"

subsection \<open>Encoding is the encoding of RFC 4648\<close>

text \<open>Three bytes are four digits to the base 64; the last one or two are filled with zero bits and marked by one or two fill characters.\<close>

definition digit :: "int \<Rightarrow> int" where
  "digit v = Base64Table ! nat v"

fun rfc_base64 :: "int list \<Rightarrow> int list" where
  "rfc_base64 [] = []"
| "rfc_base64 [a] = [digit (a div 4), digit (a mod 4 * 16), fillchar, fillchar]"
| "rfc_base64 [a, b] = [digit (a div 4), digit (a mod 4 * 16 + b div 16), digit (b mod 16 * 4), fillchar]"
| "rfc_base64 (a # b # c # r) = digit (a div 4) # digit (a mod 4 * 16 + b div 16) # digit (b mod 16 * 4 + c div 64) # digit (c mod 64) # rfc_base64 r"

lemma or_shift: "0 \<le> (y::int) \<Longrightarrow> y < 2 ^ n \<Longrightarrow> push_bit n x OR y = x * 2 ^ n + y"
proof -
  assume "0 \<le> y" "y < 2 ^ n"
  then have t: "take_bit n y = y" by (simp add: take_bit_int_eq_self)
  have "push_bit n x OR y = concat_bit n y x" by (simp add: concat_bit_def t or.commute)
  then show ?thesis by (simp add: concat_bit_eq t push_bit_eq_mult)
qed

lemma high_bits:
  "push_bit 4 (x::int) AND 63 = push_bit 4 (x mod 4)" "push_bit 2 x AND 63 = push_bit 2 (x mod 16)"
  "push_bit 4 x AND 240 = push_bit 4 (x mod 16)" "push_bit 6 x AND 192 = push_bit 6 (x mod 4)"
proof -
  show "push_bit 4 x AND 63 = push_bit 4 (x mod 4)" "push_bit 2 x AND 63 = push_bit 2 (x mod 16)"
    using mod_mult_mult2 [of x 16 4] mod_mult_mult2 [of x 4 16] by (simp_all add: and_63 push_bit_eq_mult)
  show "push_bit 4 x AND 240 = push_bit 4 (x mod 16)" "push_bit 6 x AND 192 = push_bit 6 (x mod 4)"
    using push_bit_and [of 4 x 15] push_bit_and [of 6 x 3] by (simp_all add: and_15 and_3)
qed

lemma encode_bits:
  assumes "0 \<le> (a::int)" "a < 256" "0 \<le> (b::int)" "b < 256"
  shows "drop_bit 2 a AND 63 = a div 4" "push_bit 4 a AND 63 = a mod 4 * 16" "push_bit 2 b AND 63 = b mod 16 * 4"
    "a mod 4 * 16 OR (drop_bit 4 b AND 15) = a mod 4 * 16 + b div 16"
    "a mod 16 * 4 OR (drop_bit 6 b AND 3) = a mod 16 * 4 + b div 64"
proof -
  have r: "0 \<le> b div 16" "b div 16 < 16" "0 \<le> b div 64" "b div 64 < 4" "0 \<le> a div 4" "a div 4 < 64" using assms by simp_all
  show "drop_bit 2 a AND 63 = a div 4" using r by (simp add: drop_bit_eq_div and_63)
  show "push_bit 4 a AND 63 = a mod 4 * 16" "push_bit 2 b AND 63 = b mod 16 * 4" by (simp_all only: high_bits) (simp_all add: push_bit_eq_mult)
  show "a mod 4 * 16 OR (drop_bit 4 b AND 15) = a mod 4 * 16 + b div 16"
    using r or_shift [of "b div 16" 4 "a mod 4"] by (simp add: push_bit_eq_mult drop_bit_eq_div and_15)
  show "a mod 16 * 4 OR (drop_bit 6 b AND 3) = a mod 16 * 4 + b div 64"
    using r or_shift [of "b div 64" 2 "a mod 16"] by (simp add: push_bit_eq_mult drop_bit_eq_div and_3)
qed

lemma encode_loop_rfc:
  "octets d \<Longrightarrow> encode_loop (pre @ d) (length (pre @ d)) (length pre) ret = ret @ rfc_base64 d"
proof (induction d arbitrary: pre ret rule: rfc_base64.induct)
  case 1
  show ?case by (simp add: encode_loop.simps)
next
  case (2 a)
  then have a: "0 \<le> a" "a < 256" by (auto simp: octets_def)
  show ?case by (simp add: encode_loop.simps encode_round_def Let_def nth_append encode_bits [OF a a] digit_def)
next
  case (3 a b)
  then have a: "0 \<le> a" "a < 256" and b: "0 \<le> b" "b < 256" by (auto simp: octets_def)
  show ?case by (simp add: encode_loop.simps encode_round_def Let_def nth_append encode_bits [OF a b] digit_def)
next
  case (4 a b c r)
  then have a: "0 \<le> a" "a < 256" and b: "0 \<le> b" "b < 256" and c: "0 \<le> c" "c < 256" and r: "octets r" by (auto simp: octets_def)
  have rd: "encode_round (pre @ a # b # c # r) (length (pre @ a # b # c # r)) (length pre)
     = (length pre + 2, [digit (a div 4), digit (a mod 4 * 16 + b div 16), digit (b mod 16 * 4 + c div 64), digit (c mod 64)])"
    by (simp add: encode_round_def Let_def nth_append encode_bits [OF a b] encode_bits [OF b c] digit_def and_63 [of c])
  define out where "out = [digit (a div 4), digit (a mod 4 * 16 + b div 16), digit (b mod 16 * 4 + c div 64), digit (c mod 64)]"
  have "encode_loop (pre @ a # b # c # r) (length (pre @ a # b # c # r)) (length pre) ret
     = encode_loop (pre @ a # b # c # r) (length (pre @ a # b # c # r)) (length pre + 2 + 1) (ret @ out)"
    by (subst encode_loop.simps, unfold rd) (simp add: out_def)
  also have "\<dots> = (ret @ out) @ rfc_base64 r" using "4.IH" [OF r, of "pre @ [a, b, c]" "ret @ out"] by (simp add: numeral_2_eq_2)
  finally show ?case by (simp add: out_def)
qed

subsection \<open>Decoding gives the bytes back\<close>

lemma digits:
  assumes "0 \<le> v" "v < 64"
  shows "DecodeTable ! nat (digit v) = v" "digit v \<noteq> fillchar" "v \<noteq> np"
proof -
  have "list_all (\<lambda>v. DecodeTable ! nat (digit v) = v \<and> digit v \<noteq> fillchar) [0..63]" by code_simp
  moreover have "v \<in> set [0..63]" using assms by auto
  ultimately show "DecodeTable ! nat (digit v) = v" "digit v \<noteq> fillchar" unfolding list_all_iff by blast+
  show "v \<noteq> np" using assms by simp
qed

text \<open>A character of base 64 is accepted by both loops at once.\<close>

lemma scan_digit:
  assumes "0 \<le> v" "v < 64" "i < length data" "data ! i = digit v"
  shows "skip_np data i = Some (v, i)" "c \<noteq> np \<Longrightarrow> scan_while c data i = Some (v, i)"
  using digits [OF assms(1,2)] assms by (simp_all add: skip_np.simps [of data i] scan_while.simps [of c data i] char_at_def)

lemma u8_s8: "u8 (s8 x) = u8 x"
  by (simp add: u8_def s8_def mod_simps)

lemma decode_bits:
  assumes "0 \<le> v" "v < 64" "0 \<le> w" "w < 64"
  shows "u8 (s8 (push_bit 2 v OR (drop_bit 4 w AND 3))) = v * 4 + w div 16"
    "u8 (s8 ((push_bit 4 v AND 240) OR (drop_bit 2 w AND 15))) = v mod 16 * 16 + w div 4"
    "u8 (s8 ((push_bit 6 v AND 192) OR w)) = v mod 4 * 64 + w"
proof -
  have r: "0 \<le> w div 16" "w div 16 < 4" "0 \<le> w div 4" "w div 4 < 16" using assms by simp_all
  have "v * 4 + w div 16 < 256" "v mod 16 * 16 + w div 4 < 256" "v mod 4 * 64 + w < 256"
    using assms r pos_mod_bound [of 16 v] pos_mod_bound [of 4 v] by linarith+
  moreover have "0 \<le> v * 4 + w div 16" "0 \<le> v mod 16 * 16 + w div 4" "0 \<le> v mod 4 * 64 + w" using assms r by simp_all
  ultimately have u: "u8 (v * 4 + w div 16) = v * 4 + w div 16" "u8 (v mod 16 * 16 + w div 4) = v mod 16 * 16 + w div 4"
    "u8 (v mod 4 * 64 + w) = v mod 4 * 64 + w" by (simp_all add: u8_def)
  show "u8 (s8 (push_bit 2 v OR (drop_bit 4 w AND 3))) = v * 4 + w div 16"
    using r u or_shift [of "w div 16" 2 v] by (simp add: u8_s8 drop_bit_eq_div and_3)
  show "u8 (s8 ((push_bit 4 v AND 240) OR (drop_bit 2 w AND 15))) = v mod 16 * 16 + w div 4"
    using r u or_shift [of "w div 4" 4 "v mod 16"] by (simp add: u8_s8 high_bits drop_bit_eq_div and_15)
  show "u8 (s8 ((push_bit 6 v AND 192) OR w)) = v mod 4 * 64 + w"
    using assms u or_shift [of w 6 "v mod 4"] by (simp add: u8_s8 high_bits)
qed

text \<open>One round over four digits, and over the two forms with fill characters.\<close>

lemma decode_round_digits:
  assumes v: "0 \<le> v" "v < 64" "0 \<le> w" "w < 64"
  shows "0 \<le> x \<Longrightarrow> x < 64 \<Longrightarrow> 0 \<le> y \<Longrightarrow> y < 64 \<Longrightarrow>
      decode_round (pre @ digit v # digit w # digit x # digit y # r) (length pre) ret
        = Some (False, length pre + 3, ret @ [v * 4 + w div 16, w mod 16 * 16 + x div 4, x mod 4 * 64 + y])"
    "0 \<le> x \<Longrightarrow> x < 64 \<Longrightarrow>
      decode_round (pre @ digit v # digit w # digit x # fillchar # r) (length pre) ret
        = Some (True, length pre + 3, ret @ [v * 4 + w div 16, w mod 16 * 16 + x div 4])"
    "decode_round (pre @ digit v # digit w # fillchar # z # r) (length pre) ret = Some (True, length pre + 2, ret @ [v * 4 + w div 16])"
proof -
  have np: "v \<noteq> np" "\<And>x. 0 \<le> x \<Longrightarrow> x \<noteq> np" using assms by auto
  show "decode_round (pre @ digit v # digit w # digit x # digit y # r) (length pre) ret
      = Some (False, length pre + 3, ret @ [v * 4 + w div 16, w mod 16 * 16 + x div 4, x mod 4 * 64 + y])"
    if x: "0 \<le> x" "x < 64" and y: "0 \<le> y" "y < 64"
  proof -
    let ?d = "pre @ digit v # digit w # digit x # digit y # r"
    have s: "skip_np ?d (length pre) = Some (v, length pre)" "scan_while v ?d (length pre + 1) = Some (w, length pre + 1)"
      "skip_np ?d (length pre + 2) = Some (x, length pre + 2)" "scan_while x ?d (length pre + 3) = Some (y, length pre + 3)"
      using scan_digit(1) [of v "length pre" ?d] scan_digit(2) [of w "length pre + 1" ?d v] scan_digit(1) [of x "length pre + 2" ?d]
        scan_digit(2) [of y "length pre + 3" ?d x] v x y np by (simp_all add: nth_append)
    have n: "?d ! (length pre + 2) = digit x" "?d ! (length pre + 3) = digit y" by (simp_all add: nth_append)
    show ?thesis
      using s n digits(2) [OF x] digits(2) [OF y] decode_bits(1) [OF v] decode_bits(2) [OF v(3,4) x] decode_bits(3) [OF x y]
      by (simp add: decode_round_def decode_third_def Let_def numeral_3_eq_3)
  qed
  show "decode_round (pre @ digit v # digit w # digit x # fillchar # r) (length pre) ret
      = Some (True, length pre + 3, ret @ [v * 4 + w div 16, w mod 16 * 16 + x div 4])" if x: "0 \<le> x" "x < 64"
  proof -
    let ?d = "pre @ digit v # digit w # digit x # fillchar # r"
    have s: "skip_np ?d (length pre) = Some (v, length pre)" "scan_while v ?d (length pre + 1) = Some (w, length pre + 1)"
      "skip_np ?d (length pre + 2) = Some (x, length pre + 2)"
      using scan_digit(1) [of v "length pre" ?d] scan_digit(2) [of w "length pre + 1" ?d v] scan_digit(1) [of x "length pre + 2" ?d] v x np
      by (simp_all add: nth_append)
    have n: "?d ! (length pre + 2) = digit x" "?d ! (length pre + 3) = fillchar" by (simp_all add: nth_append)
    show ?thesis
      using s n digits(2) [OF x] decode_bits(1) [OF v] decode_bits(2) [OF v(3,4) x] by (simp add: decode_round_def decode_third_def Let_def numeral_3_eq_3)
  qed
  show "decode_round (pre @ digit v # digit w # fillchar # z # r) (length pre) ret = Some (True, length pre + 2, ret @ [v * 4 + w div 16])"
  proof -
    let ?d = "pre @ digit v # digit w # fillchar # z # r"
    have s: "skip_np ?d (length pre) = Some (v, length pre)" "scan_while v ?d (length pre + 1) = Some (w, length pre + 1)"
      using scan_digit(1) [of v "length pre" ?d] scan_digit(2) [of w "length pre + 1" ?d v] v np by (simp_all add: nth_append)
    have n: "?d ! (length pre + 2) = fillchar" by (simp add: nth_append)
    show ?thesis using s n decode_bits(1) [OF v] by (simp add: decode_round_def Let_def)
  qed
qed

lemma digit_range:
  assumes "0 \<le> a" "a < 256" "0 \<le> b" "b < (256::int)"
  shows "0 \<le> a div 4" "a div 4 < 64" "0 \<le> a mod 4 * 16 + b div 16" "a mod 4 * 16 + b div 16 < 64"
    "0 \<le> a mod 16 * 4 + b div 64" "a mod 16 * 4 + b div 64 < 64" "0 \<le> b mod 64" "b mod 64 < 64"
  using assms pos_mod_bound [of 4 a] pos_mod_bound [of 16 a] pos_mod_bound [of 64 b] pos_mod_sign [of 4 a] pos_mod_sign [of 16 a] pos_mod_sign [of 64 b]
  by linarith+

lemma digit_parts:
  assumes "0 \<le> b" "b < (256::int)"
  shows "a div 4 * 4 + (a mod 4 * 16 + b div 16) div 16 = a" "(a mod 4 * 16 + b div 16) mod 16 = b div 16"
    "(a mod 16 * 4 + b div 64) div 4 = a mod 16" "(a mod 16 * 4 + b div 64) mod 4 = b div 64"
proof -
  have r: "0 \<le> b div 16" "b div 16 < 16" "0 \<le> b div 64" "b div 64 < 4" using assms by linarith+
  show "(a mod 4 * 16 + b div 16) mod 16 = b div 16" "(a mod 16 * 4 + b div 64) mod 4 = b div 64"
    using r by (simp_all add: mod_pos_pos_trivial)
  have "(a mod 4 * 16 + b div 16) div 16 = a mod 4" using r by linarith
  then show "a div 4 * 4 + (a mod 4 * 16 + b div 16) div 16 = a" by (simp only: div_mult_mod_eq)
  show "(a mod 16 * 4 + b div 64) div 4 = a mod 16" using r by linarith
qed

text \<open>The same rounds, over the digits of three, two and one bytes.\<close>

lemma decode_round_bytes:
  assumes a: "0 \<le> a" "a < 256"
  shows "decode_round (pre @ digit (a div 4) # digit (a mod 4 * 16) # fillchar # fillchar # r) (length pre) ret = Some (True, length pre + 2, ret @ [a])"
    "0 \<le> b \<Longrightarrow> b < 256 \<Longrightarrow>
      decode_round (pre @ digit (a div 4) # digit (a mod 4 * 16 + b div 16) # digit (b mod 16 * 4) # fillchar # r) (length pre) ret
        = Some (True, length pre + 3, ret @ [a, b])"
    "0 \<le> b \<Longrightarrow> b < 256 \<Longrightarrow> 0 \<le> c \<Longrightarrow> c < 256 \<Longrightarrow>
      decode_round (pre @ digit (a div 4) # digit (a mod 4 * 16 + b div 16) # digit (b mod 16 * 4 + c div 64) # digit (c mod 64) # r) (length pre) ret
        = Some (False, length pre + 3, ret @ [a, b, c])"
proof -
  have z: "0 \<le> (0::int)" "(0::int) < 256" "a mod 4 * 16 + 0 div 16 = a mod 4 * 16" for a :: int by simp_all
  note p0 = digit_range [OF a z(1,2), unfolded z(3)] and q0 = digit_parts [OF z(1,2), of a, unfolded z(3)]
  show "decode_round (pre @ digit (a div 4) # digit (a mod 4 * 16) # fillchar # fillchar # r) (length pre) ret = Some (True, length pre + 2, ret @ [a])"
    using decode_round_digits(3) [OF p0(1-4), of pre fillchar r ret] by (simp only: q0)
  show "decode_round (pre @ digit (a div 4) # digit (a mod 4 * 16 + b div 16) # digit (b mod 16 * 4) # fillchar # r) (length pre) ret
        = Some (True, length pre + 3, ret @ [a, b])" if b: "0 \<le> b" "b < 256"
  proof -
    have y: "0 \<le> b mod 16 * 4" "b mod 16 * 4 < 64" "b mod 16 * 4 div 4 = b mod 16" using pos_mod_bound [of 16 b] pos_mod_sign [of 16 b] by linarith+
    have e: "b div 16 * 16 + b mod 16 = b" by (rule div_mult_mod_eq)
    show ?thesis using decode_round_digits(2) [OF digit_range(1-4) [OF a b] y(1,2), of pre r ret] by (simp only: digit_parts [OF b] y(3) e)
  qed
  show "decode_round (pre @ digit (a div 4) # digit (a mod 4 * 16 + b div 16) # digit (b mod 16 * 4 + c div 64) # digit (c mod 64) # r) (length pre) ret
        = Some (False, length pre + 3, ret @ [a, b, c])" if b: "0 \<le> b" "b < 256" and c: "0 \<le> c" "c < 256"
  proof -
    have e: "b div 16 * 16 + b mod 16 = b" "c div 64 * 64 + c mod 64 = c" by (rule div_mult_mod_eq)+
    show ?thesis
      using decode_round_digits(1) [OF digit_range(1-4) [OF a b] digit_range(5-8) [OF b c], of pre r ret] by (simp only: digit_parts [OF b] digit_parts [OF c] e)
  qed
qed

lemma decode_loop_rfc:
  assumes "octets d"
  shows "decode_loop (pre @ rfc_base64 d @ suf) (length pre) ret
    = (if length d mod 3 = 0 then decode_loop (pre @ rfc_base64 d @ suf) (length (pre @ rfc_base64 d)) (ret @ d) else Some (ret @ d))"
  using assms
proof (induction d arbitrary: pre ret rule: rfc_base64.induct)
  case (2 a)
  then have a: "0 \<le> a" "a < 256" by (auto simp: octets_def)
  show ?case using decode_round_bytes(1) [OF a, of pre suf ret] by (subst decode_loop.simps) simp
next
  case (3 a b)
  then have a: "0 \<le> a" "a < 256" and b: "0 \<le> b" "b < 256" by (auto simp: octets_def)
  show ?case using decode_round_bytes(2) [OF a b, of pre suf ret] by (subst decode_loop.simps) simp
next
  case (4 a b c r)
  then have a: "0 \<le> a" "a < 256" and b: "0 \<le> b" "b < 256" and c: "0 \<le> c" "c < 256" and r: "octets r" by (auto simp: octets_def)
  define q4 where "q4 = [digit (a div 4), digit (a mod 4 * 16 + b div 16), digit (b mod 16 * 4 + c div 64), digit (c mod 64)]"
  have "decode_round (pre @ q4 @ rfc_base64 r @ suf) (length pre) ret = Some (False, length pre + 3, ret @ [a, b, c])"
    using decode_round_bytes(3) [OF a b c, of pre "rfc_base64 r @ suf" ret] by (simp only: q4_def append.simps)
  then have 1: "decode_loop (pre @ q4 @ rfc_base64 r @ suf) (length pre) ret = decode_loop (pre @ q4 @ rfc_base64 r @ suf) (length pre + 3 + 1) (ret @ [a, b, c])"
    by (subst decode_loop.simps) (simp add: q4_def)
  have m: "length (a # b # c # r) mod 3 = length r mod 3" by (simp only: list.size) presburger
  have l: "length q4 = 4" "rfc_base64 (a # b # c # r) = q4 @ rfc_base64 r" by (simp_all add: q4_def)
  from "4.IH" [OF r, of "pre @ q4" "ret @ [a, b, c]"]
  have 2: "decode_loop (pre @ q4 @ rfc_base64 r @ suf) (length pre + 3 + 1) (ret @ [a, b, c])
    = (if length r mod 3 = 0 then decode_loop (pre @ q4 @ rfc_base64 r @ suf) (length (pre @ q4 @ rfc_base64 r)) (ret @ a # b # c # r) else Some (ret @ a # b # c # r))"
    by (simp add: l(1) add.commute [of 4] add.left_commute [of 4])
  show ?case unfolding m l(2) using 1 2 by simp
qed simp

lemma encode_rfc: "octets d \<Longrightarrow> encode d = rfc_base64 d"
  using encode_loop_rfc [of d "[]" "[]"] by (simp add: encode_def)

text \<open>
  C17: Base 64. \<open>encode\<close> and \<open>encodeFromArray\<close> give the encoding of RFC 4648, for strings of any length, and
  \<open>decode\<close> gives every string back, reading nothing outside the encoded one.
\<close>

theorem Base64_roundtrip:
  assumes "octets d"
  shows "encode d = rfc_base64 d \<and> encodeFromArray d (length d) = rfc_base64 d \<and> decode (encode d) = Some d"
proof -
  have "encodeFromArray d (length d) = encode d" by (simp add: encodeFromArray_def encode_def)
  moreover have "decode_loop (rfc_base64 d) (length (rfc_base64 d)) d = Some d" by (simp add: decode_loop.simps)
  ultimately show ?thesis
    using encode_rfc [OF assms] decode_loop_rfc [OF assms, of "[]" "[]" "[]"] by (simp add: decode_def split: if_splits)
qed

theorem Base64_roundtrip_witness: "decode (encode [0, 255, 16, 131]) = Some [0, 255, 16, 131]"
  using Base64_roundtrip [of "[0, 255, 16, 131]"] by (auto simp: octets_def)

text \<open>
  C28: \<open>decode\<close> is meant to skip characters outside base 64, but the second and the fourth of its inner loops test
  the variable of the loop before. An encoded text followed by any number of newlines, at least one, makes it read beyond the
  string exactly when the encoding has no fill characters, that is, when the text's length is divisible by 3;
  with fill characters decoding stops at the first of them and gives the text back.
\<close>

theorem trailing_newline_overread:
  assumes "octets d" "0 < n"
  shows "decode (encode d @ replicate n 10) = (if length d mod 3 = 0 then None else Some d)"
proof -
  have tab: "DecodeTable ! 10 = np" by code_simp
  have sk: "skip_np (p @ replicate n 10) i = Some (np, length p + n)" if "length p \<le> i" "i < length p + n" for p :: "int list" and i
    using that
  proof (induction "length p + n - i" arbitrary: i)
    case (Suc k)
    have "(p @ replicate n 10) ! i = 10" using Suc.prems by (simp add: nth_append)
    then have "skip_np (p @ replicate n 10) i = (if i + 1 < length p + n then skip_np (p @ replicate n 10) (i + 1) else Some (np, i + 1))"
      using Suc.prems tab by (simp add: skip_np.simps [of _ i] char_at_def)
    then show ?case using Suc by (cases "i + 1 < length p + n") auto
  qed simp
  have "decode_round (p @ replicate n 10) (length p) ret = None" for p :: "int list" and ret
    using sk [of p "length p"] assms(2) by (simp add: decode_round_def scan_while.simps [of np] char_at_def)
  then have "decode_loop (encode d @ replicate n 10) (length (encode d)) d = None" using assms(2) by (subst decode_loop.simps) simp
  then show ?thesis
    using decode_loop_rfc [OF assms(1), of "[]" "replicate n 10" "[]"] by (simp add: decode_def encode_rfc [OF assms(1)])
qed

theorem trailing_newline_overread_witness:
  "decode (encode [77, 97, 110] @ [10]) = None \<and> decode (encode [77] @ [10]) = Some [77]"
  using trailing_newline_overread [of "[77, 97, 110]" 1] trailing_newline_overread [of "[77]" 1] by (simp add: octets_def)

end
