(* ===== verification/Spec2Isabelle.thy ===== *)
theory Spec2Isabelle
  imports FJ_Prelude IppArith MD5 G729_Bits ScratchMem G729_Tables G729_Scratch G729_Pitch
    G729_Energy G729_Adapt G729_Fixed G729_Vad G729_Cng G729_Codec USC_G729
    LJ_Base LJ_PseudoTcp LJ_PseudoTcp_Inv LJ_PseudoTcp_Proc LJ_PseudoTcp_Ops LJ_PseudoTcp_System
    LJ_PseudoTcp_Timeout LJ_PseudoTcp_Limits LJ_ByteBuffer LJ_Stun LJ_MessageQueue LJ_StunRequest LJ_Base64
begin

text \<open>
  A verification development for \<open>foolject\<close>: the G.729 speech codec of \<open>g729_IPP\<close>
  (\<open>src/g729_IPP/src/recorder\<close>, directories \<open>ipp_base\<close> and \<open>ipp_g729\<close>), and of \<open>libjingle-0.4.0\<close> the
  MD5 digest (\<open>talk/base/md5c.c\<close>), Base 64 (\<open>base64.cc\<close>), the message queue of a thread
  (\<open>messagequeue.cc\<close>), the byte buffer (\<open>bytebuffer.cc\<close>), the STUN messages and requests that find a way
  through address translators (\<open>talk/p2p/base/stun.cc\<close>, \<open>stunrequest.cc\<close>), and the pseudo TCP that carries a
  reliable stream over datagrams (\<open>pseudotcp.cc\<close>).

  The parts and how they interact. An application drives the codec through the function tables of
  \<open>uscg729i.c\<close>: it asks for memory, creates an instance (a header and a codec object), and
  encodes or decodes frames of 80 samples. The codec objects of \<open>encg729.c\<close> and \<open>decg729.c\<close> hold the
  state of the adaptive parts, take their local arrays from a scratch memory (\<open>scratchmem.h\<close>) and
  dispatch each frame to one of three signal paths, which use the routines of \<open>owng729.c\<close>,
  the voice activity detector of \<open>vadg729.c\<close>, the fixed-point arithmetic of \<open>aux_fnxs.h\<close>,
  and Intel's signal processing library, which comes as a binary. A pseudo TCP connection is an object
  at each end: the application connects, sends, receives and closes; the owner hands it the packets that
  arrive and the clock; it calls back to send a packet and to announce that it is open, readable, writeable or closed.
  A STUN request registers with its manager and lives from the delayed messages that it posts to the queue of
  the manager's thread; what it sends is a STUN message written to a byte buffer, and a packet that
  arrives is read from one.

  Theories, in the order they build on each other:

  \<^item> \<open>FJ_Prelude\<close>: C integers as \<open>int\<close> with explicit wrap-around (\<open>s16\<close>, \<open>s32\<close>, \<open>u8\<close>), shifts,
    masks, writes into arrays, and the collections of simplification rules for them.
  \<^item> \<open>IppArith\<close>: every inline routine of \<open>aux_fnxs.h\<close>; normalisation, square root, split format.
  \<^item> \<open>MD5\<close>: \<open>MD5Init\<close>, \<open>MD5Update\<close>, \<open>MD5Final\<close>, \<open>MD5Transform\<close> on \<open>32 word\<close>, against RFC 1321.
  \<^item> \<open>G729_Bits\<close>: the packing of each frame type, \<open>ExtractBitsG729\<close>, the parameter decoding, parity.
  \<^item> \<open>ScratchMem\<close>, \<open>G729_Scratch\<close>: the allocator, a locale for any allocator of its kind, and the
    sequence of allocations of every encoder entry point.
  \<^item> \<open>G729_Tables\<close>: constant tables and dimensions.
  \<^item> \<open>G729_Pitch\<close>: pitch delay coding, decoding with concealment, and the excitation error taming.
  \<^item> \<open>G729_Energy\<close>: logarithm, silence gain quantiser, autocorrelation sums, decibel energy.
  \<^item> \<open>G729_Adapt\<close>: log area ratios, weighting factors, pitch tracking, the LP mode decision of Annex E.
  \<^item> \<open>G729_Fixed\<close>: the codeword convolution, the comfort noise excitation, the synthesis filter memories.
  \<^item> \<open>G729_Vad\<close>: \<open>VoiceActivityDetect_G729\<close> stage by stage, and \<open>VADMusicDetection\<close>.
  \<^item> \<open>G729_Cng\<close>: \<open>CNG_encoder\<close> and \<open>CNG_Update\<close> with their part of the encoder object.
  \<^item> \<open>G729_Codec\<close>: the whole encoder and decoder objects, sizes, placement, initialisation, dispatch.
  \<^item> \<open>USC_G729\<close>: the two function tables, an abstract codec instance, and the refinement.
  \<^item> \<open>LJ_Base\<close>: big-endian numbers, clock readings that wrap (\<open>time.cc\<close>), undefined behaviour as \<open>None\<close>.
  \<^item> \<open>LJ_PseudoTcp\<close>: the class \<open>PseudoTcp\<close>, every operation, in the order of the source file.
  \<^item> \<open>LJ_PseudoTcp_Inv\<close>, \<open>LJ_PseudoTcp_Proc\<close>, \<open>LJ_PseudoTcp_Ops\<close>: the invariant of one end with ghost streams,
    and that sending, processing a packet and the application's calls keep it and are defined.
  \<^item> \<open>LJ_PseudoTcp_System\<close>: two ends and the packets in flight, its reachable states, what holds in all of them.
  \<^item> \<open>LJ_ByteBuffer\<close>: the byte buffer, the interface \<open>byte_queue\<close> that formats rely on, and its interpretation.
  \<^item> \<open>LJ_Stun\<close>: messages and attributes; writing, reading, well-formedness.
  \<^item> \<open>LJ_MessageQueue\<close>: the queue; the promise of the priority queue as a locale, with an interpretation.
  \<^item> \<open>LJ_StunRequest\<close>: requests and their manager over the message queue and the STUN messages.
  \<^item> \<open>LJ_Base64\<close>: encoding and decoding.
  \<^item> \<open>LJ_PseudoTcp_Timeout\<close>: a silent peer. \<open>LJ_PseudoTcp_Limits\<close>: the packet format, and what lies outside the invariant.

  How the model follows the code. A structure is a \<open>record\<close> with the code's field names (the large
  objects keep their components' fields in records of their own: \<open>cng_state\<close>, \<open>lp_state\<close>,
  \<open>pitch_track\<close>, \<open>VADmemory\<close>, \<open>SynthesisFilterState\<close>). Functions that change state return it. \<open>Ipp16s\<close> and
  \<open>Ipp32s\<close> values are integers, and every cast or assignment that can wrap is written as
  \<open>s16\<close> or \<open>s32\<close>. Addresses are integers; the null pointer is 0, or \<open>None\<close> for an optional
  argument. Errors are values of the status types. Routines of the signal library are fields of
  records (\<open>cng_ipps\<close>, \<open>lp_ipps\<close>, \<open>noise_ipps\<close>, \<open>syn_ipps\<close>) passed as arguments; the theorems
  hold for every value of them unless they say otherwise. In \<open>libjingle\<close> an operation that would read or write
  outside its buffer, or use an element that is not in its list, is \<open>None\<close>. The callbacks of a connection
  are recorded in its state in the order they are made; the result of \<open>TcpWritePacket\<close>, the time and the random numbers
  come from an argument (\<open>tcp_env\<close>). Objects on the heap that are deleted (STUN requests) live in a store that maps addresses to
  objects; which of several delayed messages with the same time comes first, and what a subclass puts
  into a request, are arguments (\<open>pick\<close>, \<open>prep\<close>). Calls that an application makes from inside a callback are not modelled.

  What the lemmas show. Round trips: every frame type decodes to what was encoded, and every pitch delay.
  Equivalence with a reference: the MD5 transform and digest, the convolution. Invariants: the
  state of detector, noise generator, mode decision, pitch tracking, error taming, each from its
  initialisation on. Safety: table indices, scratch memory, the memories behind an object. Refinement: an instance behaves as an abstract one. Termination: every loop of the arithmetic whose
  end depends on data. Errors: refused calls change nothing; a parity error is detected.
  Pseudo TCP: over a network that loses, delays, duplicates and reorders packets, what one side receives is a
  prefix of what the other sent (the content of the buffers, the segment list and the recovery list is an invariant over ghost
  streams); every operation is defined and returns; no side exceeds the granted window; a silent peer
  leads to \<open>ECONNABORTED\<close> after a fixed number of expiries. Two properties show what a hostile packet can do.
  Message queue: order of delivery, and that no message is lost or duplicated. STUN: round trip, well-formedness of
  whatever is accepted, and its exception; requests: reachable states are safe (no use of a deleted
  object, one pending message per request), a response ends exactly its request (and in one case meets a null pointer),
  an unanswered request ends by itself.

  Bounds and fuel. Only normalisation loops take fuel (\<open>norm_fuel\<close>, 33): a positive 32-bit value doubles
  at most thirty times before its leading bit is in place, and the lemmas show the result is always
  reached. Loops over a frame recurse on their counter. The sending loop of pseudo TCP is a
  \<open>partial_function\<close>, proved to return in every reachable state. The retransmission limits are those
  of the code: 15 expiries, 30 before the connection is established. The loops of the message queue over
  its priority queue take the size as a bound: every round removes one element.

  Not modelled. The signal paths \<open>G729Encode\<close>, \<open>G729AEncode\<close>, \<open>G729BaseEncode\<close>, \<open>G729Decode\<close>,
  \<open>G729ADecode\<close>, \<open>G729BaseDecode\<close> as wholes (they are arguments of the dispatch, record
  \<open>g729_paths\<close>; their bit streams, allocations, pitch and noise parts are modelled), the post filters, the
  MMX variants, the header files of the binary signal library, and the rest of the repository: the remaining C++
  of \<open>libjingle\<close> (strings, sockets, HTTP, ports, sessions, XMPP) and the Windows programs.

  Conventions. A property is preceded by a paragraph with its number; the theorem with the suffix
  \<open>_witness\<close> applies it to concrete values.
\<close>

end
